(* ===== verification/Prelude.thy ===== *)
theory Prelude
  imports Main "HOL-Library.Word"
begin

unbundle bit_operations_syntax

text \<open>
  What every component of the router model shares: the machine types, the ways an operation
  can fail, the result monad in which fallible code is written, byte-buffer reads and writes
  (\<open>memcpy\<close>, \<open>memset\<close>, pointer arithmetic as offsets), and the big-endian integer codec.

  \<^item> An exception is a value of type \<open>error\<close>. \<open>MemoryError\<close> stands for what C++ leaves
    undefined: a read or write outside the object a pointer points into, or a dereferenced
    null pointer. The model makes these accesses visible, so that their absence is a theorem.
    \<open>OutOfFuel\<close> is the result of a loop that has run for as many rounds as the model gives it;
    that a loop ends is the theorem that it does not return this value.
  \<^item> \<open>std::size_t\<close> values are \<open>nat\<close> where no wrap-around can occur (lengths of
    buffers that exist in memory), and words where the source's arithmetic can wrap.
  \<^item> The host is little endian, as on the x86 and ARM targets the build files name.
\<close>

section \<open>Types and collections of facts\<close>

named_theorems result_simps \<open>evaluation of the result monad\<close>
named_theorems buffer_simps \<open>reads and writes of byte buffers\<close>

type_synonym byte = "8 word"
type_synonym bytes = "byte list"
type_synonym u8 = "8 word"
type_synonym u16 = "16 word"
type_synonym u32 = "32 word"
type_synonym u64 = "64 word"

datatype error = InvalidArgument | LengthError | RuntimeError | MemoryError | OutOfFuel

type_synonym 'a result = "error + 'a"

section \<open>The result monad\<close>

definition bind_result :: "'a result \<Rightarrow> ('a \<Rightarrow> 'b result) \<Rightarrow> 'b result" where
  "bind_result m f = (case m of Inl e \<Rightarrow> Inl e | Inr x \<Rightarrow> f x)"

definition throw_if :: "bool \<Rightarrow> error \<Rightarrow> 'a result \<Rightarrow> 'a result" where
  "throw_if b e m = (if b then Inl e else m)"

lemma bind_result_Inl [simp, result_simps]: "bind_result (Inl e) f = Inl e"
  by (simp add: bind_result_def)

lemma bind_result_Inr [simp, result_simps]: "bind_result (Inr x) f = f x"
  by (simp add: bind_result_def)

lemma bind_result_assoc [simp]:
  "bind_result (bind_result m f) g = bind_result m (\<lambda>x. bind_result (f x) g)"
  by (simp add: bind_result_def split: sum.splits)

lemma bind_result_cong [fundef_cong]:
  assumes "m = m'" and "\<And>x. m' = Inr x \<Longrightarrow> f x = f' x"
  shows "bind_result m f = bind_result m' f'"
  using assms by (cases m') (simp_all add: bind_result_def)

lemma bind_result_eq_Inr [result_simps]:
  "bind_result m f = Inr y \<longleftrightarrow> (\<exists>x. m = Inr x \<and> f x = Inr y)"
  by (cases m) simp_all

lemma bind_result_eq_Inl [result_simps]:
  "bind_result m f = Inl e \<longleftrightarrow> m = Inl e \<or> (\<exists>x. m = Inr x \<and> f x = Inl e)"
  by (cases m) simp_all

lemma throw_if_False [simp]: "throw_if False e m = m"
  by (simp add: throw_if_def)

lemma throw_if_True [simp]: "throw_if True e m = Inl e"
  by (simp add: throw_if_def)

lemma throw_if_eq_Inr [result_simps]: "throw_if b e m = Inr y \<longleftrightarrow> \<not> b \<and> m = Inr y"
  by (simp add: throw_if_def)

lemma throw_if_eq_Inl [result_simps]:
  "throw_if b e m = Inl e' \<longleftrightarrow> (b \<and> e = e') \<or> (\<not> b \<and> m = Inl e')"
  by (simp add: throw_if_def)

text \<open>A loop over a list whose body can throw: the first error ends it.\<close>

fun fold_result :: "('s \<Rightarrow> 'a \<Rightarrow> 's result) \<Rightarrow> 's \<Rightarrow> 'a list \<Rightarrow> 's result" where
  "fold_result f s [] = Inr s"
| "fold_result f s (x # xs) = bind_result (f s x) (\<lambda>s'. fold_result f s' xs)"

lemma fold_result_append [simp]:
  "fold_result f s (xs @ ys) = bind_result (fold_result f s xs) (\<lambda>s'. fold_result f s' ys)"
  by (induction xs arbitrary: s) simp_all

lemma fold_result_invariant:
  assumes "fold_result f s xs = Inr s'" and "P s"
    and "\<And>s x s'. x \<in> set xs \<Longrightarrow> P s \<Longrightarrow> f s x = Inr s' \<Longrightarrow> P s'"
  shows "P s'"
  using assms by (induction xs arbitrary: s) (auto simp: result_simps)

section \<open>Steps that emit events\<close>

type_synonym ('a, 'e) steps = "('a \<times> 'e list) result"

text \<open>Sequencing of steps; the events of the first come first.\<close>

definition bind_step :: "('a, 'e) steps \<Rightarrow> ('a \<Rightarrow> ('b, 'e) steps) \<Rightarrow> ('b, 'e) steps" where
  "bind_step m f = bind_result m (\<lambda>(x, es). bind_result (f x) (\<lambda>(y, es'). Inr (y, es @ es')))"

definition pure_step :: "'a \<Rightarrow> ('a, 'e) steps" where
  "pure_step x = Inr (x, [])"

definition emit_step :: "'e \<Rightarrow> 'a \<Rightarrow> ('a, 'e) steps" where
  "emit_step e x = Inr (x, [e])"

lemma bind_step_Inr [simp]: "bind_step (Inr (x, es)) f = bind_result (f x) (\<lambda>(y, es'). Inr (y, es @ es'))"
  by (simp add: bind_step_def)

lemma bind_step_Inl [simp]: "bind_step (Inl e) f = Inl e"
  by (simp add: bind_step_def)

lemma bind_pure_step [simp]: "bind_result (pure_step x) (\<lambda>(y, es'). Inr (y, es @ es')) = Inr (x, es)"
  by (simp add: pure_step_def)

lemma bind_step_eq_Inr [result_simps]:
  "bind_step m f = Inr (y, es) \<longleftrightarrow> (\<exists>x es1 es2. m = Inr (x, es1) \<and> f x = Inr (y, es2) \<and> es = es1 @ es2)"
  by (fastforce simp: bind_step_def bind_result_eq_Inr)

lemma pure_step_eq_Inr [result_simps]: "pure_step x = Inr (y, es) \<longleftrightarrow> y = x \<and> es = []"
  by (auto simp: pure_step_def)

lemma emit_step_eq_Inr [result_simps]: "emit_step e x = Inr (y, es) \<longleftrightarrow> y = x \<and> es = [e]"
  by (auto simp: emit_step_def)

section \<open>Buffers\<close>

text \<open>
  A buffer is the list of its bytes; a pointer into it is an offset. \<open>slice p n xs\<close> is what
  a pointer \<open>p\<close> and a length \<open>n\<close> designate, \<open>poke p ys xs\<close> is the buffer after a
  \<open>memcpy\<close> of \<open>ys\<close> to offset \<open>p\<close>. The checked forms \<open>peek\<close>, \<open>mem_read\<close> and
  \<open>mem_write\<close> fail with \<open>MemoryError\<close> outside the buffer.
\<close>

definition slice :: "nat \<Rightarrow> nat \<Rightarrow> 'a list \<Rightarrow> 'a list" where
  "slice p n xs = take n (drop p xs)"

definition poke :: "nat \<Rightarrow> 'a list \<Rightarrow> 'a list \<Rightarrow> 'a list" where
  "poke p ys xs = take p xs @ ys @ drop (p + length ys) xs"

definition mem_read :: "nat \<Rightarrow> nat \<Rightarrow> 'a list \<Rightarrow> 'a list result" where
  "mem_read p n xs = (if p + n \<le> length xs then Inr (slice p n xs) else Inl MemoryError)"

definition mem_write :: "nat \<Rightarrow> 'a list \<Rightarrow> 'a list \<Rightarrow> 'a list result" where
  "mem_write p ys xs = (if p + length ys \<le> length xs then Inr (poke p ys xs) else Inl MemoryError)"

definition peek :: "nat \<Rightarrow> 'a list \<Rightarrow> 'a result" where
  "peek p xs = (if p < length xs then Inr (xs ! p) else Inl MemoryError)"

lemma length_slice [simp, buffer_simps]: "length (slice p n xs) = min n (length xs - p)"
  by (simp add: slice_def)

lemma length_slice_le: "p + n \<le> length xs \<Longrightarrow> length (slice p n xs) = n"
  by simp

lemma slice_0 [simp]: "slice p 0 xs = []"
  by (simp add: slice_def)

lemma slice_append_prefix [simp]: "slice (length xs) n (xs @ ys) = take n ys"
  by (simp add: slice_def)

lemma slice_slice:
  "slice p n (slice q m xs) = slice (q + p) (min n (m - p)) xs"
  by (simp add: slice_def drop_take min.commute add.commute)

lemma nth_slice [simp]: "i < n \<Longrightarrow> p + i < length xs \<Longrightarrow> slice p n xs ! i = xs ! (p + i)"
  by (simp add: slice_def)

lemma slice_full: "slice 0 (length xs) xs = xs"
  by (simp add: slice_def)

lemma slice_add: "slice p (m + n) xs = slice p m xs @ slice (p + m) n xs"
  by (simp add: slice_def take_add add.commute)

lemma take_slice [simp]: "take k (slice p n xs) = slice p (min k n) xs"
  by (simp add: slice_def)

lemma length_poke [simp, buffer_simps]:
  "p + length ys \<le> length xs \<Longrightarrow> length (poke p ys xs) = length xs"
  by (simp add: poke_def)

lemma slice_poke_same [simp, buffer_simps]:
  "p + length ys \<le> length xs \<Longrightarrow> n = length ys \<Longrightarrow> slice p n (poke p ys xs) = ys"
  by (simp add: slice_def poke_def)

lemma nth_poke:
  assumes "p + length ys \<le> length xs" and "i < length xs"
  shows "poke p ys xs ! i = (if p \<le> i \<and> i < p + length ys then ys ! (i - p) else xs ! i)"
  using assms by (auto simp: poke_def nth_append min_def)

lemma slice_poke_before [buffer_simps]:
  "p + length ys \<le> length xs \<Longrightarrow> q + n \<le> p \<Longrightarrow> slice q n (poke p ys xs) = slice q n xs"
  by (rule nth_equalityI) (auto simp: nth_poke)

lemma slice_poke_after [buffer_simps]:
  "p + length ys \<le> length xs \<Longrightarrow> p + length ys \<le> q \<Longrightarrow> slice q n (poke p ys xs) = slice q n xs"
  by (rule nth_equalityI) (auto simp: nth_poke)

lemma slice_poke_inside:
  assumes "p + length ys \<le> length xs" and "p \<le> q" and "q + n \<le> p + length ys"
  shows "slice q n (poke p ys xs) = slice (q - p) n ys"
  using assms by (intro nth_equalityI) (auto simp: nth_poke)

lemma take_poke [simp]: "k \<le> p \<Longrightarrow> p \<le> length xs \<Longrightarrow> take k (poke p ys xs) = take k xs"
  by (simp add: poke_def min_def)

lemma poke_append:
  assumes "p + length ys + length zs \<le> length xs"
  shows "poke (p + length ys) zs (poke p ys xs) = poke p (ys @ zs) xs"
  using assms by (intro nth_equalityI) (auto simp: nth_poke nth_append)

lemma poke_Nil [simp]: "poke p [] xs = xs"
  by (simp add: poke_def)

lemma mem_read_eq_Inr [result_simps]:
  "mem_read p n xs = Inr ys \<longleftrightarrow> p + n \<le> length xs \<and> ys = slice p n xs"
  by (auto simp: mem_read_def)

lemma mem_write_eq_Inr [result_simps]:
  "mem_write p ys xs = Inr zs \<longleftrightarrow> p + length ys \<le> length xs \<and> zs = poke p ys xs"
  by (auto simp: mem_write_def)

lemma peek_eq_Inr [result_simps]: "peek p xs = Inr b \<longleftrightarrow> p < length xs \<and> b = xs ! p"
  by (auto simp: peek_def)

lemma mem_error_only:
  "mem_read p n xs = Inl e \<Longrightarrow> e = MemoryError"
  "mem_write p ys xs = Inl e \<Longrightarrow> e = MemoryError"
  "peek p xs = Inl e \<Longrightarrow> e = MemoryError"
  by (auto simp: mem_read_def mem_write_def peek_def split: if_splits)

section \<open>Subtraction of sizes\<close>

text \<open>\<open>a - b\<close> at type \<open>std::size_t\<close>, which wraps around where the result would be negative.\<close>

definition size_sub :: "nat \<Rightarrow> nat \<Rightarrow> nat" where
  "size_sub a b = (if b \<le> a then a - b else a + 2 ^ 64 - b)"

lemma size_sub_le [simp]: "b \<le> a \<Longrightarrow> size_sub a b = a - b"
  by (simp add: size_sub_def)

section \<open>Integers in network byte order\<close>

primrec be_encode :: "nat \<Rightarrow> nat \<Rightarrow> bytes" where
  "be_encode 0 x = []"
| "be_encode (Suc n) x = be_encode n (x div 256) @ [word_of_nat x]"

definition be_decode :: "bytes \<Rightarrow> nat" where
  "be_decode bs = foldl (\<lambda>acc b. acc * 256 + unat b) 0 bs"

lemma length_be_encode [simp]: "length (be_encode n x) = n"
  by (induction n arbitrary: x) simp_all

lemma be_decode_Nil [simp]: "be_decode [] = 0"
  by (simp add: be_decode_def)

lemma be_decode_snoc [simp]: "be_decode (bs @ [b]) = be_decode bs * 256 + unat b"
  by (simp add: be_decode_def)

lemma unat_byte_less [simp]: "unat (b :: byte) < 256"
  using unsigned_less [of b, where 'a = nat] by simp

lemma be_decode_less: "be_decode bs < 256 ^ length bs"
proof (induction bs rule: rev_induct)
  case (snoc b bs)
  from snoc have "be_decode bs + 1 \<le> 256 ^ length bs" by simp
  then have "(be_decode bs + 1) * 256 \<le> 256 ^ length bs * 256"
    by (rule mult_le_mono1)
  then show ?case
    unfolding be_decode_snoc length_append using unat_byte_less [of b] by (simp del: unat_byte_less)
qed simp

lemma be_decode_encode: "x < 256 ^ n \<Longrightarrow> be_decode (be_encode n x) = x"
proof (induction n arbitrary: x)
  case (Suc n)
  from Suc.prems have "x div 256 < 256 ^ n"
    by (simp add: less_mult_imp_div_less mult.commute)
  with Suc.IH show ?case
    by (simp add: unat_of_nat take_bit_eq_mod)
qed simp

lemma be_encode_decode: "be_encode (length bs) (be_decode bs) = bs"
proof (induction bs rule: rev_induct)
  case (snoc b bs)
  have "(be_decode bs * 256 + unat b) div 256 = be_decode bs"
    by (simp add: div_add1_eq)
  moreover have "(word_of_nat (be_decode bs * 256 + unat b) :: byte) = b"
  proof -
    have "(256 :: byte) = 0" by simp
    then have "word_of_nat (be_decode bs) * (256 :: byte) = 0" by (simp only: mult_zero_right)
    then show ?thesis by simp
  qed
  ultimately show ?case using snoc by simp
qed simp

text \<open>
  The width in bytes of an unsigned integer type, its big-endian and host encodings. The
  flag is the one the stream templates take: \<open>True\<close> converts between host and network order.
\<close>

definition sizeof :: "'a::len itself \<Rightarrow> nat" where
  "sizeof T = LENGTH('a) div 8"

definition word_encode :: "bool \<Rightarrow> 'a::len word \<Rightarrow> bytes" where
  "word_encode big x =
     (let bs = be_encode (sizeof TYPE('a)) (unat x) in if big then bs else rev bs)"

definition word_decode :: "bool \<Rightarrow> bytes \<Rightarrow> 'a::len word" where
  "word_decode big bs = word_of_nat (be_decode (if big then bs else rev bs))"

lemma sizeof_words [simp]:
  "sizeof TYPE(8) = 1" "sizeof TYPE(16) = 2" "sizeof TYPE(32) = 4" "sizeof TYPE(64) = 8"
  by (simp_all add: sizeof_def)

lemma length_word_encode [simp]: "length (word_encode big (x :: 'a::len word)) = sizeof TYPE('a)"
  by (simp add: word_encode_def Let_def)

lemma word_decode_encode:
  fixes x :: "'a::len word"
  assumes "8 dvd LENGTH('a)"
  shows "word_decode big (word_encode big x) = x"
proof -
  have "unat x < 2 ^ (8 * sizeof TYPE('a))"
    using unsigned_less [of x, where 'a = nat] assms by (simp add: sizeof_def)
  then have "unat x < 256 ^ sizeof TYPE('a)"
    by (simp add: power_mult)
  then have "be_decode (be_encode (sizeof TYPE('a)) (unat x)) = unat x"
    by (rule be_decode_encode)
  then show ?thesis
    by (simp add: word_decode_def word_encode_def Let_def)
qed

lemma word_encode_decode:
  fixes x :: "'a::len word"
  assumes "8 dvd LENGTH('a)" and "length bs = sizeof TYPE('a)"
  shows "word_encode big (word_decode big bs :: 'a word) = bs"
proof -
  have *: "unat (word_of_nat (be_decode cs) :: 'a word) = be_decode cs"
    if "length cs = sizeof TYPE('a)" for cs
  proof -
    have "be_decode cs < (2 ^ 8) ^ sizeof TYPE('a)"
      using be_decode_less [of cs] that by simp
    then have "be_decode cs < 2 ^ LENGTH('a)"
      unfolding power_mult [symmetric] using assms(1) by (simp add: sizeof_def)
    then show ?thesis by (simp add: unat_of_nat take_bit_eq_mod)
  qed
  show ?thesis
    using assms be_encode_decode [of bs] be_encode_decode [of "rev bs"]
    by (simp add: word_encode_def word_decode_def Let_def *)
qed

text \<open>The codec of the widths the code uses, ready for the simplifier.\<close>

lemma word_decode_encode_widths [simp]:
  "word_decode big (word_encode big (a :: u8)) = a"
  "word_decode big (word_encode big (b :: u16)) = b"
  "word_decode big (word_encode big (c :: u32)) = c"
  "word_decode big (word_encode big (d :: u64)) = d"
  by (simp_all add: word_decode_encode)

lemma be_encode_0 [simp]: "be_encode n 0 = replicate n 0"
  by (induction n) (simp_all add: replicate_append_same)

lemma be_decode_zeros [simp]: "be_decode (replicate n 0) = 0"
  by (induction n) (simp_all add: be_decode_def)

lemma word_encode_0 [simp]: "word_encode big (0 :: 'a::len word) = replicate (sizeof TYPE('a)) 0"
  by (simp add: word_encode_def Let_def)

lemma word_decode_zeros [simp]: "word_decode big (replicate n 0) = 0"
  by (simp add: word_decode_def)

lemma word_encode_u8 [simp]: "word_encode big (x :: u8) = [x]"
  by (simp add: word_encode_def Let_def)

lemma word_decode_u8 [simp]: "word_decode big [x] = (x :: u8)"
  by (simp add: word_decode_def be_decode_def)

end
