(* ===== verification/Byte_Stream.thy ===== *)
theory Byte_Stream
  imports Prelude
begin

text \<open>
  The byte streams of \<open>core/util/byte_stream.{h,cc}\<close>: \<open>ByteStream\<close>, its reading subclass
  \<open>InputByteStream\<close> and its writing subclass \<open>OutputByteStream\<close>, the endian-aware integer
  reads and writes, the IP address conversions and the hex dump.

  A stream keeps a pointer into a buffer (here an offset into the list \<open>m_Buffer\<close>), the
  length left and the amount consumed. The asserts of the source repeat the conditions of the
  exceptions that follow them; the model is that of a build with \<open>NDEBUG\<close>, in which the
  exceptions are what happens.

  Two locales state what clients of a stream rely on: \<open>safe_parser\<close> (a parser keeps the
  stream well formed, only moves forward and never reads outside the buffer) and
  \<open>stream_codec\<close> (a writer and a parser agree on the bytes of a value).
\<close>

section \<open>State and constructors\<close>

record ByteStream =
  m_Buffer :: bytes
  m_DataPtr :: nat
  m_Length :: nat
  m_Counter :: nat

text \<open>The constructor over an external buffer; \<open>None\<close> is the null pointer.\<close>

definition ByteStream_external :: "bytes option \<Rightarrow> nat \<Rightarrow> ByteStream result" where
  "ByteStream_external data len =
     (case data of
        None \<Rightarrow> Inl InvalidArgument
      | Some buf \<Rightarrow>
          throw_if (len = 0) LengthError
            (Inr \<lparr>m_Buffer = buf, m_DataPtr = 0, m_Length = len, m_Counter = 0\<rparr>))"

text \<open>
  The constructor over an internal buffer of \<open>len\<close> bytes; \<open>mem\<close> is what the fresh memory
  happens to hold.
\<close>

definition ByteStream_internal :: "bytes \<Rightarrow> nat \<Rightarrow> ByteStream result" where
  "ByteStream_internal mem len =
     throw_if (len = 0) LengthError
       (Inr \<lparr>m_Buffer = take len mem, m_DataPtr = 0, m_Length = len, m_Counter = 0\<rparr>)"

definition Size :: "ByteStream \<Rightarrow> nat" where
  "Size s = m_Length s + m_Counter s"

definition Data_ptr :: "ByteStream \<Rightarrow> nat" where
  "Data_ptr s = m_DataPtr s - m_Counter s"

text \<open>What the current pointer designates, up to the end of the stream.\<close>

definition remaining_ptr :: "ByteStream \<Rightarrow> bytes" where
  "remaining_ptr s = slice (m_DataPtr s) (m_Length s) (m_Buffer s)"

definition Advance :: "nat \<Rightarrow> ByteStream \<Rightarrow> ByteStream result" where
  "Advance len s =
     throw_if (len = 0 \<or> m_Length s < len) LengthError
       (Inr (s\<lparr>m_DataPtr := m_DataPtr s + len,
               m_Counter := m_Counter s + len,
               m_Length := m_Length s - len\<rparr>))"

section \<open>Parsers over a stream\<close>

type_synonym 'a parser = "ByteStream \<Rightarrow> ('a \<times> ByteStream) result"
type_synonym stream_writer = "ByteStream \<Rightarrow> ByteStream result"

definition preturn :: "'a \<Rightarrow> 'a parser" where
  "preturn x s = Inr (x, s)"

definition pbind :: "'a parser \<Rightarrow> ('a \<Rightarrow> 'b parser) \<Rightarrow> 'b parser" where
  "pbind p f s = bind_result (p s) (\<lambda>(x, s'). f x s')"

definition plift :: "'a result \<Rightarrow> 'a parser" where
  "plift r s = bind_result r (\<lambda>x. Inr (x, s))"

definition pget :: "(ByteStream \<Rightarrow> 'a) \<Rightarrow> 'a parser" where
  "pget f s = Inr (f s, s)"

text \<open>A counted \<open>for\<close> loop whose body reads from the stream and changes an object.\<close>

fun ploop :: "nat \<Rightarrow> ('x \<Rightarrow> 'x parser) \<Rightarrow> 'x \<Rightarrow> 'x parser" where
  "ploop 0 body x = preturn x"
| "ploop (Suc n) body x = pbind (body x) (ploop n body)"

definition wseq :: "stream_writer \<Rightarrow> stream_writer \<Rightarrow> stream_writer" where
  "wseq w1 w2 s = bind_result (w1 s) w2"

section \<open>InputByteStream\<close>

text \<open>
  \<open>ReadBytes\<close> returns a pointer to the bytes it consumed; the model returns the bytes that
  pointer and length designate.
\<close>

definition ReadBytes :: "nat \<Rightarrow> bytes parser" where
  "ReadBytes len s =
     bind_result (Advance len s) (\<lambda>s'. Inr (slice (m_DataPtr s) len (m_Buffer s), s'))"

definition SkipBytes_in :: "nat \<Rightarrow> unit parser" where
  "SkipBytes_in len s = bind_result (Advance len s) (\<lambda>s'. Inr ((), s'))"

definition Read_buf :: "bool \<Rightarrow> nat \<Rightarrow> bytes \<Rightarrow> 'a::len word result" where
  "Read_buf big_to_native p buf =
     bind_result (mem_read p (sizeof TYPE('a)) buf) (\<lambda>bs. Inr (word_decode big_to_native bs))"

definition Read :: "bool \<Rightarrow> 'a::len word parser" where
  "Read big_to_native =
     pbind (ReadBytes (sizeof TYPE('a))) (\<lambda>bs. plift (Read_buf big_to_native 0 bs))"

abbreviation Read_u8 :: "u8 parser" where "Read_u8 \<equiv> Read True"
abbreviation Read_u16 :: "u16 parser" where "Read_u16 \<equiv> Read True"
abbreviation Read_u32 :: "u32 parser" where "Read_u32 \<equiv> Read True"

text \<open>Every read makes progress, which is what ends the loops over a stream.\<close>

lemma Advance_decreases: "Advance len s = Inr s' \<Longrightarrow> m_Length s' < m_Length s"
  by (auto simp: Advance_def result_simps)

lemma Read_decreases: "Read big s = Inr (x, s') \<Longrightarrow> m_Length s' < m_Length s"
  by (auto simp: Read_def pbind_def ReadBytes_def plift_def result_simps dest: Advance_decreases)

section \<open>OutputByteStream\<close>

definition WriteData :: "bytes option \<Rightarrow> nat \<Rightarrow> bool \<Rightarrow> stream_writer" where
  "WriteData data len allow_null_data s =
     throw_if (data = None \<and> \<not> allow_null_data) InvalidArgument
       (throw_if (len = 0) LengthError
         (bind_result (Advance len s) (\<lambda>s'.
            bind_result
              (case data of
                 None \<Rightarrow> Inr (replicate len 0)
               | Some src \<Rightarrow> mem_read 0 len src) (\<lambda>bs.
            bind_result (mem_write (m_DataPtr s) bs (m_Buffer s')) (\<lambda>buf.
              Inr (s'\<lparr>m_Buffer := buf\<rparr>))))))"

definition SkipBytes_out :: "nat \<Rightarrow> stream_writer" where
  "SkipBytes_out len = WriteData None len True"

definition Write_buf :: "bool \<Rightarrow> nat \<Rightarrow> 'a::len word \<Rightarrow> bytes \<Rightarrow> bytes result" where
  "Write_buf native_to_big p x buf = mem_write p (word_encode native_to_big x) buf"

definition Write :: "bool \<Rightarrow> 'a::len word \<Rightarrow> stream_writer" where
  "Write native_to_big x s =
     bind_result (Write_buf native_to_big 0 x (replicate (sizeof TYPE('a)) 0)) (\<lambda>buf.
       WriteData (Some buf) (sizeof TYPE('a)) False s)"

section \<open>Addresses and hex dump\<close>

text \<open>
  An IP address is what the code uses of \<open>boost::asio::ip::address\<close>: a version and the bytes
  of \<open>to_bytes()\<close>, an array of 4 or of 16.
\<close>

datatype ip_address = V4 bytes | V6 bytes

fun is_v4 :: "ip_address \<Rightarrow> bool" where
  "is_v4 (V4 _) = True"
| "is_v4 (V6 _) = False"

fun ip_bytes :: "ip_address \<Rightarrow> bytes" where
  "ip_bytes (V4 bs) = bs"
| "ip_bytes (V6 bs) = bs"

definition address_wf :: "ip_address \<Rightarrow> bool" where
  "address_wf a \<longleftrightarrow> length (ip_bytes a) = (if is_v4 a then 4 else 16)"

definition AddressToByteVector :: "ip_address \<Rightarrow> bytes result" where
  "AddressToByteVector a = mem_read 0 (if is_v4 a then 4 else 16) (ip_bytes a)"

definition BytesToAddress :: "bytes \<Rightarrow> u8 \<Rightarrow> ip_address result" where
  "BytesToAddress host sz =
     (if sz = 4 then bind_result (mem_read 0 4 host) (\<lambda>bs. Inr (V4 bs))
      else if sz = 16 then bind_result (mem_read 0 16 host) (\<lambda>bs. Inr (V6 bs))
      else Inl LengthError)"

definition hex_byte :: "byte \<Rightarrow> string" where
  "hex_byte b = [''0123456789abcdef'' ! (unat b div 16), ''0123456789abcdef'' ! (unat b mod 16)]"

fun hex_lines :: "nat \<Rightarrow> nat \<Rightarrow> bytes \<Rightarrow> string" where
  "hex_lines count sub_count [] = []"
| "hex_lines count sub_count (b # bs) =
     (let line_ends = (count + 1 = 32 \<or> bs = []);
          group_ends = (sub_count + 1 = 8 \<and> bs \<noteq> [])
      in hex_byte b @ '' ''
         @ (if line_ends then '' |'' @ [CHR 0x0A, CHR 0x09] else [])
         @ (if group_ends then '' |  '' else [])
         @ hex_lines (if line_ends then 0 else count + 1)
             (if group_ends then 0 else sub_count + 1) bs)"

definition GetFormattedHex :: "bytes \<Rightarrow> nat \<Rightarrow> string result" where
  "GetFormattedHex data sz =
     bind_result (mem_read 0 sz data) (\<lambda>bs.
       Inr ([CHR 0x0A, CHR 0x09] @ '' |  '' @ hex_lines 0 0 bs @ [CHR 0x0A]))"

section \<open>The stream invariant\<close>

named_theorems stream_simps \<open>evaluation of stream operations\<close>

text \<open>
  The pointer and the counter agree, and what is left lies inside the buffer. \<open>remaining\<close> is
  the abstract value of a stream: the bytes not yet consumed. \<open>advance_by\<close> and \<open>emit\<close>
  are what a successful read and a successful write do to the state.
\<close>

definition stream_inv :: "ByteStream \<Rightarrow> bool" where
  "stream_inv s \<longleftrightarrow>
     m_DataPtr s = m_Counter s \<and> m_DataPtr s + m_Length s \<le> length (m_Buffer s)"

abbreviation remaining :: "ByteStream \<Rightarrow> bytes" where
  "remaining \<equiv> remaining_ptr"

definition advance_by :: "nat \<Rightarrow> ByteStream \<Rightarrow> ByteStream" where
  "advance_by n s =
     s\<lparr>m_DataPtr := m_DataPtr s + n, m_Counter := m_Counter s + n, m_Length := m_Length s - n\<rparr>"

definition emit :: "bytes \<Rightarrow> ByteStream \<Rightarrow> ByteStream" where
  "emit bs s = advance_by (length bs) (s\<lparr>m_Buffer := poke (m_DataPtr s) bs (m_Buffer s)\<rparr>)"

lemma length_remaining [simp]: "stream_inv s \<Longrightarrow> length (remaining s) = m_Length s"
  by (auto simp: stream_inv_def remaining_ptr_def)

lemma advance_by_fields [simp]:
  "m_Buffer (advance_by n s) = m_Buffer s"
  "m_DataPtr (advance_by n s) = m_DataPtr s + n"
  "m_Counter (advance_by n s) = m_Counter s + n"
  "m_Length (advance_by n s) = m_Length s - n"
  by (simp_all add: advance_by_def)

lemma advance_by_0 [simp]: "advance_by 0 s = s"
  by (simp add: advance_by_def)

lemma advance_by_advance_by [simp]: "advance_by m (advance_by n s) = advance_by (n + m) s"
  by (simp add: advance_by_def ac_simps)

lemma stream_inv_advance_by [simp]: "stream_inv s \<Longrightarrow> n \<le> m_Length s \<Longrightarrow> stream_inv (advance_by n s)"
  by (simp add: stream_inv_def)

lemma remaining_advance_by [simp]: "remaining (advance_by n s) = drop n (remaining s)"
  by (simp add: remaining_ptr_def slice_def drop_take add.commute)

lemma emit_fields [simp]:
  "m_Buffer (emit bs s) = poke (m_DataPtr s) bs (m_Buffer s)"
  "m_DataPtr (emit bs s) = m_DataPtr s + length bs"
  "m_Counter (emit bs s) = m_Counter s + length bs"
  "m_Length (emit bs s) = m_Length s - length bs"
  by (simp_all add: emit_def)

lemma stream_inv_emit [simp]: "stream_inv s \<Longrightarrow> length bs \<le> m_Length s \<Longrightarrow> stream_inv (emit bs s)"
  by (simp add: stream_inv_def)

lemma emit_Nil [simp]: "emit [] s = s"
  by (simp add: emit_def)

lemma emit_emit:
  assumes "stream_inv s" and "length as + length bs \<le> m_Length s"
  shows "emit bs (emit as s) = emit (as @ bs) s"
  using assms by (simp add: emit_def advance_by_def stream_inv_def poke_append add.assoc)

text \<open>Reading back what was written: the stream that re-reads the region is at the value.\<close>

lemma remaining_reread:
  assumes "stream_inv s" and "length bs \<le> m_Length s"
  shows "remaining (s\<lparr>m_Buffer := m_Buffer (emit bs s)\<rparr>) = bs @ drop (length bs) (remaining s)"
proof -
  let ?b = "poke (m_DataPtr s) bs (m_Buffer s)"
  have len: "m_DataPtr s + length bs \<le> length (m_Buffer s)"
    using assms by (simp add: stream_inv_def)
  have "slice (m_DataPtr s) (m_Length s) ?b
      = slice (m_DataPtr s) (length bs) ?b
        @ slice (m_DataPtr s + length bs) (m_Length s - length bs) ?b"
    using slice_add [of "m_DataPtr s" "length bs" "m_Length s - length bs" ?b] assms(2) by simp
  also have "\<dots> = bs @ slice (m_DataPtr s + length bs) (m_Length s - length bs) (m_Buffer s)"
    using len by (simp add: slice_poke_after)
  finally show ?thesis
    by (simp add: remaining_ptr_def slice_def drop_take add.commute)
qed

lemma reread_advance:
  "advance_by (length bs) (s\<lparr>m_Buffer := m_Buffer (emit bs s)\<rparr>) = emit bs s"
  by (simp add: emit_def advance_by_def)

lemma ByteStream_external_inv:
  "ByteStream_external (Some buf) len = Inr s \<Longrightarrow> len \<le> length buf \<Longrightarrow>
   stream_inv s \<and> remaining s = take len buf \<and> Size s = len"
  by (auto simp: ByteStream_external_def stream_inv_def remaining_ptr_def slice_def Size_def result_simps)

section \<open>What the operations do\<close>

lemma Advance_eq:
  "Advance len s = (if len = 0 \<or> m_Length s < len then Inl LengthError else Inr (advance_by len s))"
  by (simp add: Advance_def advance_by_def throw_if_def)

lemma ReadBytes_eq:
  "ReadBytes len s =
     (if len = 0 \<or> m_Length s < len then Inl LengthError
      else Inr (take len (remaining s), advance_by len s))"
  by (auto simp: ReadBytes_def Advance_eq remaining_ptr_def)

lemma SkipBytes_in_eq:
  "SkipBytes_in len s =
     (if len = 0 \<or> m_Length s < len then Inl LengthError else Inr ((), advance_by len s))"
  by (simp add: SkipBytes_in_def Advance_eq)

lemma sizeof_pos: "8 dvd LENGTH('a) \<Longrightarrow> 0 < sizeof TYPE('a::len)"
  using len_gt_0 [where 'a = 'a] by (simp add: sizeof_def div_greater_zero_iff dvd_imp_le)

lemma remaining_appendD:
  "remaining s = xs @ ys \<Longrightarrow> stream_inv s \<Longrightarrow> m_Length s = length xs + length ys"
  by (drule length_remaining) simp

lemma Read_eq:
  assumes "stream_inv s"
  shows "(Read big :: 'a::len word parser) s =
     (if sizeof TYPE('a) = 0 \<or> m_Length s < sizeof TYPE('a) then Inl LengthError
      else Inr (word_decode big (take (sizeof TYPE('a)) (remaining s)), advance_by (sizeof TYPE('a)) s))"
  using assms
  by (simp add: Read_def pbind_def ReadBytes_eq plift_def Read_buf_def mem_read_def slice_def)

lemma WriteData_Some:
  assumes "stream_inv s" and "len \<le> length bs" and "0 < len" and "len \<le> m_Length s"
  shows "WriteData (Some bs) len allow s = Inr (emit (take len bs) s)"
  using assms
  by (simp add: WriteData_def Advance_eq mem_read_def mem_write_def stream_inv_def
      emit_def advance_by_def slice_def min_def)

lemma WriteData_None:
  assumes "stream_inv s" and "0 < len" and "len \<le> m_Length s"
  shows "WriteData None len True s = Inr (emit (replicate len 0) s)"
  using assms
  by (simp add: WriteData_def Advance_eq mem_write_def stream_inv_def emit_def advance_by_def)

lemma Write_eq_WriteData:
  "Write big (x :: 'a::len word) s =
     WriteData (Some (word_encode big x)) (sizeof TYPE('a)) False s"
  by (simp add: Write_def Write_buf_def mem_write_def poke_def)

lemma Write_emit:
  assumes "stream_inv s" and "0 < sizeof TYPE('a::len)" and "sizeof TYPE('a) \<le> m_Length s"
  shows "Write big (x :: 'a word) s = Inr (emit (word_encode big x) s)"
  using assms by (simp add: Write_eq_WriteData WriteData_Some)

lemma WriteData_error:
  assumes "stream_inv s" and "WriteData d len allow s = Inl e"
    and "\<And>bs. d = Some bs \<Longrightarrow> len \<le> length bs"
  shows "e \<noteq> MemoryError"
  using assms
  by (auto simp: WriteData_def Advance_eq mem_read_def mem_write_def stream_inv_def result_simps
      split: option.splits if_splits)

lemma WriteData_keeps:
  assumes "stream_inv s" and "WriteData d len allow s = Inr s'"
  shows "stream_inv s' \<and> Size s' = Size s \<and> m_Length s' < m_Length s
       \<and> length (m_Buffer s') = length (m_Buffer s)
       \<and> take (m_DataPtr s) (m_Buffer s') = take (m_DataPtr s) (m_Buffer s)"
  using assms
  by (auto simp: WriteData_def Advance_eq stream_inv_def result_simps Size_def advance_by_def
      split: if_splits option.splits)

section \<open>Parsers that cannot go wrong\<close>

text \<open>
  The contract of a parser over untrusted bytes. From a well-formed stream it never touches
  memory outside the buffer, and when it returns, the stream is well formed, over the same
  buffer, of the same total size, and not behind where it was.
\<close>

locale safe_parser =
  fixes p :: "'a parser"
  assumes keeps: "stream_inv s \<Longrightarrow> p s = Inr (x, s') \<Longrightarrow>
      \<exists>n \<le> m_Length s. s' = advance_by n s"
    and no_memory_error: "stream_inv s \<Longrightarrow> p s \<noteq> Inl MemoryError"
begin

lemma keeps_inv: "stream_inv s \<Longrightarrow> p s = Inr (x, s') \<Longrightarrow> stream_inv s'"
  using keeps by fastforce

lemma keeps_size: "stream_inv s \<Longrightarrow> p s = Inr (x, s') \<Longrightarrow> Size s' = Size s"
  using keeps [of s x s'] by (auto simp: Size_def)

lemma consumes_suffix: "stream_inv s \<Longrightarrow> p s = Inr (x, s') \<Longrightarrow>
    \<exists>n. remaining s' = drop n (remaining s)"
  using keeps by fastforce

lemma bind_dep:
  assumes q: "\<And>s x s'. stream_inv s \<Longrightarrow> p s = Inr (x, s') \<Longrightarrow> safe_parser (q x)"
  shows "safe_parser (pbind p q)"
proof
  fix s y s''
  assume inv: "stream_inv s" and "pbind p q s = Inr (y, s'')"
  then obtain x s' where 1: "p s = Inr (x, s')" and 2: "q x s' = Inr (y, s'')"
    by (auto simp: pbind_def result_simps)
  from keeps [OF inv 1] obtain n where n: "n \<le> m_Length s" "s' = advance_by n s" by auto
  with inv have "stream_inv s'" by simp
  from safe_parser.keeps [OF q [OF inv 1] this 2] obtain m where m: "m \<le> m_Length s'" "s'' = advance_by m s'"
    by auto
  from n m have "n + m \<le> m_Length s" "s'' = advance_by (n + m) s" by auto
  then show "\<exists>k \<le> m_Length s. s'' = advance_by k s" by blast
next
  fix s assume inv: "stream_inv s"
  show "pbind p q s \<noteq> Inl MemoryError"
  proof
    assume "pbind p q s = Inl MemoryError"
    then obtain x s' where 1: "p s = Inr (x, s')" and 2: "q x s' = Inl MemoryError"
      using no_memory_error [OF inv] by (auto simp: pbind_def result_simps)
    from keeps_inv [OF inv 1] 2 show False
      using safe_parser.no_memory_error [OF q [OF inv 1]] by blast
  qed
qed

lemma bind_safe: "(\<And>x. safe_parser (q x)) \<Longrightarrow> safe_parser (pbind p q)"
  by (rule bind_dep)

end

text \<open>The parsers of the stream class satisfy the contract, and the combinators keep it.\<close>

named_theorems safe_intros \<open>introduction rules of the safe-parser contract\<close>

lemmas pbind_safe [safe_intros] = safe_parser.bind_safe

lemma preturn_safe [safe_intros]: "safe_parser (preturn x)"
  by unfold_locales (auto simp: preturn_def intro: exI [of _ 0])

lemma pget_safe [safe_intros]: "safe_parser (pget f)"
  by unfold_locales (auto simp: pget_def intro: exI [of _ 0])

lemma plift_safe [safe_intros]: "r \<noteq> Inl MemoryError \<Longrightarrow> safe_parser (plift r)"
  by unfold_locales (auto simp: plift_def result_simps intro: exI [of _ 0])

lemma if_safe [safe_intros]: "safe_parser p \<Longrightarrow> safe_parser q \<Longrightarrow> safe_parser (if b then p else q)"
  by simp

lemma ploop_safe [safe_intros]:
  "(\<And>x. safe_parser (body x)) \<Longrightarrow> safe_parser (ploop n body x)"
  by (induction n arbitrary: x) (auto intro!: safe_intros)

interpretation rb: safe_parser "ReadBytes len"
  by unfold_locales (auto simp: ReadBytes_eq not_less split: if_splits)

interpretation sb: safe_parser "SkipBytes_in len"
  by unfold_locales (auto simp: SkipBytes_in_eq not_less split: if_splits)

interpretation rd: safe_parser "Read big"
  by unfold_locales (auto simp: Read_eq not_less split: if_splits)

lemmas stream_parsers_safe [safe_intros] =
  rb.safe_parser_axioms sb.safe_parser_axioms rd.safe_parser_axioms

text \<open>What follows a read of \<open>n\<close> bytes may rely on having \<open>n\<close> bytes.\<close>

lemma ReadBytes_bind_safe:
  assumes "\<And>bs. length bs = n \<Longrightarrow> safe_parser (q bs)"
  shows "safe_parser (pbind (ReadBytes n) q)"
  using assms by (intro rb.bind_dep) (auto simp: ReadBytes_eq not_less split: if_splits)

lemma case_prod_safe [safe_intros]:
  "(\<And>a b. safe_parser (q a b)) \<Longrightarrow> safe_parser (case x of (a, b) \<Rightarrow> q a b)"
  by (cases x) simp

section \<open>Writers and parsers that agree\<close>

text \<open>
  The contract between a serialiser and its parser: on well-formed values the writer emits
  \<open>enc x\<close>, and a stream whose next bytes are \<open>enc x\<close> parses to \<open>x\<close> and moves past them.
\<close>

locale stream_codec =
  fixes enc :: "'a \<Rightarrow> bytes" and wf :: "'a \<Rightarrow> bool"
    and parse :: "'a parser" and wr :: "'a \<Rightarrow> stream_writer"
  assumes parse_enc: "wf x \<Longrightarrow> stream_inv s \<Longrightarrow> remaining s = enc x @ rest \<Longrightarrow>
      parse s = Inr (x, advance_by (length (enc x)) s)"
    and write_enc: "wf x \<Longrightarrow> stream_inv s \<Longrightarrow> length (enc x) \<le> m_Length s \<Longrightarrow>
      wr x s = Inr (emit (enc x) s)"
begin

text \<open>What is written into a stream is read back from the same place.\<close>

lemma write_then_parse:
  assumes "wf x" and inv: "stream_inv s" and len: "length (enc x) \<le> m_Length s"
  shows "\<exists>s'. wr x s = Inr s' \<and> parse (s\<lparr>m_Buffer := m_Buffer s'\<rparr>) = Inr (x, s')"
proof -
  let ?t = "s\<lparr>m_Buffer := m_Buffer (emit (enc x) s)\<rparr>"
  have "stream_inv ?t" using inv len by (simp add: stream_inv_def)
  from parse_enc [OF assms(1) this remaining_reread [OF inv len]]
  have "parse ?t = Inr (x, emit (enc x) s)" by (simp only: reread_advance)
  then show ?thesis using write_enc [OF assms] by blast
qed

text \<open>Distinct well-formed values of equal encoding do not exist.\<close>

lemma enc_inj:
  assumes "wf x" and "wf y" and "enc x = enc y"
  shows "x = y"
proof -
  let ?s = "\<lparr>m_Buffer = enc x, m_DataPtr = 0, m_Length = length (enc x), m_Counter = 0\<rparr>"
  have inv: "stream_inv ?s" and "remaining ?s = enc x @ []"
    by (simp_all add: stream_inv_def remaining_ptr_def slice_def)
  then show ?thesis
    using parse_enc [OF assms(1) inv, of "[]"] parse_enc [OF assms(2) inv, of "[]"] assms(3) by simp
qed

end

lemma Read_word_encode:
  assumes "stream_inv s" and "remaining s = word_encode big (x :: 'a::len word) @ rest"
    and "8 dvd LENGTH('a)"
  shows "Read big s = Inr (x, advance_by (sizeof TYPE('a)) s)"
  using assms remaining_appendD [OF assms(2,1)] sizeof_pos [OF assms(3)]
  by (simp add: Read_eq word_decode_encode)

lemma word_codec:
  assumes "8 dvd LENGTH('a::len)"
  shows "stream_codec (word_encode big :: 'a word \<Rightarrow> bytes) (\<lambda>_. True) (Read big) (Write big)"
proof
  show "Write big x s = Inr (emit (word_encode big x) s)"
    if "stream_inv s" "length (word_encode big x) \<le> m_Length s" for x :: "'a word" and s
    using that sizeof_pos [OF assms] by (simp add: Write_emit)
qed (use assms in \<open>simp add: Read_word_encode\<close>)

interpretation u8c: stream_codec "word_encode True :: u8 \<Rightarrow> bytes" "\<lambda>_. True" "Read True" "Write True"
  by (rule word_codec) simp

interpretation u16c: stream_codec "word_encode True :: u16 \<Rightarrow> bytes" "\<lambda>_. True" "Read True" "Write True"
  by (rule word_codec) simp

interpretation u32c: stream_codec "word_encode True :: u32 \<Rightarrow> bytes" "\<lambda>_. True" "Read True" "Write True"
  by (rule word_codec) simp

interpretation u64c: stream_codec "word_encode True :: u64 \<Rightarrow> bytes" "\<lambda>_. True" "Read True" "Write True"
  by (rule word_codec) simp

text \<open>
  A run of raw bytes, as the packet code writes and reads it: the length is fixed by the
  format, and it is never zero.
\<close>

interpretation rawc: stream_codec "\<lambda>bs. bs" "\<lambda>bs. length bs = n \<and> 0 < n"
    "ReadBytes n" "\<lambda>bs. WriteData (Some bs) n False"
proof
  fix x s rest
  assume *: "length x = n \<and> 0 < n" "stream_inv s" "remaining s = x @ rest"
  from * remaining_appendD [OF *(3,2)] show "ReadBytes n s = Inr (x, advance_by (length x) s)"
    by (simp add: ReadBytes_eq)
qed (simp add: WriteData_Some)

section \<open>What a sequence of writes leaves in the buffer\<close>

text \<open>\<open>writes w bs\<close>: from a well-formed stream with room, \<open>w\<close> succeeds and appends \<open>bs\<close>.\<close>

definition writes :: "stream_writer \<Rightarrow> bytes \<Rightarrow> bool" where
  "writes w bs \<longleftrightarrow> (\<forall>s. stream_inv s \<longrightarrow> length bs \<le> m_Length s \<longrightarrow> w s = Inr (emit bs s))"

named_theorems writes_intros \<open>composition of stream writers\<close>

lemma writesD: "writes w bs \<Longrightarrow> stream_inv s \<Longrightarrow> length bs \<le> m_Length s \<Longrightarrow> w s = Inr (emit bs s)"
  by (simp add: writes_def)

lemma writes_wseq [writes_intros]:
  "writes w1 as \<Longrightarrow> writes w2 bs \<Longrightarrow> writes (wseq w1 w2) (as @ bs)"
  by (simp add: writes_def wseq_def emit_emit)

lemma writes_Nil [writes_intros]: "writes Inr []"
  by (simp add: writes_def)

lemma writes_Write [writes_intros]:
  "8 dvd LENGTH('a::len) \<Longrightarrow> writes (Write big (x :: 'a word)) (word_encode big x)"
  by (simp add: writes_def Write_emit sizeof_pos)

lemma writes_byte [writes_intros]: "writes (Write big (x :: u8)) [x]"
  using writes_Write [of big x] by simp

lemma writes_byte_wseq [writes_intros]:
  "writes w bs \<Longrightarrow> writes (wseq (Write big (x :: u8)) w) (x # bs)"
  using writes_wseq [OF writes_byte] by fastforce

lemma writes_wseq_Nil [writes_intros]: "writes w bs \<Longrightarrow> writes (wseq w Inr) bs"
  using writes_wseq [OF _ writes_Nil] by fastforce

lemma writes_WriteData [writes_intros]:
  "length bs = n \<Longrightarrow> 0 < n \<Longrightarrow> writes (WriteData (Some bs) n allow) bs"
  by (simp add: writes_def WriteData_Some)

lemma writes_SkipBytes_out [writes_intros]:
  "0 < n \<Longrightarrow> writes (SkipBytes_out n) (replicate n 0)"
  by (simp add: writes_def SkipBytes_out_def WriteData_None)

text \<open>Skipping a region and filling it through the old pointer is writing it.\<close>

lemma emit_overwrite:
  assumes "stream_inv s" and "length bs \<le> m_Length s" and "length zs = length bs"
  shows "(emit zs s)\<lparr>m_Buffer := poke (m_DataPtr s) bs (poke (m_DataPtr s) zs (m_Buffer s))\<rparr> = emit bs s"
proof -
  have "poke (m_DataPtr s) bs (poke (m_DataPtr s) zs (m_Buffer s)) = poke (m_DataPtr s) bs (m_Buffer s)"
    using assms by (intro nth_equalityI) (auto simp: stream_inv_def nth_poke)
  then show ?thesis using assms(3) by (simp add: emit_def advance_by_def)
qed

definition filled :: "nat \<Rightarrow> (nat \<Rightarrow> bytes \<Rightarrow> bytes result) \<Rightarrow> stream_writer" where
  "filled n fill s =
     bind_result (SkipBytes_out n s) (\<lambda>s'.
     bind_result (fill (m_DataPtr s) (m_Buffer s')) (\<lambda>buf. Inr (s'\<lparr>m_Buffer := buf\<rparr>)))"

lemma writes_filled [writes_intros]:
  assumes "length bs = n" and "0 < n"
    and "\<And>ptr buf. ptr + n \<le> length buf \<Longrightarrow> fill ptr buf = Inr (poke ptr bs buf)"
  shows "writes (filled n fill) bs"
  unfolding writes_def
proof (intro allI impI)
  fix s assume s: "stream_inv s" "length bs \<le> m_Length s"
  have "SkipBytes_out n s = Inr (emit (replicate n 0) s)"
    using s assms(1,2) by (simp add: SkipBytes_out_def WriteData_None)
  moreover have "fill (m_DataPtr s) (m_Buffer (emit (replicate n 0) s)) =
      Inr (poke (m_DataPtr s) bs (poke (m_DataPtr s) (replicate n 0) (m_Buffer s)))"
    using s assms(1) by (subst assms(3)) (simp_all add: stream_inv_def)
  ultimately show "filled n fill s = Inr (emit bs s)"
    using emit_overwrite [OF s, of "replicate n 0"] assms(1) by (simp add: filled_def)
qed

text \<open>The bytes a writer left, as the receiver of the datagram sees them.\<close>

lemma emit_written:
  assumes "stream_inv s" and "length bs \<le> m_Length s"
  shows "slice (m_DataPtr s) (length bs) (m_Buffer (emit bs s)) = bs"
  using assms by (simp add: stream_inv_def)

section \<open>Properties of the streams\<close>

text \<open>
  C31 (round trip). An integer of any byte width, written in either byte order into a stream
  with room for it, is read back from the same place, and both streams end at the same position.
\<close>

theorem Write_then_Read:
  fixes x :: "'a::len word"
  assumes "8 dvd LENGTH('a)" and "stream_inv s" and "sizeof TYPE('a) \<le> m_Length s"
  shows "\<exists>s'. Write big x s = Inr s' \<and> Read big (s\<lparr>m_Buffer := m_Buffer s'\<rparr>) = Inr (x, s')"
  using stream_codec.write_then_parse [OF word_codec [OF assms(1)], of s big x] assms(2,3) by simp

theorem Write_then_Read_witness:
  "let s = \<lparr>m_Buffer = replicate 8 0, m_DataPtr = 2, m_Length = 6, m_Counter = 2\<rparr> in
   \<exists>s'. Write True (0xCAFEBABE :: u32) s = Inr s' \<and>
     Read True (s\<lparr>m_Buffer := m_Buffer s'\<rparr>) = Inr (0xCAFEBABE :: u32, s')"
  using Write_then_Read [where 'a = 32 and x = "0xCAFEBABE" and big = True and
      s = "\<lparr>m_Buffer = replicate 8 0, m_DataPtr = 2, m_Length = 6, m_Counter = 2\<rparr>"]
  unfolding Let_def by (simp add: stream_inv_def)

text \<open>
  Reading \<open>len\<close> bytes fails exactly when \<open>len\<close> is zero or more than is
  left, always with a length error; otherwise it returns the next bytes, and the total size
  and the buffer stay as they were.
\<close>

theorem ReadBytes_behaviour:
  assumes "stream_inv s"
  shows "if len = 0 \<or> m_Length s < len then ReadBytes len s = Inl LengthError
    else \<exists>bs s'. ReadBytes len s = Inr (bs, s') \<and> length bs = len \<and>
      remaining s = bs @ remaining s' \<and> stream_inv s' \<and> Size s' = Size s \<and>
      m_Buffer s' = m_Buffer s"
  using assms by (simp add: ReadBytes_eq Size_def)

theorem ReadBytes_behaviour_witness:
  "\<exists>bs s'. ReadBytes 2 \<lparr>m_Buffer = [1, 2, 3], m_DataPtr = 0, m_Length = 3, m_Counter = 0\<rparr> = Inr (bs, s') \<and>
     length bs = 2 \<and> Size s' = 3"
  using ReadBytes_behaviour [of "\<lparr>m_Buffer = [1, 2, 3], m_DataPtr = 0, m_Length = 3, m_Counter = 0\<rparr>" 2]
  by (auto simp: stream_inv_def Size_def)

text \<open>
  Writing into a well-formed stream never writes outside the buffer when the
  source object has the length given: the only errors are exceptions, and on success the
  bytes before the write position are untouched and the stream keeps its size.
\<close>

theorem WriteData_safe:
  assumes "stream_inv s" and "\<forall>bs. d = Some bs \<longrightarrow> len \<le> length bs"
  shows "WriteData d len allow s \<noteq> Inl MemoryError \<and>
    (\<forall>s'. WriteData d len allow s = Inr s' \<longrightarrow> stream_inv s' \<and> Size s' = Size s \<and>
       take (m_DataPtr s) (m_Buffer s') = take (m_DataPtr s) (m_Buffer s))"
  using WriteData_error [OF assms(1), of d len allow] WriteData_keeps [OF assms(1), of d len allow] assms(2)
  by blast

theorem WriteData_safe_witness:
  "WriteData (Some [7, 8]) 2 False \<lparr>m_Buffer = [1, 2, 3], m_DataPtr = 1, m_Length = 2, m_Counter = 1\<rparr>
     \<noteq> Inl MemoryError"
  using WriteData_safe [of "\<lparr>m_Buffer = [1, 2, 3], m_DataPtr = 1, m_Length = 2, m_Counter = 1\<rparr>"
      "Some [7, 8]" 2 False]
  by (simp add: stream_inv_def)

text \<open>C32 (round trip). An IP address survives the conversion to bytes and back.\<close>

theorem address_roundtrip:
  assumes "address_wf a"
  shows "\<exists>bs. AddressToByteVector a = Inr bs \<and> BytesToAddress bs (word_of_nat (length bs)) = Inr a"
  using assms
  by (cases a) (auto simp: address_wf_def AddressToByteVector_def BytesToAddress_def mem_read_def slice_def)

theorem address_roundtrip_witness:
  "\<exists>bs. AddressToByteVector (V4 [127, 0, 0, 1]) = Inr bs \<and>
     BytesToAddress bs (word_of_nat (length bs)) = Inr (V4 [127, 0, 0, 1])"
  by (rule address_roundtrip) (simp add: address_wf_def)

definition is_hex_digit :: "char \<Rightarrow> bool" where
  "is_hex_digit c \<longleftrightarrow> c \<in> set ''0123456789abcdef''"

lemma is_hex_digit_hex: "n < 16 \<Longrightarrow> is_hex_digit (''0123456789abcdef'' ! n)"
  unfolding is_hex_digit_def by (rule nth_mem) simp

lemma filter_hex_byte: "filter is_hex_digit (hex_byte b) = hex_byte b"
proof -
  have "unat b div 16 < 16" using unat_byte_less [of b] by (simp del: unat_byte_less)
  then show ?thesis
    unfolding hex_byte_def using is_hex_digit_hex by (simp del: nth_Cons_numeral)
qed

lemma filter_separators:
  "filter is_hex_digit '' '' = []" "filter is_hex_digit '' |'' = []"
  "filter is_hex_digit '' |  '' = []" "filter is_hex_digit [CHR 0x0A] = []"
  "filter is_hex_digit [CHR 0x0A, CHR 0x09] = []"
  by (simp_all add: is_hex_digit_def)

lemma filter_hex_lines: "filter is_hex_digit (hex_lines c d bs) = concat (map hex_byte bs)"
proof (induction bs arbitrary: c d)
  case (Cons b bs)
  then show ?case
    by (simp only: hex_lines.simps Let_def filter_append filter_hex_byte if_distrib [of "filter is_hex_digit"]
        filter_separators filter.simps(1) append_Nil list.map concat.simps if_cancel)
qed simp

text \<open>
  The hex dump shows every byte of the data as its two digits, in order:
  what is left of it without line breaks and separators is the plain hexadecimal string.
\<close>

theorem GetFormattedHex_digits:
  assumes "sz \<le> length data"
  shows "\<exists>out. GetFormattedHex data sz = Inr out \<and>
    filter is_hex_digit out = concat (map hex_byte (take sz data))"
  using assms
  by (simp add: GetFormattedHex_def mem_read_def slice_def filter_hex_lines)
    (simp add: is_hex_digit_def)

theorem GetFormattedHex_digits_witness:
  "\<exists>out. GetFormattedHex [0xDE, 0xAD] 2 = Inr out \<and> filter is_hex_digit out = ''dead''"
  using GetFormattedHex_digits [of 2 "[0xDE, 0xAD]"] by (simp add: hex_byte_def)
end
