(* ===== verification/Identity_Model.thy ===== *)
theory Identity_Model
  imports Byte_Stream
begin

text \<open>
  Router and destination identities, \<open>core/router/identity.{h,cc}\<close>: the packed standard
  identity of 387 bytes, the extended identity with its key certificate, the choice of
  signature verifier and the lengths that follow from it, the private-key file format, and
  the XOR metric of the network database.

  \<open>SHA256\<close> and \<open>RandBytes\<close> are parameters (\<open>sha256\<close>, \<open>rand_bytes\<close>); the verifier and
  signer objects are the data their constructors are given, since the code asks them only for
  lengths. A lazily created verifier is part of the state, as in the source.
\<close>

section \<open>The standard identity\<close>

record Keys =
  k_private_key :: bytes
  k_signing_private_key :: bytes
  k_public_key :: bytes
  k_signing_key :: bytes

text \<open>
  \<open>certificate_length\<close> is the raw 16-bit field: the packed struct is filled by \<open>memcpy\<close>, so
  the field holds the network-order bytes read in host order.
\<close>

record Identity =
  public_key :: bytes
  signing_key :: bytes
  certificate_type :: u8
  certificate_length :: u16

definition DEFAULT_IDENTITY_SIZE :: nat where
  "DEFAULT_IDENTITY_SIZE = 387"

definition CERTIFICATE_TYPE_KEY :: u8 where
  "CERTIFICATE_TYPE_KEY = 5"

definition big_to_native :: "'a::len word \<Rightarrow> 'a word" where
  "big_to_native x = word_decode True (word_encode False x)"

definition native_to_big :: "'a::len word \<Rightarrow> 'a word" where
  "native_to_big x = word_decode False (word_encode True x)"

definition identity_of_bytes :: "bytes \<Rightarrow> Identity" where
  "identity_of_bytes bs =
     \<lparr>public_key = slice 0 256 bs, signing_key = slice 256 128 bs,
      certificate_type = bs ! 384, certificate_length = word_decode False (slice 385 2 bs)\<rparr>"

definition bytes_of_identity :: "Identity \<Rightarrow> bytes" where
  "bytes_of_identity i =
     public_key i @ signing_key i @ [certificate_type i] @ word_encode False (certificate_length i)"

definition identity_wf :: "Identity \<Rightarrow> bool" where
  "identity_wf i \<longleftrightarrow> length (public_key i) = 256 \<and> length (signing_key i) = 128"

text \<open>\<open>Identity::operator=(const Keys&)\<close>; the target's old contents are \<open>i\<close>.\<close>

definition Identity_assign_Keys :: "Keys \<Rightarrow> Identity \<Rightarrow> Identity" where
  "Identity_assign_Keys keys i =
     i\<lparr>public_key := k_public_key keys, certificate_type := 0, certificate_length := 0\<rparr>"

definition Identity_Hash :: "(bytes \<Rightarrow> bytes) \<Rightarrow> Identity \<Rightarrow> bytes" where
  "Identity_Hash sha256 i = sha256 (bytes_of_identity i)"

section \<open>Signature verifiers\<close>

datatype Verifier =
    DSAVerifier bytes
  | ECDSAP256Verifier bytes
  | ECDSAP384Verifier bytes
  | ECDSAP521Verifier bytes
  | RSASHA2562048Verifier bytes
  | RSASHA3843072Verifier bytes
  | RSASHA5124096Verifier bytes
  | EDDSA25519Verifier bytes

fun Verifier_GetPublicKeyLen :: "Verifier \<Rightarrow> nat" where
  "Verifier_GetPublicKeyLen (DSAVerifier _) = 128"
| "Verifier_GetPublicKeyLen (ECDSAP256Verifier _) = 64"
| "Verifier_GetPublicKeyLen (ECDSAP384Verifier _) = 96"
| "Verifier_GetPublicKeyLen (ECDSAP521Verifier _) = 132"
| "Verifier_GetPublicKeyLen (RSASHA2562048Verifier _) = 256"
| "Verifier_GetPublicKeyLen (RSASHA3843072Verifier _) = 384"
| "Verifier_GetPublicKeyLen (RSASHA5124096Verifier _) = 512"
| "Verifier_GetPublicKeyLen (EDDSA25519Verifier _) = 32"

fun Verifier_GetSignatureLen :: "Verifier \<Rightarrow> nat" where
  "Verifier_GetSignatureLen (DSAVerifier _) = 40"
| "Verifier_GetSignatureLen (ECDSAP256Verifier _) = 64"
| "Verifier_GetSignatureLen (ECDSAP384Verifier _) = 96"
| "Verifier_GetSignatureLen (ECDSAP521Verifier _) = 132"
| "Verifier_GetSignatureLen (RSASHA2562048Verifier _) = 256"
| "Verifier_GetSignatureLen (RSASHA3843072Verifier _) = 384"
| "Verifier_GetSignatureLen (RSASHA5124096Verifier _) = 512"
| "Verifier_GetSignatureLen (EDDSA25519Verifier _) = 64"

fun Verifier_GetPrivateKeyLen :: "Verifier \<Rightarrow> nat" where
  "Verifier_GetPrivateKeyLen (DSAVerifier _) = 40 div 2"
| "Verifier_GetPrivateKeyLen (ECDSAP256Verifier _) = 64 div 2"
| "Verifier_GetPrivateKeyLen (ECDSAP384Verifier _) = 96 div 2"
| "Verifier_GetPrivateKeyLen (ECDSAP521Verifier _) = 132 div 2"
| "Verifier_GetPrivateKeyLen (RSASHA2562048Verifier _) = 256 * 2"
| "Verifier_GetPrivateKeyLen (RSASHA3843072Verifier _) = 384 * 2"
| "Verifier_GetPrivateKeyLen (RSASHA5124096Verifier _) = 512 * 2"
| "Verifier_GetPrivateKeyLen (EDDSA25519Verifier _) = 32"

section \<open>The extended identity\<close>

record IdentityEx =
  m_StandardIdentity :: Identity
  m_IdentHash :: bytes
  m_Verifier :: "Verifier option"
  m_ExtendedLen :: u16
  m_ExtendedBuffer :: "bytes option"

definition IdentityEx_default :: IdentityEx where
  "IdentityEx_default =
     \<lparr>m_StandardIdentity = \<lparr>public_key = replicate 256 0, signing_key = replicate 128 0,
        certificate_type = 0, certificate_length = 0\<rparr>,
      m_IdentHash = replicate 32 0, m_Verifier = None, m_ExtendedLen = 0,
      m_ExtendedBuffer = None\<rparr>"

definition GetFullLen :: "IdentityEx \<Rightarrow> nat" where
  "GetFullLen i = unat (m_ExtendedLen i) + DEFAULT_IDENTITY_SIZE"

text \<open>The copy assignment; the verifier of the copy is created anew when needed.\<close>

definition IdentityEx_assign :: "IdentityEx \<Rightarrow> IdentityEx result" where
  "IdentityEx_assign other =
     (if m_ExtendedLen other \<noteq> 0 then
        (case m_ExtendedBuffer other of
           None \<Rightarrow> Inl RuntimeError
         | Some ext \<Rightarrow> bind_result (mem_read 0 (unat (m_ExtendedLen other)) ext) (\<lambda>bs.
             Inr (other\<lparr>m_ExtendedBuffer := Some bs, m_Verifier := None\<rparr>)))
      else Inr (other\<lparr>m_ExtendedBuffer := None, m_Verifier := None\<rparr>))"

definition IdentityEx_assign_Identity :: "(bytes \<Rightarrow> bytes) \<Rightarrow> Identity \<Rightarrow> IdentityEx" where
  "IdentityEx_assign_Identity sha256 standard =
     \<lparr>m_StandardIdentity = standard, m_IdentHash = Identity_Hash sha256 standard,
      m_Verifier = None, m_ExtendedLen = 0, m_ExtendedBuffer = None\<rparr>"

text \<open>\<open>FromBuffer\<close> returns the number of bytes used, 0 on failure, and the changed object.\<close>

definition FromBuffer ::
    "(bytes \<Rightarrow> bytes) \<Rightarrow> bytes \<Rightarrow> nat \<Rightarrow> IdentityEx \<Rightarrow> (nat \<times> IdentityEx) result" where
  "FromBuffer sha256 buf len self =
     (if len < DEFAULT_IDENTITY_SIZE then Inr (0, self)
      else bind_result (mem_read 0 DEFAULT_IDENTITY_SIZE buf) (\<lambda>std.
        let self1 = self\<lparr>m_ExtendedLen := 0, m_ExtendedBuffer := None,
                         m_StandardIdentity := identity_of_bytes std\<rparr>;
            clen = certificate_length (m_StandardIdentity self1);
            finish = (\<lambda>self2. bind_result (mem_read 0 (GetFullLen self2) buf) (\<lambda>full.
              Inr (GetFullLen self2, self2\<lparr>m_IdentHash := sha256 full, m_Verifier := None\<rparr>)))
        in if clen \<noteq> 0 then
             (let self2 = self1\<lparr>m_ExtendedLen := big_to_native clen\<rparr>
              in if unat (m_ExtendedLen self2) + DEFAULT_IDENTITY_SIZE \<le> len then
                   bind_result
                     (mem_read DEFAULT_IDENTITY_SIZE (unat (m_ExtendedLen self2)) buf) (\<lambda>ext.
                     finish (self2\<lparr>m_ExtendedBuffer := Some ext\<rparr>))
                 else Inr (0, self2))
           else finish self1))"

text \<open>\<open>ToBuffer\<close> writes at offset \<open>p\<close> of a buffer and returns the length written.\<close>

definition ToBuffer :: "IdentityEx \<Rightarrow> nat \<Rightarrow> nat \<Rightarrow> bytes \<Rightarrow> (nat \<times> bytes) result" where
  "ToBuffer self p buflen dst =
     throw_if (buflen < DEFAULT_IDENTITY_SIZE) LengthError
       (bind_result (mem_write p (bytes_of_identity (m_StandardIdentity self)) dst) (\<lambda>dst1.
          case m_ExtendedBuffer self of
            Some ext \<Rightarrow>
              if 0 < m_ExtendedLen self then
                throw_if (buflen < DEFAULT_IDENTITY_SIZE + unat (m_ExtendedLen self)) LengthError
                  (bind_result (mem_read 0 (unat (m_ExtendedLen self)) ext) (\<lambda>bs.
                   bind_result (mem_write (p + DEFAULT_IDENTITY_SIZE) bs dst1) (\<lambda>dst2.
                     Inr (GetFullLen self, dst2))))
              else Inr (GetFullLen self, dst1)
          | None \<Rightarrow> Inr (GetFullLen self, dst1)))"

definition GetSigningKeyType :: "IdentityEx \<Rightarrow> u16 result" where
  "GetSigningKeyType self =
     (case m_ExtendedBuffer self of
        Some ext \<Rightarrow>
          if certificate_type (m_StandardIdentity self) = CERTIFICATE_TYPE_KEY
          then Read_buf True 0 ext else Inr 0
      | None \<Rightarrow> Inr 0)"

definition GetCryptoKeyType :: "IdentityEx \<Rightarrow> u16 result" where
  "GetCryptoKeyType self =
     (case m_ExtendedBuffer self of
        Some ext \<Rightarrow>
          if certificate_type (m_StandardIdentity self) = CERTIFICATE_TYPE_KEY
          then Read_buf True 2 ext else Inr 0
      | None \<Rightarrow> Inr 0)"

text \<open>
  Keys longer than the 128 bytes of the standard identity continue in the extended buffer,
  right after the two key types.
\<close>

definition excess_key :: "IdentityEx \<Rightarrow> nat \<Rightarrow> bytes result" where
  "excess_key self key_len =
     (case m_ExtendedBuffer self of
        None \<Rightarrow> Inl MemoryError
      | Some ext \<Rightarrow> bind_result (mem_read 4 (key_len - 128) ext) (\<lambda>bs.
          Inr (signing_key (m_StandardIdentity self) @ bs)))"

definition padded_key :: "IdentityEx \<Rightarrow> nat \<Rightarrow> bytes" where
  "padded_key self key_len = slice (128 - key_len) key_len (signing_key (m_StandardIdentity self))"

definition CreateVerifier :: "IdentityEx \<Rightarrow> IdentityEx result" where
  "CreateVerifier self =
     bind_result (GetSigningKeyType self) (\<lambda>key_type.
       let with_verifier = (\<lambda>v. self\<lparr>m_Verifier := Some v\<rparr>) in
       if key_type = 0 then
         Inr (with_verifier (DSAVerifier (signing_key (m_StandardIdentity self))))
       else if key_type = 1 then Inr (with_verifier (ECDSAP256Verifier (padded_key self 64)))
       else if key_type = 2 then Inr (with_verifier (ECDSAP384Verifier (padded_key self 96)))
       else if key_type = 3 then
         bind_result (excess_key self 132) (\<lambda>k. Inr (with_verifier (ECDSAP521Verifier k)))
       else if key_type = 4 then
         bind_result (excess_key self 256) (\<lambda>k. Inr (with_verifier (RSASHA2562048Verifier k)))
       else if key_type = 5 then
         bind_result (excess_key self 384) (\<lambda>k. Inr (with_verifier (RSASHA3843072Verifier k)))
       else if key_type = 6 then
         bind_result (excess_key self 512) (\<lambda>k. Inr (with_verifier (RSASHA5124096Verifier k)))
       else if key_type = 7 then Inr (with_verifier (EDDSA25519Verifier (padded_key self 32)))
       else Inr self)"

definition ensure_verifier :: "IdentityEx \<Rightarrow> IdentityEx result" where
  "ensure_verifier self = (if m_Verifier self = None then CreateVerifier self else Inr self)"

definition GetSignatureLen :: "IdentityEx \<Rightarrow> (nat \<times> IdentityEx) result" where
  "GetSignatureLen self =
     bind_result (ensure_verifier self) (\<lambda>i.
       Inr (case m_Verifier i of Some v \<Rightarrow> Verifier_GetSignatureLen v | None \<Rightarrow> 40, i))"

definition GetSigningPublicKeyLen :: "IdentityEx \<Rightarrow> (nat \<times> IdentityEx) result" where
  "GetSigningPublicKeyLen self =
     bind_result (ensure_verifier self) (\<lambda>i.
       Inr (case m_Verifier i of Some v \<Rightarrow> Verifier_GetPublicKeyLen v | None \<Rightarrow> 128, i))"

definition GetSigningPrivateKeyLen :: "IdentityEx \<Rightarrow> (nat \<times> IdentityEx) result" where
  "GetSigningPrivateKeyLen self =
     bind_result (ensure_verifier self) (\<lambda>i.
       case m_Verifier i of
         Some v \<Rightarrow> Inr (Verifier_GetPrivateKeyLen v, i)
       | None \<Rightarrow> bind_result (GetSignatureLen i) (\<lambda>(n, j). Inr (n div 2, j)))"

definition Verify ::
    "(Verifier \<Rightarrow> bytes \<Rightarrow> bytes \<Rightarrow> bool) \<Rightarrow> bytes \<Rightarrow> bytes \<Rightarrow> IdentityEx \<Rightarrow> (bool \<times> IdentityEx) result"
  where
  "Verify check buf sig self =
     bind_result (ensure_verifier self) (\<lambda>i.
       Inr (case m_Verifier i of Some v \<Rightarrow> check v buf sig | None \<Rightarrow> False, i))"

definition DropVerifier :: "IdentityEx \<Rightarrow> IdentityEx" where
  "DropVerifier self = self\<lparr>m_Verifier := None\<rparr>"

text \<open>
  The constructor from raw keys. \<open>uninit\<close> is the standard identity's memory before the
  constructor runs; an unsupported type leaves its signing key as it was.
\<close>

definition key_layout :: "(nat \<Rightarrow> bytes) \<Rightarrow> bytes \<Rightarrow> u16 \<Rightarrow> bytes \<Rightarrow> (bytes \<times> bytes) result" where
  "key_layout rand_bytes sk type uninit =
     (let padded = (\<lambda>n. bind_result (mem_read 0 n sk) (\<lambda>k. Inr (rand_bytes (128 - n) @ k, [])));
          split = (\<lambda>n. bind_result (mem_read 0 128 sk) (\<lambda>k.
                       bind_result (mem_read 128 (n - 128) sk) (\<lambda>e. Inr (k, e))))
      in if type = 1 then padded 64
         else if type = 2 then padded 96
         else if type = 3 then split 132
         else if type = 4 then split 256
         else if type = 5 then split 384
         else if type = 6 then split 512
         else if type = 7 then padded 32
         else Inr (uninit, []))"

definition IdentityEx_of_keys ::
    "(bytes \<Rightarrow> bytes) \<Rightarrow> (nat \<Rightarrow> bytes) \<Rightarrow> bytes \<Rightarrow> bytes \<Rightarrow> bytes \<Rightarrow> u16 \<Rightarrow> IdentityEx result" where
  "IdentityEx_of_keys sha256 rand_bytes uninit pk sk type =
     bind_result (mem_read 0 256 pk) (\<lambda>pub.
     if type \<noteq> 0 then
       bind_result (key_layout rand_bytes sk type uninit) (\<lambda>(skey, excess).
         let ext = word_encode True type @ word_encode True (0 :: u16) @ excess;
             elen = word_of_nat (4 + length excess) :: u16;
             std = \<lparr>public_key = pub, signing_key = skey,
                    certificate_type = CERTIFICATE_TYPE_KEY,
                    certificate_length = native_to_big elen\<rparr>
         in CreateVerifier
              \<lparr>m_StandardIdentity = std, m_IdentHash = sha256 (bytes_of_identity std @ ext),
               m_Verifier = None, m_ExtendedLen = elen, m_ExtendedBuffer = Some ext\<rparr>)
     else
       bind_result (mem_read 0 128 sk) (\<lambda>skey.
         let std = \<lparr>public_key = pub, signing_key = skey,
                    certificate_type = 0, certificate_length = 0\<rparr>
         in CreateVerifier
              \<lparr>m_StandardIdentity = std, m_IdentHash = Identity_Hash sha256 std,
               m_Verifier = None, m_ExtendedLen = 0, m_ExtendedBuffer = None\<rparr>))"

section \<open>Private keys\<close>

datatype Signer =
    DSASigner bytes
  | ECDSAP256Signer bytes
  | ECDSAP384Signer bytes
  | ECDSAP521Signer bytes
  | RSASHA2562048Signer bytes
  | RSASHA3843072Signer bytes
  | RSASHA5124096Signer bytes
  | EDDSA25519Signer bytes

record PrivateKeys =
  m_Public :: IdentityEx
  m_PrivateKey :: bytes
  m_SigningPrivateKey :: bytes
  m_Signer :: "Signer option"

definition CreateSigner :: "PrivateKeys \<Rightarrow> PrivateKeys result" where
  "CreateSigner self =
     bind_result (GetSigningKeyType (m_Public self)) (\<lambda>t.
       let k = m_SigningPrivateKey self; set = (\<lambda>sg. self\<lparr>m_Signer := Some sg\<rparr>) in
       Inr (if t = 0 then set (DSASigner k)
            else if t = 1 then set (ECDSAP256Signer k)
            else if t = 2 then set (ECDSAP384Signer k)
            else if t = 3 then set (ECDSAP521Signer k)
            else if t = 4 then set (RSASHA2562048Signer k)
            else if t = 5 then set (RSASHA3843072Signer k)
            else if t = 6 then set (RSASHA5124096Signer k)
            else if t = 7 then set (EDDSA25519Signer k)
            else self))"

text \<open>\<open>PrivateKeys::operator=(const Keys&)\<close>; \<open>uninit\<close> is the memory of the temporary identity.\<close>

definition PrivateKeys_assign_Keys ::
    "(bytes \<Rightarrow> bytes) \<Rightarrow> Identity \<Rightarrow> Keys \<Rightarrow> PrivateKeys \<Rightarrow> PrivateKeys result" where
  "PrivateKeys_assign_Keys sha256 uninit keys self =
     (let pub = IdentityEx_assign_Identity sha256 (Identity_assign_Keys keys uninit) in
     bind_result (GetSigningPrivateKeyLen pub) (\<lambda>(n, pub').
     bind_result (mem_read 0 n (k_signing_private_key keys)) (\<lambda>sk.
     bind_result (mem_write 0 sk (m_SigningPrivateKey self)) (\<lambda>skbuf.
       CreateSigner (self\<lparr>m_Public := pub', m_PrivateKey := k_private_key keys,
                          m_SigningPrivateKey := skbuf, m_Signer := None\<rparr>)))))"

definition PrivateKeys_FromBuffer ::
    "(bytes \<Rightarrow> bytes) \<Rightarrow> bytes \<Rightarrow> nat \<Rightarrow> PrivateKeys \<Rightarrow> (nat \<times> PrivateKeys) result" where
  "PrivateKeys_FromBuffer sha256 buf len self =
     bind_result (FromBuffer sha256 buf len (m_Public self)) (\<lambda>(ret, pub).
     bind_result (mem_read ret 256 buf) (\<lambda>priv.
     bind_result (GetSigningPrivateKeyLen pub) (\<lambda>(n, pub').
     bind_result (mem_read (ret + 256) n buf) (\<lambda>sk.
     bind_result (mem_write 0 sk (m_SigningPrivateKey self)) (\<lambda>skbuf.
     bind_result (CreateSigner (self\<lparr>m_Public := pub', m_PrivateKey := priv,
                                     m_SigningPrivateKey := skbuf, m_Signer := None\<rparr>)) (\<lambda>self'.
       Inr (ret + 256 + n, self')))))))"

text \<open>A \<open>const\<close> method: the verifier it may cache in \<open>m_Public\<close> is not returned.\<close>

definition PrivateKeys_ToBuffer ::
    "PrivateKeys \<Rightarrow> nat \<Rightarrow> bytes \<Rightarrow> (nat \<times> bytes) result" where
  "PrivateKeys_ToBuffer self len dst =
     bind_result (ToBuffer (m_Public self) 0 len dst) (\<lambda>(ret, dst1).
     bind_result (mem_write ret (m_PrivateKey self) dst1) (\<lambda>dst2.
     bind_result (GetSigningPrivateKeyLen (m_Public self)) (\<lambda>(n, _).
     bind_result (mem_read 0 n (m_SigningPrivateKey self)) (\<lambda>sk.
     bind_result (mem_write (ret + 256) sk dst2) (\<lambda>dst3.
       Inr (ret + 256 + n, dst3))))))"

section \<open>Routing keys and the XOR metric\<close>

text \<open>The routing key of a day: the hash of the ident followed by \<open>yyyymmdd\<close>.\<close>

definition dec_digit :: "nat \<Rightarrow> byte" where
  "dec_digit n = word_of_nat (48 + n mod 10)"

definition date_yyyymmdd :: "nat \<Rightarrow> nat \<Rightarrow> nat \<Rightarrow> bytes" where
  "date_yyyymmdd y m d =
     [dec_digit (y div 1000), dec_digit (y div 100), dec_digit (y div 10), dec_digit y,
      dec_digit (m div 10), dec_digit m, dec_digit (d div 10), dec_digit d]"

definition CreateRoutingKey :: "(bytes \<Rightarrow> bytes) \<Rightarrow> nat \<times> nat \<times> nat \<Rightarrow> bytes \<Rightarrow> bytes" where
  "CreateRoutingKey sha256 utc_date ident =
     (case utc_date of (y, m, d) \<Rightarrow> sha256 (take 32 ident @ date_yyyymmdd y m d))"

text \<open>
  An ident hash is 32 bytes, read by \<open>operator^\<close> as four 64-bit words in host order; the
  metric is compared as bytes by \<open>memcmp\<close>.
\<close>

definition GetLL :: "bytes \<Rightarrow> nat \<Rightarrow> u64" where
  "GetLL h i = word_decode False (slice (8 * i) 8 h)"

definition XORMetric_of :: "bytes \<Rightarrow> bytes \<Rightarrow> bytes" where
  "XORMetric_of key1 key2 =
     word_encode False (GetLL key1 0 XOR GetLL key2 0) @ word_encode False (GetLL key1 1 XOR GetLL key2 1) @
     word_encode False (GetLL key1 2 XOR GetLL key2 2) @ word_encode False (GetLL key1 3 XOR GetLL key2 3)"

fun memcmp_less :: "bytes \<Rightarrow> bytes \<Rightarrow> bool" where
  "memcmp_less (a # as) (b # bs) = (if a = b then memcmp_less as bs else a < b)"
| "memcmp_less _ _ = False"

definition XORMetric_less :: "bytes \<Rightarrow> bytes \<Rightarrow> bool" where
  "XORMetric_less m n = memcmp_less m n"

definition SetMin :: bytes where
  "SetMin = replicate 32 0"

definition SetMax :: bytes where
  "SetMax = replicate 32 255"

section \<open>The packed layout\<close>

named_theorems identity_simps \<open>evaluation of identity operations\<close>

lemma length_bytes_of_identity [simp]:
  "identity_wf i \<Longrightarrow> length (bytes_of_identity i) = DEFAULT_IDENTITY_SIZE"
  by (simp add: bytes_of_identity_def identity_wf_def DEFAULT_IDENTITY_SIZE_def)

lemma identity_of_bytes_of [simp]:
  assumes "identity_wf i"
  shows "identity_of_bytes (bytes_of_identity i) = i"
  using assms
  by (simp add: identity_of_bytes_def bytes_of_identity_def identity_wf_def slice_def nth_append)

lemma bytes_of_identity_of_bytes [simp]:
  assumes "length bs = DEFAULT_IDENTITY_SIZE"
  shows "bytes_of_identity (identity_of_bytes bs) = bs"
proof -
  have 1: "[bs ! 384] = slice 384 1 bs"
    using assms by (auto intro: nth_equalityI simp: DEFAULT_IDENTITY_SIZE_def)
  have 2: "word_encode False (word_decode False (slice 385 2 bs) :: u16) = slice 385 2 bs"
    using assms by (intro word_encode_decode) (simp_all add: DEFAULT_IDENTITY_SIZE_def)
  have "bs = slice 0 (256 + (128 + (1 + 2))) bs"
    using assms by (simp add: DEFAULT_IDENTITY_SIZE_def slice_def)
  also have "\<dots> = slice 0 256 bs @ slice 256 128 bs @ slice 384 1 bs @ slice 385 2 bs"
    by (simp only: slice_add) simp
  finally have "slice 0 256 bs @ slice 256 128 bs @ slice 384 1 bs @ slice 385 2 bs = bs"
    by (rule sym)
  then show ?thesis
    unfolding bytes_of_identity_def identity_of_bytes_def by (simp only: Identity.simps 1 2)
qed

lemma identity_wf_of_bytes [simp]:
  "length bs = DEFAULT_IDENTITY_SIZE \<Longrightarrow> identity_wf (identity_of_bytes bs)"
  by (simp add: identity_wf_def identity_of_bytes_def DEFAULT_IDENTITY_SIZE_def)

lemma big_native_inverse [simp]:
  "big_to_native (native_to_big (x :: u16)) = x"
  "native_to_big (big_to_native (x :: u16)) = x"
proof -
  have "word_encode False (word_decode False (word_encode True x) :: u16) = word_encode True x"
    by (rule word_encode_decode) simp_all
  then show "big_to_native (native_to_big x) = x"
    by (simp add: big_to_native_def native_to_big_def)
  have "word_encode True (word_decode True (word_encode False x) :: u16) = word_encode False x"
    by (rule word_encode_decode) simp_all
  then show "native_to_big (big_to_native x) = x"
    by (simp add: big_to_native_def native_to_big_def)
qed

lemma native_to_big_0 [simp]: "native_to_big (0 :: u16) = 0" "big_to_native (0 :: u16) = 0"
  by (simp_all add: native_to_big_def big_to_native_def)

lemma native_to_big_eq_0 [simp]: "native_to_big (x :: u16) = 0 \<longleftrightarrow> x = 0"
  by (metis big_native_inverse(1) native_to_big_0)

lemma big_to_native_eq_0 [simp]: "big_to_native (x :: u16) = 0 \<longleftrightarrow> x = 0"
  by (metis big_native_inverse(2) native_to_big_0)

section \<open>Well-formed extended identities\<close>

text \<open>
  What a successful \<open>FromBuffer\<close> establishes: the extended buffer is there exactly when its
  length is not zero, has that length, and the certificate announces it.
\<close>

definition full_bytes :: "IdentityEx \<Rightarrow> bytes" where
  "full_bytes i = bytes_of_identity (m_StandardIdentity i)
     @ (case m_ExtendedBuffer i of None \<Rightarrow> [] | Some ext \<Rightarrow> ext)"

definition identityex_wf :: "(bytes \<Rightarrow> bytes) \<Rightarrow> IdentityEx \<Rightarrow> bool" where
  "identityex_wf sha256 i \<longleftrightarrow>
     identity_wf (m_StandardIdentity i) \<and>
     certificate_length (m_StandardIdentity i) = native_to_big (m_ExtendedLen i) \<and>
     (case m_ExtendedBuffer i of
        None \<Rightarrow> m_ExtendedLen i = 0
      | Some ext \<Rightarrow> m_ExtendedLen i \<noteq> 0 \<and> length ext = unat (m_ExtendedLen i)) \<and>
     m_IdentHash i = sha256 (full_bytes i)"

lemma length_full_bytes [simp]: "identityex_wf sha i \<Longrightarrow> length (full_bytes i) = GetFullLen i"
  by (auto simp: identityex_wf_def full_bytes_def GetFullLen_def split: option.splits)

lemma ToBuffer_wf:
  assumes wf: "identityex_wf sha i" and room: "p + GetFullLen i \<le> length dst"
    and len: "GetFullLen i \<le> buflen"
  shows "ToBuffer i p buflen dst = Inr (GetFullLen i, poke p (full_bytes i) dst)"
proof (cases "m_ExtendedBuffer i")
  case None
  with wf have "m_ExtendedLen i = 0" "identity_wf (m_StandardIdentity i)"
    by (simp_all add: identityex_wf_def)
  with None room len show ?thesis
    by (simp add: ToBuffer_def GetFullLen_def mem_write_def full_bytes_def)
next
  case (Some ext)
  with wf have ext: "length ext = unat (m_ExtendedLen i)" "0 < m_ExtendedLen i"
    and std: "identity_wf (m_StandardIdentity i)"
    by (simp_all add: identityex_wf_def word_gt_0)
  let ?b = "bytes_of_identity (m_StandardIdentity i)"
  have "mem_write p ?b dst = Inr (poke p ?b dst)"
    using room std by (simp add: mem_write_def GetFullLen_def)
  moreover have "poke (p + DEFAULT_IDENTITY_SIZE) ext (poke p ?b dst) = poke p (?b @ ext) dst"
    using poke_append [of p ?b ext dst] room ext(1) std by (simp add: GetFullLen_def)
  moreover have "mem_read 0 (unat (m_ExtendedLen i)) ext = Inr ext"
    using ext by (simp add: mem_read_def slice_def)
  ultimately show ?thesis
    using Some ext len room std
    by (simp add: ToBuffer_def GetFullLen_def mem_write_def full_bytes_def)
qed

lemma FromBuffer_full_bytes:
  assumes wf: "identityex_wf sha i" and buf: "buf = full_bytes i @ rest"
    and len: "GetFullLen i \<le> len"
  shows "FromBuffer sha buf len self = Inr (GetFullLen i, i\<lparr>m_Verifier := None\<rparr>)"
proof -
  have std: "identity_wf (m_StandardIdentity i)"
    and clen: "certificate_length (m_StandardIdentity i) = native_to_big (m_ExtendedLen i)"
    and hash: "m_IdentHash i = sha (full_bytes i)"
    using wf by (simp_all add: identityex_wf_def)
  have len0: "\<not> len < DEFAULT_IDENTITY_SIZE"
    using len by (simp add: GetFullLen_def)
  have all: "mem_read 0 (GetFullLen i) buf = Inr (full_bytes i)"
    using wf by (simp add: buf mem_read_def slice_def)
  have pre: "mem_read 0 DEFAULT_IDENTITY_SIZE buf = Inr (bytes_of_identity (m_StandardIdentity i))"
    using std by (simp add: buf full_bytes_def mem_read_def slice_def)
  show ?thesis
  proof (cases "m_ExtendedBuffer i")
    case None
    with wf have "m_ExtendedLen i = 0" by (simp add: identityex_wf_def)
    moreover have "full_bytes i = bytes_of_identity (m_StandardIdentity i)"
      by (simp add: full_bytes_def None)
    ultimately show ?thesis
      using None len0 pre std clen hash by (simp add: FromBuffer_def Let_def GetFullLen_def)
  next
    case (Some ext)
    with wf have ext: "m_ExtendedLen i \<noteq> 0" "length ext = unat (m_ExtendedLen i)"
      by (simp_all add: identityex_wf_def)
    have "mem_read DEFAULT_IDENTITY_SIZE (unat (m_ExtendedLen i)) buf = Inr ext"
      using std ext by (simp add: buf full_bytes_def Some mem_read_def slice_def)
    then show ?thesis
      using Some len len0 pre std clen hash ext all
      by (simp add: FromBuffer_def Let_def GetFullLen_def add.commute)
  qed
qed

text \<open>On any bytes, \<open>FromBuffer\<close> stays inside its buffer and either rejects or yields a
  well-formed identity whose encoding is the bytes it used.\<close>

lemma FromBuffer_cases:
  assumes len: "len \<le> length buf"
  shows "(\<exists>i. FromBuffer sha buf len self = Inr (0, i)) \<or>
    (\<exists>i. FromBuffer sha buf len self = Inr (GetFullLen i, i) \<and> identityex_wf sha i \<and>
         m_Verifier i = None \<and> GetFullLen i \<le> len \<and> full_bytes i = take (GetFullLen i) buf)"
proof (cases "len < DEFAULT_IDENTITY_SIZE")
  case False
  let ?std = "identity_of_bytes (slice 0 DEFAULT_IDENTITY_SIZE buf)"
  let ?clen = "certificate_length ?std"
  have pre: "mem_read 0 DEFAULT_IDENTITY_SIZE buf = Inr (slice 0 DEFAULT_IDENTITY_SIZE buf)"
    and std: "length (slice 0 DEFAULT_IDENTITY_SIZE buf) = DEFAULT_IDENTITY_SIZE"
    using False len by (simp_all add: mem_read_def)
  show ?thesis
  proof (cases "?clen = 0")
    case True
    define i where "i = \<lparr>m_StandardIdentity = ?std, m_IdentHash = sha (slice 0 DEFAULT_IDENTITY_SIZE buf),
      m_Verifier = None, m_ExtendedLen = 0, m_ExtendedBuffer = None\<rparr>"
    have "FromBuffer sha buf len self = Inr (GetFullLen i, i)"
      using False True pre by (simp add: FromBuffer_def Let_def i_def GetFullLen_def)
    moreover have "identityex_wf sha i"
      using std True by (simp add: identityex_wf_def i_def full_bytes_def)
    ultimately show ?thesis
      using std False by (intro disjI2 exI [of _ i]) (simp add: i_def GetFullLen_def full_bytes_def slice_def)
  next
    case ext: False
    let ?n = "big_to_native ?clen"
    show ?thesis
    proof (cases "unat ?n + DEFAULT_IDENTITY_SIZE \<le> len")
      case True
      let ?ext = "slice DEFAULT_IDENTITY_SIZE (unat ?n) buf"
      define i where "i = \<lparr>m_StandardIdentity = ?std,
        m_IdentHash = sha (slice 0 (unat ?n + DEFAULT_IDENTITY_SIZE) buf),
        m_Verifier = None, m_ExtendedLen = ?n, m_ExtendedBuffer = Some ?ext\<rparr>"
      have eq: "FromBuffer sha buf len self = Inr (GetFullLen i, i)"
        using False ext True pre len
        by (simp add: FromBuffer_def Let_def i_def GetFullLen_def mem_read_def)
      have full: "full_bytes i = slice 0 (unat ?n + DEFAULT_IDENTITY_SIZE) buf"
        using std slice_add [of 0 DEFAULT_IDENTITY_SIZE "unat ?n" buf]
        by (simp add: full_bytes_def i_def add.commute)
      have "length ?ext = unat ?n" using True len by simp
      then have "identityex_wf sha i"
        using std ext full by (simp add: identityex_wf_def) (simp add: i_def)
      with eq full True show ?thesis
        by (intro disjI2 exI [of _ i]) (simp add: i_def GetFullLen_def slice_def)
    next
      case no: False
      then show ?thesis
        using False ext pre by (simp add: FromBuffer_def Let_def)
    qed
  qed
qed (simp add: FromBuffer_def)

section \<open>Verifiers and signature lengths\<close>

text \<open>
  The bytes \<open>CreateVerifier\<close> needs: a key certificate must be long enough for its two key
  types and for the part of the key that does not fit the standard identity.
\<close>

fun excess_of_type :: "u16 \<Rightarrow> nat" where
  "excess_of_type t = (if t = 3 then 4 else if t = 4 then 128 else if t = 5 then 256
     else if t = 6 then 384 else 0)"

definition key_cert_ok :: "IdentityEx \<Rightarrow> bool" where
  "key_cert_ok i \<longleftrightarrow>
     (case m_ExtendedBuffer i of
        None \<Rightarrow> True
      | Some ext \<Rightarrow> certificate_type (m_StandardIdentity i) = CERTIFICATE_TYPE_KEY \<longrightarrow>
          2 \<le> length ext \<and>
          (0 < excess_of_type (word_decode True (take 2 ext)) \<longrightarrow>
             4 + excess_of_type (word_decode True (take 2 ext)) \<le> length ext))"

fun signature_len_of_type :: "u16 \<Rightarrow> nat" where
  "signature_len_of_type t = (if t = 1 then 64 else if t = 2 then 96 else if t = 3 then 132
     else if t = 4 then 256 else if t = 5 then 384 else if t = 6 then 512
     else if t = 7 then 64 else 40)"

definition signing_type :: "IdentityEx \<Rightarrow> u16" where
  "signing_type i =
     (case m_ExtendedBuffer i of
        None \<Rightarrow> 0
      | Some ext \<Rightarrow> if certificate_type (m_StandardIdentity i) = CERTIFICATE_TYPE_KEY
                    then word_decode True (take 2 ext) else 0)"

lemma GetSigningKeyType_ok: "key_cert_ok i \<Longrightarrow> GetSigningKeyType i = Inr (signing_type i)"
  by (auto simp: key_cert_ok_def GetSigningKeyType_def signing_type_def Read_buf_def mem_read_def
      slice_def split: option.splits)

lemma excess_key_ok:
  assumes "key_cert_ok i" and "0 < excess_of_type (signing_type i)"
  shows "\<exists>k. excess_key i (128 + excess_of_type (signing_type i)) = Inr k"
proof (cases "m_ExtendedBuffer i")
  case None
  with assms show ?thesis by (simp add: signing_type_def)
next
  case (Some ext)
  show ?thesis
  proof (cases "certificate_type (m_StandardIdentity i) = CERTIFICATE_TYPE_KEY")
    case True
    then have t: "signing_type i = word_decode True (take 2 ext)"
      by (simp add: signing_type_def Some)
    from assms True have "4 + excess_of_type (signing_type i) \<le> length ext"
      unfolding t by (simp add: key_cert_ok_def Some del: excess_of_type.simps)
    then show ?thesis
      by (simp add: excess_key_def Some mem_read_def del: excess_of_type.simps)
  next
    case False
    with assms(2) show ?thesis by (simp add: signing_type_def Some)
  qed
qed

lemma CreateVerifier_ok:
  assumes "key_cert_ok i"
  shows "\<exists>v. CreateVerifier i = Inr (i\<lparr>m_Verifier := v\<rparr>) \<and>
    (m_Verifier i = None \<longrightarrow>
      (case v of Some w \<Rightarrow> Verifier_GetSignatureLen w | None \<Rightarrow> 40) = signature_len_of_type (signing_type i))"
proof -
  note ty = GetSigningKeyType_ok [OF assms]
  consider "signing_type i \<in> {3, 4, 5, 6}" | "signing_type i \<notin> {3, 4, 5, 6}" by blast
  then show ?thesis
  proof cases
    case 1
    then have "0 < excess_of_type (signing_type i)" by auto
    from excess_key_ok [OF assms this]
    obtain k where "excess_key i (128 + excess_of_type (signing_type i)) = Inr k" by blast
    with 1 ty show ?thesis
      by (intro exI [of _ "m_Verifier (case CreateVerifier i of Inr j \<Rightarrow> j)"])
        (auto simp: CreateVerifier_def)
  next
    case 2
    with ty show ?thesis
      by (intro exI [of _ "m_Verifier (case CreateVerifier i of Inr j \<Rightarrow> j)"])
        (auto simp: CreateVerifier_def Let_def)
  qed
qed

lemma CreateVerifier_short:
  assumes "\<not> key_cert_ok i"
  shows "CreateVerifier i = Inl MemoryError"
proof -
  from assms obtain ext where ext: "m_ExtendedBuffer i = Some ext"
    and ct: "certificate_type (m_StandardIdentity i) = CERTIFICATE_TYPE_KEY"
    and short: "length ext < 2 \<or> 0 < excess_of_type (word_decode True (take 2 ext)) \<and>
                length ext < 4 + excess_of_type (word_decode True (take 2 ext))"
    by (auto simp: key_cert_ok_def not_le split: option.splits simp del: excess_of_type.simps)
  show ?thesis
  proof (cases "length ext < 2")
    case True
    then show ?thesis
      by (simp add: CreateVerifier_def GetSigningKeyType_def ext ct Read_buf_def mem_read_def)
  next
    case False
    then have "GetSigningKeyType i = Inr (word_decode True (take 2 ext))"
      by (simp add: GetSigningKeyType_def ext ct Read_buf_def mem_read_def slice_def)
    with short False show ?thesis
      by (auto simp: CreateVerifier_def Let_def excess_key_def ext mem_read_def split: if_splits)
  qed
qed

lemma GetSignatureLen_ok:
  assumes "key_cert_ok i" and "m_Verifier i = None"
  shows "\<exists>v. GetSignatureLen i = Inr (signature_len_of_type (signing_type i), i\<lparr>m_Verifier := v\<rparr>)"
proof -
  from CreateVerifier_ok [OF assms(1)] assms(2)
  obtain v where "CreateVerifier i = Inr (i\<lparr>m_Verifier := v\<rparr>)"
    and "(case v of Some w \<Rightarrow> Verifier_GetSignatureLen w | None \<Rightarrow> 40) = signature_len_of_type (signing_type i)"
    by blast
  then show ?thesis
    by (intro exI [of _ v])
      (simp add: GetSignatureLen_def ensure_verifier_def assms(2) del: signature_len_of_type.simps)
qed

lemma GetSignatureLen_short:
  "\<not> key_cert_ok i \<Longrightarrow> m_Verifier i = None \<Longrightarrow> GetSignatureLen i = Inl MemoryError"
  by (simp add: GetSignatureLen_def ensure_verifier_def CreateVerifier_short)

lemma key_cert_ok_update [simp]: "key_cert_ok (i\<lparr>m_Verifier := v\<rparr>) = key_cert_ok i"
  by (simp add: key_cert_ok_def split: option.splits)

lemma signing_type_update [simp]: "signing_type (i\<lparr>m_Verifier := v\<rparr>) = signing_type i"
  by (simp add: signing_type_def split: option.splits)

lemma identityex_wf_update [simp]: "identityex_wf sha (i\<lparr>m_Verifier := v\<rparr>) = identityex_wf sha i"
  by (simp add: identityex_wf_def full_bytes_def split: option.splits)

lemma GetFullLen_update [simp]: "GetFullLen (i\<lparr>m_Verifier := v\<rparr>) = GetFullLen i"
  by (simp add: GetFullLen_def)

lemma full_bytes_update [simp]: "full_bytes (i\<lparr>m_Verifier := v\<rparr>) = full_bytes i"
  by (simp add: full_bytes_def)

lemma IdentityEx_assign_wf:
  "identityex_wf sha i \<Longrightarrow> IdentityEx_assign i = Inr (i\<lparr>m_Verifier := None\<rparr>)"
  by (auto simp: IdentityEx_assign_def identityex_wf_def mem_read_def slice_def split: option.splits)

section \<open>Identities built from keys\<close>

fun verifier_of_type :: "u16 \<Rightarrow> bytes \<Rightarrow> Verifier" where
  "verifier_of_type t k =
     (if t = 1 then ECDSAP256Verifier k else if t = 2 then ECDSAP384Verifier k
      else if t = 3 then ECDSAP521Verifier k else if t = 4 then RSASHA2562048Verifier k
      else if t = 5 then RSASHA3843072Verifier k else if t = 6 then RSASHA5124096Verifier k
      else if t = 7 then EDDSA25519Verifier k else DSAVerifier k)"

abbreviation key_len_of_type :: "u16 \<Rightarrow> nat" where
  "key_len_of_type t \<equiv> Verifier_GetPublicKeyLen (verifier_of_type t [])"

lemma u16_less_8:
  assumes "(t :: u16) < 8"
  shows "t = 0 \<or> t = 1 \<or> t = 2 \<or> t = 3 \<or> t = 4 \<or> t = 5 \<or> t = 6 \<or> t = 7"
proof -
  have "unat t < 8" using assms by (simp add: word_less_nat_alt)
  then have "unat t = 0 \<or> unat t = 1 \<or> unat t = 2 \<or> unat t = 3 \<or> unat t = 4 \<or> unat t = 5 \<or>
      unat t = 6 \<or> unat t = 7" by linarith
  then show ?thesis by (simp add: word_unat_eq_iff)
qed

lemma CreateVerifier_of_ext:
  assumes "m_StandardIdentity i = std" and "m_ExtendedBuffer i = Some ext"
    and "certificate_type std = CERTIFICATE_TYPE_KEY"
    and "ext = word_encode True type @ word_encode True (0 :: u16) @ excess"
  shows "GetSigningKeyType i = Inr type"
    and "key_len = 128 + length excess \<Longrightarrow> excess_key i key_len = Inr (signing_key std @ excess)"
  using assms
  by (simp_all add: GetSigningKeyType_def Read_buf_def mem_read_def slice_def excess_key_def)

lemma padded_key_layout:
  assumes "m_StandardIdentity i = std" and "signing_key std = rand @ k"
    and "length rand = 128 - n" and "length k = n" and "n \<le> 128"
  shows "padded_key i n = k"
  using assms by (simp add: padded_key_def slice_def)

lemma CreateVerifier_key:
  assumes i: "m_StandardIdentity i = std" "m_ExtendedBuffer i = Some ext"
      "certificate_type std = CERTIFICATE_TYPE_KEY"
      "ext = word_encode True type @ word_encode True (0 :: u16) @ excess"
    and lay: "key_layout rand_bytes sk type uninit = Inr (signing_key std, excess)"
    and rand: "\<And>n. length (rand_bytes n) = n"
    and ty: "type < 8" "type \<noteq> 0"
  shows "CreateVerifier i =
    Inr (i\<lparr>m_Verifier := Some (verifier_of_type type (take (key_len_of_type type) sk))\<rparr>)"
proof (cases "type \<in> {1, 2, 7}")
  case True
  then have len: "key_len_of_type type \<le> length sk" "key_len_of_type type \<le> 128"
    and key: "signing_key std = rand_bytes (128 - key_len_of_type type) @ take (key_len_of_type type) sk"
    using lay by (auto simp: key_layout_def Let_def result_simps slice_def)
  have "padded_key i (key_len_of_type type) = take (key_len_of_type type) sk"
    by (rule padded_key_layout [OF i(1) key rand]) (use len in \<open>simp_all del: verifier_of_type.simps\<close>)
  with True CreateVerifier_of_ext(1) [OF i] show ?thesis
    by (auto simp: CreateVerifier_def Let_def)
next
  case False
  with ty u16_less_8 [OF ty(1)] have ty4: "type = 3 \<or> type = 4 \<or> type = 5 \<or> type = 6" by auto
  then have len: "key_len_of_type type \<le> length sk" "128 \<le> key_len_of_type type"
    and sk: "signing_key std = take 128 sk"
    and ex: "excess = slice 128 (key_len_of_type type - 128) sk"
    using lay by (auto simp: key_layout_def Let_def result_simps slice_def)
  have "take (key_len_of_type type) sk = signing_key std @ excess"
    using len take_add [of 128 "key_len_of_type type - 128" sk] by (simp add: sk ex slice_def)
  moreover have "key_len_of_type type = 128 + length excess"
    using len by (simp add: ex)
  then have "excess_key i (key_len_of_type type) = Inr (signing_key std @ excess)"
    by (rule CreateVerifier_of_ext(2) [OF i])
  ultimately show ?thesis
    using ty4 CreateVerifier_of_ext(1) [OF i] by (auto simp: CreateVerifier_def Let_def)
qed


lemma IdentityEx_of_keys_result:
  assumes len: "256 \<le> length pk" "512 \<le> length sk" and rand: "\<And>n. length (rand_bytes n) = n"
    and ty: "type < 8"
  shows "\<exists>i. IdentityEx_of_keys sha256 rand_bytes uninit pk sk type = Inr i \<and>
    identityex_wf sha256 i \<and> signing_type i = type \<and> public_key (m_StandardIdentity i) = take 256 pk \<and>
    GetFullLen i = DEFAULT_IDENTITY_SIZE + (if type = 0 then 0 else 4 + excess_of_type type) \<and>
    m_Verifier i = Some (verifier_of_type type (take (key_len_of_type type) sk))"
proof (cases "type = 0")
  case True
  with len show ?thesis
    by (auto simp: IdentityEx_of_keys_def Let_def mem_read_def slice_def CreateVerifier_def
        GetSigningKeyType_def identityex_wf_def identity_wf_def full_bytes_def Identity_Hash_def
        signing_type_def GetFullLen_def)
next
  case False
  obtain skey excess where lay: "key_layout rand_bytes sk type uninit = Inr (skey, excess)"
    and skey: "length skey = 128" and ex: "length excess \<le> 384"
    and ty_len: "length excess = excess_of_type type"
    using u16_less_8 [OF ty] False len rand by (auto simp: key_layout_def Let_def mem_read_def)
  define ext where "ext = word_encode True type @ word_encode True (0 :: u16) @ excess"
  define std where "std = \<lparr>public_key = take 256 pk, signing_key = skey,
    certificate_type = CERTIFICATE_TYPE_KEY,
    certificate_length = native_to_big (word_of_nat (4 + length excess) :: u16)\<rparr>"
  define i where "i = \<lparr>m_StandardIdentity = std, m_IdentHash = sha256 (bytes_of_identity std @ ext),
    m_Verifier = None, m_ExtendedLen = word_of_nat (4 + length excess), m_ExtendedBuffer = Some ext\<rparr>"
  have elen: "unat (word_of_nat (4 + length excess) :: u16) = 4 + length excess"
    using ex by (simp only: unat_of_nat) (simp add: take_bit_eq_mod)
  then have ne: "(word_of_nat (4 + length excess) :: u16) \<noteq> 0"
    by (metis add_is_0 unsigned_0 zero_neq_numeral)
  have "IdentityEx_of_keys sha256 rand_bytes uninit pk sk type = CreateVerifier i"
    using len False lay
    by (simp add: IdentityEx_of_keys_def Let_def mem_read_def slice_def i_def std_def ext_def)
  also have "\<dots> = Inr (i\<lparr>m_Verifier := Some (verifier_of_type type (take (key_len_of_type type) sk))\<rparr>)"
    using lay rand ty False
    by (intro CreateVerifier_key [of i std ext type excess]) (simp_all add: i_def std_def ext_def)
  finally have res: "IdentityEx_of_keys sha256 rand_bytes uninit pk sk type = \<dots>" .
  have "identityex_wf sha256 i"
    using ne elen skey len
    by (simp add: identityex_wf_def i_def full_bytes_def identity_wf_def)
      (simp add: std_def ext_def)
  moreover have "signing_type i = type"
    by (simp add: signing_type_def i_def std_def ext_def)
  moreover have "public_key (m_StandardIdentity i) = take 256 pk"
    by (simp add: i_def std_def)
  moreover have "GetFullLen i = DEFAULT_IDENTITY_SIZE + (4 + excess_of_type type)"
    using elen by (simp add: GetFullLen_def i_def ty_len del: excess_of_type.simps of_nat_add)
  ultimately show ?thesis
    unfolding res using False by (simp del: verifier_of_type.simps excess_of_type.simps)
qed


section \<open>The metric of the network database\<close>

text \<open>The word-wise exclusive or of the code is the exclusive or of the bytes.\<close>

lemma be_encode_xor:
  "be_encode n (x XOR y) = map2 (XOR) (be_encode n x) (be_encode n y)"
proof (induction n arbitrary: x y)
  case (Suc n)
  have "(x XOR y) div 256 = (x div 256) XOR (y div 256)"
    using drop_bit_xor [of 8 x y] by (simp add: drop_bit_eq_div)
  then show ?case
    using Suc by (simp add: of_nat_xor_eq)
qed simp

lemma word_encode_xor:
  "word_encode big ((x :: 'a::len word) XOR y) = map2 (XOR) (word_encode big x) (word_encode big y)"
  by (simp add: word_encode_def Let_def unsigned_xor_eq be_encode_xor rev_map zip_rev)

definition xor_bytes :: "bytes \<Rightarrow> bytes \<Rightarrow> bytes" where
  "xor_bytes as bs = map2 (XOR) as bs"

lemma word_encode_GetLL:
  assumes "length h = 32" and "i < 4"
  shows "word_encode False (GetLL h i) = slice (8 * i) 8 h"
  unfolding GetLL_def using assms by (intro word_encode_decode) simp_all

lemma slices_8:
  "length h = 32 \<Longrightarrow> slice 0 8 h @ slice 8 8 h @ slice 16 8 h @ slice 24 8 h = h"
  using slice_add [of 0 8 "8 + (8 + 8)" h] slice_add [of 8 8 "8 + 8" h] slice_add [of 16 8 8 h]
  by (simp add: slice_def)

lemma XORMetric_bytes:
  assumes a: "length a = 32" and b: "length b = 32"
  shows "XORMetric_of a b = xor_bytes a b"
proof -
  have eq: "word_encode False (GetLL a i XOR GetLL b i) = xor_bytes (slice (8 * i) 8 a) (slice (8 * i) 8 b)"
    if "i < 4" for i
    using that a b by (simp add: word_encode_xor word_encode_GetLL xor_bytes_def)
  have "XORMetric_of a b = xor_bytes (slice 0 8 a) (slice 0 8 b) @ xor_bytes (slice 8 8 a) (slice 8 8 b)
      @ xor_bytes (slice 16 8 a) (slice 16 8 b) @ xor_bytes (slice 24 8 a) (slice 24 8 b)"
    unfolding XORMetric_of_def using eq [of 0] eq [of 1] eq [of 2] eq [of 3] by simp
  also have "\<dots> = xor_bytes (slice 0 8 a @ slice 8 8 a @ slice 16 8 a @ slice 24 8 a)
      (slice 0 8 b @ slice 8 8 b @ slice 16 8 b @ slice 24 8 b)"
    using a b by (simp add: xor_bytes_def)
  finally show ?thesis
    using a b by (simp add: slices_8)
qed

lemma length_xor_bytes [simp]: "length (xor_bytes a b) = min (length a) (length b)"
  by (simp add: xor_bytes_def)

lemma xor_bytes_commute: "xor_bytes a b = xor_bytes b a"
  by (rule nth_equalityI) (simp_all add: xor_bytes_def xor.commute)

lemma xor_bytes_cancel: "length a = length b \<Longrightarrow> xor_bytes a (xor_bytes a b) = b"
  by (rule nth_equalityI) (simp_all add: xor_bytes_def flip: xor.assoc)

lemma xor_bytes_self: "xor_bytes a a = replicate (length a) 0"
  by (rule nth_equalityI) (simp_all add: xor_bytes_def)

lemma memcmp_less_irrefl: "\<not> memcmp_less a a"
  by (induction a) simp_all

lemma memcmp_less_trans: "memcmp_less a b \<Longrightarrow> memcmp_less b c \<Longrightarrow> memcmp_less a c"
proof (induction a b arbitrary: c rule: memcmp_less.induct)
  case (1 x xs y ys)
  then show ?case by (cases c) (auto split: if_splits)
qed simp_all

lemma be_decode_Cons: "be_decode (b # bs) = unat b * 256 ^ length bs + be_decode bs"
  by (induction bs rule: rev_induct) (simp_all add: be_decode_def algebra_simps)

text \<open>\<open>memcmp\<close> compares blocks of one length as numbers.\<close>

lemma memcmp_less_be_decode: "length a = length b \<Longrightarrow> memcmp_less a b \<longleftrightarrow> be_decode a < be_decode b"
proof (induction a b rule: memcmp_less.induct)
  case (1 x xs y ys)
  have step: "be_decode (u # us) < be_decode (v # vs)" if "u < v" "length us = length vs" for u v us vs
  proof -
    have "unat u + 1 \<le> unat v" using that(1) by (simp add: word_less_nat_alt)
    then have "(unat u + 1) * 256 ^ length us \<le> unat v * 256 ^ length us" by (rule mult_right_mono) simp
    then show ?thesis using be_decode_less [of us] that(2) by (simp add: be_decode_Cons)
  qed
  show ?case
  proof (cases x y rule: linorder_cases)
    case less
    then show ?thesis using step [of x y xs ys] 1 by auto
  next
    case equal
    then show ?thesis using 1 by (simp add: be_decode_Cons)
  next
    case greater
    then show ?thesis using step [of y x ys xs] 1 by auto
  qed
qed simp_all

lemma memcmp_less_total:
  "length a = length b \<Longrightarrow> memcmp_less a b \<or> a = b \<or> memcmp_less b a"
  by (induction a b rule: memcmp_less.induct) auto


section \<open>Properties of identities\<close>

text \<open>
  C14 (round trip). A well-formed identity written by \<open>ToBuffer\<close> into a large enough buffer is
  read back by \<open>FromBuffer\<close> with the same length; only the cached verifier is gone.
\<close>

theorem identity_roundtrip:
  assumes "identityex_wf sha i" and "GetFullLen i \<le> length dst"
  shows "\<exists>dst'. ToBuffer i 0 (length dst) dst = Inr (GetFullLen i, dst') \<and>
    FromBuffer sha dst' (length dst') self = Inr (GetFullLen i, i\<lparr>m_Verifier := None\<rparr>)"
proof -
  let ?d = "poke 0 (full_bytes i) dst"
  have len: "length ?d = length dst" using assms by simp
  have "?d = full_bytes i @ drop (GetFullLen i) dst"
    using assms(1) by (simp add: poke_def)
  from FromBuffer_full_bytes [OF assms(1) this, of "length ?d" self] assms(2) len
  have "FromBuffer sha ?d (length ?d) self = Inr (GetFullLen i, i\<lparr>m_Verifier := None\<rparr>)" by simp
  with ToBuffer_wf [OF assms(1), of 0 dst "length dst"] assms(2) show ?thesis by simp
qed

definition sample_identity :: IdentityEx where
  "sample_identity = IdentityEx_default\<lparr>m_IdentHash := replicate 32 1\<rparr>"

theorem identity_roundtrip_witness:
  "\<exists>dst'. ToBuffer sample_identity 0 400 (replicate 400 3) = Inr (387, dst') \<and>
    FromBuffer (\<lambda>_. replicate 32 1) dst' (length dst') IdentityEx_default = Inr (387, sample_identity)"
proof -
  have "identityex_wf (\<lambda>_. replicate 32 1) sample_identity" "GetFullLen sample_identity = 387"
    "sample_identity\<lparr>m_Verifier := None\<rparr> = sample_identity"
    by (simp_all add: sample_identity_def IdentityEx_default_def identityex_wf_def identity_wf_def
        GetFullLen_def DEFAULT_IDENTITY_SIZE_def del: replicate.simps)
  with identity_roundtrip [of "\<lambda>_. replicate 32 1" sample_identity "replicate 400 3" IdentityEx_default]
  show ?thesis by simp
qed

text \<open>
  C27 (invariant). On any buffer, \<open>FromBuffer\<close> reads only inside it; it either returns 0, or
  establishes the invariant of an identity: its encoding is the bytes read, its hash is the hash
  of these bytes, and its length is at most the length given.
\<close>

theorem FromBuffer_sound:
  assumes "len \<le> length buf"
  shows "\<exists>r i. FromBuffer sha buf len self = Inr (r, i) \<and>
    (r \<noteq> 0 \<longrightarrow> identityex_wf sha i \<and> r = GetFullLen i \<and> r \<le> len \<and>
       full_bytes i = take r buf \<and> m_IdentHash i = sha (take r buf))"
  using FromBuffer_cases [OF assms, of sha self] by (auto simp: identityex_wf_def)

theorem FromBuffer_sound_witness:
  "\<exists>r i. FromBuffer rev (replicate 400 0) 390 IdentityEx_default = Inr (r, i) \<and> r \<le> 390"
  using FromBuffer_sound [of 390 "replicate 400 0" rev IdentityEx_default] by fastforce

text \<open>
  C28 (error). The signature length of an identity without a cached verifier can be had exactly when its
  key certificate holds the key types and the excess of its key; otherwise the code reads
  outside the certificate's buffer. The length is the one of the signature type.
\<close>

theorem GetSignatureLen_exact:
  assumes "m_Verifier i = None"
  shows "if key_cert_ok i
    then \<exists>j. GetSignatureLen i = Inr (signature_len_of_type (signing_type i), j)
    else GetSignatureLen i = Inl MemoryError"
  using GetSignatureLen_ok [OF _ assms] GetSignatureLen_short [OF _ assms] by auto

theorem GetSignatureLen_exact_witness:
  "\<exists>j. GetSignatureLen IdentityEx_default = Inr (40, j)"
  using GetSignatureLen_exact [of IdentityEx_default]
  by (simp add: IdentityEx_default_def key_cert_ok_def signing_type_def)

text \<open>
  C29 (functional). The constructor from raw keys accepts every supported signature type, keeps
  the public key, records the type, and its verifier is given exactly the signing public key,
  whether the key is shorter than the 128 bytes of the standard identity or continues in the
  certificate.
\<close>

theorem IdentityEx_of_keys_correct:
  assumes "256 \<le> length pk" and "512 \<le> length sk" and "\<And>n. length (rand_bytes n) = n"
    and "type < 8"
  shows "\<exists>i. IdentityEx_of_keys sha256 rand_bytes uninit pk sk type = Inr i \<and>
    identityex_wf sha256 i \<and> signing_type i = type \<and>
    public_key (m_StandardIdentity i) = take 256 pk \<and>
    m_Verifier i = Some (verifier_of_type type (take (key_len_of_type type) sk))"
  using IdentityEx_of_keys_result [OF assms, of sha256 uninit] by blast

theorem IdentityEx_of_keys_correct_witness:
  "\<exists>i. IdentityEx_of_keys rev (\<lambda>n. replicate n 0) [] (replicate 256 1) (replicate 512 2) 4 = Inr i \<and>
    signing_type i = 4 \<and> m_Verifier i = Some (RSASHA2562048Verifier (replicate 256 2))"
proof -
  have "verifier_of_type 4 (take (key_len_of_type 4) (replicate 512 2)) =
      RSASHA2562048Verifier (replicate 256 2)"
    by (simp add: take_replicate min_def del: replicate.simps)
  moreover have ok: "(256 :: nat) \<le> 256" "(512 :: nat) \<le> 512" "(4 :: u16) < 8" by simp_all
  ultimately show ?thesis
    using IdentityEx_of_keys_correct [of "replicate 256 1" "replicate 512 2" "\<lambda>n. replicate n 0" 4 rev "[]",
        unfolded length_replicate, OF ok(1,2) refl ok(3)] by metis
qed

text \<open>
  C30 (functional). The XOR metric of the network database on 32-byte hashes: it is symmetric, zero only
  between equal hashes and determines the other hash. Its order, the one the closest floodfill
  is chosen by, compares distances as big-endian numbers; on the hashes, seen from one of them,
  it is irreflexive, transitive and total.
\<close>

theorem XORMetric_laws:
  assumes "length a = 32" and "length b = 32" and "length c = 32" and "length d = 32"
  shows "XORMetric_of a b = XORMetric_of b a \<and>
    (XORMetric_of a b = SetMin \<longleftrightarrow> a = b) \<and>
    (XORMetric_of a b = XORMetric_of a c \<longrightarrow> b = c) \<and>
    (XORMetric_less (XORMetric_of a b) (XORMetric_of a c) \<longleftrightarrow> be_decode (XORMetric_of a b) < be_decode (XORMetric_of a c)) \<and>
    \<not> XORMetric_less (XORMetric_of a b) (XORMetric_of a b) \<and>
    (XORMetric_less (XORMetric_of a b) (XORMetric_of a c) \<longrightarrow> XORMetric_less (XORMetric_of a c) (XORMetric_of a d) \<longrightarrow>
       XORMetric_less (XORMetric_of a b) (XORMetric_of a d)) \<and>
    (b \<noteq> c \<longrightarrow> XORMetric_less (XORMetric_of a b) (XORMetric_of a c) \<or> XORMetric_less (XORMetric_of a c) (XORMetric_of a b))"
proof -
  note m = XORMetric_bytes [OF assms(1,2)] XORMetric_bytes [OF assms(2,1)] XORMetric_bytes [OF assms(1,3)]
    XORMetric_bytes [OF assms(1,4)]
  have inj: "b = c" if "length b = 32" "length c = 32" "xor_bytes a b = xor_bytes a c" for b c
  proof -
    have "b = xor_bytes a (xor_bytes a b)"
      by (rule xor_bytes_cancel [symmetric]) (simp only: assms(1) that(1))
    also have "\<dots> = c"
      unfolding that(3) by (rule xor_bytes_cancel) (simp only: assms(1) that(2))
    finally show ?thesis .
  qed
  have self: "xor_bytes a a = replicate 32 0" using xor_bytes_self [of a] assms(1) by simp
  have zero: "xor_bytes a b = replicate 32 0 \<longleftrightarrow> a = b"
    using inj [OF assms(2,1)] self by metis
  have len: "length (xor_bytes a b) = length (xor_bytes a c)" using assms by simp
  have total: "memcmp_less (xor_bytes a b) (xor_bytes a c) \<or> memcmp_less (xor_bytes a c) (xor_bytes a b)" if "b \<noteq> c"
    using memcmp_less_total [OF len] inj [OF assms(2,3)] that by blast
  show ?thesis
    unfolding m SetMin_def XORMetric_less_def
    by (intro conjI impI xor_bytes_commute [of a b] zero inj [OF assms(2,3)] total memcmp_less_be_decode [OF len]
        memcmp_less_irrefl memcmp_less_trans [of "xor_bytes a b" "xor_bytes a c" "xor_bytes a d"])
qed

theorem XORMetric_laws_witness:
  "XORMetric_less (XORMetric_of (replicate 32 1) (replicate 32 3)) (XORMetric_of (replicate 32 1) (replicate 32 2)) \<and>
   XORMetric_less (XORMetric_of (replicate 32 1) (replicate 32 2)) (XORMetric_of (replicate 32 1) (replicate 32 4)) \<and>
   XORMetric_less (XORMetric_of (replicate 32 1) (replicate 32 3)) (XORMetric_of (replicate 32 1) (replicate 32 4))"
proof -
  let ?h = "\<lambda>b :: byte. replicate 32 b"
  have m: "XORMetric_of (?h 1) (?h 3) = ?h 2" "XORMetric_of (?h 1) (?h 2) = ?h 3" "XORMetric_of (?h 1) (?h 4) = ?h 5"
    by (simp_all add: XORMetric_bytes xor_bytes_def zip_replicate del: replicate.simps)
  have "?h b = b # replicate 31 b" for b by (simp flip: replicate_Suc)
  then have less: "XORMetric_less (?h 2) (?h 3)" "XORMetric_less (?h 3) (?h 5)"
    by (simp_all add: XORMetric_less_def del: replicate.simps)
  from XORMetric_laws [of "?h 1" "?h 3" "?h 2" "?h 4", unfolded m length_replicate] less show ?thesis
    unfolding m by blast
qed

text \<open>
  Assigning raw \<open>Keys\<close> to a private key store ignores the signing public key
  of the \<open>Keys\<close>: the identity that results does not depend on it, although its hash and
  verifier should.
\<close>

theorem PrivateKeys_assign_Keys_ignores_signing_key:
  "PrivateKeys_assign_Keys sha uninit (keys\<lparr>k_signing_key := other\<rparr>) self =
   PrivateKeys_assign_Keys sha uninit keys self"
  by (simp add: PrivateKeys_assign_Keys_def Identity_assign_Keys_def)
end
