(* ===== verification/I2NP.thy ===== *)
theory I2NP
  imports Identity_Model
begin

text \<open>
  I2NP messages, \<open>core/router/i2np.{h,cc}\<close>: the message buffer with its offset, length and
  capacity, the header accessors, the conversion between the long header and the short header
  of SSU, the constructors of the message types, the tunnel build request handler, and the
  queue that hands received messages to the tunnels.

  \<open>buf + offset\<close> is an offset into the list \<open>msg_buf\<close>; \<open>from\<close>, a shared pointer to an inbound
  tunnel, is an opaque handle. Hashing, random numbers, the clock, ElGamal and CBC are
  parameters. What a handler does to other components is the list of calls it makes.
\<close>

section \<open>The message\<close>

record I2NPMessage =
  msg_buf :: bytes
  msg_len :: nat
  msg_offset :: nat
  msg_max_len :: nat
  msg_from :: "nat option"

datatype I2NPMessageType =
    I2NPDatabaseStore | I2NPDatabaseLookup | I2NPDatabaseSearchReply | I2NPDeliveryStatus
  | I2NPGarlic | I2NPTunnelData | I2NPTunnelGateway | I2NPData | I2NPTunnelBuild
  | I2NPTunnelBuildReply | I2NPVariableTunnelBuild | I2NPVariableTunnelBuildReply

fun type_code :: "I2NPMessageType \<Rightarrow> u8" where
  "type_code I2NPDatabaseStore = 1"
| "type_code I2NPDatabaseLookup = 2"
| "type_code I2NPDatabaseSearchReply = 3"
| "type_code I2NPDeliveryStatus = 10"
| "type_code I2NPGarlic = 11"
| "type_code I2NPTunnelData = 18"
| "type_code I2NPTunnelGateway = 19"
| "type_code I2NPData = 20"
| "type_code I2NPTunnelBuild = 21"
| "type_code I2NPTunnelBuildReply = 22"
| "type_code I2NPVariableTunnelBuild = 23"
| "type_code I2NPVariableTunnelBuildReply = 24"

definition I2NP_HEADER_SIZE :: nat where "I2NP_HEADER_SIZE = 16"
definition I2NP_SHORT_HEADER_SIZE :: nat where "I2NP_SHORT_HEADER_SIZE = 5"
definition I2NP_MAX_MESSAGE_SIZE :: nat where "I2NP_MAX_MESSAGE_SIZE = 32768"
definition I2NP_MAX_SHORT_MESSAGE_SIZE :: nat where "I2NP_MAX_SHORT_MESSAGE_SIZE = 4096"
definition TUNNEL_GATEWAY_HEADER_SIZE :: nat where "TUNNEL_GATEWAY_HEADER_SIZE = 6"
definition TUNNEL_BUILD_RECORD_SIZE :: nat where "TUNNEL_BUILD_RECORD_SIZE = 528"
definition TUNNEL_DATA_MSG_SIZE :: nat where "TUNNEL_DATA_MSG_SIZE = 1028"

lemmas i2np_sizes = I2NP_HEADER_SIZE_def I2NP_SHORT_HEADER_SIZE_def I2NP_MAX_MESSAGE_SIZE_def
  I2NP_MAX_SHORT_MESSAGE_SIZE_def TUNNEL_GATEWAY_HEADER_SIZE_def TUNNEL_BUILD_RECORD_SIZE_def
  TUNNEL_DATA_MSG_SIZE_def

text \<open>\<open>I2NPMessageBuffer<SZ>\<close>: a zeroed buffer of \<open>SZ + 16\<close> bytes.\<close>

definition I2NPMessageBuffer :: "nat \<Rightarrow> I2NPMessage" where
  "I2NPMessageBuffer sz =
     \<lparr>msg_buf = replicate (sz + 16) 0, msg_len = I2NP_HEADER_SIZE + 2, msg_offset = 2,
      msg_max_len = sz, msg_from = None\<rparr>"

definition NewI2NPMessage :: I2NPMessage where
  "NewI2NPMessage = I2NPMessageBuffer I2NP_MAX_MESSAGE_SIZE"

definition NewI2NPShortMessage :: I2NPMessage where
  "NewI2NPShortMessage = I2NPMessageBuffer I2NP_MAX_SHORT_MESSAGE_SIZE"

definition NewI2NPMessage_for :: "nat \<Rightarrow> I2NPMessage" where
  "NewI2NPMessage_for len =
     (if len < I2NP_MAX_SHORT_MESSAGE_SIZE div 2 then NewI2NPShortMessage else NewI2NPMessage)"

section \<open>Accessors\<close>

definition GetBuffer :: "I2NPMessage \<Rightarrow> nat" where
  "GetBuffer m = msg_offset m"

definition GetPayload :: "I2NPMessage \<Rightarrow> nat" where
  "GetPayload m = GetBuffer m + I2NP_HEADER_SIZE"

definition GetLength :: "I2NPMessage \<Rightarrow> nat" where
  "GetLength m = msg_len m - msg_offset m"

definition GetPayloadLength :: "I2NPMessage \<Rightarrow> nat" where
  "GetPayloadLength m = size_sub (GetLength m) I2NP_HEADER_SIZE"

text \<open>A write through a pointer into the buffer of the message.\<close>

definition put :: "nat \<Rightarrow> bytes \<Rightarrow> I2NPMessage \<Rightarrow> I2NPMessage result" where
  "put p bs m = bind_result (mem_write p bs (msg_buf m)) (\<lambda>b. Inr (m\<lparr>msg_buf := b\<rparr>))"

definition SetTypeID :: "u8 \<Rightarrow> I2NPMessage \<Rightarrow> I2NPMessage result" where
  "SetTypeID type_ID m = put (GetBuffer m) [type_ID] m"

definition GetTypeID :: "I2NPMessage \<Rightarrow> u8 result" where
  "GetTypeID m = peek (GetBuffer m) (msg_buf m)"

definition SetMsgID :: "u32 \<Rightarrow> I2NPMessage \<Rightarrow> I2NPMessage result" where
  "SetMsgID msg_ID m = put (GetBuffer m + 1) (word_encode True msg_ID) m"

definition GetMsgID :: "I2NPMessage \<Rightarrow> u32 result" where
  "GetMsgID m = Read_buf True (GetBuffer m + 1) (msg_buf m)"

definition SetExpiration :: "u64 \<Rightarrow> I2NPMessage \<Rightarrow> I2NPMessage result" where
  "SetExpiration expiration m = put (GetBuffer m + 5) (word_encode True expiration) m"

definition GetExpiration :: "I2NPMessage \<Rightarrow> u64 result" where
  "GetExpiration m = Read_buf True (GetBuffer m + 5) (msg_buf m)"

definition SetSize :: "u16 \<Rightarrow> I2NPMessage \<Rightarrow> I2NPMessage result" where
  "SetSize sz m = put (GetBuffer m + 13) (word_encode True sz) m"

definition GetSize :: "I2NPMessage \<Rightarrow> u16 result" where
  "GetSize m = Read_buf True (GetBuffer m + 13) (msg_buf m)"

definition UpdateSize :: "I2NPMessage \<Rightarrow> I2NPMessage result" where
  "UpdateSize m = SetSize (word_of_nat (GetPayloadLength m)) m"

definition SetChks :: "u8 \<Rightarrow> I2NPMessage \<Rightarrow> I2NPMessage result" where
  "SetChks chks m = put (GetBuffer m + 15) [chks] m"

definition UpdateChks :: "(bytes \<Rightarrow> bytes) \<Rightarrow> I2NPMessage \<Rightarrow> I2NPMessage result" where
  "UpdateChks sha256 m =
     bind_result (mem_read (GetPayload m) (GetPayloadLength m) (msg_buf m)) (\<lambda>payload.
       SetChks (sha256 payload ! 0) m)"

text \<open>\<open>base\<close> is the machine address of the buffer.\<close>

definition Align :: "nat \<Rightarrow> nat \<Rightarrow> I2NPMessage \<Rightarrow> I2NPMessage" where
  "Align base alignment m =
     (if msg_max_len m < msg_len m + alignment then m
      else let r = (base + GetBuffer m) mod alignment in
        if r \<noteq> 0 then m\<lparr>msg_offset := msg_offset m + (alignment - r),
                          msg_len := msg_len m + (alignment - r)\<rparr>
        else m)"

text \<open>\<open>operator=\<close>: the target keeps its buffer and offset but takes the other's capacity.\<close>

definition I2NPMessage_assign :: "I2NPMessage \<Rightarrow> I2NPMessage \<Rightarrow> I2NPMessage result" where
  "I2NPMessage_assign other m =
     bind_result (mem_read (msg_offset other) (GetLength other) (msg_buf other)) (\<lambda>bs.
     bind_result (put (msg_offset m) bs m) (\<lambda>m1.
       Inr (m1\<lparr>msg_len := msg_offset m + GetLength other, msg_from := msg_from other,
               msg_max_len := msg_max_len other\<rparr>)))"

section \<open>The short header of SSU\<close>

definition GetSSUHeader :: "I2NPMessage \<Rightarrow> nat" where
  "GetSSUHeader m = msg_offset m + I2NP_HEADER_SIZE - I2NP_SHORT_HEADER_SIZE"

definition FromSSU :: "u32 \<Rightarrow> I2NPMessage \<Rightarrow> I2NPMessage result" where
  "FromSSU msg_ID m =
     bind_result (peek (GetSSUHeader m) (msg_buf m)) (\<lambda>t.
     bind_result (put (GetBuffer m) [t] m) (\<lambda>m1.
     bind_result (SetMsgID msg_ID m1) (\<lambda>m2.
     bind_result (Read_buf True (GetSSUHeader m + 1) (msg_buf m2)) (\<lambda>seconds :: u32.
     bind_result (SetExpiration (ucast seconds * 1000) m2) (\<lambda>m3.
     bind_result (SetSize (word_of_nat (size_sub (msg_len m - msg_offset m) I2NP_HEADER_SIZE)) m3)
       (SetChks 0))))))"

definition ToSSU :: "I2NPMessage \<Rightarrow> (u32 \<times> I2NPMessage) result" where
  "ToSSU m =
     bind_result (mem_read (GetBuffer m) I2NP_HEADER_SIZE (msg_buf m)) (\<lambda>header.
     bind_result (peek 0 header) (\<lambda>t.
     bind_result (put (GetSSUHeader m) [t] m) (\<lambda>m1.
     bind_result (Read_buf True 5 header) (\<lambda>expiration :: u64.
     bind_result (put (GetSSUHeader m + 1) (word_encode True (ucast (expiration div 1000) :: u32)) m1) (\<lambda>m2.
     bind_result (Read_buf True 13 header) (\<lambda>sz :: u16.
     bind_result (Read_buf True 1 header) (\<lambda>msg_ID :: u32.
       Inr (msg_ID, m2\<lparr>msg_len := msg_offset m + I2NP_SHORT_HEADER_SIZE + unat sz\<rparr>))))))))"

section \<open>Constructors\<close>

text \<open>\<open>rnd\<close> is the number the random source returns, \<open>now\<close> the clock in milliseconds.\<close>

definition FillI2NPMessageHeader ::
    "(bytes \<Rightarrow> bytes) \<Rightarrow> u32 \<Rightarrow> u64 \<Rightarrow> I2NPMessageType \<Rightarrow> u32 \<Rightarrow> I2NPMessage \<Rightarrow> I2NPMessage result" where
  "FillI2NPMessageHeader sha256 rnd now msg_type reply_msg_ID m =
     bind_result (SetTypeID (type_code msg_type) m) (\<lambda>m1.
     bind_result (SetMsgID (if reply_msg_ID \<noteq> 0 then reply_msg_ID else rnd) m1) (\<lambda>m2.
     bind_result (SetExpiration (now + 60000) m2) (\<lambda>m3.
     bind_result (UpdateSize m3) (UpdateChks sha256))))"

definition RenewI2NPMessageHeader :: "u32 \<Rightarrow> u64 \<Rightarrow> I2NPMessage \<Rightarrow> I2NPMessage result" where
  "RenewI2NPMessageHeader rnd now m =
     bind_result (SetMsgID rnd m) (SetExpiration (now + 60000))"

definition CreateI2NPMessage ::
    "(bytes \<Rightarrow> bytes) \<Rightarrow> u32 \<Rightarrow> u64 \<Rightarrow> I2NPMessageType \<Rightarrow> bytes \<Rightarrow> nat \<Rightarrow> u32 \<Rightarrow> I2NPMessage result" where
  "CreateI2NPMessage sha256 rnd now msg_type buf len reply_msg_ID =
     (let msg = NewI2NPMessage_for len in
      bind_result
        (if msg_len msg + len < msg_max_len msg then
           bind_result (mem_read 0 len buf) (\<lambda>bs.
           bind_result (put (GetPayload msg) bs msg) (\<lambda>m1.
             Inr (m1\<lparr>msg_len := msg_len m1 + len\<rparr>)))
         else Inr msg)
        (FillI2NPMessageHeader sha256 rnd now msg_type reply_msg_ID))"

definition CreateI2NPMessage_from :: "bytes \<Rightarrow> nat \<Rightarrow> nat option \<Rightarrow> I2NPMessage result" where
  "CreateI2NPMessage_from buf len from =
     (let msg = NewI2NPMessage in
      if msg_offset msg + len < msg_max_len msg then
        bind_result (mem_read 0 len buf) (\<lambda>bs.
        bind_result (put (GetBuffer msg) bs msg) (\<lambda>m1.
          Inr (m1\<lparr>msg_len := msg_offset m1 + len, msg_from := from\<rparr>)))
      else Inr msg)"

definition CreateDeliveryStatusMsg ::
    "(bytes \<Rightarrow> bytes) \<Rightarrow> u32 \<Rightarrow> u32 \<Rightarrow> u64 \<Rightarrow> u64 \<Rightarrow> u32 \<Rightarrow> I2NPMessage result" where
  "CreateDeliveryStatusMsg sha256 rnd1 rnd2 now network_ID msg_ID =
     (let m = NewI2NPShortMessage;
          (i, t) = (if msg_ID \<noteq> 0 then (msg_ID, now) else (rnd1, network_ID))
      in bind_result (put (GetPayload m) (word_encode True i) m) (\<lambda>m1.
         bind_result (put (GetPayload m + 4) (word_encode True t) m1) (\<lambda>m2.
           FillI2NPMessageHeader sha256 rnd2 now I2NPDeliveryStatus 0
             (m2\<lparr>msg_len := msg_len m2 + 12\<rparr>))))"

text \<open>
  A cursor that the constructors advance through the payload: the bytes are written one run
  after the other from \<open>p\<close> on, and the new position is returned.
\<close>

fun put_all :: "nat \<Rightarrow> bytes list \<Rightarrow> I2NPMessage \<Rightarrow> (nat \<times> I2NPMessage) result" where
  "put_all p [] m = Inr (p, m)"
| "put_all p (bs # rest) m = bind_result (put p bs m) (put_all (p + length bs) rest)"

definition CreateRouterInfoDatabaseLookupMsg ::
    "(bytes \<Rightarrow> bytes) \<Rightarrow> u32 \<Rightarrow> u64 \<Rightarrow> bytes \<Rightarrow> bytes \<Rightarrow> u32 \<Rightarrow> bool \<Rightarrow> bytes list option \<Rightarrow> I2NPMessage result"
  where
  "CreateRouterInfoDatabaseLookupMsg sha256 rnd now key from reply_tunnel_ID exploratory excluded_peers =
     (let m = (if excluded_peers \<noteq> None then NewI2NPMessage else NewI2NPShortMessage);
          flag = (if exploratory then 0x0C else 0x08 :: u8)
      in bind_result (mem_read 0 32 key) (\<lambda>k.
         bind_result (mem_read 0 32 from) (\<lambda>f.
         bind_result
           (put_all (GetPayload m)
             ([k, f]
              @ (if reply_tunnel_ID \<noteq> 0 then [[flag OR 0x01], word_encode True reply_tunnel_ID] else [[flag]])
              @ (case excluded_peers of
                   Some peers \<Rightarrow> word_encode True (word_of_nat (length peers) :: u16) # map (take 32) peers
                 | None \<Rightarrow> [word_encode False (0 :: u16)])) m) (\<lambda>(p, m1).
           FillI2NPMessageHeader sha256 rnd now I2NPDatabaseLookup 0
             (m1\<lparr>msg_len := msg_len m1 + (p - GetPayload m)\<rparr>)))))"

definition CreateLeaseSetDatabaseLookupMsg ::
    "(bytes \<Rightarrow> bytes) \<Rightarrow> u32 \<Rightarrow> u64 \<Rightarrow> bytes \<Rightarrow> bytes list \<Rightarrow> bytes \<Rightarrow> u32 \<Rightarrow> bytes \<Rightarrow> bytes \<Rightarrow> I2NPMessage result"
  where
  "CreateLeaseSetDatabaseLookupMsg sha256 rnd now dest excluded gateway reply_tunnel_ID reply_key reply_tag =
     (let m = (if excluded \<noteq> [] then NewI2NPMessage else NewI2NPShortMessage) in
      bind_result (mem_read 0 32 dest) (\<lambda>d.
      bind_result (mem_read 0 32 gateway) (\<lambda>g.
      bind_result (mem_read 0 32 reply_key) (\<lambda>rk.
      bind_result (mem_read 0 32 reply_tag) (\<lambda>rt.
      bind_result
        (put_all (GetPayload m)
          ([d, g, [0x01 OR 0x02 OR 0x04], word_encode True reply_tunnel_ID,
            word_encode True (word_of_nat (length excluded) :: u16)]
           @ map (take 32) excluded @ [rk, [1], rt]) m) (\<lambda>(p, m1).
        FillI2NPMessageHeader sha256 rnd now I2NPDatabaseLookup 0
          (m1\<lparr>msg_len := msg_len m1 + (p - GetPayload m)\<rparr>)))))))"

definition CreateDatabaseSearchReply ::
    "(bytes \<Rightarrow> bytes) \<Rightarrow> u32 \<Rightarrow> u64 \<Rightarrow> bytes \<Rightarrow> bytes \<Rightarrow> bytes list \<Rightarrow> I2NPMessage result" where
  "CreateDatabaseSearchReply sha256 rnd now own_ident ident routers =
     (let m = NewI2NPShortMessage in
      bind_result
        (put_all (GetPayload m)
          ([take 32 ident, [word_of_nat (length routers)]] @ map (take 32) routers @ [take 32 own_ident]) m)
        (\<lambda>(p, m1).
          FillI2NPMessageHeader sha256 rnd now I2NPDatabaseSearchReply 0
            (m1\<lparr>msg_len := msg_len m1 + (p - GetPayload m)\<rparr>)))"

text \<open>\<open>gzip\<close> is the compressor; \<open>router_ident\<close> and \<open>router_buffer\<close> are the router's data.\<close>

definition CreateDatabaseStoreMsg_router ::
    "(bytes \<Rightarrow> bytes) \<Rightarrow> u32 \<Rightarrow> u64 \<Rightarrow> (bytes \<Rightarrow> bytes) \<Rightarrow> bytes \<Rightarrow> bytes \<Rightarrow> u32 \<Rightarrow> I2NPMessage result" where
  "CreateDatabaseStoreMsg_router sha256 rnd now gzip router_ident router_buffer reply_token =
     (let m = NewI2NPShortMessage; compressed = gzip router_buffer; sz = length compressed in
      bind_result
        (put_all (GetPayload m)
          ([take 32 router_ident, [0], word_encode True reply_token]
           @ (if reply_token \<noteq> 0 then [replicate 4 0, take 32 router_ident] else [])
           @ [word_encode True (word_of_nat sz :: u16)]) m) (\<lambda>(p, m0).
      let m1 = m0\<lparr>msg_len := msg_len m0 + (p - GetPayload m)\<rparr> in
      bind_result
        (if msg_max_len m1 < msg_len m1 + sz then
           bind_result (I2NPMessage_assign m1 NewI2NPMessage) (\<lambda>m2. Inr (msg_len m2, m2))
         else Inr (p, m1)) (\<lambda>(q, m2).
      bind_result (put q compressed m2) (\<lambda>m3.
        FillI2NPMessageHeader sha256 rnd now I2NPDatabaseStore 0
          (m3\<lparr>msg_len := msg_len m3 + sz\<rparr>)))))"

text \<open>
  \<open>first_lease\<close> is the tunnel identifier and gateway of the first lease that has not expired.
\<close>

definition CreateDatabaseStoreMsg_lease_set ::
    "(bytes \<Rightarrow> bytes) \<Rightarrow> u32 \<Rightarrow> u64 \<Rightarrow> bytes \<Rightarrow> bytes \<Rightarrow> (u32 \<times> bytes) option \<Rightarrow> u32 \<Rightarrow> I2NPMessage result" where
  "CreateDatabaseStoreMsg_lease_set sha256 rnd now ident lease_buffer first_lease reply_token =
     (let m = NewI2NPShortMessage;
          (token, reply) = (if reply_token \<noteq> 0 then
              (case first_lease of
                 Some (tunnel_ID, gateway) \<Rightarrow> (reply_token, [word_encode True tunnel_ID, take 32 gateway])
               | None \<Rightarrow> (0, []))
            else (reply_token, []))
      in bind_result
           (put_all (GetPayload m)
             ([take 32 ident, [1], word_encode True token] @ reply @ [lease_buffer]) m) (\<lambda>(p, m1).
           FillI2NPMessageHeader sha256 rnd now I2NPDatabaseStore 0
             (m1\<lparr>msg_len := msg_len m1 + (p - GetPayload m)\<rparr>)))"

definition CreateTunnelDataMsg :: "(bytes \<Rightarrow> bytes) \<Rightarrow> u32 \<Rightarrow> u64 \<Rightarrow> bytes \<Rightarrow> I2NPMessage result" where
  "CreateTunnelDataMsg sha256 rnd now buf =
     (let msg = NewI2NPShortMessage in
      bind_result (mem_read 0 TUNNEL_DATA_MSG_SIZE buf) (\<lambda>bs.
      bind_result (put (GetPayload msg) bs msg) (\<lambda>m1.
        FillI2NPMessageHeader sha256 rnd now I2NPTunnelData 0
          (m1\<lparr>msg_len := msg_len m1 + TUNNEL_DATA_MSG_SIZE\<rparr>))))"

definition CreateTunnelDataMsg_for ::
    "(bytes \<Rightarrow> bytes) \<Rightarrow> u32 \<Rightarrow> u64 \<Rightarrow> u32 \<Rightarrow> bytes \<Rightarrow> I2NPMessage result" where
  "CreateTunnelDataMsg_for sha256 rnd now tunnel_ID payload =
     (let msg = NewI2NPShortMessage in
      bind_result (mem_read 0 (TUNNEL_DATA_MSG_SIZE - 4) payload) (\<lambda>bs.
      bind_result (put (GetPayload msg + 4) bs msg) (\<lambda>m1.
      bind_result (put (GetPayload msg) (word_encode True tunnel_ID) m1) (\<lambda>m2.
        FillI2NPMessageHeader sha256 rnd now I2NPTunnelData 0
          (m2\<lparr>msg_len := msg_len m2 + TUNNEL_DATA_MSG_SIZE\<rparr>)))))"

definition CreateEmptyTunnelDataMsg :: I2NPMessage where
  "CreateEmptyTunnelDataMsg =
     NewI2NPShortMessage\<lparr>msg_len := msg_len NewI2NPShortMessage + TUNNEL_DATA_MSG_SIZE\<rparr>"

definition CreateTunnelGatewayMsg_buf ::
    "(bytes \<Rightarrow> bytes) \<Rightarrow> u32 \<Rightarrow> u64 \<Rightarrow> u32 \<Rightarrow> bytes \<Rightarrow> nat \<Rightarrow> I2NPMessage result" where
  "CreateTunnelGatewayMsg_buf sha256 rnd now tunnel_ID buf len =
     (let msg = NewI2NPMessage_for len; payload = GetPayload msg in
      bind_result (put payload (word_encode True tunnel_ID) msg) (\<lambda>m1.
      bind_result (put (payload + 4) (word_encode True (word_of_nat len :: u16)) m1) (\<lambda>m2.
      bind_result (mem_read 0 len buf) (\<lambda>bs.
      bind_result (put (payload + TUNNEL_GATEWAY_HEADER_SIZE) bs m2) (\<lambda>m3.
        FillI2NPMessageHeader sha256 rnd now I2NPTunnelGateway 0
          (m3\<lparr>msg_len := msg_len m3 + (TUNNEL_GATEWAY_HEADER_SIZE + len)\<rparr>))))))"

definition CreateTunnelGatewayMsg ::
    "(bytes \<Rightarrow> bytes) \<Rightarrow> u32 \<Rightarrow> u64 \<Rightarrow> u32 \<Rightarrow> I2NPMessage \<Rightarrow> I2NPMessage result" where
  "CreateTunnelGatewayMsg sha256 rnd now tunnel_ID msg =
     (if I2NP_HEADER_SIZE + TUNNEL_GATEWAY_HEADER_SIZE \<le> msg_offset msg then
        (let payload = GetBuffer msg - TUNNEL_GATEWAY_HEADER_SIZE; len = GetLength msg in
         bind_result (put payload (word_encode True tunnel_ID) msg) (\<lambda>m1.
         bind_result (put (payload + 4) (word_encode True (word_of_nat len :: u16)) m1) (\<lambda>m2.
         let offset' = msg_offset msg - (I2NP_HEADER_SIZE + TUNNEL_GATEWAY_HEADER_SIZE) in
           FillI2NPMessageHeader sha256 rnd now I2NPTunnelGateway 0
             (m2\<lparr>msg_offset := offset',
                 msg_len := offset' + I2NP_HEADER_SIZE + TUNNEL_GATEWAY_HEADER_SIZE + len\<rparr>))))
      else CreateTunnelGatewayMsg_buf sha256 rnd now tunnel_ID
             (drop (GetBuffer msg) (msg_buf msg)) (GetLength msg))"

definition CreateTunnelGatewayMsg_type ::
    "(bytes \<Rightarrow> bytes) \<Rightarrow> u32 \<Rightarrow> u32 \<Rightarrow> u64 \<Rightarrow> u32 \<Rightarrow> I2NPMessageType \<Rightarrow> bytes \<Rightarrow> nat \<Rightarrow> u32 \<Rightarrow> I2NPMessage result"
  where
  "CreateTunnelGatewayMsg_type sha256 rnd1 rnd2 now tunnel_ID msg_type buf len reply_msg_ID =
     (let g = I2NP_HEADER_SIZE + TUNNEL_GATEWAY_HEADER_SIZE;
          msg0 = NewI2NPMessage_for len;
          msg = msg0\<lparr>msg_offset := msg_offset msg0 + g, msg_len := msg_len msg0 + g\<rparr>
      in bind_result (mem_read 0 len buf) (\<lambda>bs.
         bind_result (put (GetPayload msg) bs msg) (\<lambda>m1.
         bind_result (FillI2NPMessageHeader sha256 rnd1 now msg_type reply_msg_ID
             (m1\<lparr>msg_len := msg_len m1 + len\<rparr>)) (\<lambda>m2.
         let m3 = m2\<lparr>msg_offset := msg_offset m2 - g\<rparr>; payload = GetPayload m3 in
         bind_result (put payload (word_encode True tunnel_ID) m3) (\<lambda>m4.
         bind_result (put (payload + 4) (word_encode True (word_of_nat (GetLength m2) :: u16)) m4)
           (FillI2NPMessageHeader sha256 rnd2 now I2NPTunnelGateway 0))))))"

definition GetI2NPMessageLength :: "bytes \<Rightarrow> nat result" where
  "GetI2NPMessageLength msg =
     bind_result (Read_buf True 13 msg) (\<lambda>sz :: u16. Inr (unat sz + I2NP_HEADER_SIZE))"

section \<open>Tunnel build requests\<close>

text \<open>What \<open>CreateTransitTunnel\<close> is given.\<close>

record TransitTunnelRequest =
  tt_receive_tunnel :: u32
  tt_next_ident :: bytes
  tt_next_tunnel :: u32
  tt_layer_key :: bytes
  tt_iv_key :: bytes
  tt_is_gateway :: bool
  tt_is_endpoint :: bool

definition transit_request :: "bytes \<Rightarrow> TransitTunnelRequest result" where
  "transit_request clear_text =
     bind_result (Read_buf True 0 clear_text) (\<lambda>receive.
     bind_result (mem_read 40 32 clear_text) (\<lambda>next_ident.
     bind_result (Read_buf True 36 clear_text) (\<lambda>next_tunnel.
     bind_result (mem_read 72 32 clear_text) (\<lambda>layer_key.
     bind_result (mem_read 104 32 clear_text) (\<lambda>iv_key.
     bind_result (peek 184 clear_text) (\<lambda>flag.
       Inr \<lparr>tt_receive_tunnel = receive, tt_next_ident = next_ident, tt_next_tunnel = next_tunnel,
            tt_layer_key = layer_key, tt_iv_key = iv_key,
            tt_is_gateway = (flag AND 0x80 \<noteq> 0), tt_is_endpoint = (flag AND 0x40 \<noteq> 0)\<rparr>))))))"

text \<open>The loop that looks for the record addressed to this router.\<close>

fun own_record :: "bytes \<Rightarrow> nat list \<Rightarrow> bytes \<Rightarrow> nat option result" where
  "own_record own [] records = Inr None"
| "own_record own (i # is) records =
     bind_result (mem_read (i * TUNNEL_BUILD_RECORD_SIZE) 16 records) (\<lambda>to_peer.
       if to_peer = take 16 own then Inr (Some i) else own_record own is records)"

definition encrypt_record ::
    "(bytes \<Rightarrow> bytes \<Rightarrow> bytes \<Rightarrow> bytes) \<Rightarrow> bytes \<Rightarrow> bytes \<Rightarrow> bytes \<Rightarrow> nat \<Rightarrow> bytes result" where
  "encrypt_record cbc key iv records j =
     bind_result (mem_read (j * TUNNEL_BUILD_RECORD_SIZE) TUNNEL_BUILD_RECORD_SIZE records) (\<lambda>r.
       mem_write (j * TUNNEL_BUILD_RECORD_SIZE) (cbc key iv r) records)"

text \<open>
  \<open>HandleBuildRequestRecords\<close>. \<open>accepts\<close> is the condition on the router context, the number of
  transit tunnels and the bandwidth; the result is whether a record was ours, the records,
  the clear text, and the transit tunnel that was added.
\<close>

definition HandleBuildRequestRecords ::
    "(bytes \<Rightarrow> bytes) \<Rightarrow> (bytes \<Rightarrow> bytes) \<Rightarrow> (bytes \<Rightarrow> bytes \<Rightarrow> bytes \<Rightarrow> bytes) \<Rightarrow> bytes \<Rightarrow> bytes \<Rightarrow> bool \<Rightarrow>
     nat \<Rightarrow> bytes \<Rightarrow> bytes \<Rightarrow> (bool \<times> bytes \<times> bytes \<times> TransitTunnelRequest option) result" where
  "HandleBuildRequestRecords sha256 elgamal cbc own padding accepts num records clear_text =
     bind_result (own_record own [0..<num] records) (\<lambda>found.
     case found of
       None \<Rightarrow> Inr (False, records, clear_text, None)
     | Some i \<Rightarrow>
         (let r = i * TUNNEL_BUILD_RECORD_SIZE in
          bind_result (mem_read (r + 16) 512 records) (\<lambda>enc.
          let text = elgamal enc in
          bind_result
            (if accepts then bind_result (transit_request text) (\<lambda>t. Inr (Some t)) else Inr None) (\<lambda>transit.
          bind_result (mem_write (r + 527) [if accepts then 0 else 30] records) (\<lambda>rs1.
          bind_result (mem_write (r + 32) padding rs1) (\<lambda>rs2.
          bind_result (mem_read (r + 32) 496 rs2) (\<lambda>body.
          bind_result (mem_write r (sha256 body) rs2) (\<lambda>rs3.
          bind_result (mem_read 136 32 text) (\<lambda>reply_key.
          bind_result (mem_read 168 16 text) (\<lambda>reply_iv.
          bind_result (fold_result (encrypt_record cbc reply_key reply_iv) rs3 [0..<num]) (\<lambda>rs4.
            Inr (True, rs4, text, transit))))))))))))"

section \<open>Handlers\<close>

text \<open>What the handlers read of the rest of the router.\<close>

record RouterEnv =
  e_sha256 :: "bytes \<Rightarrow> bytes"
  e_elgamal :: "bytes \<Rightarrow> bytes"
  e_cbc :: "bytes \<Rightarrow> bytes \<Rightarrow> bytes \<Rightarrow> bytes"
  e_own_ident :: bytes
  e_padding :: bytes
  e_AcceptsTunnels :: bool
  e_transit_tunnels :: nat
  e_bandwidth_exceeded :: bool
  e_rnd1 :: u32
  e_rnd2 :: u32
  e_now :: u64
  e_pending_inbound :: "u32 \<Rightarrow> nat option"
  e_pending_outbound :: "u32 \<Rightarrow> nat option"
  e_build_response :: "nat \<Rightarrow> bytes \<Rightarrow> nat \<Rightarrow> bool"
  e_pool_of :: "nat \<Rightarrow> nat option"

definition accepts_transit :: "RouterEnv \<Rightarrow> bool" where
  "accepts_transit env \<longleftrightarrow>
     e_AcceptsTunnels env \<and> e_transit_tunnels env \<le> 2500 \<and> \<not> e_bandwidth_exceeded env"

text \<open>The calls a handler makes on other components.\<close>

datatype action =
    SendMessage bytes I2NPMessage
  | SendMessages bytes "I2NPMessage list"
  | AddTransitTunnel TransitTunnelRequest
  | SetTunnelEstablished nat
  | SetTunnelBuildFailed nat
  | AddInboundTunnel nat
  | AddOutboundTunnel nat
  | PostTunnelData "I2NPMessage list"
  | PoolGarlic nat I2NPMessage
  | ContextGarlic I2NPMessage
  | PostNetDb I2NPMessage
  | PoolDeliveryStatus nat I2NPMessage
  | ContextDeliveryStatus I2NPMessage

definition build_records ::
    "RouterEnv \<Rightarrow> nat \<Rightarrow> bytes \<Rightarrow> (bool \<times> bytes \<times> bytes \<times> TransitTunnelRequest option) result" where
  "build_records env num records =
     HandleBuildRequestRecords (e_sha256 env) (e_elgamal env) (e_cbc env) (e_own_ident env)
       (e_padding env) (accepts_transit env) num records (replicate 222 0)"

text \<open>The reply of a build request: through the reply tunnel for an endpoint, else onwards.\<close>

definition forward_build ::
    "RouterEnv \<Rightarrow> I2NPMessageType \<Rightarrow> I2NPMessageType \<Rightarrow> bytes \<Rightarrow> nat \<Rightarrow> bytes \<Rightarrow>
     TransitTunnelRequest option \<Rightarrow> action list result" where
  "forward_build env reply_type fwd_type buf len clear_text transit =
     bind_result (peek 184 clear_text) (\<lambda>flag.
     bind_result (mem_read 40 32 clear_text) (\<lambda>next_ident.
     bind_result (Read_buf True 189 clear_text) (\<lambda>send_msg_ID.
     bind_result
       (if flag AND 0x40 \<noteq> 0 then
          bind_result (Read_buf True 36 clear_text) (\<lambda>next_tunnel.
            CreateTunnelGatewayMsg_type (e_sha256 env) (e_rnd1 env) (e_rnd2 env) (e_now env)
              next_tunnel reply_type buf len send_msg_ID)
        else CreateI2NPMessage (e_sha256 env) (e_rnd1 env) (e_now env) fwd_type buf len send_msg_ID) (\<lambda>m.
       Inr (map AddTransitTunnel (case transit of None \<Rightarrow> [] | Some t \<Rightarrow> [t])
            @ [SendMessage next_ident m])))))"

definition HandleTunnelBuildMsg :: "RouterEnv \<Rightarrow> bytes \<Rightarrow> nat \<Rightarrow> action list result" where
  "HandleTunnelBuildMsg env buf len =
     bind_result (build_records env 8 buf) (\<lambda>(ours, records, clear_text, transit).
       if ours then
         forward_build env I2NPTunnelBuildReply I2NPTunnelBuild records len clear_text transit
       else Inr [])"

definition HandleVariableTunnelBuildMsg :: "RouterEnv \<Rightarrow> u32 \<Rightarrow> bytes \<Rightarrow> nat \<Rightarrow> action list result" where
  "HandleVariableTunnelBuildMsg env reply_msg_ID buf len =
     bind_result (peek 0 buf) (\<lambda>num.
     case e_pending_inbound env reply_msg_ID of
       Some tunnel \<Rightarrow>
         Inr (if e_build_response env tunnel buf len
              then [SetTunnelEstablished tunnel, AddInboundTunnel tunnel]
              else [SetTunnelBuildFailed tunnel])
     | None \<Rightarrow>
         bind_result (build_records env (unat num) (drop 1 buf)) (\<lambda>(ours, records, clear_text, transit).
           if ours then
             forward_build env I2NPVariableTunnelBuildReply I2NPVariableTunnelBuild
               (take 1 buf @ records) len clear_text transit
           else Inr []))"

definition HandleVariableTunnelBuildReplyMsg :: "RouterEnv \<Rightarrow> u32 \<Rightarrow> bytes \<Rightarrow> nat \<Rightarrow> action list" where
  "HandleVariableTunnelBuildReplyMsg env reply_msg_ID buf len =
     (case e_pending_outbound env reply_msg_ID of
        Some tunnel \<Rightarrow>
          if e_build_response env tunnel buf len
          then [SetTunnelEstablished tunnel, AddOutboundTunnel tunnel]
          else [SetTunnelBuildFailed tunnel]
      | None \<Rightarrow> [])"

definition HandleI2NPMessage_raw :: "RouterEnv \<Rightarrow> bytes \<Rightarrow> action list result" where
  "HandleI2NPMessage_raw env msg =
     bind_result (peek 0 msg) (\<lambda>type_ID.
     bind_result (Read_buf True 1 msg) (\<lambda>msg_ID.
     bind_result (Read_buf True 13 msg) (\<lambda>sz :: u16.
     let buf = drop I2NP_HEADER_SIZE msg in
     if type_ID = type_code I2NPVariableTunnelBuild then
       HandleVariableTunnelBuildMsg env msg_ID buf (unat sz)
     else if type_ID = type_code I2NPVariableTunnelBuildReply then
       Inr (HandleVariableTunnelBuildReplyMsg env msg_ID buf (unat sz))
     else if type_ID = type_code I2NPTunnelBuild then HandleTunnelBuildMsg env buf (unat sz)
     else Inr [])))"

definition HandleI2NPMessage :: "RouterEnv \<Rightarrow> I2NPMessage option \<Rightarrow> action list result" where
  "HandleI2NPMessage env msg_ptr =
     (case msg_ptr of
        None \<Rightarrow> Inr []
      | Some msg \<Rightarrow>
          bind_result (GetTypeID msg) (\<lambda>t.
            if t = type_code I2NPTunnelData \<or> t = type_code I2NPTunnelGateway then
              Inr [PostTunnelData [msg]]
            else if t = type_code I2NPGarlic then
              (case msg_from msg of
                 Some tunnel \<Rightarrow>
                   (case e_pool_of env tunnel of
                      Some pool \<Rightarrow> Inr [PoolGarlic pool msg]
                    | None \<Rightarrow> Inr [])
               | None \<Rightarrow> Inr [ContextGarlic msg])
            else if t = type_code I2NPDatabaseStore \<or> t = type_code I2NPDatabaseSearchReply
                 \<or> t = type_code I2NPDatabaseLookup then
              Inr [PostNetDb msg]
            else if t = type_code I2NPDeliveryStatus then
              (case msg_from msg of
                 Some tunnel \<Rightarrow>
                   (case e_pool_of env tunnel of
                      Some pool \<Rightarrow> Inr [PoolDeliveryStatus pool msg]
                    | None \<Rightarrow> Inr [ContextDeliveryStatus msg])
               | None \<Rightarrow> Inr [ContextDeliveryStatus msg])
            else if t = type_code I2NPVariableTunnelBuild \<or> t = type_code I2NPVariableTunnelBuildReply
                 \<or> t = type_code I2NPTunnelBuild \<or> t = type_code I2NPTunnelBuildReply then
              Inr [PostTunnelData [msg]]
            else HandleI2NPMessage_raw env (drop (GetBuffer msg) (msg_buf msg))))"

record I2NPMessagesHandler =
  m_TunnelMsgs :: "I2NPMessage list"
  m_TunnelGatewayMsgs :: "I2NPMessage list"

definition PutNextMessage ::
    "RouterEnv \<Rightarrow> I2NPMessage option \<Rightarrow> I2NPMessagesHandler \<Rightarrow> (action list \<times> I2NPMessagesHandler) result" where
  "PutNextMessage env msg_ptr h =
     (case msg_ptr of
        None \<Rightarrow> Inr ([], h)
      | Some msg \<Rightarrow>
          bind_result (GetTypeID msg) (\<lambda>t.
            if t = type_code I2NPTunnelData then
              Inr ([], h\<lparr>m_TunnelMsgs := m_TunnelMsgs h @ [msg]\<rparr>)
            else if t = type_code I2NPTunnelGateway then
              Inr ([], h\<lparr>m_TunnelGatewayMsgs := m_TunnelGatewayMsgs h @ [msg]\<rparr>)
            else bind_result (HandleI2NPMessage env (Some msg)) (\<lambda>acts. Inr (acts, h))))"

definition Flush :: "I2NPMessagesHandler \<Rightarrow> action list \<times> I2NPMessagesHandler" where
  "Flush h =
     ((if m_TunnelMsgs h \<noteq> [] then [PostTunnelData (m_TunnelMsgs h)] else [])
      @ (if m_TunnelGatewayMsgs h \<noteq> [] then [PostTunnelData (m_TunnelGatewayMsgs h)] else []),
      h\<lparr>m_TunnelMsgs := [], m_TunnelGatewayMsgs := []\<rparr>)"

section \<open>Writing through a pointer\<close>

text \<open>The header and the payload of a message lie inside its buffer.\<close>

definition msg_ok :: "I2NPMessage \<Rightarrow> bool" where
  "msg_ok m \<longleftrightarrow> msg_offset m + I2NP_HEADER_SIZE \<le> msg_len m \<and> msg_len m \<le> length (msg_buf m)"

definition payload_bytes :: "I2NPMessage \<Rightarrow> bytes" where
  "payload_bytes m = slice (GetPayload m) (GetPayloadLength m) (msg_buf m)"

definition put_at :: "nat \<Rightarrow> bytes \<Rightarrow> I2NPMessage \<Rightarrow> I2NPMessage" where
  "put_at p bs m = m\<lparr>msg_buf := poke p bs (msg_buf m)\<rparr>"

lemma put_eq: "p + length bs \<le> length (msg_buf m) \<Longrightarrow> put p bs m = Inr (put_at p bs m)"
  by (simp add: put_def put_at_def mem_write_def)

lemma put_at_fields [simp]:
  "msg_len (put_at p bs m) = msg_len m" "msg_offset (put_at p bs m) = msg_offset m"
  "msg_max_len (put_at p bs m) = msg_max_len m" "msg_from (put_at p bs m) = msg_from m"
  "msg_buf (put_at p bs m) = poke p bs (msg_buf m)"
  by (simp_all add: put_at_def)

lemma put_at_append:
  "p + length as + length bs \<le> length (msg_buf m) \<Longrightarrow> q = p + length as \<Longrightarrow>
   put_at q bs (put_at p as m) = put_at p (as @ bs) m"
  by (simp add: put_at_def poke_append)

lemma msg_accessors:
  "GetBuffer m = msg_offset m" "GetPayload m = msg_offset m + 16" "GetLength m = msg_len m - msg_offset m"
  "GetPayloadLength m = size_sub (msg_len m - msg_offset m) 16"
  by (simp_all add: GetBuffer_def GetPayload_def GetLength_def GetPayloadLength_def I2NP_HEADER_SIZE_def)

lemma GetSSUHeader_eq: "GetSSUHeader m = msg_offset m + 11"
  by (simp add: GetSSUHeader_def i2np_sizes)

lemma Read_buf_slice:
  "p + sizeof TYPE('a::len) \<le> length b \<Longrightarrow>
   Read_buf True p b = Inr (word_decode True (slice p (sizeof TYPE('a)) b) :: 'a word)"
  by (simp add: Read_buf_def mem_read_def)

lemma msg_ok_room:
  assumes "msg_ok m"
  shows "msg_offset m + 16 \<le> length (msg_buf m)" and "16 \<le> msg_len m - msg_offset m"
    and "GetPayload m + GetPayloadLength m = msg_len m"
  using assms by (auto simp: msg_ok_def msg_accessors i2np_sizes)

section \<open>The header\<close>

definition header_bytes :: "u8 \<Rightarrow> u32 \<Rightarrow> u64 \<Rightarrow> u16 \<Rightarrow> u8 \<Rightarrow> bytes" where
  "header_bytes t i e sz c =
     [t] @ word_encode True i @ word_encode True e @ word_encode True sz @ [c]"

lemma length_header_bytes [simp]: "length (header_bytes t i e sz c) = 16"
  by (simp add: header_bytes_def)

text \<open>A message whose header is given field by field: what each accessor returns.\<close>

lemma header_slices:
  assumes "slice p 16 b = header_bytes t i e sz c" and "p + 16 \<le> length b"
  shows "b ! p = t" and "slice (p + 1) 4 b = word_encode True i"
    and "slice (p + 5) 8 b = word_encode True e" and "slice (p + 13) 2 b = word_encode True sz"
proof -
  have h: "slice q n (slice p 16 b) = slice (p + q) n b" if "q + n \<le> 16" for q n
    using that by (simp add: slice_slice)
  have f: "slice 1 4 (header_bytes t i e sz c) = word_encode True i"
    "slice 5 8 (header_bytes t i e sz c) = word_encode True e"
    "slice 13 2 (header_bytes t i e sz c) = word_encode True sz"
    by (simp_all add: header_bytes_def slice_def)
  show "slice (p + 1) 4 b = word_encode True i" "slice (p + 5) 8 b = word_encode True e"
    "slice (p + 13) 2 b = word_encode True sz"
    using h [of 1 4] h [of 5 8] h [of 13 2] unfolding assms(1) f by simp_all
  have "slice p 16 b ! 0 = b ! p" using assms(2) by simp
  then show "b ! p = t" unfolding assms(1) by (simp add: header_bytes_def)
qed

lemma header_fields:
  assumes "slice (msg_offset m) 16 (msg_buf m) = header_bytes t i e sz c"
    and "msg_offset m + 16 \<le> length (msg_buf m)"
  shows "GetTypeID m = Inr t" and "GetMsgID m = Inr i" and "GetExpiration m = Inr e"
    and "GetSize m = Inr sz"
  using header_slices [OF assms] assms(2)
  by (simp_all add: GetTypeID_def GetMsgID_def GetExpiration_def GetSize_def msg_accessors peek_def
      Read_buf_slice)

lemma header_of_fields:
  assumes "GetTypeID m = Inr t" and "GetMsgID m = Inr i" and "GetExpiration m = Inr e"
    and "GetSize m = Inr sz" and "msg_offset m + 16 \<le> length (msg_buf m)"
  shows "\<exists>c. slice (msg_offset m) 16 (msg_buf m) = header_bytes t i e sz c"
proof -
  let ?b = "msg_buf m" let ?p = "msg_offset m"
  have 1: "slice ?p 1 ?b = [t]"
    using assms(1,5) by (auto intro!: nth_equalityI simp: GetTypeID_def msg_accessors peek_def split: if_splits)
  have 2: "slice (?p + 1) 4 ?b = word_encode True i" "slice (?p + 5) 8 ?b = word_encode True e"
    "slice (?p + 13) 2 ?b = word_encode True sz"
    using assms(2-5)
    by (auto simp: GetMsgID_def GetExpiration_def GetSize_def msg_accessors Read_buf_slice
        intro!: word_encode_decode [symmetric])
  have 3: "slice (?p + 15) 1 ?b = [?b ! (?p + 15)]"
    using assms(5) by (auto intro!: nth_equalityI)
  have "slice ?p 16 ?b = slice ?p (1 + (4 + (8 + (2 + 1)))) ?b" by simp
  also have "\<dots> = slice ?p 1 ?b @ slice (?p + 1) 4 ?b @ slice (?p + 5) 8 ?b
      @ slice (?p + 13) 2 ?b @ slice (?p + 15) 1 ?b"
    unfolding slice_add add.assoc by simp
  finally show ?thesis unfolding 1 2 3 header_bytes_def by blast
qed

lemma header_written:
  assumes "msg_offset m + 16 \<le> length (msg_buf m)"
  shows "slice (msg_offset m) 16 (poke (msg_offset m) (header_bytes t i e sz c) (msg_buf m))
    = header_bytes t i e sz c"
  using assms by simp

text \<open>Filling the header is one write of its sixteen bytes; the payload is not touched.\<close>

lemma FillI2NPMessageHeader_eq:
  assumes "msg_ok m"
  shows "FillI2NPMessageHeader sha rnd now t r m =
    Inr (put_at (msg_offset m)
      (header_bytes (type_code t) (if r \<noteq> 0 then r else rnd) (now + 60000)
        (word_of_nat (GetPayloadLength m)) (sha (payload_bytes m) ! 0)) m)"
proof -
  let ?p = "msg_offset m"
  have len: "?p + 16 \<le> length (msg_buf m)" using assms by (simp add: msg_ok_def i2np_sizes)
  define m1 where "m1 = put_at ?p ([type_code t] @ word_encode True (if r \<noteq> 0 then r else rnd)
    @ word_encode True (now + 60000) @ word_encode True (word_of_nat (GetPayloadLength m) :: u16)) m"
  have chk: "mem_read (?p + 16) (GetPayloadLength m) (msg_buf m1) = Inr (payload_bytes m)"
    using assms len msg_ok_room [OF assms]
    by (simp add: m1_def mem_read_def payload_bytes_def msg_ok_def i2np_sizes msg_accessors
        slice_poke_after)
  have "FillI2NPMessageHeader sha rnd now t r m =
      UpdateChks sha m1"
    using len
    by (simp add: FillI2NPMessageHeader_def SetTypeID_def SetMsgID_def SetExpiration_def UpdateSize_def
        SetSize_def msg_accessors put_eq put_at_append m1_def add.commute)
  also have "\<dots> = Inr (put_at (?p + 15) [sha (payload_bytes m) ! 0] m1)"
    using len chk by (simp add: UpdateChks_def SetChks_def msg_accessors put_eq m1_def)
  also have "\<dots> = Inr (put_at ?p (header_bytes (type_code t) (if r \<noteq> 0 then r else rnd) (now + 60000)
        (word_of_nat (GetPayloadLength m)) (sha (payload_bytes m) ! 0)) m)"
    using len unfolding m1_def header_bytes_def by (subst put_at_append) simp_all
  finally show ?thesis .
qed

lemma FillI2NPMessageHeader_fields:
  assumes "msg_ok m" and "FillI2NPMessageHeader sha rnd now t r m = Inr m'"
  shows "GetTypeID m' = Inr (type_code t)" and "GetMsgID m' = Inr (if r \<noteq> 0 then r else rnd)"
    and "GetExpiration m' = Inr (now + 60000)"
    and "GetSize m' = Inr (word_of_nat (GetPayloadLength m))"
    and "payload_bytes m' = payload_bytes m" and "msg_ok m'"
    and "msg_offset m' = msg_offset m" and "msg_len m' = msg_len m"
    and "length (msg_buf m') = length (msg_buf m)"
proof -
  let ?h = "header_bytes (type_code t) (if r \<noteq> 0 then r else rnd) (now + 60000)
    (word_of_nat (GetPayloadLength m)) (sha (payload_bytes m) ! 0)"
  have len: "msg_offset m + 16 \<le> length (msg_buf m)" using assms(1) by (simp add: msg_ok_def i2np_sizes)
  have m': "m' = put_at (msg_offset m) ?h m" using assms FillI2NPMessageHeader_eq by simp
  have "slice (msg_offset m') 16 (msg_buf m') = ?h" using len m' by simp
  moreover have "msg_offset m' + 16 \<le> length (msg_buf m')" using len m' by simp
  ultimately show "GetTypeID m' = Inr (type_code t)" "GetMsgID m' = Inr (if r \<noteq> 0 then r else rnd)"
    "GetExpiration m' = Inr (now + 60000)" "GetSize m' = Inr (word_of_nat (GetPayloadLength m))"
    by (rule header_fields)+
  show "payload_bytes m' = payload_bytes m"
    using len unfolding m' by (simp add: payload_bytes_def msg_accessors slice_poke_after)
  show "msg_ok m'" "msg_offset m' = msg_offset m" "msg_len m' = msg_len m"
    "length (msg_buf m') = length (msg_buf m)"
    using assms(1) len unfolding m' by (simp_all add: msg_ok_def)
qed

lemma FillI2NPMessageHeader_checksum:
  assumes "msg_ok m" and "FillI2NPMessageHeader sha rnd now t r m = Inr m'"
  shows "peek (msg_offset m' + 15) (msg_buf m') = Inr (sha (payload_bytes m') ! 0)"
proof -
  let ?h = "header_bytes (type_code t) (if r \<noteq> 0 then r else rnd) (now + 60000)
    (word_of_nat (GetPayloadLength m)) (sha (payload_bytes m) ! 0)"
  have len: "msg_offset m + 16 \<le> length (msg_buf m)" using assms(1) by (simp add: msg_ok_def i2np_sizes)
  have m': "m' = put_at (msg_offset m) ?h m" using assms FillI2NPMessageHeader_eq by simp
  have "slice (msg_offset m') 16 (msg_buf m') ! 15 = ?h ! 15" using len m' by simp
  then have "msg_buf m' ! (msg_offset m' + 15) = ?h ! 15" using len m' by (simp add: slice_def)
  moreover have "?h ! 15 = sha (payload_bytes m) ! 0" by (simp add: header_bytes_def nth_append)
  ultimately show ?thesis
    using len m' FillI2NPMessageHeader_fields(5) [OF assms] by (simp add: peek_def)
qed

text \<open>The wire form of a message in SSU: the short header and the payload.\<close>

definition ssu_bytes :: "u8 \<Rightarrow> u64 \<Rightarrow> bytes \<Rightarrow> bytes" where
  "ssu_bytes t e payload = [t] @ word_encode True (ucast (e div 1000) :: u32) @ payload"

lemma ToSSU_eq:
  assumes "slice (msg_offset m) 16 (msg_buf m) = header_bytes t i e sz c"
    and "msg_offset m + 16 \<le> length (msg_buf m)"
  shows "ToSSU m = Inr (i, (put_at (msg_offset m + 11)
    ([t] @ word_encode True (ucast (e div 1000) :: u32)) m)\<lparr>msg_len := msg_offset m + 5 + unat sz\<rparr>)"
proof -
  let ?h = "header_bytes t i e sz c"
  have rd: "mem_read (msg_offset m) 16 (msg_buf m) = Inr ?h"
    using assms by (simp add: mem_read_def)
  have s: "slice 0 16 ?h = ?h" by (simp add: slice_def)
  note f = header_slices [OF s, simplified]
  have fields: "peek 0 ?h = Inr t" "Read_buf True 5 ?h = Inr e" "Read_buf True 13 ?h = Inr sz"
    "Read_buf True (Suc 0) ?h = Inr i"
    using f by (simp_all add: peek_def Read_buf_slice)
  show ?thesis
    using assms(2)
    by (simp add: ToSSU_def msg_accessors GetSSUHeader_eq i2np_sizes rd fields put_eq put_at_append)
qed

lemma FromSSU_eq:
  assumes "slice (msg_offset m + 11) 5 (msg_buf m) = [t] @ word_encode True (secs :: u32)"
    and "msg_offset m + 16 \<le> length (msg_buf m)"
  shows "FromSSU i m = Inr (put_at (msg_offset m)
    (header_bytes t i (ucast secs * 1000) (word_of_nat (size_sub (msg_len m - msg_offset m) 16)) 0) m)"
proof -
  let ?p = "msg_offset m" let ?b = "msg_buf m"
  have "slice (?p + 11) 5 ?b = slice (?p + 11) 1 ?b @ slice (?p + 12) 4 ?b"
    using slice_add [of "?p + 11" 1 4 ?b] by (simp add: add.commute)
  then have "slice (?p + 11) 1 ?b @ slice (?p + 12) 4 ?b = [t] @ word_encode True secs"
    unfolding assms(1) by (rule sym)
  moreover have "length (slice (?p + 11) 1 ?b) = length [t]" using assms(2) by simp
  ultimately have sp: "slice (?p + 11) 1 ?b = [t]" "slice (?p + 12) 4 ?b = word_encode True secs"
    using append_eq_append_conv by blast+
  have t: "peek (?p + 11) ?b = Inr t"
    using sp(1) assms(2) nth_slice [of 0 1 "?p + 11" ?b] by (simp add: peek_def)
  let ?m2 = "put_at ?p ([t] @ word_encode True i) m"
  have rd: "Read_buf True (?p + 12) (msg_buf ?m2) = Inr secs"
    using sp(2) assms(2) by (simp add: Read_buf_slice slice_poke_after)
  have "FromSSU i m = bind_result (Read_buf True (?p + 12) (msg_buf ?m2)) (\<lambda>seconds :: u32.
     bind_result (SetExpiration (ucast seconds * 1000) ?m2) (\<lambda>m3.
     bind_result (SetSize (word_of_nat (size_sub (msg_len m - ?p) 16)) m3) (SetChks 0)))"
    using assms(2) t
    by (simp add: FromSSU_def GetSSUHeader_eq msg_accessors put_eq SetMsgID_def put_at_append
        I2NP_HEADER_SIZE_def add.commute)
  also have "\<dots> = Inr (put_at ?p (header_bytes t i (ucast secs * 1000)
      (word_of_nat (size_sub (msg_len m - ?p) 16)) 0) m)"
    unfolding rd using assms(2)
    by (simp add: SetExpiration_def SetSize_def SetChks_def msg_accessors put_eq put_at_append
        header_bytes_def add.commute)
  finally show ?thesis .
qed

section \<open>Properties of messages\<close>

text \<open>The message a receiver has after storing \<open>wire\<close> behind the place of the short header.\<close>

definition ssu_received :: "bytes \<Rightarrow> I2NPMessage" where
  "ssu_received wire =
     NewI2NPMessage\<lparr>msg_buf := poke 13 wire (msg_buf NewI2NPMessage), msg_len := 13 + length wire\<rparr>"

lemma ToSSU_wire:
  assumes "msg_ok m" and "slice (msg_offset m) 16 (msg_buf m) = header_bytes t i e sz c"
    and "unat sz = GetPayloadLength m"
  shows "\<exists>m'. ToSSU m = Inr (i, m') \<and>
    slice (GetSSUHeader m') (GetLength m') (msg_buf m') = ssu_bytes t e (payload_bytes m)"
proof -
  let ?s = "[t] @ word_encode True (ucast (e div 1000) :: u32)"
  let ?m' = "(put_at (msg_offset m + 11) ?s m)\<lparr>msg_len := msg_offset m + 5 + unat sz\<rparr>"
  have len: "msg_offset m + 16 \<le> length (msg_buf m)" using assms(1) by (simp add: msg_ok_def i2np_sizes)
  have "slice (msg_offset m + 11) (5 + unat sz) (poke (msg_offset m + 11) ?s (msg_buf m))
      = slice (msg_offset m + 11) 5 (poke (msg_offset m + 11) ?s (msg_buf m))
        @ slice (msg_offset m + 11 + 5) (unat sz) (poke (msg_offset m + 11) ?s (msg_buf m))"
    by (rule slice_add)
  also have "\<dots> = ?s @ slice (msg_offset m + 16) (unat sz) (msg_buf m)"
    using len by (simp add: slice_poke_after add.assoc)
  finally have "slice (GetSSUHeader ?m') (GetLength ?m') (msg_buf ?m') = ssu_bytes t e (payload_bytes m)"
    using assms(3) by (simp add: GetSSUHeader_eq msg_accessors ssu_bytes_def payload_bytes_def)
  with ToSSU_eq [OF assms(2) len] show ?thesis by blast
qed

lemma FromSSU_wire:
  assumes "length payload \<le> 32000"
  shows "\<exists>r. FromSSU i (ssu_received (ssu_bytes t e payload)) = Inr r \<and>
    GetTypeID r = Inr t \<and> GetMsgID r = Inr i \<and>
    GetExpiration r = Inr (ucast (ucast (e div 1000) :: u32) * 1000) \<and>
    GetSize r = Inr (word_of_nat (length payload)) \<and> payload_bytes r = payload"
proof -
  let ?w = "ssu_bytes t e payload" let ?m = "ssu_received ?w"
  have w: "length ?w = 5 + length payload" by (simp add: ssu_bytes_def)
  have m: "msg_offset ?m = 2" "msg_len ?m = 18 + length payload" "length (msg_buf ?m) = 32784"
    "msg_buf ?m = poke 13 ?w (replicate 32784 0)"
    using assms w
    by (simp_all add: ssu_received_def NewI2NPMessage_def I2NPMessageBuffer_def i2np_sizes del: replicate.simps)
  have "slice 13 5 (msg_buf ?m) = [t] @ word_encode True (ucast (e div 1000) :: u32)"
    unfolding m(4) using assms w by (subst slice_poke_inside) (simp_all add: ssu_bytes_def slice_def)
  then have eq: "FromSSU i ?m = Inr (put_at 2 (header_bytes t i (ucast (ucast (e div 1000) :: u32) * 1000)
      (word_of_nat (length payload)) 0) ?m)" (is "_ = Inr ?r")
    using FromSSU_eq [of ?m t "ucast (e div 1000)" i] m by simp
  have "slice (msg_offset ?r) 16 (msg_buf ?r) = header_bytes t i (ucast (ucast (e div 1000) :: u32) * 1000)
      (word_of_nat (length payload)) 0" "msg_offset ?r + 16 \<le> length (msg_buf ?r)"
    using m by simp_all
  note f = header_fields [OF this]
  have "payload_bytes ?r = slice 18 (length payload) (msg_buf ?m)"
    using m by (simp add: payload_bytes_def msg_accessors slice_poke_after)
  also have "\<dots> = payload"
    unfolding m(4) using assms w by (subst slice_poke_inside) (simp_all add: ssu_bytes_def slice_def)
  finally show ?thesis using eq f by blast
qed

text \<open>
  C15 (round trip). A message with a consistent header, converted to the short header of SSU,
  sent, and converted back at the receiver under the same identifier, has the same type,
  identifier, size and payload; its expiration is rounded down to seconds, modulo \<open>2 ^ 32\<close>.
\<close>

theorem ssu_conversion_roundtrip:
  assumes "msg_ok m" and "GetTypeID m = Inr t" and "GetMsgID m = Inr i" and "GetExpiration m = Inr e"
    and "GetSize m = Inr (word_of_nat (GetPayloadLength m))" and "GetPayloadLength m \<le> 32000"
  shows "\<exists>m' r. ToSSU m = Inr (i, m') \<and>
    FromSSU i (ssu_received (slice (GetSSUHeader m') (GetLength m') (msg_buf m'))) = Inr r \<and>
    GetTypeID r = Inr t \<and> GetMsgID r = Inr i \<and>
    GetExpiration r = Inr (ucast (ucast (e div 1000) :: u32) * 1000) \<and>
    GetSize r = GetSize m \<and> payload_bytes r = payload_bytes m"
proof -
  have len: "msg_offset m + 16 \<le> length (msg_buf m)" using assms(1) by (simp add: msg_ok_def i2np_sizes)
  obtain c where h: "slice (msg_offset m) 16 (msg_buf m) =
      header_bytes t i e (word_of_nat (GetPayloadLength m)) c"
    using header_of_fields [OF assms(2-5) len] by blast
  have "unat (word_of_nat (GetPayloadLength m) :: u16) = GetPayloadLength m"
    using assms(6) by (simp add: unat_of_nat take_bit_eq_mod)
  from ToSSU_wire [OF assms(1) h this] obtain m' where m': "ToSSU m = Inr (i, m')"
    "slice (GetSSUHeader m') (GetLength m') (msg_buf m') = ssu_bytes t e (payload_bytes m)" by blast
  have pl: "length (payload_bytes m) = GetPayloadLength m"
    using assms(1) by (auto simp: payload_bytes_def msg_ok_def msg_accessors i2np_sizes min_def)
  with FromSSU_wire [of "payload_bytes m" i t e] assms(5,6) m' show ?thesis by auto
qed

definition sample_message :: I2NPMessage where
  "sample_message = put_at 2 (header_bytes 20 7 5000 0 0) NewI2NPShortMessage"

theorem ssu_conversion_roundtrip_witness:
  "\<exists>m' r. ToSSU sample_message = Inr (7, m') \<and>
    FromSSU 7 (ssu_received (slice (GetSSUHeader m') (GetLength m') (msg_buf m'))) = Inr r \<and>
    GetTypeID r = Inr 20 \<and> GetExpiration r = Inr 5000"
proof -
  have m: "msg_offset sample_message = 2" "msg_len sample_message = 18"
    "length (msg_buf sample_message) = 4112" "slice 2 16 (msg_buf sample_message) = header_bytes 20 7 5000 0 0"
    by (simp_all add: sample_message_def NewI2NPShortMessage_def I2NPMessageBuffer_def i2np_sizes
        del: replicate.simps)
  then have "msg_ok sample_message" "GetPayloadLength sample_message = 0"
    by (simp_all add: msg_ok_def i2np_sizes msg_accessors)
  moreover have "slice (msg_offset sample_message) 16 (msg_buf sample_message) = header_bytes 20 7 5000 0 0"
    "msg_offset sample_message + 16 \<le> length (msg_buf sample_message)" using m by simp_all
  note f = header_fields [OF this]
  ultimately have "\<exists>m' r. ToSSU sample_message = Inr (7, m') \<and>
    FromSSU 7 (ssu_received (slice (GetSSUHeader m') (GetLength m') (msg_buf m'))) = Inr r \<and>
    GetTypeID r = Inr 20 \<and> GetMsgID r = Inr 7 \<and>
    GetExpiration r = Inr (ucast (ucast (5000 div 1000 :: u64) :: u32) * 1000) \<and>
    GetSize r = GetSize sample_message \<and> payload_bytes r = payload_bytes sample_message"
    by (intro ssu_conversion_roundtrip) simp_all
  then show ?thesis by auto
qed

lemma NewI2NPMessage_for_fields:
  "msg_offset (NewI2NPMessage_for n) = 2" "msg_len (NewI2NPMessage_for n) = 18"
  "length (msg_buf (NewI2NPMessage_for n)) = (if n < 2048 then 4112 else 32784)"
  "msg_max_len (NewI2NPMessage_for n) = (if n < 2048 then 4096 else 32768)"
  by (simp_all add: NewI2NPMessage_for_def NewI2NPShortMessage_def NewI2NPMessage_def
      I2NPMessageBuffer_def i2np_sizes del: replicate.simps)

text \<open>
  C33 (functional). A message of a given type carries the caller's bytes as its payload when
  they fit below the capacity of the largest buffer, and is empty otherwise. In both cases the
  header fits the payload: type, identifier, expiration a minute ahead, length, and as its last
  byte the checksum, the first byte of the hash of the payload.
\<close>

theorem CreateI2NPMessage_payload:
  assumes "len \<le> length buf"
  shows "\<exists>m. CreateI2NPMessage sha rnd now t buf len r = Inr m \<and> msg_ok m \<and>
    GetTypeID m = Inr (type_code t) \<and> GetMsgID m = Inr (if r \<noteq> 0 then r else rnd) \<and>
    GetExpiration m = Inr (now + 60000) \<and>
    GetSize m = Inr (word_of_nat (length (payload_bytes m))) \<and>
    peek (GetBuffer m + 15) (msg_buf m) = Inr (sha (payload_bytes m) ! 0) \<and>
    payload_bytes m = (if len + 18 < 32768 then take len buf else [])"
proof (cases "len + 18 < 32768")
  case True
  let ?n = "NewI2NPMessage_for len"
  note n = NewI2NPMessage_for_fields [of len]
  let ?m = "(put_at 18 (take len buf) ?n)\<lparr>msg_len := 18 + len\<rparr>"
  have room: "18 + len < msg_max_len ?n" "18 + len \<le> length (msg_buf ?n)" using True n by simp_all
  have ok: "msg_ok ?m" using assms room n by (simp add: msg_ok_def i2np_sizes)
  have pl: "payload_bytes ?m = take len buf" "GetPayloadLength ?m = len"
    using assms room n by (simp_all add: payload_bytes_def msg_accessors)
  have "CreateI2NPMessage sha rnd now t buf len r = FillI2NPMessageHeader sha rnd now t r ?m"
    using assms room n
    by (simp add: CreateI2NPMessage_def Let_def mem_read_def slice_def msg_accessors put_eq)
  moreover obtain m where m: "FillI2NPMessageHeader sha rnd now t r ?m = Inr m"
    using FillI2NPMessageHeader_eq [OF ok] by blast
  ultimately show ?thesis
    using FillI2NPMessageHeader_fields [OF ok m] FillI2NPMessageHeader_checksum [OF ok m] True assms pl
    by (auto simp: msg_accessors)
next
  case False
  let ?n = "NewI2NPMessage_for len"
  note n = NewI2NPMessage_for_fields [of len]
  have ok: "msg_ok ?n" using n by (simp add: msg_ok_def i2np_sizes)
  have pl: "payload_bytes ?n = []" "GetPayloadLength ?n = 0"
    using n by (simp_all add: payload_bytes_def msg_accessors)
  have "CreateI2NPMessage sha rnd now t buf len r = FillI2NPMessageHeader sha rnd now t r ?n"
    using False n by (simp add: CreateI2NPMessage_def Let_def)
  moreover obtain m where m: "FillI2NPMessageHeader sha rnd now t r ?n = Inr m"
    using FillI2NPMessageHeader_eq [OF ok] by blast
  ultimately show ?thesis
    using FillI2NPMessageHeader_fields [OF ok m] FillI2NPMessageHeader_checksum [OF ok m] False pl
    by (auto simp: msg_accessors)
qed

theorem CreateI2NPMessage_payload_witness:
  "\<exists>m. CreateI2NPMessage (\<lambda>_. [9]) 1 2 I2NPData [5, 6] 2 0 = Inr m \<and> payload_bytes m = [5, 6] \<and>
     peek (GetBuffer m + 15) (msg_buf m) = Inr 9"
  using CreateI2NPMessage_payload [of 2 "[5, 6]" "\<lambda>_. [9]" 1 2 I2NPData 0] by auto

lemma CreateTunnelGatewayMsg_buf_ok:
  assumes "len \<le> length buf" and "len \<le> 32760"
  shows "\<exists>m. CreateTunnelGatewayMsg_buf sha rnd now tunnel_ID buf len = Inr m \<and> msg_ok m \<and>
      GetTypeID m = Inr (type_code I2NPTunnelGateway) \<and>
      payload_bytes m = word_encode True tunnel_ID @ word_encode True (word_of_nat len :: u16) @ take len buf"
proof -
  let ?n = "NewI2NPMessage_for len"
  note n = NewI2NPMessage_for_fields [of len]
  let ?bs = "word_encode True tunnel_ID @ word_encode True (word_of_nat len :: u16) @ take len buf"
  let ?m = "(put_at 18 ?bs ?n)\<lparr>msg_len := 24 + len\<rparr>"
  have room: "24 + len \<le> length (msg_buf ?n)" using assms(2) n by simp
  have ok: "msg_ok ?m" using assms(1) room n by (simp add: msg_ok_def i2np_sizes)
  have pl: "payload_bytes ?m = ?bs"
    using assms(1) room n by (simp add: payload_bytes_def msg_accessors)
  have "CreateTunnelGatewayMsg_buf sha rnd now tunnel_ID buf len =
      FillI2NPMessageHeader sha rnd now I2NPTunnelGateway 0 ?m"
    using assms(1) room n
    by (simp add: CreateTunnelGatewayMsg_buf_def Let_def mem_read_def slice_def msg_accessors put_eq
        put_at_append i2np_sizes)
  moreover obtain m where m: "FillI2NPMessageHeader sha rnd now I2NPTunnelGateway 0 ?m = Inr m"
    using FillI2NPMessageHeader_eq [OF ok] by blast
  ultimately show ?thesis
    using FillI2NPMessageHeader_fields [OF ok m] pl by auto
qed

text \<open>
  C34 (bounds). A tunnel gateway message holds the tunnel identifier, the length and the bytes
  of the inner message when that has at most 32760 bytes; a longer one is written past the
  end of the buffer, since no length is checked.
\<close>

theorem CreateTunnelGatewayMsg_buf_exact:
  assumes "len \<le> length buf"
  shows "if len \<le> 32760
    then \<exists>m. CreateTunnelGatewayMsg_buf sha rnd now tunnel_ID buf len = Inr m \<and> msg_ok m \<and>
      GetTypeID m = Inr (type_code I2NPTunnelGateway) \<and>
      payload_bytes m = word_encode True tunnel_ID @ word_encode True (word_of_nat len :: u16) @ take len buf
    else CreateTunnelGatewayMsg_buf sha rnd now tunnel_ID buf len = Inl MemoryError"
proof (cases "len \<le> 32760")
  case True
  then show ?thesis using CreateTunnelGatewayMsg_buf_ok [OF assms] by simp
next
  case False
  note n = NewI2NPMessage_for_fields [of len]
  from False assms n show ?thesis
    by (simp add: CreateTunnelGatewayMsg_buf_def Let_def mem_read_def slice_def msg_accessors put_eq
        i2np_sizes) (simp add: put_def mem_write_def)
qed

theorem CreateTunnelGatewayMsg_buf_exact_witness:
  "\<exists>m. CreateTunnelGatewayMsg_buf (\<lambda>_. [9]) 1 2 77 [5, 6] 2 = Inr m \<and>
     payload_bytes m = word_encode True (77 :: u32) @ word_encode True (2 :: u16) @ [5, 6]"
  using CreateTunnelGatewayMsg_buf_exact [of 2 "[5, 6]" "\<lambda>_. [9]" 1 2 77] by auto

text \<open>
  The other overload writes the header of the gateway message into the room before the inner
  message, if there is enough, and copies it otherwise.
\<close>

lemma CreateTunnelGatewayMsg_ok:
  assumes "msg_len x = msg_offset x + length d" and "msg_len x \<le> length (msg_buf x)"
    and "slice (msg_offset x) (length d) (msg_buf x) = d" and "length d \<le> 32760"
  shows "\<exists>m. CreateTunnelGatewayMsg sha rnd now tunnel_ID x = Inr m \<and> GetTypeID m = Inr (type_code I2NPTunnelGateway) \<and>
    payload_bytes m = word_encode True tunnel_ID @ word_encode True (word_of_nat (length d) :: u16) @ d"
proof (cases "22 \<le> msg_offset x")
  case True
  let ?o = "msg_offset x" let ?h = "word_encode True tunnel_ID @ word_encode True (word_of_nat (length d) :: u16)"
  let ?m = "(put_at (?o - 6) ?h x)\<lparr>msg_offset := ?o - 22, msg_len := ?o + length d\<rparr>"
  have ok: "msg_ok ?m" using assms True by (simp add: msg_ok_def i2np_sizes)
  have "payload_bytes ?m = slice (?o - 6) (6 + length d) (poke (?o - 6) ?h (msg_buf x))"
    using True by (simp add: payload_bytes_def msg_accessors size_sub_def i2np_sizes)
  also have "\<dots> = ?h @ d"
    unfolding slice_add using assms True by (simp add: slice_poke_after)
  finally have pl: "payload_bytes ?m = ?h @ d" .
  have "CreateTunnelGatewayMsg sha rnd now tunnel_ID x = FillI2NPMessageHeader sha rnd now I2NPTunnelGateway 0 ?m"
    using assms True
    by (simp add: CreateTunnelGatewayMsg_def Let_def msg_accessors put_eq put_at_append i2np_sizes)
  moreover obtain m where m: "FillI2NPMessageHeader sha rnd now I2NPTunnelGateway 0 ?m = Inr m"
    using FillI2NPMessageHeader_eq [OF ok] by blast
  ultimately show ?thesis
    using FillI2NPMessageHeader_fields [OF ok m] pl by auto
next
  case False
  have "length d \<le> length (drop (msg_offset x) (msg_buf x))" using assms by simp
  from CreateTunnelGatewayMsg_buf_ok [OF this assms(4), of sha rnd now tunnel_ID] False assms show ?thesis
    by (auto simp: CreateTunnelGatewayMsg_def msg_accessors i2np_sizes slice_def)
qed

section \<open>Properties of the handlers\<close>

text \<open>A batch of received messages, put one after the other.\<close>

definition PutMessages ::
    "RouterEnv \<Rightarrow> I2NPMessage list \<Rightarrow> action list \<times> I2NPMessagesHandler \<Rightarrow>
     (action list \<times> I2NPMessagesHandler) result" where
  "PutMessages env ms s =
     fold_result (\<lambda>(acts, h) m. bind_result (PutNextMessage env (Some m) h)
       (\<lambda>(more, h'). Inr (acts @ more, h'))) s ms"

definition has_type :: "I2NPMessageType \<Rightarrow> I2NPMessage \<Rightarrow> bool" where
  "has_type t m \<longleftrightarrow> GetTypeID m = Inr (type_code t)"

lemma PutNextMessage_queues:
  assumes "PutNextMessage env (Some m) h = Inr (acts, h')"
  shows "m_TunnelMsgs h' = m_TunnelMsgs h @ filter (has_type I2NPTunnelData) [m] \<and>
    m_TunnelGatewayMsgs h' = m_TunnelGatewayMsgs h @ filter (has_type I2NPTunnelGateway) [m]"
proof -
  from assms obtain t where t: "GetTypeID m = Inr t"
    by (auto simp: PutNextMessage_def bind_result_eq_Inr)
  consider "t = 18" | "t = 19" | "t \<noteq> 18" "t \<noteq> 19" by blast
  then show ?thesis
    using assms t by cases (auto simp: PutNextMessage_def has_type_def bind_result_eq_Inr)
qed

lemma PutMessages_queues:
  assumes "PutMessages env ms (acts, h) = Inr (acts', h')"
  shows "m_TunnelMsgs h' = m_TunnelMsgs h @ filter (has_type I2NPTunnelData) ms \<and>
    m_TunnelGatewayMsgs h' = m_TunnelGatewayMsgs h @ filter (has_type I2NPTunnelGateway) ms"
  using assms
proof (induction ms arbitrary: acts h)
  case (Cons m ms)
  from Cons.prems obtain more h1 where 1: "PutNextMessage env (Some m) h = Inr (more, h1)"
    and 2: "PutMessages env ms (acts @ more, h1) = Inr (acts', h')"
    by (auto simp: PutMessages_def result_simps)
  from PutNextMessage_queues [OF 1] Cons.IH [OF 2] show ?case by auto
qed (simp add: PutMessages_def)

text \<open>
  C19 (functional). The handler posts the tunnel data messages of a batch together and in order of
  arrival, then the gateway messages in order of arrival, and afterwards its queues are empty:
  no message of these types is lost, repeated or reordered.
\<close>

theorem handler_order:
  assumes "PutMessages env ms ([], \<lparr>m_TunnelMsgs = [], m_TunnelGatewayMsgs = []\<rparr>) = Inr (acts, h)"
  shows "Flush h =
    (map PostTunnelData (filter (\<lambda>b. b \<noteq> [])
       [filter (has_type I2NPTunnelData) ms, filter (has_type I2NPTunnelGateway) ms]),
     \<lparr>m_TunnelMsgs = [], m_TunnelGatewayMsgs = []\<rparr>)"
  using PutMessages_queues [OF assms] by (cases h) (simp add: Flush_def)

definition sample_env :: RouterEnv where
  "sample_env = \<lparr>e_sha256 = (\<lambda>_. replicate 32 0), e_elgamal = (\<lambda>_. replicate 222 0), e_cbc = (\<lambda>k i b. b),
     e_own_ident = replicate 32 1, e_padding = replicate 495 0, e_AcceptsTunnels = True,
     e_transit_tunnels = 0, e_bandwidth_exceeded = False, e_rnd1 = 1, e_rnd2 = 2, e_now = 3,
     e_pending_inbound = (\<lambda>_. None), e_pending_outbound = (\<lambda>_. None),
     e_build_response = (\<lambda>_ _ _. False), e_pool_of = (\<lambda>_. None)\<rparr>"

definition tiny_message :: "u8 \<Rightarrow> I2NPMessage" where
  "tiny_message t = \<lparr>msg_buf = [t], msg_len = 1, msg_offset = 0, msg_max_len = 1, msg_from = None\<rparr>"

theorem handler_order_witness:
  "\<exists>acts h. PutMessages sample_env [tiny_message 18, tiny_message 19, tiny_message 18]
      ([], \<lparr>m_TunnelMsgs = [], m_TunnelGatewayMsgs = []\<rparr>) = Inr (acts, h) \<and>
    fst (Flush h) = [PostTunnelData [tiny_message 18, tiny_message 18], PostTunnelData [tiny_message 19]]"
proof -
  have t: "GetTypeID (tiny_message t) = Inr t" for t
    by (simp add: GetTypeID_def GetBuffer_def tiny_message_def peek_def)
  have "\<exists>acts h. PutMessages sample_env [tiny_message 18, tiny_message 19, tiny_message 18]
      ([], \<lparr>m_TunnelMsgs = [], m_TunnelGatewayMsgs = []\<rparr>) = Inr (acts, h)"
    by (simp add: PutMessages_def PutNextMessage_def t)
  then obtain acts h where ah: "PutMessages sample_env [tiny_message 18, tiny_message 19, tiny_message 18]
      ([], \<lparr>m_TunnelMsgs = [], m_TunnelGatewayMsgs = []\<rparr>) = Inr (acts, h)" by blast
  with handler_order [OF ah] show ?thesis by (simp add: has_type_def t)
qed

text \<open>The records of a build request as blocks of 528 bytes.\<close>

definition build_record :: "nat \<Rightarrow> bytes \<Rightarrow> bytes" where
  "build_record j records = slice (j * TUNNEL_BUILD_RECORD_SIZE) TUNNEL_BUILD_RECORD_SIZE records"

lemma own_record_eq:
  assumes "\<forall>i \<in> set is. i * TUNNEL_BUILD_RECORD_SIZE + 16 \<le> length records"
  shows "own_record own is records =
    Inr (find (\<lambda>i. slice (i * TUNNEL_BUILD_RECORD_SIZE) 16 records = take 16 own) is)"
  using assms by (induction "is") (simp_all add: mem_read_def)

lemma record_in_range:
  "num * TUNNEL_BUILD_RECORD_SIZE \<le> length records \<Longrightarrow> i < num \<Longrightarrow>
   i * TUNNEL_BUILD_RECORD_SIZE + TUNNEL_BUILD_RECORD_SIZE \<le> length records"
  using mult_le_mono1 [of "Suc i" num TUNNEL_BUILD_RECORD_SIZE] by simp

lemma own_record_found:
  assumes "num * TUNNEL_BUILD_RECORD_SIZE \<le> length records"
  shows "own_record own [0..<num] records =
    Inr (find (\<lambda>i. slice (i * TUNNEL_BUILD_RECORD_SIZE) 16 records = take 16 own) [0..<num])"
  using record_in_range [OF assms]
  by (intro own_record_eq) (force simp: TUNNEL_BUILD_RECORD_SIZE_def)

lemma encrypt_records:
  assumes "\<And>k i b. length (cbc k i b) = length b" and "n * TUNNEL_BUILD_RECORD_SIZE \<le> length records"
  shows "\<exists>rs. fold_result (encrypt_record cbc key iv) records [0..<n] = Inr rs \<and>
    length rs = length records \<and>
    (\<forall>j < n. build_record j rs = cbc key iv (build_record j records)) \<and>
    (\<forall>p. n * TUNNEL_BUILD_RECORD_SIZE \<le> p \<longrightarrow> (\<forall>k. slice p k rs = slice p k records))"
  using assms(2)
proof (induction n)
  case (Suc n)
  let ?z = TUNNEL_BUILD_RECORD_SIZE
  from Suc obtain rs where rs: "fold_result (encrypt_record cbc key iv) records [0..<n] = Inr rs"
      "length rs = length records" "\<forall>j < n. build_record j rs = cbc key iv (build_record j records)"
      "\<forall>p. n * ?z \<le> p \<longrightarrow> (\<forall>k. slice p k rs = slice p k records)" by auto
  have room: "n * ?z + ?z \<le> length rs" using Suc.prems rs(2) by simp
  have blk: "slice (n * ?z) ?z rs = build_record n records" using rs(4) by (simp add: build_record_def)
  have len: "length (build_record n records) = ?z" using Suc.prems by (simp add: build_record_def)
  let ?e = "cbc key iv (build_record n records)"
  let ?rs = "poke (n * ?z) ?e rs"
  have step: "encrypt_record cbc key iv rs n = Inr ?rs"
    using room blk len assms(1) by (simp add: encrypt_record_def mem_read_def mem_write_def)
  have "build_record j ?rs = cbc key iv (build_record j records)" if "j < Suc n" for j
  proof (cases "j = n")
    case True
    then show ?thesis using room len assms(1) by (simp add: build_record_def)
  next
    case False
    then have "j * ?z + ?z \<le> n * ?z" using that
      by (metis Suc_leI add.commute less_antisym mult_Suc mult_le_mono1)
    with False that rs(3) room len assms(1) show ?thesis
      by (simp add: build_record_def slice_poke_before)
  qed
  moreover have "slice p k ?rs = slice p k records" if "Suc n * ?z \<le> p" for p k
    using that rs(4) room len assms(1) by (simp add: slice_poke_after add.commute)
  ultimately show ?case
    using rs(1,2) step room len assms(1) by (intro exI [of _ ?rs]) simp
qed (simp add: build_record_def)

text \<open>The clear reply record before encryption, and that the other records are not touched.\<close>

lemma reply_record:
  fixes st :: u8
  assumes r: "r = i * TUNNEL_BUILD_RECORD_SIZE" and room: "r + TUNNEL_BUILD_RECORD_SIZE \<le> length records"
    and pad: "length padding = 495" and sha: "\<And>b. length (sha b) = 32"
  defines "body \<equiv> padding @ [st]"
  defines "rs2 \<equiv> poke (r + 32) padding (poke (r + 527) [st] records)"
  defines "rs3 \<equiv> poke r (sha body) rs2"
  shows "slice (r + 32) 496 rs2 = body" and "build_record i rs3 = sha body @ body"
    and "j \<noteq> i \<Longrightarrow> build_record j rs3 = build_record j records"
    and "length rs3 = length records" and "length rs2 = length records"
proof -
  have len: "r + 528 \<le> length records" using room by (simp add: TUNNEL_BUILD_RECORD_SIZE_def)
  then show l2: "length rs2 = length records" using pad by (simp add: rs2_def)
  then show "length rs3 = length records" using len sha by (simp add: rs3_def)
  have "slice (r + 32) (495 + 1) rs2 = slice (r + 32) 495 rs2 @ slice (r + 32 + 495) 1 rs2"
    by (rule slice_add)
  also have "slice (r + 32) 495 rs2 = padding" using len pad by (simp add: rs2_def)
  also have "slice (r + 32 + 495) 1 rs2 = [st]"
    unfolding rs2_def using len pad by (subst slice_poke_after) (simp_all add: add.commute)
  finally show b: "slice (r + 32) 496 rs2 = body" by (simp add: body_def)
  have "build_record i rs3 = slice r (32 + 496) rs3"
    by (simp add: build_record_def r TUNNEL_BUILD_RECORD_SIZE_def)
  also have "\<dots> = slice r 32 rs3 @ slice (r + 32) 496 rs3" by (rule slice_add)
  also have "slice r 32 rs3 = sha body" using len l2 sha by (simp add: rs3_def)
  also have "slice (r + 32) 496 rs3 = body"
    unfolding rs3_def using len l2 sha b by (subst slice_poke_after) simp_all
  finally show "build_record i rs3 = sha body @ body" .
  show "build_record j rs3 = build_record j records" if "j \<noteq> i"
  proof (cases "j < i")
    case True
    then have "j * 528 + 528 \<le> r" by (simp add: r TUNNEL_BUILD_RECORD_SIZE_def)
    then show ?thesis
      using len l2 pad sha
      by (simp add: build_record_def rs3_def rs2_def TUNNEL_BUILD_RECORD_SIZE_def slice_poke_before)
  next
    case False
    with that have "r + 528 \<le> j * 528" by (simp add: r TUNNEL_BUILD_RECORD_SIZE_def)
    then show ?thesis
      using len l2 pad sha
      by (simp add: build_record_def rs3_def rs2_def TUNNEL_BUILD_RECORD_SIZE_def slice_poke_after)
  qed
qed

lemma transit_request_ok: "length text = 222 \<Longrightarrow> \<exists>t. transit_request text = Inr t"
  by (simp add: transit_request_def Read_buf_slice mem_read_def peek_def)

text \<open>
  C20 (functional). The build request handler stays inside the records when there are as many
  as announced. If none is addressed to this router it changes nothing. Otherwise it replaces
  the first such record by the hash, padding and status byte (0 with a transit tunnel if the
  router accepts, 30 without one otherwise), and encrypts every record under the reply key.
\<close>

theorem HandleBuildRequestRecords_spec:
  assumes num: "num * TUNNEL_BUILD_RECORD_SIZE \<le> length records"
    and prims: "\<And>b. length (sha b) = 32" "\<And>b. length (elgamal b) = 222"
      "\<And>k v b. length (cbc k v b) = length b" "length padding = 495"
  shows "case find (\<lambda>i. slice (i * TUNNEL_BUILD_RECORD_SIZE) 16 records = take 16 own) [0..<num] of
      None \<Rightarrow> HandleBuildRequestRecords sha elgamal cbc own padding accepts num records clear
               = Inr (False, records, clear, None)
    | Some i \<Rightarrow>
        (\<exists>rs transit. let text = elgamal (slice (i * TUNNEL_BUILD_RECORD_SIZE + 16) 512 records);
              enc = cbc (slice 136 32 text) (slice 168 16 text);
              body = padding @ [if accepts then 0 else 30]
          in HandleBuildRequestRecords sha elgamal cbc own padding accepts num records clear
               = Inr (True, rs, text, transit) \<and>
             (transit = None) = (\<not> accepts) \<and> length rs = length records \<and>
             (\<forall>j < num. build_record j rs =
                enc (if j = i then sha body @ body else build_record j records)))"
proof (cases "find (\<lambda>i. slice (i * TUNNEL_BUILD_RECORD_SIZE) 16 records = take 16 own) [0..<num]")
  case None
  with own_record_found [OF num] show ?thesis by (simp add: HandleBuildRequestRecords_def)
next
  case (Some i)
  then have i: "i < num" by (auto simp: find_Some_iff)
  define r where "r = i * TUNNEL_BUILD_RECORD_SIZE"
  define clr where "clr = elgamal (slice (r + 16) 512 records)"
  define st :: u8 where "st = (if accepts then 0 else 30)"
  define rs2 where "rs2 = poke (r + 32) padding (poke (r + 527) [st] records)"
  define rs3 where "rs3 = poke r (sha (padding @ [st])) rs2"
  have room: "r + TUNNEL_BUILD_RECORD_SIZE \<le> length records" using record_in_range [OF num i] by (simp add: r_def)
  then have room': "r + 528 \<le> length records" by (simp add: TUNNEL_BUILD_RECORD_SIZE_def)
  note rr = reply_record [where sha = sha and st = st, OF r_def room prims(4,1), folded rs2_def, folded rs3_def]
  have clr: "length clr = 222" by (simp add: clr_def prims)
  obtain t where t: "transit_request clr = Inr t" using transit_request_ok [OF clr] by blast
  obtain rs where rs: "fold_result (encrypt_record cbc (slice 136 32 clr) (slice 168 16 clr)) rs3 [0..<num] = Inr rs"
      "length rs = length rs3"
      "\<forall>j < num. build_record j rs = cbc (slice 136 32 clr) (slice 168 16 clr) (build_record j rs3)"
    using encrypt_records [where cbc = cbc and n = num and records = rs3 and key = "slice 136 32 clr"
        and iv = "slice 168 16 clr", OF prims(3)] num rr(4) by auto
  have "mem_read (r + 16) 512 records = Inr (slice (r + 16) 512 records)"
    "mem_write (r + 527) [st] records = Inr (poke (r + 527) [st] records)"
    "mem_write (r + 32) padding (poke (r + 527) [st] records) = Inr rs2"
    "mem_write r (sha (padding @ [st])) rs2 = Inr rs3"
    "mem_read (r + 32) 496 rs2 = Inr (padding @ [st])"
    "mem_read 136 32 clr = Inr (slice 136 32 clr)" "mem_read 168 16 clr = Inr (slice 168 16 clr)"
    unfolding rs3_def using room' prims(1,4) rr(1,5) clr
    by (simp_all add: mem_read_def mem_write_def) (simp add: rs2_def)
  note steps = this
  have tr: "(if accepts then bind_result (transit_request clr) (\<lambda>t. Inr (Some t)) else Inr None) =
      Inr (if accepts then Some t else None)" using t by simp
  have "HandleBuildRequestRecords sha elgamal cbc own padding accepts num records clear =
      Inr (True, rs, clr, if accepts then Some t else None)"
    unfolding HandleBuildRequestRecords_def own_record_found [OF num] Some bind_result_Inr option.case Let_def
      r_def [symmetric] steps(1) clr_def [symmetric] tr st_def [symmetric] steps(2-7) rs(1)
    by simp
  moreover have "build_record j rs = cbc (slice 136 32 clr) (slice 168 16 clr)
      (if j = i then sha (padding @ [st]) @ padding @ [st] else build_record j records)" if "j < num" for j
    using rs(3) rr(2,3) that by simp
  ultimately show ?thesis
    unfolding Some option.case Let_def r_def [symmetric] clr_def [symmetric] st_def [symmetric]
    using rs(2) rr(4) by (intro exI [of _ rs] exI [of _ "if accepts then Some t else None"]) auto
qed

theorem HandleBuildRequestRecords_spec_witness:
  "\<exists>rs transit. HandleBuildRequestRecords (\<lambda>_. replicate 32 0) (\<lambda>_. replicate 222 0) (\<lambda>k v b. b)
      (replicate 32 1) (replicate 495 7) True 2 (replicate 528 0 @ replicate 528 1) [] =
      Inr (True, rs, replicate 222 0, transit) \<and> transit \<noteq> None \<and>
    build_record 1 rs = replicate 32 0 @ replicate 495 7 @ [0]"
proof -
  let ?rs = "replicate 528 0 @ replicate 528 (1 :: byte)"
  have find: "find (\<lambda>i. slice (i * TUNNEL_BUILD_RECORD_SIZE) 16 ?rs = take 16 (replicate 32 1)) [0..<2] = Some 1"
    by (simp add: upt_rec slice_def TUNNEL_BUILD_RECORD_SIZE_def)
  have "2 * TUNNEL_BUILD_RECORD_SIZE \<le> length ?rs" by (simp add: TUNNEL_BUILD_RECORD_SIZE_def)
  note spec = HandleBuildRequestRecords_spec [where sha = "\<lambda>_. replicate 32 0" and
      elgamal = "\<lambda>_. replicate 222 0" and cbc = "\<lambda>k v b. b" and padding = "replicate 495 7" and
      own = "replicate 32 1" and accepts = True and clear = "[]", OF this, unfolded find option.case Let_def,
      OF length_replicate length_replicate refl length_replicate]
  then obtain rs transit where rs: "HandleBuildRequestRecords (\<lambda>_. replicate 32 0) (\<lambda>_. replicate 222 0)
      (\<lambda>k v b. b) (replicate 32 1) (replicate 495 7) True 2 ?rs [] =
      Inr (True, rs, replicate 222 0, transit)" "(transit = None) = (\<not> True)"
    and all: "\<forall>j < 2. build_record j rs = (if j = 1 then replicate 32 0 @
      replicate 495 7 @ [if True then 0 else 30] else build_record j ?rs)" by blast
  from all [rule_format, of 1] have "build_record 1 rs = replicate 32 0 @ replicate 495 7 @ [0]"
    unfolding if_True refl [THEN eqTrueI] by (simp only: one_less_numeral_iff semiring_norm)
  with rs show ?thesis by blast
qed
end
