(* ===== verification/AES_Modes.thy ===== *)
theory AES_Modes
  imports Prelude
begin

text \<open>
  The cipher modes and the message digest the router builds on top of its cryptographic
  libraries: CBC encryption and decryption and the tunnel layer encryption
  (\<open>core/crypto/impl/cryptopp/{aes,tunnel}.cc\<close>), each with the portable code and the
  AES-NI assembly, and the keyed MD5 digest of SSU (\<open>core/crypto/hmac.h\<close>).

  The transformation of one 16-byte block under a 32-byte key, which Crypto++ or the
  processor's AES instructions compute, is a parameter, as is MD5. Source and destination of
  an operation are offsets into one memory, because the callers pass the same pointer for
  both.
\<close>

section \<open>Blocks\<close>

type_synonym block_fun = "bytes \<Rightarrow> bytes \<Rightarrow> bytes"

text \<open>\<open>CipherBlock::operator^=\<close>, and \<open>pxor\<close> in the assembly.\<close>

definition xor_block :: "bytes \<Rightarrow> bytes \<Rightarrow> bytes" where
  "xor_block a b = map2 (XOR) a b"

text \<open>What is documented of the block transformations: on blocks they are inverses.\<close>

definition block_cipher :: "block_fun \<Rightarrow> block_fun \<Rightarrow> bool" where
  "block_cipher E D \<longleftrightarrow> (\<forall>k b. length b = 16 \<longrightarrow>
     length (E k b) = 16 \<and> length (D k b) = 16 \<and> D k (E k b) = b \<and> E k (D k b) = b)"

lemma block_cipherD:
  assumes "block_cipher E D" and "length b = 16"
  shows "length (E k b) = 16" "length (D k b) = 16" "D k (E k b) = b" "E k (D k b) = b"
  using assms by (simp_all add: block_cipher_def)

lemma length_xor_block [simp]: "length (xor_block a b) = min (length a) (length b)"
  by (simp add: xor_block_def)

lemma xor_block_cancel [simp]:
  "length a = length b \<Longrightarrow> xor_block a (xor_block a b) = b"
  "length a = length b \<Longrightarrow> xor_block (xor_block a b) a = b"
  by (auto intro!: nth_equalityI simp: xor_block_def xor.assoc [symmetric] xor.commute)

lemma xor_block_commute: "xor_block a b = xor_block b a"
  by (auto intro!: nth_equalityI simp: xor_block_def xor.commute)

section \<open>CBC\<close>

record CBCEncryption =
  m_EncryptionKey :: bytes
  m_LastBlock :: bytes

record CBCDecryption =
  m_DecryptionKey :: bytes
  m_IV :: bytes

definition CBCEncryption_new :: "bytes \<Rightarrow> bytes \<Rightarrow> CBCEncryption" where
  "CBCEncryption_new key iv = \<lparr>m_EncryptionKey = key, m_LastBlock = take 16 iv\<rparr>"

definition CBCDecryption_new :: "bytes \<Rightarrow> bytes \<Rightarrow> CBCDecryption" where
  "CBCDecryption_new key iv = \<lparr>m_DecryptionKey = key, m_IV = take 16 iv\<rparr>"

definition CBCEncryption_SetIV :: "bytes \<Rightarrow> CBCEncryption \<Rightarrow> CBCEncryption" where
  "CBCEncryption_SetIV iv c = c\<lparr>m_LastBlock := take 16 iv\<rparr>"

definition CBCDecryption_SetIV :: "bytes \<Rightarrow> CBCDecryption \<Rightarrow> CBCDecryption" where
  "CBCDecryption_SetIV iv c = c\<lparr>m_IV := take 16 iv\<rparr>"

text \<open>The portable loop over the blocks.\<close>

fun CBCEncrypt_blocks ::
    "block_fun \<Rightarrow> nat \<Rightarrow> nat \<Rightarrow> nat \<Rightarrow> CBCEncryption \<Rightarrow> bytes \<Rightarrow> (CBCEncryption \<times> bytes) result" where
  "CBCEncrypt_blocks E 0 src dst c mem = Inr (c, mem)"
| "CBCEncrypt_blocks E (Suc n) src dst c mem =
     bind_result (mem_read src 16 mem) (\<lambda>b.
     let last = E (m_EncryptionKey c) (xor_block (m_LastBlock c) b) in
     bind_result (mem_write dst last mem) (\<lambda>mem'.
       CBCEncrypt_blocks E n (src + 16) (dst + 16) (c\<lparr>m_LastBlock := last\<rparr>) mem'))"

fun CBCDecrypt_blocks ::
    "block_fun \<Rightarrow> nat \<Rightarrow> nat \<Rightarrow> nat \<Rightarrow> CBCDecryption \<Rightarrow> bytes \<Rightarrow> (CBCDecryption \<times> bytes) result" where
  "CBCDecrypt_blocks D 0 src dst c mem = Inr (c, mem)"
| "CBCDecrypt_blocks D (Suc n) src dst c mem =
     bind_result (mem_read src 16 mem) (\<lambda>tmp.
     bind_result (mem_write dst (D (m_DecryptionKey c) tmp) mem) (\<lambda>mem1.
     bind_result (mem_read dst 16 mem1) (\<lambda>out.
     bind_result (mem_write dst (xor_block out (m_IV c)) mem1) (\<lambda>mem2.
       CBCDecrypt_blocks D n (src + 16) (dst + 16) (c\<lparr>m_IV := tmp\<rparr>) mem2))))"

text \<open>
  The assembly: \<open>xmm1\<close> carries the chaining block, the counter is decremented at the end of
  the body and the loop is left when it reaches zero, so it must start positive.
\<close>

fun CBCEncrypt_asm ::
    "block_fun \<Rightarrow> bytes \<Rightarrow> nat \<Rightarrow> nat \<Rightarrow> nat \<Rightarrow> bytes \<Rightarrow> bytes \<Rightarrow> (bytes \<times> bytes) result" where
  "CBCEncrypt_asm E sched num src dst xmm1 mem =
     bind_result (mem_read src 16 mem) (\<lambda>xmm0.
     let xmm0 = E sched (xor_block xmm0 xmm1); xmm1 = xmm0 in
     bind_result (mem_write dst xmm0 mem) (\<lambda>mem'.
       if num - 1 = 0 then Inr (xmm1, mem')
       else CBCEncrypt_asm E sched (num - 1) (src + 16) (dst + 16) xmm1 mem'))"

fun CBCDecrypt_asm ::
    "block_fun \<Rightarrow> bytes \<Rightarrow> nat \<Rightarrow> nat \<Rightarrow> nat \<Rightarrow> bytes \<Rightarrow> bytes \<Rightarrow> (bytes \<times> bytes) result" where
  "CBCDecrypt_asm D sched num src dst xmm1 mem =
     bind_result (mem_read src 16 mem) (\<lambda>xmm0.
     let xmm2 = xmm0; xmm0 = xor_block (D sched xmm0) xmm1 in
     bind_result (mem_write dst xmm0 mem) (\<lambda>mem'.
       if num - 1 = 0 then Inr (xmm2, mem')
       else CBCDecrypt_asm D sched (num - 1) (src + 16) (dst + 16) xmm2 mem'))"

declare CBCEncrypt_asm.simps [simp del] CBCDecrypt_asm.simps [simp del]

text \<open>\<open>Encrypt(in, len, out)\<close>: as many whole blocks as \<open>len\<close> has, the rest is not touched.\<close>

definition CBC_Encrypt ::
    "bool \<Rightarrow> block_fun \<Rightarrow> nat \<Rightarrow> nat \<Rightarrow> nat \<Rightarrow> CBCEncryption \<Rightarrow> bytes \<Rightarrow> (CBCEncryption \<times> bytes) result" where
  "CBC_Encrypt UsingAESNI E src len dst c mem =
     (let num_blocks = len div 16 in
      if num_blocks > 0 then
        if UsingAESNI then
          bind_result (CBCEncrypt_asm E (m_EncryptionKey c) num_blocks src dst (m_LastBlock c) mem)
            (\<lambda>(iv, mem'). Inr (c\<lparr>m_LastBlock := iv\<rparr>, mem'))
        else CBCEncrypt_blocks E num_blocks src dst c mem
      else Inr (c, mem))"

definition CBC_Decrypt ::
    "bool \<Rightarrow> block_fun \<Rightarrow> nat \<Rightarrow> nat \<Rightarrow> nat \<Rightarrow> CBCDecryption \<Rightarrow> bytes \<Rightarrow> (CBCDecryption \<times> bytes) result" where
  "CBC_Decrypt UsingAESNI D src len dst c mem =
     (let num_blocks = len div 16 in
      if num_blocks > 0 then
        if UsingAESNI then
          bind_result (CBCDecrypt_asm D (m_DecryptionKey c) num_blocks src dst (m_IV c) mem)
            (\<lambda>(iv, mem'). Inr (c\<lparr>m_IV := iv\<rparr>, mem'))
        else CBCDecrypt_blocks D num_blocks src dst c mem
      else Inr (c, mem))"

section \<open>Tunnel layers\<close>

definition TUNNEL_DATA_ENCRYPTED_SIZE :: nat where "TUNNEL_DATA_ENCRYPTED_SIZE = 1008"

record TunnelKeys =
  layer_key :: bytes
  iv_key :: bytes

text \<open>The assembly starts each round by advancing the pointers from the block of the IV.\<close>

definition Tunnel_Encrypt ::
    "bool \<Rightarrow> block_fun \<Rightarrow> TunnelKeys \<Rightarrow> nat \<Rightarrow> nat \<Rightarrow> bytes \<Rightarrow> bytes result" where
  "Tunnel_Encrypt UsingAESNI E keys src dst mem =
     (if UsingAESNI then
        bind_result (mem_read src 16 mem) (\<lambda>xmm0.
        let xmm1 = E (iv_key keys) xmm0 in
        bind_result (mem_write dst (E (iv_key keys) xmm1) mem) (\<lambda>mem1.
        bind_result (CBCEncrypt_asm E (layer_key keys) 63 (src + 16) (dst + 16) xmm1 mem1)
          (\<lambda>(_, mem2). Inr mem2)))
      else
        bind_result (mem_read src 16 mem) (\<lambda>iv.
        bind_result (mem_write dst (E (iv_key keys) iv) mem) (\<lambda>mem1.
        bind_result (mem_read dst 16 mem1) (\<lambda>iv1.
        bind_result
          (CBC_Encrypt UsingAESNI E (src + 16) TUNNEL_DATA_ENCRYPTED_SIZE (dst + 16)
            (CBCEncryption_SetIV iv1 (CBCEncryption_new (layer_key keys) (replicate 16 0))) mem1) (\<lambda>(_, mem2).
        bind_result (mem_read dst 16 mem2) (\<lambda>iv2.
          mem_write dst (E (iv_key keys) iv2) mem2))))))"

definition Tunnel_Decrypt ::
    "bool \<Rightarrow> block_fun \<Rightarrow> TunnelKeys \<Rightarrow> nat \<Rightarrow> nat \<Rightarrow> bytes \<Rightarrow> bytes result" where
  "Tunnel_Decrypt UsingAESNI D keys src dst mem =
     (if UsingAESNI then
        bind_result (mem_read src 16 mem) (\<lambda>xmm0.
        let xmm1 = D (iv_key keys) xmm0 in
        bind_result (mem_write dst (D (iv_key keys) xmm1) mem) (\<lambda>mem1.
        bind_result (CBCDecrypt_asm D (layer_key keys) 63 (src + 16) (dst + 16) xmm1 mem1)
          (\<lambda>(_, mem2). Inr mem2)))
      else
        bind_result (mem_read src 16 mem) (\<lambda>iv.
        bind_result (mem_write dst (D (iv_key keys) iv) mem) (\<lambda>mem1.
        bind_result (mem_read dst 16 mem1) (\<lambda>iv1.
        bind_result
          (CBC_Decrypt UsingAESNI D (src + 16) TUNNEL_DATA_ENCRYPTED_SIZE (dst + 16)
            (CBCDecryption_SetIV iv1 (CBCDecryption_new (layer_key keys) (replicate 16 0))) mem1) (\<lambda>(_, mem2).
        bind_result (mem_read dst 16 mem2) (\<lambda>iv2.
          mem_write dst (D (iv_key keys) iv2) mem2))))))"

section \<open>The keyed digest\<close>

text \<open>
  \<open>buf\<close> is 256 words of 64 bits; the key is XORed with the pads eight bytes at a time, which
  is byte by byte since every byte of a pad is the same.
\<close>

definition HMACMD5Digest :: "(bytes \<Rightarrow> bytes) \<Rightarrow> bytes \<Rightarrow> bytes \<Rightarrow> bytes result" where
  "HMACMD5Digest md5 msg key =
     (let buf = map (\<lambda>b. b XOR 0x36) (take 32 key) @ replicate 32 0x36 @ replicate (2048 - 64) 0 in
      bind_result (mem_write 64 msg buf) (\<lambda>buf1.
      bind_result (mem_read 0 (length msg + 64) buf1) (\<lambda>inner.
      let buf2 = poke 0 (map (\<lambda>b. b XOR 0x5C) (take 32 key) @ replicate 32 0x5C) buf1 in
      bind_result (mem_write 64 (md5 inner) buf2) (\<lambda>buf3.
      bind_result (mem_write 80 (replicate 16 0) buf3) (\<lambda>buf4.
      bind_result (mem_read 0 96 buf4) (\<lambda>outer. Inr (md5 outer)))))))"

section \<open>The assembly and the portable code agree\<close>

lemma CBCEncrypt_asm_eq:
  "bind_result (CBCEncrypt_asm E (m_EncryptionKey c) (Suc n) src dst (m_LastBlock c) mem)
     (\<lambda>(iv, mem'). Inr (c\<lparr>m_LastBlock := iv\<rparr>, mem'))
   = CBCEncrypt_blocks E (Suc n) src dst c mem"
proof (induction n arbitrary: src dst c mem)
  case 0
  show ?case
    by (auto intro!: bind_result_cong simp: CBCEncrypt_asm.simps [of E _ "Suc 0"] Let_def
        xor_block_commute)
next
  case (Suc n)
  have step: "bind_result (CBCEncrypt_asm E (m_EncryptionKey c) (Suc n) src dst last mem)
      (\<lambda>(iv, mem'). Inr (c\<lparr>m_LastBlock := iv\<rparr>, mem'))
    = CBCEncrypt_blocks E (Suc n) src dst (c\<lparr>m_LastBlock := last\<rparr>) mem" for last src dst mem
    using Suc.IH [of "c\<lparr>m_LastBlock := last\<rparr>" src dst mem] by simp
  show ?case
    unfolding CBCEncrypt_blocks.simps(2) [of E "Suc n"]
    by (auto intro!: bind_result_cong simp: CBCEncrypt_asm.simps [of E _ "Suc (Suc n)"] Let_def step
        xor_block_commute simp del: CBCEncrypt_blocks.simps(2))
qed

lemma mem_write_twice:
  assumes "length ys = length zs"
  shows "bind_result (mem_write p ys xs) (\<lambda>m.
      bind_result (mem_read p (length ys) m) (\<lambda>a. bind_result (mem_write p zs m) (f a)))
    = bind_result (mem_write p zs xs) (f ys)"
  using assms
  by (auto simp: mem_write_def mem_read_def length_poke [of p ys xs])
    (auto simp: poke_def)

lemma CBCDecrypt_step:
  assumes "\<And>k b. length b = 16 \<Longrightarrow> length (D k b) = 16" and "length (m_IV c) = 16"
  shows "CBCDecrypt_blocks D (Suc n) src dst c mem =
     bind_result (mem_read src 16 mem) (\<lambda>tmp.
     bind_result (mem_write dst (xor_block (D (m_DecryptionKey c) tmp) (m_IV c)) mem)
       (CBCDecrypt_blocks D n (src + 16) (dst + 16) (c\<lparr>m_IV := tmp\<rparr>)))"
  unfolding CBCDecrypt_blocks.simps(2)
proof (rule bind_result_cong [OF refl])
  fix tmp
  assume "mem_read src 16 mem = Inr tmp"
  then have d: "length (D (m_DecryptionKey c) tmp) = 16"
    by (auto simp: result_simps intro!: assms(1))
  show "bind_result (mem_write dst (D (m_DecryptionKey c) tmp) mem) (\<lambda>mem1.
     bind_result (mem_read dst 16 mem1) (\<lambda>out.
     bind_result (mem_write dst (xor_block out (m_IV c)) mem1) (\<lambda>mem2.
       CBCDecrypt_blocks D n (src + 16) (dst + 16) (c\<lparr>m_IV := tmp\<rparr>) mem2)))
    = bind_result (mem_write dst (xor_block (D (m_DecryptionKey c) tmp) (m_IV c)) mem)
       (CBCDecrypt_blocks D n (src + 16) (dst + 16) (c\<lparr>m_IV := tmp\<rparr>))"
    using d assms(2)
    by (auto simp: mem_write_def mem_read_def length_poke) (auto simp: poke_def)
qed

lemma CBCDecrypt_asm_eq:
  assumes "\<And>k b. length b = 16 \<Longrightarrow> length (D k b) = 16" and "length (m_IV c) = 16"
  shows "bind_result (CBCDecrypt_asm D (m_DecryptionKey c) (Suc n) src dst (m_IV c) mem)
     (\<lambda>(iv, mem'). Inr (c\<lparr>m_IV := iv\<rparr>, mem'))
   = CBCDecrypt_blocks D (Suc n) src dst c mem"
  using assms(2)
proof (induction n arbitrary: src dst c mem)
  case 0
  show ?case
    by (subst CBCDecrypt_step) (auto intro!: bind_result_cong assms(1) 0 simp: CBCDecrypt_asm.simps [of D _ "Suc 0"] Let_def
        simp del: CBCDecrypt_blocks.simps(2))
next
  case (Suc n)
  have step: "bind_result (CBCDecrypt_asm D (m_DecryptionKey c) (Suc n) src dst iv mem)
      (\<lambda>(iv, mem'). Inr (c\<lparr>m_IV := iv\<rparr>, mem'))
    = CBCDecrypt_blocks D (Suc n) src dst (c\<lparr>m_IV := iv\<rparr>) mem" if "length iv = 16" for iv src dst mem
    using Suc.IH [of "c\<lparr>m_IV := iv\<rparr>" src dst mem] that by simp
  show ?case
    by (subst CBCDecrypt_step)
      (auto intro!: bind_result_cong assms(1) Suc.prems simp: CBCDecrypt_asm.simps [of D _ "Suc (Suc n)"] Let_def step
        result_simps simp del: CBCDecrypt_blocks.simps(2))
qed

section \<open>What the loops compute\<close>

fun cbc_enc :: "block_fun \<Rightarrow> bytes \<Rightarrow> bytes \<Rightarrow> nat \<Rightarrow> bytes \<Rightarrow> bytes" where
  "cbc_enc E k iv 0 bs = []"
| "cbc_enc E k iv (Suc n) bs =
     (let c = E k (xor_block iv (take 16 bs)) in c @ cbc_enc E k c n (drop 16 bs))"

fun cbc_dec :: "block_fun \<Rightarrow> bytes \<Rightarrow> bytes \<Rightarrow> nat \<Rightarrow> bytes \<Rightarrow> bytes" where
  "cbc_dec D k iv 0 bs = []"
| "cbc_dec D k iv (Suc n) bs =
     xor_block (D k (take 16 bs)) iv @ cbc_dec D k (take 16 bs) n (drop 16 bs)"

lemma length_cbc_enc:
  assumes "block_cipher E D"
  shows "length iv = 16 \<Longrightarrow> length bs = 16 * n \<Longrightarrow> length (cbc_enc E k iv n bs) = 16 * n"
  by (induction n arbitrary: iv bs) (simp_all add: Let_def block_cipherD [OF assms])

lemma length_cbc_dec:
  assumes "block_cipher E D"
  shows "length iv = 16 \<Longrightarrow> length bs = 16 * n \<Longrightarrow> length (cbc_dec D k iv n bs) = 16 * n"
  by (induction n arbitrary: iv bs) (simp_all add: block_cipherD [OF assms])

lemma cbc_dec_enc:
  assumes "block_cipher E D"
  shows "length iv = 16 \<Longrightarrow> length bs = 16 * n \<Longrightarrow> cbc_dec D k iv n (cbc_enc E k iv n bs) = bs"
proof (induction n arbitrary: iv bs)
  case (Suc n)
  let ?c = "E k (xor_block iv (take 16 bs))"
  have c: "length ?c = 16" "D k ?c = xor_block iv (take 16 bs)"
    using Suc.prems by (simp_all add: block_cipherD [OF assms])
  show ?case using Suc c by (simp add: Let_def)
qed simp

lemma cbc_enc_dec:
  assumes "block_cipher E D"
  shows "length iv = 16 \<Longrightarrow> length bs = 16 * n \<Longrightarrow> cbc_enc E k iv n (cbc_dec D k iv n bs) = bs"
proof (induction n arbitrary: iv bs)
  case (Suc n)
  let ?p = "xor_block (D k (take 16 bs)) iv"
  have "xor_block iv ?p = D k (take 16 bs)"
    using Suc.prems xor_block_cancel(1) [of iv "D k (take 16 bs)"]
    by (simp add: block_cipherD [OF assms] xor_block_commute [of "D k (take 16 bs)"])
  then have p: "length ?p = 16" "E k (xor_block iv ?p) = take 16 bs"
    using Suc.prems by (simp_all add: block_cipherD [OF assms])
  show ?case using Suc p by (simp add: Let_def)
qed simp

text \<open>
  The loops go forward, so they read every block before it is overwritten when the
  destination does not lie inside the rest of the source, in particular in place.
\<close>

lemma CBCEncrypt_blocks_spec:
  assumes E: "block_cipher E D"
  shows "src + 16 * n \<le> length mem \<Longrightarrow> dst + 16 * n \<le> length mem \<Longrightarrow> dst \<le> src \<or> src + 16 * n \<le> dst \<Longrightarrow>
    length (m_LastBlock c) = 16 \<Longrightarrow>
    \<exists>c'. CBCEncrypt_blocks E n src dst c mem
      = Inr (c', poke dst (cbc_enc E (m_EncryptionKey c) (m_LastBlock c) n (slice src (16 * n) mem)) mem)"
proof (induction n arbitrary: src dst c mem)
  case (Suc n)
  let ?b = "slice src 16 mem" let ?k = "m_EncryptionKey c"
  let ?l = "E ?k (xor_block (m_LastBlock c) ?b)"
  have l: "length ?l = 16" using Suc.prems by (simp add: block_cipherD [OF E])
  let ?mem = "poke dst ?l mem"
  have rest: "slice (src + 16) (16 * n) ?mem = slice (src + 16) (16 * n) mem"
    using Suc.prems l by (cases "dst \<le> src") (simp_all add: slice_poke_after slice_poke_before)
  obtain c' where c': "CBCEncrypt_blocks E n (src + 16) (dst + 16) (c\<lparr>m_LastBlock := ?l\<rparr>) ?mem
      = Inr (c', poke (dst + 16) (cbc_enc E ?k ?l n (slice (src + 16) (16 * n) mem)) ?mem)"
    using Suc.IH [of "src + 16" ?mem "dst + 16" "c\<lparr>m_LastBlock := ?l\<rparr>"] Suc.prems l rest by auto
  have sp: "take 16 (slice src (16 + 16 * n) mem) = ?b"
    "drop 16 (slice src (16 + 16 * n) mem) = slice (src + 16) (16 * n) mem"
    using Suc.prems by (simp_all add: slice_def drop_take add.commute)
  have len: "length (cbc_enc E ?k ?l n (slice (src + 16) (16 * n) mem)) = 16 * n"
    using Suc.prems l by (intro length_cbc_enc [OF E]) simp_all
  have "poke (dst + 16) (cbc_enc E ?k ?l n (slice (src + 16) (16 * n) mem)) ?mem
      = poke dst (?l @ cbc_enc E ?k ?l n (slice (src + 16) (16 * n) mem)) mem"
    using poke_append [of dst ?l _ mem] l len Suc.prems by simp
  then show ?case
    using c' Suc.prems l sp by (simp add: mem_read_def mem_write_def Let_def)
qed simp

lemma CBCDecrypt_blocks_spec:
  assumes E: "block_cipher E D"
  shows "src + 16 * n \<le> length mem \<Longrightarrow> dst + 16 * n \<le> length mem \<Longrightarrow> dst \<le> src \<or> src + 16 * n \<le> dst \<Longrightarrow>
    length (m_IV c) = 16 \<Longrightarrow>
    \<exists>c'. CBCDecrypt_blocks D n src dst c mem
      = Inr (c', poke dst (cbc_dec D (m_DecryptionKey c) (m_IV c) n (slice src (16 * n) mem)) mem)"
proof (induction n arbitrary: src dst c mem)
  case (Suc n)
  let ?b = "slice src 16 mem" let ?k = "m_DecryptionKey c"
  let ?p = "xor_block (D ?k ?b) (m_IV c)"
  have l: "length ?p = 16" "length ?b = 16" using Suc.prems by (simp_all add: block_cipherD [OF E])
  let ?mem = "poke dst ?p mem"
  have rest: "slice (src + 16) (16 * n) ?mem = slice (src + 16) (16 * n) mem"
    using Suc.prems l by (cases "dst \<le> src") (simp_all add: slice_poke_after slice_poke_before)
  obtain c' where c': "CBCDecrypt_blocks D n (src + 16) (dst + 16) (c\<lparr>m_IV := ?b\<rparr>) ?mem
      = Inr (c', poke (dst + 16) (cbc_dec D ?k ?b n (slice (src + 16) (16 * n) mem)) ?mem)"
    using Suc.IH [of "src + 16" ?mem "dst + 16" "c\<lparr>m_IV := ?b\<rparr>"] Suc.prems l rest by auto
  have sp: "take 16 (slice src (16 + 16 * n) mem) = ?b"
    "drop 16 (slice src (16 + 16 * n) mem) = slice (src + 16) (16 * n) mem"
    using Suc.prems by (simp_all add: slice_def drop_take add.commute)
  have len: "length (cbc_dec D ?k ?b n (slice (src + 16) (16 * n) mem)) = 16 * n"
    using Suc.prems l by (intro length_cbc_dec [OF E]) simp_all
  have "poke (dst + 16) (cbc_dec D ?k ?b n (slice (src + 16) (16 * n) mem)) ?mem
      = poke dst (?p @ cbc_dec D ?k ?b n (slice (src + 16) (16 * n) mem)) mem"
    using poke_append [of dst ?p _ mem] l len Suc.prems by simp
  then show ?case
    using c' Suc.prems l sp
    by (simp add: CBCDecrypt_step [where D = D, OF block_cipherD(2) [OF E]] mem_read_def mem_write_def
        del: CBCDecrypt_blocks.simps(2))
qed simp

section \<open>Both code paths of every operation\<close>

lemma CBC_Encrypt_paths: "CBC_Encrypt b E src len dst c mem = CBC_Encrypt False E src len dst c mem"
proof (cases "len div 16")
  case (Suc n)
  then show ?thesis
    using CBCEncrypt_asm_eq [of E c n src dst mem]
    by (simp add: CBC_Encrypt_def Let_def del: CBCEncrypt_blocks.simps)
qed (simp add: CBC_Encrypt_def)

lemma CBC_Decrypt_paths:
  assumes "block_cipher E D" and "length (m_IV c) = 16"
  shows "CBC_Decrypt b D src len dst c mem = CBC_Decrypt False D src len dst c mem"
proof (cases "len div 16")
  case (Suc n)
  then show ?thesis
    using CBCDecrypt_asm_eq [where D = D and c = c and n = n and src = src and dst = dst and mem = mem,
        OF block_cipherD(2) [OF assms(1)] assms(2)]
    by (simp add: CBC_Decrypt_def Let_def del: CBCDecrypt_blocks.simps)
qed (simp add: CBC_Decrypt_def)

lemma CBC_Encrypt_spec:
  assumes "block_cipher E D" and "length (m_LastBlock c) = 16"
    and "src + len \<le> length mem" "dst + len \<le> length mem" "dst \<le> src \<or> src + len \<le> dst"
  shows "\<exists>c'. CBC_Encrypt b E src len dst c mem = Inr (c', poke dst
    (cbc_enc E (m_EncryptionKey c) (m_LastBlock c) (len div 16) (slice src (16 * (len div 16)) mem)) mem)"
proof -
  have le: "16 * (len div 16) \<le> len" by simp
  have "\<exists>c'. CBCEncrypt_blocks E (len div 16) src dst c mem = Inr (c', poke dst
    (cbc_enc E (m_EncryptionKey c) (m_LastBlock c) (len div 16) (slice src (16 * (len div 16)) mem)) mem)"
    using assms le by (intro CBCEncrypt_blocks_spec [OF assms(1)]) linarith+
  then show ?thesis
    by (subst CBC_Encrypt_paths) (cases "len div 16", auto simp: CBC_Encrypt_def)
qed

lemma CBC_Decrypt_spec:
  assumes "block_cipher E D" and "length (m_IV c) = 16"
    and "src + len \<le> length mem" "dst + len \<le> length mem" "dst \<le> src \<or> src + len \<le> dst"
  shows "\<exists>c'. CBC_Decrypt b D src len dst c mem = Inr (c', poke dst
    (cbc_dec D (m_DecryptionKey c) (m_IV c) (len div 16) (slice src (16 * (len div 16)) mem)) mem)"
proof -
  have le: "16 * (len div 16) \<le> len" by simp
  have "\<exists>c'. CBCDecrypt_blocks D (len div 16) src dst c mem = Inr (c', poke dst
    (cbc_dec D (m_DecryptionKey c) (m_IV c) (len div 16) (slice src (16 * (len div 16)) mem)) mem)"
    using assms le by (intro CBCDecrypt_blocks_spec [OF assms(1)]) linarith+
  then show ?thesis
    by (subst CBC_Decrypt_paths [OF assms(1,2)]) (cases "len div 16", auto simp: CBC_Decrypt_def)
qed

text \<open>One tunnel layer as a function on the 1024 bytes of IV and data.\<close>

definition tunnel_enc :: "block_fun \<Rightarrow> TunnelKeys \<Rightarrow> bytes \<Rightarrow> bytes" where
  "tunnel_enc E keys bs =
     (let iv = E (iv_key keys) (take 16 bs) in E (iv_key keys) iv @ cbc_enc E (layer_key keys) iv 63 (drop 16 bs))"

definition tunnel_dec :: "block_fun \<Rightarrow> TunnelKeys \<Rightarrow> bytes \<Rightarrow> bytes" where
  "tunnel_dec D keys bs =
     (let iv = D (iv_key keys) (take 16 bs) in D (iv_key keys) iv @ cbc_dec D (layer_key keys) iv 63 (drop 16 bs))"

lemma length_tunnel_layer:
  assumes "block_cipher E D" and "length bs = 1024"
  shows "length (tunnel_enc E keys bs) = 1024" "length (tunnel_dec D keys bs) = 1024"
  using assms
  by (simp_all add: tunnel_enc_def tunnel_dec_def Let_def block_cipherD [OF assms(1)]
      length_cbc_enc [OF assms(1)] length_cbc_dec [OF assms(1)])

lemma tunnel_layer_inverse:
  assumes "block_cipher E D" and "length bs = 1024"
  shows "tunnel_dec D keys (tunnel_enc E keys bs) = bs" "tunnel_enc E keys (tunnel_dec D keys bs) = bs"
  using assms
  by (simp_all add: tunnel_enc_def tunnel_dec_def Let_def block_cipherD [OF assms(1)]
      cbc_dec_enc [OF assms(1)] cbc_enc_dec [OF assms(1)])

lemma poke_over:
  "p + length ys \<le> length xs \<Longrightarrow> length zs = length ys \<Longrightarrow> poke p zs (poke p ys xs) = poke p zs xs"
  by (auto intro!: nth_equalityI simp: nth_poke)

lemma poke_before:
  assumes "p + length ys + length zs \<le> length xs" and "length ys' = length ys"
  shows "poke p ys' (poke (p + length ys) zs (poke p ys xs)) = poke p (ys' @ zs) xs"
  using assms by (intro nth_equalityI) (auto simp: nth_poke nth_append)

lemma Tunnel_Encrypt_spec:
  assumes E: "block_cipher E D" and "src + 1024 \<le> length mem" "dst + 1024 \<le> length mem"
    and "dst \<le> src \<or> src + 1024 \<le> dst"
  shows "Tunnel_Encrypt b E keys src dst mem = Inr (poke dst (tunnel_enc E keys (slice src 1024 mem)) mem)"
proof -
  let ?iv = "E (iv_key keys) (slice src 16 mem)" let ?k = "layer_key keys"
  let ?ct = "cbc_enc E ?k ?iv 63 (slice (src + 16) 1008 mem)"
  have iv: "length ?iv = 16" "length (E (iv_key keys) ?iv) = 16"
    using assms by (simp_all add: block_cipherD [OF E])
  have ct: "length ?ct = 1008" using assms iv length_cbc_enc [OF E, of ?iv "slice (src + 16) 1008 mem" 63] by simp
  have sp: "tunnel_enc E keys (slice src 1024 mem) = E (iv_key keys) ?iv @ ?ct"
    using assms by (simp add: tunnel_enc_def Let_def slice_def drop_take add.commute)
  have cbc: "\<exists>c'. CBC_Encrypt b E (src + 16) 1008 (dst + 16)
      \<lparr>m_EncryptionKey = ?k, m_LastBlock = ?iv\<rparr> (poke dst ys mem)
    = Inr (c', poke (dst + 16) ?ct (poke dst ys mem))" if "length ys = 16" for b ys
  proof -
    have "slice (src + 16) 1008 (poke dst ys mem) = slice (src + 16) 1008 mem"
      using assms that by (cases "dst \<le> src") (simp_all add: slice_poke_after slice_poke_before)
    moreover have "dst \<le> src \<or> 1008 + src \<le> dst" using assms(4) by linarith
    ultimately show ?thesis
      using CBC_Encrypt_spec [OF E, of "\<lparr>m_EncryptionKey = ?k, m_LastBlock = ?iv\<rparr>" "src + 16" 1008
          "poke dst ys mem" "dst + 16" b] iv assms that by simp
  qed
  show ?thesis
  proof (cases b)
    case True
    from cbc [OF iv(2), of True] obtain c' where
      "bind_result (CBCEncrypt_asm E ?k 63 (src + 16) (dst + 16) ?iv (poke dst (E (iv_key keys) ?iv) mem))
        (\<lambda>(iv, mem'). Inr (\<lparr>m_EncryptionKey = ?k, m_LastBlock = iv\<rparr>, mem'))
      = Inr (c', poke dst (E (iv_key keys) ?iv @ ?ct) mem)"
      using assms iv ct poke_append [of dst "E (iv_key keys) ?iv" ?ct mem] by (auto simp: CBC_Encrypt_def)
    then show ?thesis
      using True assms iv by (auto simp: Tunnel_Encrypt_def mem_read_def mem_write_def Let_def sp result_simps)
  next
    case False
    obtain c' where "CBC_Encrypt False E (src + 16) 1008 (dst + 16)
        \<lparr>m_EncryptionKey = ?k, m_LastBlock = ?iv\<rparr> (poke dst ?iv mem)
      = Inr (c', poke (dst + 16) ?ct (poke dst ?iv mem))" using cbc [OF iv(1)] by blast
    then show ?thesis
      using False assms iv ct poke_before [of dst ?iv ?ct mem "E (iv_key keys) ?iv"]
      by (simp add: Tunnel_Encrypt_def TUNNEL_DATA_ENCRYPTED_SIZE_def mem_read_def mem_write_def Let_def sp
          CBCEncryption_SetIV_def CBCEncryption_new_def slice_poke_before)
  qed
qed

lemma Tunnel_Decrypt_spec:
  assumes E: "block_cipher E D" and "src + 1024 \<le> length mem" "dst + 1024 \<le> length mem"
    and "dst \<le> src \<or> src + 1024 \<le> dst"
  shows "Tunnel_Decrypt b D keys src dst mem = Inr (poke dst (tunnel_dec D keys (slice src 1024 mem)) mem)"
proof -
  let ?iv = "D (iv_key keys) (slice src 16 mem)" let ?k = "layer_key keys"
  let ?ct = "cbc_dec D ?k ?iv 63 (slice (src + 16) 1008 mem)"
  have iv: "length ?iv = 16" "length (D (iv_key keys) ?iv) = 16"
    using assms by (simp_all add: block_cipherD [OF E])
  have ct: "length ?ct = 1008" using assms iv length_cbc_dec [OF E, of ?iv "slice (src + 16) 1008 mem" 63] by simp
  have sp: "tunnel_dec D keys (slice src 1024 mem) = D (iv_key keys) ?iv @ ?ct"
    using assms by (simp add: tunnel_dec_def Let_def slice_def drop_take add.commute)
  have cbc: "\<exists>c'. CBC_Decrypt b D (src + 16) 1008 (dst + 16)
      \<lparr>m_DecryptionKey = ?k, m_IV = ?iv\<rparr> (poke dst ys mem)
    = Inr (c', poke (dst + 16) ?ct (poke dst ys mem))" if "length ys = 16" for b ys
  proof -
    have "slice (src + 16) 1008 (poke dst ys mem) = slice (src + 16) 1008 mem"
      using assms that by (cases "dst \<le> src") (simp_all add: slice_poke_after slice_poke_before)
    moreover have "dst \<le> src \<or> 1008 + src \<le> dst" using assms(4) by linarith
    ultimately show ?thesis
      using CBC_Decrypt_spec [OF E, of "\<lparr>m_DecryptionKey = ?k, m_IV = ?iv\<rparr>" "src + 16" 1008
          "poke dst ys mem" "dst + 16" b] iv assms that by simp
  qed
  show ?thesis
  proof (cases b)
    case True
    from cbc [OF iv(2), of True] obtain c' where
      "bind_result (CBCDecrypt_asm D ?k 63 (src + 16) (dst + 16) ?iv (poke dst (D (iv_key keys) ?iv) mem))
        (\<lambda>(iv, mem'). Inr (\<lparr>m_DecryptionKey = ?k, m_IV = iv\<rparr>, mem'))
      = Inr (c', poke dst (D (iv_key keys) ?iv @ ?ct) mem)"
      using assms iv ct poke_append [of dst "D (iv_key keys) ?iv" ?ct mem] by (auto simp: CBC_Decrypt_def)
    then show ?thesis
      using True assms iv by (auto simp: Tunnel_Decrypt_def mem_read_def mem_write_def Let_def sp result_simps)
  next
    case False
    obtain c' where "CBC_Decrypt False D (src + 16) 1008 (dst + 16)
        \<lparr>m_DecryptionKey = ?k, m_IV = ?iv\<rparr> (poke dst ?iv mem)
      = Inr (c', poke (dst + 16) ?ct (poke dst ?iv mem))" using cbc [OF iv(1)] by blast
    then show ?thesis
      using False assms iv ct poke_before [of dst ?iv ?ct mem "D (iv_key keys) ?iv"]
      by (simp add: Tunnel_Decrypt_def TUNNEL_DATA_ENCRYPTED_SIZE_def mem_read_def mem_write_def Let_def sp
          CBCDecryption_SetIV_def CBCDecryption_new_def slice_poke_before)
  qed
qed

definition keyed_md5 :: "(bytes \<Rightarrow> bytes) \<Rightarrow> bytes \<Rightarrow> bytes \<Rightarrow> bytes" where
  "keyed_md5 md5 key msg =
     md5 (map (\<lambda>b. b XOR 0x5C) key @ replicate 32 0x5C
       @ md5 (map (\<lambda>b. b XOR 0x36) key @ replicate 32 0x36 @ msg) @ replicate 16 0)"

lemma HMACMD5Digest_fits:
  assumes "length key = 32" and "\<And>b. length (md5 b) = 16" and True: "length msg \<le> 1984"
  shows "HMACMD5Digest md5 msg key = Inr (keyed_md5 md5 key msg)"
proof -
  let ?i = "map (\<lambda>b. b XOR 0x36) key @ replicate 32 (0x36 :: byte)"
  let ?o = "map (\<lambda>b. b XOR 0x5C) key @ replicate 32 (0x5C :: byte)"
  let ?buf1 = "?i @ msg @ replicate (1984 - length msg) 0"
  have 1: "mem_write 64 msg (?i @ replicate 1984 0) = Inr ?buf1"
    using True assms(1) by (simp add: mem_write_def poke_def del: replicate.simps)
  have 2: "mem_read 0 (length msg + 64) ?buf1 = Inr (?i @ msg)"
    using True assms(1) by (simp add: mem_read_def slice_def del: replicate.simps)
  define rest where "rest = msg @ replicate (1984 - length msg) (0 :: byte)"
  have r: "length rest = 1984" using True by (simp add: rest_def)
  have 3: "poke 0 ?o ?buf1 = ?o @ rest"
    using assms(1) by (simp add: poke_def rest_def del: replicate.simps)
  have 4: "mem_write 64 (md5 x) (?o @ rest) = Inr (?o @ md5 x @ drop 16 rest)" for x
    using assms r by (simp add: mem_write_def poke_def del: replicate.simps)
  have 5: "mem_write 80 (replicate 16 0) (?o @ md5 x @ drop 16 rest)
      = Inr (?o @ md5 x @ replicate 16 0 @ drop 32 rest)" for x
    using assms r by (simp add: mem_write_def poke_def del: replicate.simps)
  have 6: "mem_read 0 96 (?o @ md5 x @ replicate 16 0 @ drop 32 rest) = Inr (?o @ md5 x @ replicate 16 0)" for x
    using assms r by (simp add: mem_read_def slice_def del: replicate.simps)
  show ?thesis
    using True assms(1) 1 2 3 4 5 6 by (simp add: HMACMD5Digest_def keyed_md5_def Let_def del: replicate.simps)
qed

section \<open>Properties\<close>

definition sample_cipher :: block_fun where
  "sample_cipher k b = map (\<lambda>x. x XOR 0x5A) b"

lemma sample_cipher: "block_cipher sample_cipher sample_cipher"
  by (auto simp: block_cipher_def sample_cipher_def xor.assoc o_def intro!: map_idI)

text \<open>
  C9 (equivalence). The AES-NI assembly and the portable code of CBC and of the tunnel layers
  leave the same memory and the same chaining block, on every length and, for the tunnel
  layers, whenever the destination does not overwrite the rest of the source, in particular
  in place.
\<close>

theorem aesni_equivalence:
  assumes "block_cipher E D" and "length (m_IV d) = 16"
    and "src + 1024 \<le> length mem" "dst + 1024 \<le> length mem" "dst \<le> src \<or> src + 1024 \<le> dst"
  shows "CBC_Encrypt True E src len dst c mem = CBC_Encrypt False E src len dst c mem \<and>
    CBC_Decrypt True D src len dst d mem = CBC_Decrypt False D src len dst d mem \<and>
    Tunnel_Encrypt True E keys src dst mem = Tunnel_Encrypt False E keys src dst mem \<and>
    Tunnel_Decrypt True D keys src dst mem = Tunnel_Decrypt False D keys src dst mem"
  using assms(3-5) CBC_Encrypt_paths [of True] CBC_Decrypt_paths [OF assms(1,2), of True]
    Tunnel_Encrypt_spec [OF assms(1)] Tunnel_Decrypt_spec [OF assms(1)]
  by simp_all

theorem aesni_equivalence_witness:
  "Tunnel_Encrypt True sample_cipher \<lparr>layer_key = [], iv_key = []\<rparr> 3 3 (replicate 1030 7)
   = Tunnel_Encrypt False sample_cipher \<lparr>layer_key = [], iv_key = []\<rparr> 3 3 (replicate 1030 7)"
proof -
  have "(3 :: nat) + 1024 \<le> length (replicate 1030 (7 :: byte))" by (simp del: replicate.simps)
  then show ?thesis
    using aesni_equivalence [OF sample_cipher, where d = "\<lparr>m_DecryptionKey = [], m_IV = replicate 16 0\<rparr>"
        and src = 3 and dst = 3 and mem = "replicate 1030 7" and keys = "\<lparr>layer_key = [], iv_key = []\<rparr>"]
    by (simp del: replicate.simps)
qed

text \<open>
  C22 (bounds). The keyed digest hashes the padded key and the message, then the padded key, the
  inner digest and sixteen zeros. Its buffer holds 1984 bytes of message; a longer message is
  written past its end.
\<close>

theorem HMACMD5Digest_exact:
  assumes "length key = 32" and "\<And>b. length (md5 b) = 16"
  shows "HMACMD5Digest md5 msg key =
    (if length msg \<le> 1984 then
       Inr (md5 (map (\<lambda>b. b XOR 0x5C) key @ replicate 32 0x5C
         @ md5 (map (\<lambda>b. b XOR 0x36) key @ replicate 32 0x36 @ msg) @ replicate 16 0))
     else Inl MemoryError)"
  using assms(1) HMACMD5Digest_fits [of key md5 msg, OF assms]
  by (auto simp: keyed_md5_def HMACMD5Digest_def Let_def mem_write_def)

theorem HMACMD5Digest_exact_witness:
  "HMACMD5Digest (\<lambda>b. replicate 16 (hd b)) [1, 2, 3] (replicate 32 0) = Inr (replicate 16 0x5C)
   \<and> HMACMD5Digest (\<lambda>b. replicate 16 (hd b)) (replicate 1985 0) (replicate 32 0) = Inl MemoryError"
  using HMACMD5Digest_exact [of "replicate 32 0" "\<lambda>b. replicate 16 (hd b)" "[1, 2, 3]"]
    HMACMD5Digest_exact [of "replicate 32 0" "\<lambda>b. replicate 16 (hd b)" "replicate 1985 0"]
  by (simp add: hd_append)

end
