(* ===== verification/SSU_Packet.thy ===== *)
theory SSU_Packet
  imports Identity_Model
begin

text \<open>
  The packets of the SSU transport, \<open>core/router/transports/ssu/packet.{h,cc}\<close>: the header,
  the nine payload types with their size functions and checked setters, the parser
  \<open>SSUPacketParser\<close> (an input stream) and the builder \<open>SSUPacketBuilder\<close> (an output
  stream). A class is a record of its members; the class hierarchy below \<open>SSUPacket\<close> is the
  datatype \<open>SSUPayload\<close>. Pointers that may be null are options; a plain setter or getter is
  the record's own field update or selector.
\<close>

section \<open>Constants\<close>

datatype SSUSize =
    MTUv4 | MTUv6 | HeaderIPv4 | HeaderIPv6 | HeaderUDP | PacketMaxIPv4 | PacketMaxIPv6
  | HeaderMin | MAC | IV | IntroKey | BufferMargin | RawPacketBuffer | FragmentBuffer
  | KeyingMaterial | DHPublic | MaxReceivedMessages | MaxIntroducers | RelayRequestBuffer
  | RelayResponseBuffer | RelayIntroBuffer | PeerTestBuffer | SessionDestroyedBuffer

fun SSUSize_value :: "SSUSize \<Rightarrow> nat" where
  "SSUSize_value MTUv4 = 1484"
| "SSUSize_value MTUv6 = 1488"
| "SSUSize_value HeaderIPv4 = 20"
| "SSUSize_value HeaderIPv6 = 40"
| "SSUSize_value HeaderUDP = 8"
| "SSUSize_value PacketMaxIPv4 = 1484 - 20 - 8"
| "SSUSize_value PacketMaxIPv6 = 1488 - 40 - 8"
| "SSUSize_value HeaderMin = 37"
| "SSUSize_value MAC = 16"
| "SSUSize_value IV = 16"
| "SSUSize_value IntroKey = 32"
| "SSUSize_value BufferMargin = 16 + 2"
| "SSUSize_value RawPacketBuffer = max 1484 1488 + (16 + 2)"
| "SSUSize_value FragmentBuffer = max (1484 - 20 - 8) (1488 - 40 - 8) + (16 + 2)"
| "SSUSize_value KeyingMaterial = 64"
| "SSUSize_value DHPublic = 256"
| "SSUSize_value MaxReceivedMessages = 1000"
| "SSUSize_value MaxIntroducers = 3"
| "SSUSize_value RelayRequestBuffer = 96"
| "SSUSize_value RelayResponseBuffer = 80"
| "SSUSize_value RelayIntroBuffer = 48"
| "SSUSize_value PeerTestBuffer = 80"
| "SSUSize_value SessionDestroyedBuffer = 48"

datatype SSUFlag =
    ExtendedOptions | Rekey | DataExtendedIncluded | DataWantReply | DataRequestPreviousACKs
  | DataExplicitCongestionNotification | DataACKBitfieldsIncluded | DataExplicitACKsIncluded
  | DataACKBitFieldHasNext

fun SSUFlag_value :: "SSUFlag \<Rightarrow> u8" where
  "SSUFlag_value ExtendedOptions = 0x04"
| "SSUFlag_value Rekey = 0x08"
| "SSUFlag_value DataExtendedIncluded = 0x02"
| "SSUFlag_value DataWantReply = 0x04"
| "SSUFlag_value DataRequestPreviousACKs = 0x08"
| "SSUFlag_value DataExplicitCongestionNotification = 0x10"
| "SSUFlag_value DataACKBitfieldsIncluded = 0x40"
| "SSUFlag_value DataExplicitACKsIncluded = 0x80"
| "SSUFlag_value DataACKBitFieldHasNext = 0x80"

definition has_flag :: "u8 \<Rightarrow> SSUFlag \<Rightarrow> bool" where
  "has_flag flags f \<longleftrightarrow> flags AND SSUFlag_value f \<noteq> 0"

datatype SSUPayloadType =
    SessionRequest | SessionCreated | SessionConfirmed | RelayRequest | RelayResponse
  | RelayIntro | Data | PeerTest | SessionDestroyed | Unknown

fun SSUPayloadType_code :: "SSUPayloadType \<Rightarrow> nat" where
  "SSUPayloadType_code SessionRequest = 0"
| "SSUPayloadType_code SessionCreated = 1"
| "SSUPayloadType_code SessionConfirmed = 2"
| "SSUPayloadType_code RelayRequest = 3"
| "SSUPayloadType_code RelayResponse = 4"
| "SSUPayloadType_code RelayIntro = 5"
| "SSUPayloadType_code Data = 6"
| "SSUPayloadType_code PeerTest = 7"
| "SSUPayloadType_code SessionDestroyed = 8"
| "SSUPayloadType_code Unknown = 9"

definition SSUPayloadType_of :: "nat \<Rightarrow> SSUPayloadType" where
  "SSUPayloadType_of n =
     (if n = 0 then SessionRequest else if n = 1 then SessionCreated
      else if n = 2 then SessionConfirmed else if n = 3 then RelayRequest
      else if n = 4 then RelayResponse else if n = 5 then RelayIntro
      else if n = 6 then Data else if n = 7 then PeerTest
      else if n = 8 then SessionDestroyed else Unknown)"

section \<open>The header\<close>

record SSUHeader =
  h_MAC :: "bytes option"
  h_IV :: "bytes option"
  h_ExtendedOptions :: "bytes option"
  h_Rekey :: bool
  h_Extended :: bool
  h_Time :: u32
  h_PayloadType :: SSUPayloadType
  h_ExtendedOptionsSize :: u8

definition SSUHeader_new ::
    "SSUPayloadType \<Rightarrow> bytes option \<Rightarrow> bytes option \<Rightarrow> u32 \<Rightarrow> SSUHeader" where
  "SSUHeader_new type mac iv time =
     \<lparr>h_MAC = mac, h_IV = iv, h_ExtendedOptions = None, h_Rekey = False, h_Extended = False,
      h_Time = time, h_PayloadType = type, h_ExtendedOptionsSize = 0\<rparr>"

definition SSUHeader_default :: SSUHeader where
  "SSUHeader_default = SSUHeader_new Unknown None None 0"

definition SetPayloadType :: "int \<Rightarrow> SSUHeader \<Rightarrow> SSUHeader result" where
  "SetPayloadType type h =
     throw_if (type < 0 \<or> 8 < type) InvalidArgument
       (Inr (h\<lparr>h_PayloadType := SSUPayloadType_of (nat type)\<rparr>))"

definition SetExtendedOptionsData :: "bytes \<Rightarrow> u8 \<Rightarrow> SSUHeader \<Rightarrow> SSUHeader" where
  "SetExtendedOptionsData data sz h =
     h\<lparr>h_ExtendedOptionsSize := sz, h_ExtendedOptions := Some data\<rparr>"

text \<open>The size is summed in 16 bits, as in the source.\<close>

definition SSUHeader_GetSize :: "SSUHeader \<Rightarrow> nat" where
  "SSUHeader_GetSize h =
     (let sz0 = 37 :: u16;
          sz1 = (if h_Rekey h then sz0 + 64 else sz0);
          sz2 = (if h_Extended h then sz1 + (1 + ucast (h_ExtendedOptionsSize h)) else sz1)
      in unat sz2)"

section \<open>The payload classes\<close>

record SSUSessionRequestPacket =
  sr_DhX :: "bytes option"
  sr_IPAddress :: "bytes option"
  sr_IPAddressSize :: u8

record SSUSessionCreatedPacket =
  sc_DhY :: "bytes option"
  sc_IPAddress :: "bytes option"
  sc_AddressSize :: u8
  sc_Port :: u16
  sc_RelayTag :: u32
  sc_SignedOnTime :: u32
  sc_Signature :: "bytes option"
  sc_SignatureSize :: nat

record SSUSessionConfirmedPacket =
  cf_RemoteIdentity :: IdentityEx
  cf_Signature :: "bytes option"
  cf_SignedOnTime :: u32

record SSURelayRequestPacket =
  rq_RelayTag :: u32
  rq_IPAddress :: "bytes option"
  rq_IPAddressSize :: u8
  rq_Port :: u16
  rq_Challenge :: "bytes option"
  rq_ChallengeSize :: nat
  rq_IntroKey :: "bytes option"
  rq_Nonce :: u32

record SSURelayResponsePacket =
  rr_IPAddressCharlie :: "bytes option"
  rr_IPAddressCharlieSize :: u8
  rr_PortCharlie :: u16
  rr_IPAddressAlice :: "bytes option"
  rr_IPAddressAliceSize :: u8
  rr_PortAlice :: u16
  rr_Nonce :: u32

record SSURelayIntroPacket =
  ri_IPAddress :: "bytes option"
  ri_IPAddressSize :: u8
  ri_Port :: u16
  ri_Challenge :: "bytes option"
  ri_ChallengeSize :: nat

record SSUFragment =
  fr_MessageID :: u8
  fr_Number :: u8
  fr_IsLast :: bool
  fr_Size :: nat
  fr_Data :: "bytes option"

record SSUDataPacket =
  dp_ExplicitACKs :: "u32 list"
  dp_ACKs :: "u32 list"
  dp_ACKBitfields :: "u8 list"
  dp_Fragments :: "SSUFragment list"

record SSUPeerTestPacket =
  pt_Nonce :: u32
  pt_IPAddress :: "ip_address option"
  pt_Port :: u16
  pt_IntroKey :: "bytes option"

datatype SSUPayload =
    SessionRequestPacket SSUSessionRequestPacket
  | SessionCreatedPacket SSUSessionCreatedPacket
  | SessionConfirmedPacket SSUSessionConfirmedPacket
  | RelayRequestPacket SSURelayRequestPacket
  | RelayResponsePacket SSURelayResponsePacket
  | RelayIntroPacket SSURelayIntroPacket
  | DataPacket SSUDataPacket
  | PeerTestPacket SSUPeerTestPacket
  | SessionDestroyedPacket

record SSUPacket =
  p_Header :: "SSUHeader option"
  p_RawData :: bytes
  p_RawDataLength :: nat
  p_Payload :: SSUPayload

section \<open>Checked setters\<close>

text \<open>\<open>SetIPAddress\<close> of each class, with the sizes it accepts.\<close>

definition SessionRequest_SetIPAddress ::
    "bytes \<Rightarrow> u8 \<Rightarrow> SSUSessionRequestPacket \<Rightarrow> SSUSessionRequestPacket result" where
  "SessionRequest_SetIPAddress address sz p =
     throw_if (sz \<noteq> 4 \<and> sz \<noteq> 16) LengthError
       (Inr (p\<lparr>sr_IPAddress := Some address, sr_IPAddressSize := sz\<rparr>))"

definition SessionCreated_SetIPAddress ::
    "bytes \<Rightarrow> u8 \<Rightarrow> SSUSessionCreatedPacket \<Rightarrow> SSUSessionCreatedPacket result" where
  "SessionCreated_SetIPAddress address sz p =
     throw_if (sz \<noteq> 4 \<and> sz \<noteq> 16) LengthError
       (Inr (p\<lparr>sc_IPAddress := Some address, sc_AddressSize := sz\<rparr>))"

definition RelayRequest_SetIPAddress ::
    "bytes \<Rightarrow> u8 \<Rightarrow> SSURelayRequestPacket \<Rightarrow> SSURelayRequestPacket result" where
  "RelayRequest_SetIPAddress address sz p =
     throw_if (sz \<noteq> 0 \<and> sz \<noteq> 4) LengthError
       (Inr (p\<lparr>rq_IPAddress := Some address, rq_IPAddressSize := sz\<rparr>))"

definition RelayResponse_SetIPAddressAlice ::
    "bytes \<Rightarrow> u8 \<Rightarrow> SSURelayResponsePacket \<Rightarrow> SSURelayResponsePacket result" where
  "RelayResponse_SetIPAddressAlice address sz p =
     throw_if (sz \<noteq> 4 \<and> sz \<noteq> 16) LengthError
       (Inr (p\<lparr>rr_IPAddressAlice := Some address, rr_IPAddressAliceSize := sz\<rparr>))"

definition RelayResponse_SetIPAddressCharlie ::
    "bytes \<Rightarrow> u8 \<Rightarrow> SSURelayResponsePacket \<Rightarrow> SSURelayResponsePacket result" where
  "RelayResponse_SetIPAddressCharlie address sz p =
     throw_if (sz \<noteq> 4) LengthError
       (Inr (p\<lparr>rr_IPAddressCharlie := Some address, rr_IPAddressCharlieSize := sz\<rparr>))"

definition RelayIntro_SetIPAddress ::
    "bytes \<Rightarrow> u8 \<Rightarrow> SSURelayIntroPacket \<Rightarrow> SSURelayIntroPacket result" where
  "RelayIntro_SetIPAddress address sz p =
     throw_if (sz \<noteq> 4) LengthError
       (Inr (p\<lparr>ri_IPAddress := Some address, ri_IPAddressSize := sz\<rparr>))"

text \<open>\<open>SSUFragment::SetMessageID\<close> stores a 32-bit identifier in an 8-bit member.\<close>

definition SSUFragment_SetMessageID :: "u32 \<Rightarrow> SSUFragment \<Rightarrow> SSUFragment" where
  "SSUFragment_SetMessageID message_id f = f\<lparr>fr_MessageID := ucast message_id\<rparr>"

definition AddExplicitACK :: "u32 \<Rightarrow> SSUDataPacket \<Rightarrow> SSUDataPacket" where
  "AddExplicitACK message_id p = p\<lparr>dp_ExplicitACKs := dp_ExplicitACKs p @ [message_id]\<rparr>"

definition AddACK :: "u32 \<Rightarrow> SSUDataPacket \<Rightarrow> SSUDataPacket" where
  "AddACK message_id p = p\<lparr>dp_ACKs := dp_ACKs p @ [message_id]\<rparr>"

definition AddACKBitfield :: "u8 \<Rightarrow> SSUDataPacket \<Rightarrow> SSUDataPacket" where
  "AddACKBitfield bitfield p = p\<lparr>dp_ACKBitfields := dp_ACKBitfields p @ [bitfield]\<rparr>"

definition AddFragment :: "SSUFragment \<Rightarrow> SSUDataPacket \<Rightarrow> SSUDataPacket" where
  "AddFragment fragment p = p\<lparr>dp_Fragments := dp_Fragments p @ [fragment]\<rparr>"

section \<open>Sizes\<close>

definition GetPaddingSize :: "nat \<Rightarrow> nat" where
  "GetPaddingSize sz = (if sz mod 16 \<noteq> 0 then 16 - sz mod 16 else 0)"

definition GetPaddedSize :: "nat \<Rightarrow> nat" where
  "GetPaddedSize sz = sz + GetPaddingSize sz"

definition SSUPacket_GetSize :: "SSUHeader option \<Rightarrow> nat" where
  "SSUPacket_GetSize hdr = (case hdr of Some h \<Rightarrow> SSUHeader_GetSize h | None \<Rightarrow> 0)"

definition SessionRequest_GetSize :: "SSUHeader option \<Rightarrow> SSUSessionRequestPacket \<Rightarrow> nat" where
  "SessionRequest_GetSize hdr p =
     SSUPacket_GetSize hdr + SSUSize_value DHPublic + 1 + unat (sr_IPAddressSize p)"

definition SessionCreated_GetSize :: "SSUHeader option \<Rightarrow> SSUSessionCreatedPacket \<Rightarrow> nat" where
  "SessionCreated_GetSize hdr p =
     SSUPacket_GetSize hdr + SSUSize_value DHPublic + 1 + unat (sc_AddressSize p)
     + 2 + 4 + 4 + sc_SignatureSize p"

definition SessionConfirmed_GetSize ::
    "SSUHeader option \<Rightarrow> SSUSessionConfirmedPacket \<Rightarrow> nat result" where
  "SessionConfirmed_GetSize hdr p =
     bind_result (GetSignatureLen (cf_RemoteIdentity p)) (\<lambda>(sig_len, _).
       Inr (GetPaddedSize
         (SSUPacket_GetSize hdr + 3 + GetFullLen (cf_RemoteIdentity p) + sig_len + 4)))"

definition RelayRequest_GetSize :: "SSUHeader option \<Rightarrow> SSURelayRequestPacket \<Rightarrow> nat" where
  "RelayRequest_GetSize hdr p =
     SSUPacket_GetSize hdr + 4 + 1 + unat (rq_IPAddressSize p) + 2 + 1 + rq_ChallengeSize p
     + SSUSize_value IntroKey + 4"

definition RelayResponse_GetSize :: "SSUHeader option \<Rightarrow> SSURelayResponsePacket \<Rightarrow> nat" where
  "RelayResponse_GetSize hdr p =
     SSUPacket_GetSize hdr + 1 + unat (rr_IPAddressCharlieSize p) + 2
     + 1 + unat (rr_IPAddressAliceSize p) + 2 + 4"

definition RelayIntro_GetSize :: "SSUHeader option \<Rightarrow> SSURelayIntroPacket \<Rightarrow> nat" where
  "RelayIntro_GetSize hdr p =
     SSUPacket_GetSize hdr + 1 + unat (ri_IPAddressSize p) + 2 + 1 + ri_ChallengeSize p"

definition DataPacket_GetSize :: "SSUHeader option \<Rightarrow> SSUDataPacket \<Rightarrow> nat" where
  "DataPacket_GetSize hdr p =
     SSUPacket_GetSize hdr + 1 + 1
     + (if dp_ExplicitACKs p \<noteq> [] then 1 + length (dp_ExplicitACKs p) * 4 else 0)
     + (if dp_ACKs p \<noteq> [] then 1 + length (dp_ACKs p) * (4 + 1) else 0)
     + sum_list (map (\<lambda>f. fr_Size f + 4 + 3) (dp_Fragments p))"

definition PeerTest_GetSize :: "SSUHeader option \<Rightarrow> SSUPeerTestPacket \<Rightarrow> nat" where
  "PeerTest_GetSize hdr p = SSUPacket_GetSize hdr + 4 + 1 + 2 + SSUSize_value IntroKey"

section \<open>The parser\<close>

definition ParseHeader :: "SSUHeader parser" where
  "ParseHeader =
     pbind (pget m_Length) (\<lambda>len.
     if len < SSUSize_value HeaderMin then plift (Inl LengthError) else
     pbind (ReadBytes (SSUSize_value MAC)) (\<lambda>mac.
     pbind (ReadBytes (SSUSize_value IV)) (\<lambda>iv.
     pbind Read_u8 (\<lambda>flag.
     pbind (plift (SetPayloadType (int (unat (drop_bit 4 flag)))
       (SSUHeader_default\<lparr>h_MAC := Some mac, h_IV := Some iv,
          h_Rekey := has_flag flag Rekey, h_Extended := has_flag flag ExtendedOptions\<rparr>))) (\<lambda>h.
     pbind Read_u32 (\<lambda>time.
     let h1 = h\<lparr>h_Time := time\<rparr> in
     pbind (if h_Rekey h1 then SkipBytes_in (SSUSize_value KeyingMaterial) else preturn ()) (\<lambda>_.
     if h_Extended h1 then
       pbind Read_u8 (\<lambda>options_size.
       pbind (ReadBytes (unat options_size)) (\<lambda>options.
         preturn (SetExtendedOptionsData options options_size h1)))
     else preturn h1)))))))"

definition ParseFragment :: "SSUFragment parser" where
  "ParseFragment =
     pbind Read_u32 (\<lambda>message_id.
     pbind (ReadBytes 3) (\<lambda>info.
     pbind (plift (Read_buf True 0 (0 # info))) (\<lambda>fragment_info :: u32.
     let f = SSUFragment_SetMessageID message_id
               \<lparr>fr_MessageID = 0, fr_Number = ucast (drop_bit 17 fragment_info),
                fr_IsLast = (fragment_info AND 0x010000 \<noteq> 0),
                fr_Size = unat (fragment_info AND 0x3FFF), fr_Data = None\<rparr> in
     pbind (pget Size) (\<lambda>total.
     if total < fr_Size f then plift (Inl LengthError) else
     pbind (ReadBytes (fr_Size f)) (\<lambda>data.
       preturn (f\<lparr>fr_Data := Some data\<rparr>))))))"

definition ParseSessionRequest :: "SSUSessionRequestPacket parser" where
  "ParseSessionRequest =
     pbind (ReadBytes (SSUSize_value DHPublic)) (\<lambda>dhX.
     pbind Read_u8 (\<lambda>sz.
     pbind (ReadBytes (unat sz)) (\<lambda>address.
       plift (SessionRequest_SetIPAddress address sz
         \<lparr>sr_DhX = Some dhX, sr_IPAddress = None, sr_IPAddressSize = 0\<rparr>))))"

definition ParseSessionCreated :: "SSUSessionCreatedPacket parser" where
  "ParseSessionCreated =
     pbind (ReadBytes (SSUSize_value DHPublic)) (\<lambda>dhY.
     pbind Read_u8 (\<lambda>address_size.
     pbind (ReadBytes (unat address_size)) (\<lambda>address.
     pbind (plift (SessionCreated_SetIPAddress address address_size
         \<lparr>sc_DhY = Some dhY, sc_IPAddress = None, sc_AddressSize = 0, sc_Port = 0,
          sc_RelayTag = 0, sc_SignedOnTime = 0, sc_Signature = None, sc_SignatureSize = 0\<rparr>)) (\<lambda>p.
     pbind Read_u16 (\<lambda>port.
     pbind Read_u32 (\<lambda>relay_tag.
     pbind Read_u32 (\<lambda>time.
     pbind (pget (\<lambda>s. (remaining_ptr s, m_Length s))) (\<lambda>(sig, sig_size).
       preturn (p\<lparr>sc_Port := port, sc_RelayTag := relay_tag, sc_SignedOnTime := time,
                  sc_Signature := Some sig, sc_SignatureSize := sig_size\<rparr>)))))))))"

definition ParseSessionConfirmed ::
    "(bytes \<Rightarrow> bytes) \<Rightarrow> SSUHeader \<Rightarrow> SSUSessionConfirmedPacket parser" where
  "ParseSessionConfirmed sha256 header =
     pbind (pget m_Length) (\<lambda>init_length.
     pbind (SkipBytes_in 1) (\<lambda>_.
     pbind Read_u16 (\<lambda>identity_size.
     pbind (ReadBytes (unat identity_size)) (\<lambda>buf.
     pbind (plift (FromBuffer sha256 buf (unat identity_size) IdentityEx_default)) (\<lambda>(ret, identity).
     if ret = 0 then plift (Inl LengthError) else
     pbind (plift (IdentityEx_assign identity)) (\<lambda>remote.
     pbind Read_u32 (\<lambda>time.
     pbind (plift (GetSignatureLen identity)) (\<lambda>(sig_len, _).
     pbind (pget m_Length) (\<lambda>len.
     pbind (SkipBytes_in (GetPaddingSize (SSUHeader_GetSize header + init_length - len + sig_len))) (\<lambda>_.
     pbind (pget remaining_ptr) (\<lambda>sig.
       preturn \<lparr>cf_RemoteIdentity = remote, cf_Signature = Some sig, cf_SignedOnTime = time\<rparr>)))))))))))"

definition ParseRelayRequest :: "SSURelayRequestPacket parser" where
  "ParseRelayRequest =
     pbind Read_u32 (\<lambda>relay_tag.
     pbind Read_u8 (\<lambda>address_size.
     pbind (ReadBytes (unat address_size)) (\<lambda>address.
     pbind (plift (RelayRequest_SetIPAddress address address_size
         \<lparr>rq_RelayTag = relay_tag, rq_IPAddress = None, rq_IPAddressSize = 0, rq_Port = 0,
          rq_Challenge = None, rq_ChallengeSize = 0, rq_IntroKey = None, rq_Nonce = 0\<rparr>)) (\<lambda>p.
     pbind Read_u16 (\<lambda>port.
     pbind Read_u8 (\<lambda>challenge_size.
     pbind (ReadBytes (unat challenge_size)) (\<lambda>challenge.
     pbind (ReadBytes (SSUSize_value IntroKey)) (\<lambda>key.
     pbind Read_u32 (\<lambda>nonce.
       preturn (p\<lparr>rq_Port := port, rq_Challenge := Some challenge,
                  rq_ChallengeSize := unat challenge_size, rq_IntroKey := Some key,
                  rq_Nonce := nonce\<rparr>))))))))))"

definition ParseRelayResponse :: "SSURelayResponsePacket parser" where
  "ParseRelayResponse =
     pbind Read_u8 (\<lambda>charlie_size.
     pbind (ReadBytes (unat charlie_size)) (\<lambda>charlie.
     pbind (plift (RelayResponse_SetIPAddressCharlie charlie charlie_size
         \<lparr>rr_IPAddressCharlie = None, rr_IPAddressCharlieSize = 0, rr_PortCharlie = 0,
          rr_IPAddressAlice = None, rr_IPAddressAliceSize = 0, rr_PortAlice = 0, rr_Nonce = 0\<rparr>)) (\<lambda>p.
     pbind Read_u16 (\<lambda>port_charlie.
     pbind Read_u8 (\<lambda>alice_size.
     pbind (ReadBytes (unat alice_size)) (\<lambda>alice.
     pbind (plift (RelayResponse_SetIPAddressAlice alice alice_size
         (p\<lparr>rr_PortCharlie := port_charlie\<rparr>))) (\<lambda>p1.
     pbind Read_u16 (\<lambda>port_alice.
     pbind Read_u32 (\<lambda>nonce.
       preturn (p1\<lparr>rr_PortAlice := port_alice, rr_Nonce := nonce\<rparr>))))))))))"

definition ParseRelayIntro :: "SSURelayIntroPacket parser" where
  "ParseRelayIntro =
     pbind Read_u8 (\<lambda>address_size.
     pbind (ReadBytes (unat address_size)) (\<lambda>address.
     pbind (plift (RelayIntro_SetIPAddress address address_size
         \<lparr>ri_IPAddress = None, ri_IPAddressSize = 0, ri_Port = 0, ri_Challenge = None,
          ri_ChallengeSize = 0\<rparr>)) (\<lambda>p.
     pbind Read_u16 (\<lambda>port.
     pbind Read_u8 (\<lambda>challenge_size.
     pbind (ReadBytes (unat challenge_size)) (\<lambda>challenge.
       preturn (p\<lparr>ri_Port := port, ri_Challenge := Some challenge,
                  ri_ChallengeSize := unat challenge_size\<rparr>)))))))"

text \<open>The \<open>do\<close>/\<open>while\<close> over bitfields ends because every read consumes a byte.\<close>

function ParseACKBitfields :: "SSUDataPacket \<Rightarrow> SSUDataPacket parser" where
  "ParseACKBitfields p s =
     (case Read_u8 s of
        Inl e \<Rightarrow> Inl e
      | Inr (bitfield, s') \<Rightarrow>
          if has_flag bitfield DataACKBitFieldHasNext
          then ParseACKBitfields (AddACKBitfield bitfield p) s'
          else Inr (AddACKBitfield bitfield p, s'))"
  by pat_completeness auto
termination
  by (relation "measure (\<lambda>(p, s). m_Length s)") (auto dest: Read_decreases)

declare ParseACKBitfields.simps [simp del]

definition ParseData :: "SSUDataPacket parser" where
  "ParseData =
     pbind Read_u8 (\<lambda>flags.
     pbind (if has_flag flags DataExplicitACKsIncluded then
              pbind Read_u8 (\<lambda>nb_explicit_ACKs.
                ploop (unat nb_explicit_ACKs)
                  (\<lambda>p. pbind Read_u32 (\<lambda>id. preturn (AddExplicitACK id p)))
                  \<lparr>dp_ExplicitACKs = [], dp_ACKs = [], dp_ACKBitfields = [], dp_Fragments = []\<rparr>)
            else preturn
                  \<lparr>dp_ExplicitACKs = [], dp_ACKs = [], dp_ACKBitfields = [], dp_Fragments = []\<rparr>) (\<lambda>p1.
     pbind (if has_flag flags DataACKBitfieldsIncluded then
              pbind Read_u8 (\<lambda>nb_ACKs.
              pbind (ploop (unat nb_ACKs)
                      (\<lambda>p. pbind Read_u32 (\<lambda>id. preturn (AddACK id p))) p1)
                ParseACKBitfields)
            else preturn p1) (\<lambda>p2.
     pbind (if has_flag flags DataExtendedIncluded then
              pbind Read_u8 (\<lambda>n. SkipBytes_in (unat n))
            else preturn ()) (\<lambda>_.
     pbind Read_u8 (\<lambda>nb_flags.
       ploop (unat nb_flags) (\<lambda>p. pbind ParseFragment (\<lambda>f. preturn (AddFragment f p))) p2)))))"

definition ParsePeerTest :: "SSUPeerTestPacket parser" where
  "ParsePeerTest =
     pbind Read_u32 (\<lambda>nonce.
     pbind Read_u8 (\<lambda>sz.
     pbind (ReadBytes (unat sz)) (\<lambda>host.
     pbind (plift (BytesToAddress host sz)) (\<lambda>address.
     pbind Read_u16 (\<lambda>port.
     pbind (ReadBytes (SSUSize_value IntroKey)) (\<lambda>key.
       preturn \<lparr>pt_Nonce = nonce, pt_IPAddress = Some address, pt_Port = port,
                pt_IntroKey = Some key\<rparr>))))))"

definition ParseSessionDestroyed :: "SSUPayload parser" where
  "ParseSessionDestroyed = preturn SessionDestroyedPacket"

definition ParsePayload :: "(bytes \<Rightarrow> bytes) \<Rightarrow> SSUHeader \<Rightarrow> SSUPayload parser" where
  "ParsePayload sha256 header =
     (case h_PayloadType header of
        SessionRequest \<Rightarrow> pbind ParseSessionRequest (\<lambda>p. preturn (SessionRequestPacket p))
      | SessionCreated \<Rightarrow> pbind ParseSessionCreated (\<lambda>p. preturn (SessionCreatedPacket p))
      | SessionConfirmed \<Rightarrow>
          pbind (ParseSessionConfirmed sha256 header) (\<lambda>p. preturn (SessionConfirmedPacket p))
      | RelayRequest \<Rightarrow> pbind ParseRelayRequest (\<lambda>p. preturn (RelayRequestPacket p))
      | RelayResponse \<Rightarrow> pbind ParseRelayResponse (\<lambda>p. preturn (RelayResponsePacket p))
      | RelayIntro \<Rightarrow> pbind ParseRelayIntro (\<lambda>p. preturn (RelayIntroPacket p))
      | Data \<Rightarrow> pbind ParseData (\<lambda>p. preturn (DataPacket p))
      | PeerTest \<Rightarrow> pbind ParsePeerTest (\<lambda>p. preturn (PeerTestPacket p))
      | SessionDestroyed \<Rightarrow> ParseSessionDestroyed
      | Unknown \<Rightarrow> plift (Inl RuntimeError))"

definition ParsePacket :: "(bytes \<Rightarrow> bytes) \<Rightarrow> SSUPacket parser" where
  "ParsePacket sha256 =
     pbind ParseHeader (\<lambda>header.
     pbind (pget (\<lambda>s. (remaining_ptr s, m_Length s))) (\<lambda>(old_data, old_length).
     pbind (ParsePayload sha256 header) (\<lambda>payload.
       preturn \<lparr>p_Header = Some header, p_RawData = old_data, p_RawDataLength = old_length,
                p_Payload = payload\<rparr>)))"

section \<open>The builder\<close>

definition header_flag :: "SSUHeader \<Rightarrow> u8" where
  "header_flag h =
     push_bit 4 (word_of_nat (SSUPayloadType_code (h_PayloadType h)))
     + (if h_Rekey h then 8 else 0) + (if h_Extended h then 4 else 0)"

definition WriteHeader :: "SSUHeader \<Rightarrow> stream_writer" where
  "WriteHeader h =
     wseq (case h_MAC h of
             Some mac \<Rightarrow> WriteData (Some mac) (SSUSize_value MAC) False
           | None \<Rightarrow> SkipBytes_out (SSUSize_value MAC))
     (wseq (WriteData (h_IV h) (SSUSize_value IV) False)
     (wseq (Write True (header_flag h))
     (wseq (Write True (h_Time h))
       (if h_Extended h then
          wseq (Write True (h_ExtendedOptionsSize h))
            (WriteData (h_ExtendedOptions h) (unat (h_ExtendedOptionsSize h)) False)
        else Inr))))"

definition WriteSessionRequest :: "SSUSessionRequestPacket \<Rightarrow> stream_writer" where
  "WriteSessionRequest p =
     wseq (WriteData (sr_DhX p) (SSUSize_value DHPublic) False)
     (wseq (Write True (sr_IPAddressSize p))
       (WriteData (sr_IPAddress p) (unat (sr_IPAddressSize p)) False))"

definition WriteSessionCreated :: "SSUSessionCreatedPacket \<Rightarrow> stream_writer" where
  "WriteSessionCreated p =
     wseq (WriteData (sc_DhY p) (SSUSize_value DHPublic) False)
     (wseq (Write True (sc_AddressSize p))
     (wseq (WriteData (sc_IPAddress p) (unat (sc_AddressSize p)) False)
     (wseq (Write True (sc_Port p))
     (wseq (Write True (sc_RelayTag p))
     (wseq (Write True (sc_SignedOnTime p))
       (WriteData (sc_Signature p) (sc_SignatureSize p) False))))))"

definition WriteSessionConfirmed ::
    "(nat \<Rightarrow> bytes) \<Rightarrow> SSUHeader option \<Rightarrow> SSUSessionConfirmedPacket \<Rightarrow> stream_writer" where
  "WriteSessionConfirmed rand_bytes header p s =
     bind_result (Write True (0x01 :: u8) s) (\<lambda>s1.
     let identity_size = GetFullLen (cf_RemoteIdentity p) in
     bind_result (Write True (word_of_nat identity_size :: u16) s1) (\<lambda>s2.
     bind_result (SkipBytes_out identity_size s2) (\<lambda>s3.
     bind_result (ToBuffer (cf_RemoteIdentity p) (m_DataPtr s2) identity_size (m_Buffer s3)) (\<lambda>(_, buf).
     bind_result (Write True (cf_SignedOnTime p) (s3\<lparr>m_Buffer := buf\<rparr>)) (\<lambda>s4.
     bind_result (GetSignatureLen (cf_RemoteIdentity p)) (\<lambda>(signature_size, _).
     case header of
       None \<Rightarrow> Inl MemoryError
     | Some h \<Rightarrow>
         (let padding_size = GetPaddingSize
                (SSUHeader_GetSize h + (m_DataPtr s4 - m_DataPtr s) + signature_size) in
          bind_result (SkipBytes_out padding_size s4) (\<lambda>s5.
          bind_result (mem_write (m_DataPtr s4) (rand_bytes padding_size) (m_Buffer s5)) (\<lambda>buf1.
            WriteData (cf_Signature p) signature_size False (s5\<lparr>m_Buffer := buf1\<rparr>))))))))))"

text \<open>The bodies of these six are empty in the source.\<close>

definition WriteRelayRequest :: "SSURelayRequestPacket \<Rightarrow> stream_writer" where
  "WriteRelayRequest p = Inr"

definition WriteRelayResponse :: "SSURelayResponsePacket \<Rightarrow> stream_writer" where
  "WriteRelayResponse p = Inr"

definition WriteRelayIntro :: "SSURelayIntroPacket \<Rightarrow> stream_writer" where
  "WriteRelayIntro p = Inr"

definition WriteDataMessage :: "SSUDataPacket \<Rightarrow> stream_writer" where
  "WriteDataMessage p = Inr"

definition WritePeerTest :: "SSUPeerTestPacket \<Rightarrow> stream_writer" where
  "WritePeerTest p = Inr"

definition WriteSessionDestroyed :: stream_writer where
  "WriteSessionDestroyed = Inr"

text \<open>
  \<open>WritePacket\<close> dispatches on the header's type and casts the packet to the class it
  expects; a cast to a class the object does not have is undefined.
\<close>

definition WritePacket :: "(nat \<Rightarrow> bytes) \<Rightarrow> SSUPacket \<Rightarrow> stream_writer" where
  "WritePacket rand_bytes packet s =
     (case p_Header packet of
        None \<Rightarrow> Inl MemoryError
      | Some h \<Rightarrow>
          (case (h_PayloadType h, p_Payload packet) of
             (SessionRequest, SessionRequestPacket p) \<Rightarrow> WriteSessionRequest p s
           | (SessionCreated, SessionCreatedPacket p) \<Rightarrow> WriteSessionCreated p s
           | (SessionConfirmed, SessionConfirmedPacket p) \<Rightarrow>
               WriteSessionConfirmed rand_bytes (Some h) p s
           | (RelayRequest, RelayRequestPacket p) \<Rightarrow> WriteRelayRequest p s
           | (RelayResponse, RelayResponsePacket p) \<Rightarrow> WriteRelayResponse p s
           | (RelayIntro, RelayIntroPacket p) \<Rightarrow> WriteRelayIntro p s
           | (Data, DataPacket p) \<Rightarrow> WriteDataMessage p s
           | (PeerTest, PeerTestPacket p) \<Rightarrow> WritePeerTest p s
           | (SessionDestroyed, SessionDestroyedPacket) \<Rightarrow> WriteSessionDestroyed s
           | (Unknown, _) \<Rightarrow> Inl RuntimeError
           | _ \<Rightarrow> Inl MemoryError))"

section \<open>The parser on untrusted bytes\<close>

lemmas setter_defs =
  SetPayloadType_def SessionRequest_SetIPAddress_def SessionCreated_SetIPAddress_def
  RelayRequest_SetIPAddress_def RelayResponse_SetIPAddressAlice_def
  RelayResponse_SetIPAddressCharlie_def RelayIntro_SetIPAddress_def

lemma setters_safe [simp]:
  "SetPayloadType t h \<noteq> Inl MemoryError"
  "SessionRequest_SetIPAddress a n p1 \<noteq> Inl MemoryError"
  "SessionCreated_SetIPAddress a n p2 \<noteq> Inl MemoryError"
  "RelayRequest_SetIPAddress a n p3 \<noteq> Inl MemoryError"
  "RelayResponse_SetIPAddressAlice a n p4 \<noteq> Inl MemoryError"
  "RelayResponse_SetIPAddressCharlie a n p4 \<noteq> Inl MemoryError"
  "RelayIntro_SetIPAddress a n p5 \<noteq> Inl MemoryError"
  by (simp_all add: setter_defs throw_if_def)

interpretation header_parser: safe_parser ParseHeader
  unfolding ParseHeader_def Let_def by (intro safe_intros) simp_all

interpretation fragment_parser: safe_parser ParseFragment
  unfolding ParseFragment_def Let_def
  by (intro ReadBytes_bind_safe safe_intros) (simp_all add: Read_buf_def mem_read_def)

interpretation session_request_parser: safe_parser ParseSessionRequest
  unfolding ParseSessionRequest_def by (intro safe_intros) simp_all

interpretation session_created_parser: safe_parser ParseSessionCreated
  unfolding ParseSessionCreated_def by (intro safe_intros) simp_all

interpretation relay_request_parser: safe_parser ParseRelayRequest
  unfolding ParseRelayRequest_def by (intro safe_intros) simp_all

interpretation relay_response_parser: safe_parser ParseRelayResponse
  unfolding ParseRelayResponse_def by (intro safe_intros) simp_all

interpretation relay_intro_parser: safe_parser ParseRelayIntro
  unfolding ParseRelayIntro_def by (intro safe_intros) simp_all

lemma ParseACKBitfields_safe [safe_intros]: "safe_parser (ParseACKBitfields p)"
proof
  show "\<exists>n \<le> m_Length s. s' = advance_by n s"
    if "stream_inv s" "ParseACKBitfields p s = Inr (x, s')" for s x s'
    using that
  proof (induction p s arbitrary: x s' rule: ParseACKBitfields.induct)
    case (1 p s)
    from 1(3) obtain b t where t: "Read_u8 s = Inr (b, t)"
      by (subst (asm) ParseACKBitfields.simps) (auto split: sum.splits)
    then have n: "1 \<le> m_Length s" "t = advance_by 1 s"
      using 1(2) by (auto simp: Read_eq split: if_splits)
    show ?case
    proof (cases "has_flag b DataACKBitFieldHasNext")
      case True
      with 1(3) t have "ParseACKBitfields (AddACKBitfield b p) t = Inr (x, s')"
        by (subst (asm) ParseACKBitfields.simps) simp
      from 1(1) [OF t refl True _ this] 1(2) n obtain m
        where "m \<le> m_Length t" "s' = advance_by m t" by auto
      with n show ?thesis by (intro exI [of _ "1 + m"]) auto
    next
      case False
      with 1(3) t n show ?thesis
        by (subst (asm) ParseACKBitfields.simps) (auto intro: exI [of _ 1])
    qed
  qed
  show "ParseACKBitfields p s \<noteq> Inl MemoryError" if "stream_inv s" for s
    using that
  proof (induction p s rule: ParseACKBitfields.induct)
    case (1 p s)
    then show ?case
      by (subst ParseACKBitfields.simps)
        (auto simp: rd.no_memory_error dest: rd.keeps_inv split: sum.splits)
  qed
qed

lemmas fragment_safe [safe_intros] = fragment_parser.safe_parser_axioms

interpretation data_parser: safe_parser ParseData
  unfolding ParseData_def by (intro safe_intros)

lemma BytesToAddress_safe:
  "length host = unat sz \<Longrightarrow> BytesToAddress host sz \<noteq> Inl MemoryError"
  by (auto simp: BytesToAddress_def mem_read_def result_simps)

interpretation peer_test_parser: safe_parser ParsePeerTest
  unfolding ParsePeerTest_def
  by (intro ReadBytes_bind_safe safe_intros) (simp_all add: BytesToAddress_safe)

interpretation session_destroyed_parser: safe_parser ParseSessionDestroyed
  unfolding ParseSessionDestroyed_def by (intro safe_intros)

text \<open>
  \<open>ParseSessionConfirmed\<close> is the exception: the verifier of the identity it has just read is
  created from a key certificate whose length nobody has checked. Its proofs split it after
  the identity: \<open>confirmed_identity_bytes\<close> are the bytes the identity is read from, and
  \<open>confirmed_tail\<close> is what follows.
\<close>

definition confirmed_identity_bytes :: "ByteStream \<Rightarrow> bytes" where
  "confirmed_identity_bytes s =
     take (unat (word_decode True (take 2 (drop 1 (remaining s))) :: u16)) (drop 3 (remaining s))"

definition confirmed_identity :: "(bytes \<Rightarrow> bytes) \<Rightarrow> ByteStream \<Rightarrow> IdentityEx option" where
  "confirmed_identity sha256 s =
     (case FromBuffer sha256 (confirmed_identity_bytes s) (length (confirmed_identity_bytes s))
        IdentityEx_default of
        Inr (r, i) \<Rightarrow> if r = 0 then None else Some i
      | Inl _ \<Rightarrow> None)"

definition confirmed_tail :: "nat \<Rightarrow> IdentityEx \<Rightarrow> SSUSessionConfirmedPacket parser" where
  "confirmed_tail start i =
     pbind (plift (IdentityEx_assign i)) (\<lambda>remote.
     pbind Read_u32 (\<lambda>time.
     pbind (plift (GetSignatureLen i)) (\<lambda>(sig_len, _).
     pbind (pget m_Length) (\<lambda>len.
     pbind (SkipBytes_in (GetPaddingSize (start - len + sig_len))) (\<lambda>_.
     pbind (pget remaining_ptr) (\<lambda>sig.
       preturn \<lparr>cf_RemoteIdentity = remote, cf_Signature = Some sig, cf_SignedOnTime = time\<rparr>))))))"

lemma FromBuffer_no_error: "FromBuffer sha buf (length buf) self \<noteq> Inl e"
  using FromBuffer_cases [of "length buf" buf sha self] by auto

lemma confirmed_identity_wf:
  assumes "confirmed_identity sha s = Some i"
  shows "identityex_wf sha i" and "m_Verifier i = None"
  using FromBuffer_cases [of "length (confirmed_identity_bytes s)" "confirmed_identity_bytes s" sha
      IdentityEx_default] assms
  by (auto simp: confirmed_identity_def split: sum.splits if_splits)

lemma confirmed_tail_safe:
  assumes "identityex_wf sha i" and "m_Verifier i = None" and "key_cert_ok i"
  shows "safe_parser (confirmed_tail start i)"
proof -
  from GetSignatureLen_ok [OF assms(3,2)]
  have "GetSignatureLen i \<noteq> Inl MemoryError" by auto
  then show ?thesis
    using assms(1) unfolding confirmed_tail_def
    by (intro safe_intros) (simp_all add: IdentityEx_assign_wf)
qed

lemma confirmed_tail_short:
  assumes "m_Verifier i = None" and "\<not> key_cert_ok i"
  shows "confirmed_tail start i s \<noteq> Inr x"
  using GetSignatureLen_short [OF assms(2,1)]
  by (auto simp: confirmed_tail_def pbind_def plift_def bind_result_eq_Inr split_def)

lemma ParseSessionConfirmed_split:
  "ParseSessionConfirmed sha h =
     pbind (pget m_Length) (\<lambda>init_length.
     pbind (SkipBytes_in 1) (\<lambda>_.
     pbind Read_u16 (\<lambda>n.
     pbind (ReadBytes (unat n)) (\<lambda>buf.
     pbind (plift (FromBuffer sha buf (unat n) IdentityEx_default)) (\<lambda>(ret, i).
       if ret = 0 then plift (Inl LengthError)
       else confirmed_tail (SSUHeader_GetSize h + init_length) i)))))"
  unfolding ParseSessionConfirmed_def confirmed_tail_def by (rule refl)

lemma ParseSessionConfirmed_cases:
  assumes inv: "stream_inv s"
  obtains (rejected) "ParseSessionConfirmed sha h s = Inl LengthError"
  | (identity) i where "confirmed_identity sha s = Some i"
      and "3 + length (confirmed_identity_bytes s) \<le> m_Length s"
      and "ParseSessionConfirmed sha h s = confirmed_tail (SSUHeader_GetSize h + m_Length s) i
             (advance_by (3 + length (confirmed_identity_bytes s)) s)"
proof -
  let ?n = "unat (word_decode True (take 2 (drop 1 (remaining s))) :: u16)"
  let ?b = "confirmed_identity_bytes s"
  note ev = ParseSessionConfirmed_split pbind_def pget_def SkipBytes_in_eq Read_eq ReadBytes_eq
  consider "m_Length s < 3" | "3 \<le> m_Length s" "?n = 0 \<or> m_Length s - 3 < ?n"
    | "3 \<le> m_Length s" "?n \<noteq> 0" "?n \<le> m_Length s - 3" by linarith
  then show thesis
  proof cases
    case 1
    then show thesis using inv rejected by (auto simp: ev)
  next
    case 2
    then show thesis using inv rejected by (auto simp: ev numeral_3_eq_3)
  next
    case 3
    obtain r i where ri: "FromBuffer sha ?b (length ?b) IdentityEx_default = Inr (r, i)"
      using FromBuffer_no_error [of sha ?b IdentityEx_default]
      by (cases "FromBuffer sha ?b (length ?b) IdentityEx_default") auto
    have len: "length ?b = ?n" using 3 inv by (simp add: confirmed_identity_bytes_def)
    then have eq: "ParseSessionConfirmed sha h s = (if r = 0 then Inl LengthError else
        confirmed_tail (SSUHeader_GetSize h + m_Length s) i (advance_by (3 + length ?b) s))"
      using ri 3 inv
      by (auto simp: ev plift_def confirmed_identity_bytes_def numeral_3_eq_3)
    show thesis
      using eq ri 3 len rejected identity [of i]
      by (cases "r = 0") (simp_all add: confirmed_identity_def)
  qed
qed

lemma ParseSessionConfirmed_keeps:
  assumes inv: "stream_inv s" and ok: "ParseSessionConfirmed sha h s = Inr (x, s')"
  shows "\<exists>n \<le> m_Length s. s' = advance_by n s"
  using inv
proof (cases rule: ParseSessionConfirmed_cases [of _ sha h])
  case (identity i)
  let ?m = "3 + length (confirmed_identity_bytes s)"
  note wf = confirmed_identity_wf [OF identity(1)]
  have kc: "key_cert_ok i" using confirmed_tail_short [OF wf(2)] identity(3) ok by metis
  have "stream_inv (advance_by ?m s)" using inv identity(2) by simp
  from safe_parser.keeps [OF confirmed_tail_safe [OF wf kc] this] identity(3) ok
  obtain k where "k \<le> m_Length (advance_by ?m s)" "s' = advance_by k (advance_by ?m s)" by metis
  with identity(2) show ?thesis by (intro exI [of _ "?m + k"]) simp
qed (use ok in simp)

lemma ParseSessionConfirmed_memory:
  assumes inv: "stream_inv s" and err: "ParseSessionConfirmed sha h s = Inl MemoryError"
  shows "\<exists>i. confirmed_identity sha s = Some i \<and> \<not> key_cert_ok i"
  using inv
proof (cases rule: ParseSessionConfirmed_cases [of _ sha h])
  case (identity i)
  note wf = confirmed_identity_wf [OF identity(1)]
  have "stream_inv (advance_by (3 + length (confirmed_identity_bytes s)) s)"
    using inv identity(2) by simp
  with safe_parser.no_memory_error [OF confirmed_tail_safe [OF wf]] identity err show ?thesis by metis
qed (use err in simp)

lemma ParsePayload_safe:
  assumes "h_PayloadType h \<noteq> SessionConfirmed"
  shows "safe_parser (ParsePayload sha h)"
  using assms unfolding ParsePayload_def
  by (cases "h_PayloadType h")
    (auto intro!: safe_intros
      session_request_parser.safe_parser_axioms session_created_parser.safe_parser_axioms
      relay_request_parser.safe_parser_axioms relay_response_parser.safe_parser_axioms
      relay_intro_parser.safe_parser_axioms data_parser.safe_parser_axioms
      peer_test_parser.safe_parser_axioms session_destroyed_parser.safe_parser_axioms)

section \<open>The wire format\<close>

text \<open>The bytes of a header, and the headers the builder can write.\<close>

definition header_enc :: "SSUHeader \<Rightarrow> bytes" where
  "header_enc h =
     the (h_MAC h) @ the (h_IV h) @ [header_flag h] @ word_encode True (h_Time h)
     @ (if h_Extended h then [h_ExtendedOptionsSize h] @ the (h_ExtendedOptions h) else [])"

definition header_wf :: "SSUHeader \<Rightarrow> bool" where
  "header_wf h \<longleftrightarrow>
     (\<exists>mac iv. h_MAC h = Some mac \<and> length mac = 16 \<and> h_IV h = Some iv \<and> length iv = 16) \<and>
     \<not> h_Rekey h \<and> h_PayloadType h \<noteq> Unknown \<and>
     (if h_Extended h
      then h_ExtendedOptionsSize h \<noteq> 0 \<and>
        (\<exists>opts. h_ExtendedOptions h = Some opts \<and> length opts = unat (h_ExtendedOptionsSize h))
      else h_ExtendedOptionsSize h = 0 \<and> h_ExtendedOptions h = None)"

lemma header_flag_fields:
  assumes "h_PayloadType h \<noteq> Unknown"
  shows "SetPayloadType (uint (drop_bit 4 (header_flag h))) g =
           Inr (g\<lparr>h_PayloadType := h_PayloadType h\<rparr>)"
    and "has_flag (header_flag h) Rekey = h_Rekey h"
    and "has_flag (header_flag h) ExtendedOptions = h_Extended h"
  using assms
  by (cases "h_PayloadType h"; cases "h_Rekey h"; cases "h_Extended h";
      simp add: header_flag_def SetPayloadType_def SSUPayloadType_of_def has_flag_def)+

lemma unat_pos_iff: "0 < unat x \<longleftrightarrow> x \<noteq> (0 :: 'a::len word)"
  by (simp add: unat_gt_0)

interpretation header_codec: stream_codec header_enc header_wf ParseHeader WriteHeader
proof
  fix h s rest
  assume wf: "header_wf h" and inv: "stream_inv s" and rem: "remaining s = header_enc h @ rest"
  have len: "m_Length s = length (header_enc h) + length rest"
    using remaining_appendD [OF rem inv] .
  from wf obtain mac iv where mac: "h_MAC h = Some mac" "length mac = 16"
    and iv: "h_IV h = Some iv" "length iv = 16" by (auto simp: header_wf_def)
  note ev = ParseHeader_def pbind_def pget_def ReadBytes_eq Read_eq plift_def preturn_def
    header_flag_fields Let_def SSUHeader_default_def SSUHeader_new_def
  show "ParseHeader s = Inr (h, advance_by (length (header_enc h)) s)"
    using wf inv rem len mac iv
    by (cases "h_Extended h")
      (auto simp: ev header_wf_def header_enc_def SetExtendedOptionsData_def unat_pos_iff)
next
  fix h s
  assume wf: "header_wf h" and s: "stream_inv s" "length (header_enc h) \<le> m_Length s"
  have "writes (WriteHeader h) (header_enc h)"
    using wf unfolding WriteHeader_def header_enc_def
    by (auto simp: header_wf_def intro!: writes_intros simp: unat_pos_iff simp del: word_encode_u8)
  with s show "WriteHeader h s = Inr (emit (header_enc h) s)" by (simp add: writesD)
qed

lemma length_header_enc: "header_wf h \<Longrightarrow> length (header_enc h) = SSUHeader_GetSize h"
proof -
  assume wf: "header_wf h"
  have wrap: "(38 + n mod 65536) mod 65536 = 38 + n" if "n < 256" for n :: nat
    using that by simp
  have "unat (38 + (ucast (h_ExtendedOptionsSize h) :: u16)) = 38 + unat (h_ExtendedOptionsSize h)"
    by (simp add: unat_word_ariths unsigned_ucast_eq take_bit_eq_mod wrap)
  with wf show ?thesis
    by (auto simp: header_wf_def header_enc_def SSUHeader_GetSize_def Let_def)
qed

definition request_enc :: "SSUSessionRequestPacket \<Rightarrow> bytes" where
  "request_enc p = the (sr_DhX p) @ [sr_IPAddressSize p] @ the (sr_IPAddress p)"

definition request_wf :: "SSUSessionRequestPacket \<Rightarrow> bool" where
  "request_wf p \<longleftrightarrow>
     (\<exists>dh ip. sr_DhX p = Some dh \<and> length dh = 256 \<and> sr_IPAddress p = Some ip \<and>
        length ip = unat (sr_IPAddressSize p)) \<and> (sr_IPAddressSize p = 4 \<or> sr_IPAddressSize p = 16)"

interpretation request_codec: stream_codec request_enc request_wf ParseSessionRequest WriteSessionRequest
proof
  fix p s rest
  assume wf: "request_wf p" and inv: "stream_inv s" and rem: "remaining s = request_enc p @ rest"
  show "ParseSessionRequest s = Inr (p, advance_by (length (request_enc p)) s)"
    using wf inv rem remaining_appendD [OF rem inv]
    by (auto simp: request_wf_def request_enc_def ParseSessionRequest_def pbind_def ReadBytes_eq
        Read_eq plift_def SessionRequest_SetIPAddress_def)
next
  fix p s
  assume wf: "request_wf p" and s: "stream_inv s" "length (request_enc p) \<le> m_Length s"
  have "writes (WriteSessionRequest p) (request_enc p)"
    using wf unfolding WriteSessionRequest_def request_enc_def
    by (auto simp: request_wf_def intro!: writes_intros)
  with s show "WriteSessionRequest p s = Inr (emit (request_enc p) s)" by (simp add: writesD)
qed

text \<open>The signature of a SessionCreated is whatever is left of the datagram.\<close>

definition created_fields :: "SSUSessionCreatedPacket \<Rightarrow> bytes" where
  "created_fields p =
     the (sc_DhY p) @ [sc_AddressSize p] @ the (sc_IPAddress p) @ word_encode True (sc_Port p)
     @ word_encode True (sc_RelayTag p) @ word_encode True (sc_SignedOnTime p)"

definition created_enc :: "SSUSessionCreatedPacket \<Rightarrow> bytes" where
  "created_enc p = created_fields p @ the (sc_Signature p)"

definition created_wf :: "SSUSessionCreatedPacket \<Rightarrow> bool" where
  "created_wf p \<longleftrightarrow>
     (\<exists>dh ip. sc_DhY p = Some dh \<and> length dh = 256 \<and> sc_IPAddress p = Some ip \<and>
        length ip = unat (sc_AddressSize p)) \<and> (sc_AddressSize p = 4 \<or> sc_AddressSize p = 16) \<and>
     (\<exists>sig. sc_Signature p = Some sig \<and> length sig = sc_SignatureSize p) \<and> 0 < sc_SignatureSize p"

lemma ParseSessionCreated_enc:
  assumes "created_wf p" and "stream_inv s" and "remaining s = created_enc p"
  shows "ParseSessionCreated s = Inr (p, advance_by (length (created_fields p)) s)"
proof -
  have "m_Length s = length (created_enc p)" using assms(2,3) length_remaining by metis
  with assms show ?thesis
    by (auto simp: created_wf_def created_fields_def created_enc_def ParseSessionCreated_def
        pbind_def ReadBytes_eq Read_eq plift_def SessionCreated_SetIPAddress_def pget_def
        preturn_def)
qed

lemma WriteSessionCreated_enc: "created_wf p \<Longrightarrow> writes (WriteSessionCreated p) (created_enc p)"
  unfolding WriteSessionCreated_def created_enc_def created_fields_def append_assoc
  by (auto simp: created_wf_def intro!: writes_intros)

text \<open>
  A SessionConfirmed: one fragment, the identity with its length, the time, padding to a
  multiple of 16 for the whole packet, and the signature.
\<close>

definition confirmed_pad :: "SSUHeader \<Rightarrow> SSUSessionConfirmedPacket \<Rightarrow> nat" where
  "confirmed_pad h p =
     GetPaddingSize (SSUHeader_GetSize h + (GetFullLen (cf_RemoteIdentity p) + 7)
       + signature_len_of_type (signing_type (cf_RemoteIdentity p)))"

definition confirmed_fields :: "SSUSessionConfirmedPacket \<Rightarrow> bytes" where
  "confirmed_fields p =
     [1] @ word_encode True (word_of_nat (GetFullLen (cf_RemoteIdentity p)) :: u16)
     @ full_bytes (cf_RemoteIdentity p) @ word_encode True (cf_SignedOnTime p)"

definition confirmed_enc :: "bytes \<Rightarrow> SSUSessionConfirmedPacket \<Rightarrow> bytes" where
  "confirmed_enc padding p = confirmed_fields p @ padding @ the (cf_Signature p)"

definition confirmed_wf :: "(bytes \<Rightarrow> bytes) \<Rightarrow> SSUHeader \<Rightarrow> SSUSessionConfirmedPacket \<Rightarrow> bool" where
  "confirmed_wf sha256 h p \<longleftrightarrow>
     identityex_wf sha256 (cf_RemoteIdentity p) \<and> m_Verifier (cf_RemoteIdentity p) = None \<and>
     key_cert_ok (cf_RemoteIdentity p) \<and> GetFullLen (cf_RemoteIdentity p) < 65536 \<and>
     (\<exists>sig. cf_Signature p = Some sig \<and>
        length sig = signature_len_of_type (signing_type (cf_RemoteIdentity p))) \<and>
     0 < confirmed_pad h p"

lemma GetFullLen_pos [simp]: "0 < GetFullLen i"
  by (simp add: GetFullLen_def DEFAULT_IDENTITY_SIZE_def)

lemma unat_word_of_nat_u16: "n < 65536 \<Longrightarrow> unat (word_of_nat n :: u16) = n"
  by (simp add: unat_of_nat take_bit_eq_mod)

lemma length_confirmed_fields:
  "confirmed_wf sha h p \<Longrightarrow> length (confirmed_fields p) = GetFullLen (cf_RemoteIdentity p) + 7"
  by (auto simp: confirmed_wf_def confirmed_fields_def dest: length_full_bytes)

lemma ParseSessionConfirmed_enc:
  assumes wf: "confirmed_wf sha h p" and inv: "stream_inv s"
    and rem: "remaining s = confirmed_enc padding p" and pad: "length padding = confirmed_pad h p"
  shows "ParseSessionConfirmed sha h s =
    Inr (p, advance_by (length (confirmed_fields p) + confirmed_pad h p) s)"
proof -
  let ?i = "cf_RemoteIdentity p"
  from wf obtain sig where sig: "cf_Signature p = Some sig"
      "length sig = signature_len_of_type (signing_type ?i)"
    and i: "identityex_wf sha ?i" "m_Verifier ?i = None" "key_cert_ok ?i" "GetFullLen ?i < 65536"
    and pos: "0 < confirmed_pad h p"
    by (auto simp: confirmed_wf_def)
  obtain v where v: "GetSignatureLen ?i = Inr (signature_len_of_type (signing_type ?i), v)"
    using GetSignatureLen_ok [OF i(3,2)] by auto
  have from_buf: "FromBuffer sha (full_bytes ?i) (GetFullLen ?i) IdentityEx_default = Inr (GetFullLen ?i, ?i)"
    using FromBuffer_full_bytes [OF i(1), of _ "[]"] i(2) by simp
  have same: "IdentityEx_assign ?i = Inr ?i"
    using IdentityEx_assign_wf [OF i(1)] i(2) by simp
  have len: "m_Length s = GetFullLen ?i + 7 + (confirmed_pad h p + length sig)"
    using length_remaining [OF inv] rem pad sig length_confirmed_fields [OF wf]
    by (simp add: confirmed_enc_def)
  have "confirmed_pad h p =
      GetPaddingSize (SSUHeader_GetSize h + m_Length s - (confirmed_pad h p + length sig) + length sig)"
    using len sig by (simp add: confirmed_pad_def)
  moreover have tail: "drop (7 + GetFullLen ?i + k) (1 # a @ full_bytes ?i @ b @ padding @ sig) = sig"
    if "length a = 2" "length b = 4" "k = length padding" for a b k
    using that length_full_bytes [OF i(1)] by (simp add: drop_Cons')
  ultimately show ?thesis
    using from_buf same v len inv rem sig i pad pos length_full_bytes [OF i(1)]
    by (simp add: ParseSessionConfirmed_split confirmed_tail_def pbind_def pget_def plift_def
        SkipBytes_in_eq Read_eq ReadBytes_eq preturn_def confirmed_enc_def confirmed_fields_def
        unat_word_of_nat_u16 tail del: signature_len_of_type.simps)
qed

lemma WriteSessionConfirmed_split:
  "WriteSessionConfirmed rand_bytes (Some h) p s =
     (let n = GetFullLen (cf_RemoteIdentity p) in
     bind_result
       (wseq (Write True (1 :: u8)) (wseq (Write True (word_of_nat n :: u16))
         (wseq (filled n (\<lambda>ptr buf. bind_result (ToBuffer (cf_RemoteIdentity p) ptr n buf)
            (\<lambda>(_, b). Inr b)))
           (Write True (cf_SignedOnTime p)))) s) (\<lambda>s4.
     bind_result (GetSignatureLen (cf_RemoteIdentity p)) (\<lambda>(sig_size, _).
       let pad = GetPaddingSize (SSUHeader_GetSize h + (m_DataPtr s4 - m_DataPtr s) + sig_size) in
       wseq (filled pad (\<lambda>ptr. mem_write ptr (rand_bytes pad)))
         (WriteData (cf_Signature p) sig_size False) s4)))"
  by (simp add: WriteSessionConfirmed_def Let_def wseq_def filled_def split_def)

lemma confirmed_fields_writes:
  assumes "confirmed_wf sha h p"
  defines "n \<equiv> GetFullLen (cf_RemoteIdentity p)"
  shows "writes (wseq (Write True (1 :: u8)) (wseq (Write True (word_of_nat n :: u16))
         (wseq (filled n (\<lambda>ptr buf. bind_result (ToBuffer (cf_RemoteIdentity p) ptr n buf)
            (\<lambda>(_, b). Inr b)))
           (Write True (cf_SignedOnTime p))))) (confirmed_fields p)"
proof -
  have i: "identityex_wf sha (cf_RemoteIdentity p)" using assms(1) by (simp add: confirmed_wf_def)
  show ?thesis
    unfolding confirmed_fields_def n_def append_Cons append_Nil
    by (intro writes_intros) (simp_all add: length_full_bytes [OF i] ToBuffer_wf [OF i])
qed

lemma WriteSessionConfirmed_enc:
  assumes wf: "confirmed_wf sha h p" and rand: "\<And>n. length (rand_bytes n) = n"
  shows "writes (WriteSessionConfirmed rand_bytes (Some h) p)
    (confirmed_enc (rand_bytes (confirmed_pad h p)) p)"
  unfolding writes_def
proof (intro allI impI)
  fix s
  let ?i = "cf_RemoteIdentity p"
  let ?n = "confirmed_pad h p"
  let ?l = "signature_len_of_type (signing_type ?i)"
  assume inv: "stream_inv s" and room: "length (confirmed_enc (rand_bytes ?n) p) \<le> m_Length s"
  from wf obtain sig where sig: "cf_Signature p = Some sig" "length sig = ?l"
    and i: "m_Verifier ?i = None" "key_cert_ok ?i" and pos: "0 < ?n"
    by (auto simp: confirmed_wf_def)
  obtain v where v: "GetSignatureLen ?i = Inr (?l, v)"
    using GetSignatureLen_ok [OF i(2,1)] by auto
  let ?s4 = "emit (confirmed_fields p) s"
  have pad: "GetPaddingSize (SSUHeader_GetSize h + (m_DataPtr ?s4 - m_DataPtr s) + ?l) = ?n"
    by (simp add: confirmed_pad_def length_confirmed_fields [OF wf] del: signature_len_of_type.simps)
  have fields: "length (confirmed_fields p) \<le> m_Length s"
    using room by (simp add: confirmed_enc_def)
  have "writes (wseq (filled ?n (\<lambda>ptr. mem_write ptr (rand_bytes ?n)))
         (WriteData (cf_Signature p) ?l False)) (rand_bytes ?n @ sig)"
    unfolding sig(1) by (intro writes_intros) (simp_all add: rand pos mem_write_def sig(2))
  then have tail: "wseq (filled ?n (\<lambda>ptr. mem_write ptr (rand_bytes ?n)))
         (WriteData (cf_Signature p) ?l False) ?s4 = Inr (emit (rand_bytes ?n @ sig) ?s4)"
    using inv room fields sig(1) by (intro writesD) (simp_all add: confirmed_enc_def)
  show "WriteSessionConfirmed rand_bytes (Some h) p s = Inr (emit (confirmed_enc (rand_bytes ?n) p) s)"
    unfolding WriteSessionConfirmed_split Let_def
    using writesD [OF confirmed_fields_writes [OF wf] inv fields] v pad tail inv room sig(1)
    by (simp add: emit_emit confirmed_enc_def del: signature_len_of_type.simps emit_fields)
qed

section \<open>Whole packets\<close>

text \<open>
  The payloads the builder writes, and their bytes. \<open>payload_size\<close> is the virtual
  \<open>GetSize\<close> as its callers see it.
\<close>

fun payload_size :: "SSUHeader \<Rightarrow> SSUPayload \<Rightarrow> nat result" where
  "payload_size h (SessionRequestPacket p) = Inr (SessionRequest_GetSize (Some h) p)"
| "payload_size h (SessionCreatedPacket p) = Inr (SessionCreated_GetSize (Some h) p)"
| "payload_size h (SessionConfirmedPacket p) = SessionConfirmed_GetSize (Some h) p"
| "payload_size h (RelayRequestPacket p) = Inr (RelayRequest_GetSize (Some h) p)"
| "payload_size h (RelayResponsePacket p) = Inr (RelayResponse_GetSize (Some h) p)"
| "payload_size h (RelayIntroPacket p) = Inr (RelayIntro_GetSize (Some h) p)"
| "payload_size h (DataPacket p) = Inr (DataPacket_GetSize (Some h) p)"
| "payload_size h (PeerTestPacket p) = Inr (PeerTest_GetSize (Some h) p)"
| "payload_size h SessionDestroyedPacket = Inr (SSUPacket_GetSize (Some h))"

fun payload_wf :: "(bytes \<Rightarrow> bytes) \<Rightarrow> SSUHeader \<Rightarrow> SSUPayload \<Rightarrow> bool" where
  "payload_wf sha h (SessionRequestPacket p) = (h_PayloadType h = SessionRequest \<and> request_wf p)"
| "payload_wf sha h (SessionCreatedPacket p) = (h_PayloadType h = SessionCreated \<and> created_wf p)"
| "payload_wf sha h (SessionConfirmedPacket p) =
     (h_PayloadType h = SessionConfirmed \<and> confirmed_wf sha h p)"
| "payload_wf sha h SessionDestroyedPacket = (h_PayloadType h = SessionDestroyed)"
| "payload_wf sha h _ = False"

fun payload_enc :: "(nat \<Rightarrow> bytes) \<Rightarrow> SSUHeader \<Rightarrow> SSUPayload \<Rightarrow> bytes" where
  "payload_enc rand h (SessionRequestPacket p) = request_enc p"
| "payload_enc rand h (SessionCreatedPacket p) = created_enc p"
| "payload_enc rand h (SessionConfirmedPacket p) = confirmed_enc (rand (confirmed_pad h p)) p"
| "payload_enc rand h _ = []"

lemma request_writes: "request_wf p \<Longrightarrow> writes (WriteSessionRequest p) (request_enc p)"
  by (simp add: writes_def request_codec.write_enc)

lemma header_writes: "header_wf h \<Longrightarrow> writes (WriteHeader h) (header_enc h)"
  by (simp add: writes_def header_codec.write_enc)

lemma WritePacket_enc:
  assumes "payload_wf sha h (p_Payload pkt)" and "p_Header pkt = Some h"
    and "\<And>n. length (rand_bytes n) = n"
  shows "writes (WritePacket rand_bytes pkt) (payload_enc rand_bytes h (p_Payload pkt))"
  using assms
  by (cases "p_Payload pkt")
    (auto simp: WritePacket_def WriteSessionDestroyed_def writes_def
      dest: writesD [OF request_writes] writesD [OF WriteSessionCreated_enc]
        writesD [OF WriteSessionConfirmed_enc])

lemma GetPaddedSize_mod: "GetPaddedSize n mod 16 = 0"
proof -
  have "(n + (16 - n mod 16)) mod 16 = 0"
    by (metis add.commute le_add_diff_inverse2 mod_add_left_eq mod_le_divisor mod_mod_trivial
        mod_self zero_less_numeral)
  then show ?thesis by (simp add: GetPaddedSize_def GetPaddingSize_def)
qed

lemma payload_enc_size:
  assumes "payload_wf sha h pl" and "\<And>n. length (rand_bytes n) = n"
  shows "payload_size h pl = Inr (SSUHeader_GetSize h + length (payload_enc rand_bytes h pl))"
proof (cases pl)
  case (SessionConfirmedPacket p)
  with assms have wf: "confirmed_wf sha h p" by simp
  then obtain v where "GetSignatureLen (cf_RemoteIdentity p) =
      Inr (signature_len_of_type (signing_type (cf_RemoteIdentity p)), v)"
    using GetSignatureLen_ok by (fastforce simp: confirmed_wf_def simp del: signature_len_of_type.simps)
  moreover from wf obtain sig where "cf_Signature p = Some sig"
    "length sig = signature_len_of_type (signing_type (cf_RemoteIdentity p))"
    by (auto simp: confirmed_wf_def)
  ultimately show ?thesis
    using SessionConfirmedPacket assms(2) length_confirmed_fields [OF wf]
    by (simp add: SessionConfirmed_GetSize_def SSUPacket_GetSize_def confirmed_enc_def
        GetPaddedSize_def confirmed_pad_def algebra_simps del: signature_len_of_type.simps)
qed (use assms in \<open>auto simp: SessionRequest_GetSize_def SSUPacket_GetSize_def request_wf_def
      request_enc_def SessionCreated_GetSize_def created_wf_def created_enc_def created_fields_def\<close>)

lemma ParsePayload_enc:
  assumes "payload_wf sha h pl" and "\<And>n. length (rand_bytes n) = n"
    and "stream_inv s" and "remaining s = payload_enc rand_bytes h pl"
  shows "\<exists>s'. ParsePayload sha h s = Inr (pl, s')"
proof (cases pl)
  case (SessionRequestPacket p)
  with assms request_codec.parse_enc [of p s "[]"] show ?thesis
    by (simp add: ParsePayload_def pbind_def preturn_def)
next
  case (SessionCreatedPacket p)
  with assms ParseSessionCreated_enc [of p s] show ?thesis
    by (simp add: ParsePayload_def pbind_def preturn_def)
next
  case (SessionConfirmedPacket p)
  with assms ParseSessionConfirmed_enc [of sha h p s] show ?thesis
    by (simp add: ParsePayload_def pbind_def preturn_def)
qed (use assms in \<open>auto simp: ParsePayload_def ParseSessionDestroyed_def preturn_def\<close>)

section \<open>Properties of the packet layer\<close>

text \<open>The receiver's stream over a datagram.\<close>

definition datagram :: "bytes \<Rightarrow> ByteStream" where
  "datagram bs = \<lparr>m_Buffer = bs, m_DataPtr = 0, m_Length = length bs, m_Counter = 0\<rparr>"

lemma datagram_inv [simp]: "stream_inv (datagram bs)"
  and remaining_datagram [simp]: "remaining (datagram bs) = bs"
  by (simp_all add: datagram_def stream_inv_def remaining_ptr_def slice_def)

lemma ParsePacket_enc:
  assumes "header_wf h" and "payload_wf sha h pl" and rand: "\<And>n. length (rand_bytes n) = n"
    and inv: "stream_inv s" and rem: "remaining s = header_enc h @ payload_enc rand_bytes h pl"
  shows "\<exists>s'. ParsePacket sha s =
    Inr (\<lparr>p_Header = Some h, p_RawData = payload_enc rand_bytes h pl,
          p_RawDataLength = length (payload_enc rand_bytes h pl), p_Payload = pl\<rparr>, s')"
proof -
  let ?t = "advance_by (length (header_enc h)) s"
  have h: "ParseHeader s = Inr (h, ?t)"
    by (rule header_codec.parse_enc [OF assms(1) inv rem])
  have t: "stream_inv ?t" "remaining ?t = payload_enc rand_bytes h pl"
    using inv rem remaining_appendD [OF rem inv] by simp_all
  from ParsePayload_enc [OF assms(2) rand t] obtain s' where "ParsePayload sha h ?t = Inr (pl, s')" ..
  with h t length_remaining [OF t(1)] show ?thesis
    by (simp add: ParsePacket_def pbind_def pget_def preturn_def del: length_remaining)
qed

text \<open>
  C6 (round trip). A packet of a type the builder writes, with well-formed parts, is written
  in exactly \<open>GetSize\<close> bytes, and the parser reads the same header and payload back from
  the datagram. The random source is assumed to fill the length it is asked for.
\<close>

theorem packet_roundtrip:
  assumes "header_wf h" and "payload_wf sha h pl" and "\<And>n. length (rand_bytes n) = n"
    and "stream_inv s" and "payload_size h pl = Inr sz" and "sz \<le> m_Length s"
    and "pkt = \<lparr>p_Header = Some h, p_RawData = raw, p_RawDataLength = rawlen, p_Payload = pl\<rparr>"
  shows "\<exists>s' pkt' t. wseq (WriteHeader h) (WritePacket rand_bytes pkt) s = Inr s' \<and>
    m_DataPtr s' = m_DataPtr s + sz \<and>
    ParsePacket sha (datagram (slice (m_DataPtr s) sz (m_Buffer s'))) = Inr (pkt', t) \<and>
    p_Header pkt' = Some h \<and> p_Payload pkt' = pl"
proof -
  let ?bs = "header_enc h @ payload_enc rand_bytes h pl"
  have sz: "sz = length ?bs"
    using payload_enc_size [OF assms(2,3)] assms(5) length_header_enc [OF assms(1)] by simp
  have "writes (wseq (WriteHeader h) (WritePacket rand_bytes pkt)) ?bs"
    using assms(7) header_writes [OF assms(1)] WritePacket_enc [of sha h pkt, OF _ _ assms(3)] assms(2)
    by (intro writes_wseq) simp_all
  then have w: "wseq (WriteHeader h) (WritePacket rand_bytes pkt) s = Inr (emit ?bs s)"
    using assms(4,6) sz by (simp add: writesD)
  have "slice (m_DataPtr s) sz (m_Buffer (emit ?bs s)) = ?bs"
    unfolding sz using assms(4,6) sz by (intro emit_written) simp_all
  with ParsePacket_enc [OF assms(1-3) datagram_inv, of ?bs] w sz show ?thesis
    by (intro exI [of _ "emit ?bs s"]) fastforce
qed

text \<open>
  C16 (safety). On any well-formed stream the packet parser reads no memory outside the
  datagram, unless the packet is a SessionConfirmed whose identity has a key certificate too
  short for its key type; and when it returns a packet, the stream is the same buffer further on.
\<close>

theorem ParsePacket_safe:
  assumes inv: "stream_inv s"
  shows "(ParsePacket sha s = Inl MemoryError \<longrightarrow>
            (\<exists>h t i. ParseHeader s = Inr (h, t) \<and> h_PayloadType h = SessionConfirmed \<and>
               confirmed_identity sha t = Some i \<and> \<not> key_cert_ok i)) \<and>
         (\<forall>pkt s'. ParsePacket sha s = Inr (pkt, s') \<longrightarrow>
            (\<exists>n \<le> m_Length s. s' = advance_by n s))"
proof (cases "ParseHeader s")
  case (Inl e)
  with header_parser.no_memory_error [OF inv] show ?thesis by (auto simp: ParsePacket_def pbind_def)
next
  case (Inr ht)
  then obtain h t where h: "ParseHeader s = Inr (h, t)" by (cases ht) simp
  from header_parser.keeps [OF inv h] obtain n where n: "n \<le> m_Length s" "t = advance_by n s" by auto
  with inv have t: "stream_inv t" by simp
  have keeps: "\<exists>m \<le> m_Length t. s' = advance_by m t" if "ParsePayload sha h t = Inr (x, s')" for x s'
  proof (cases "h_PayloadType h = SessionConfirmed")
    case True
    with that show ?thesis
      by (auto simp: ParsePayload_def pbind_def preturn_def bind_result_eq_Inr
          dest!: ParseSessionConfirmed_keeps [OF t])
  qed (rule safe_parser.keeps [OF ParsePayload_safe t that])
  have "\<exists>i. confirmed_identity sha t = Some i \<and> \<not> key_cert_ok i" "h_PayloadType h = SessionConfirmed"
    if err: "ParsePayload sha h t = Inl MemoryError"
  proof -
    show c: "h_PayloadType h = SessionConfirmed"
      using safe_parser.no_memory_error [OF ParsePayload_safe t] err by blast
    then have "ParseSessionConfirmed sha h t = Inl MemoryError"
      using err by (auto simp: ParsePayload_def pbind_def preturn_def bind_result_eq_Inl)
    then show "\<exists>i. confirmed_identity sha t = Some i \<and> \<not> key_cert_ok i"
      by (rule ParseSessionConfirmed_memory [OF t])
  qed
  moreover have "\<exists>k \<le> m_Length s. s' = advance_by k s" if "ParsePayload sha h t = Inr (x, s')" for x s'
  proof -
    from keeps [OF that] n obtain m where "m \<le> m_Length s - n" "s' = advance_by (n + m) s" by auto
    with n(1) show ?thesis by (intro exI [of _ "n + m"]) simp
  qed
  ultimately show ?thesis
    using h by (auto simp: ParsePacket_def pbind_def pget_def preturn_def bind_result_eq_Inl
        bind_result_eq_Inr)
qed

definition sample_header :: "SSUPayloadType \<Rightarrow> SSUHeader" where
  "sample_header t = SSUHeader_new t (Some (replicate 16 0)) (Some (replicate 16 0)) 0"

definition sample_request :: SSUSessionRequestPacket where
  "sample_request = \<lparr>sr_DhX = Some (replicate 256 7), sr_IPAddress = Some [127, 0, 0, 1],
     sr_IPAddressSize = 4\<rparr>"

lemma sample_header_wf: "t \<noteq> Unknown \<Longrightarrow> header_wf (sample_header t)"
  by (simp add: sample_header_def header_wf_def SSUHeader_new_def)

theorem ParsePacket_safe_witness:
  "\<exists>pkt s' n. ParsePacket rev (datagram (header_enc (sample_header SessionDestroyed))) = Inr (pkt, s') \<and>
     n \<le> 37 \<and> s' = advance_by n (datagram (header_enc (sample_header SessionDestroyed)))"
proof -
  let ?s = "datagram (header_enc (sample_header SessionDestroyed))"
  have "payload_wf rev (sample_header SessionDestroyed) SessionDestroyedPacket"
    by (simp add: sample_header_def SSUHeader_new_def)
  from ParsePacket_enc [OF sample_header_wf this, of "\<lambda>n. replicate n 0" ?s]
  obtain pkt s' where ok: "ParsePacket rev ?s = Inr (pkt, s')" by auto
  have "m_Length ?s = 37"
    by (simp add: datagram_def header_enc_def sample_header_def SSUHeader_new_def)
  with ParsePacket_safe [of ?s rev] ok show ?thesis by auto
qed

theorem packet_roundtrip_witness:
  "\<exists>s' pkt' t. wseq (WriteHeader (sample_header SessionRequest))
      (WritePacket (\<lambda>n. replicate n 0)
        \<lparr>p_Header = Some (sample_header SessionRequest), p_RawData = [], p_RawDataLength = 0,
         p_Payload = SessionRequestPacket sample_request\<rparr>) (datagram (replicate 400 0)) = Inr s' \<and>
    m_DataPtr s' = 298 \<and>
    ParsePacket rev (datagram (slice 0 298 (m_Buffer s'))) = Inr (pkt', t) \<and>
    p_Header pkt' = Some (sample_header SessionRequest) \<and>
    p_Payload pkt' = SessionRequestPacket sample_request"
  using packet_roundtrip [of "sample_header SessionRequest" rev "SessionRequestPacket sample_request"
      "\<lambda>n. replicate n 0" "datagram (replicate 400 0)" 298 _ "[]" 0] sample_header_wf
  by (simp add: request_wf_def sample_request_def SessionRequest_GetSize_def SSUPacket_GetSize_def
      SSUHeader_GetSize_def sample_header_def SSUHeader_new_def datagram_def stream_inv_def
      del: replicate.simps)

text \<open>A SessionConfirmed whose key certificate is one byte long.\<close>

definition short_certificate_identity :: "(bytes \<Rightarrow> bytes) \<Rightarrow> IdentityEx" where
  "short_certificate_identity sha256 =
     (let std = \<lparr>public_key = replicate 256 0, signing_key = replicate 128 0,
                 certificate_type = CERTIFICATE_TYPE_KEY, certificate_length = native_to_big 1\<rparr>
      in \<lparr>m_StandardIdentity = std, m_IdentHash = sha256 (bytes_of_identity std @ [7]),
          m_Verifier = None, m_ExtendedLen = 1, m_ExtendedBuffer = Some [7]\<rparr>)"

definition short_certificate_datagram :: bytes where
  "short_certificate_datagram =
     header_enc (sample_header SessionConfirmed) @ [1] @ word_encode True (388 :: u16)
     @ replicate 384 0 @ [5, 0, 1] @ [7] @ replicate 4 0"

lemma short_certificate_facts:
  "identityex_wf sha (short_certificate_identity sha)"
  "full_bytes (short_certificate_identity sha) = replicate 384 0 @ [5, 0, 1] @ [7]"
  "GetFullLen (short_certificate_identity sha) = 388"
  "\<not> key_cert_ok (short_certificate_identity sha)"
  "m_Verifier (short_certificate_identity sha) = None"
proof -
  show wf: "identityex_wf sha (short_certificate_identity sha)"
    by (simp add: short_certificate_identity_def Let_def identityex_wf_def identity_wf_def full_bytes_def)
  have "replicate 384 (0 :: byte) = replicate 256 0 @ replicate 128 0"
    by (simp add: replicate_add [symmetric])
  then show "full_bytes (short_certificate_identity sha) = replicate 384 0 @ [5, 0, 1] @ [7]"
    by (simp add: short_certificate_identity_def Let_def full_bytes_def bytes_of_identity_def
        CERTIFICATE_TYPE_KEY_def native_to_big_def word_encode_decode)
      (simp add: word_encode_def be_encode_def)
  show "GetFullLen (short_certificate_identity sha) = 388"
    by (simp add: short_certificate_identity_def Let_def GetFullLen_def DEFAULT_IDENTITY_SIZE_def)
  show "\<not> key_cert_ok (short_certificate_identity sha)"
    by (simp add: short_certificate_identity_def Let_def key_cert_ok_def)
  show "m_Verifier (short_certificate_identity sha) = None"
    by (simp add: short_certificate_identity_def Let_def)
qed

text \<open>
  C23 (error). The exception of the safety property is reachable: there is a datagram of 432
  bytes, with a key certificate of one byte, on which the parser reads outside the identity's
  buffer, whatever the hash function.
\<close>

theorem ParsePacket_short_certificate:
  "ParsePacket sha (datagram short_certificate_datagram) = Inl MemoryError"
proof -
  let ?h = "sample_header SessionConfirmed"
  let ?i = "short_certificate_identity sha"
  let ?rest = "[1] @ word_encode True (388 :: u16) @ full_bytes ?i @ replicate 4 0"
  let ?s = "datagram short_certificate_datagram"
  let ?t = "advance_by (length (header_enc ?h)) ?s"
  have rem: "remaining ?s = header_enc ?h @ ?rest"
    by (simp add: short_certificate_datagram_def short_certificate_facts)
  have h: "ParseHeader ?s = Inr (?h, ?t)"
    by (rule header_codec.parse_enc [OF sample_header_wf datagram_inv rem]) simp
  have t: "stream_inv ?t" "remaining ?t = ?rest"
    using remaining_appendD [OF rem datagram_inv] unfolding remaining_advance_by rem by simp_all
  have len: "m_Length ?t = 395"
    using length_remaining [OF t(1)] unfolding t(2) by (simp add: short_certificate_facts)
  have "FromBuffer sha (full_bytes ?i) 388 IdentityEx_default = Inr (388, ?i\<lparr>m_Verifier := None\<rparr>)"
    using FromBuffer_full_bytes [OF short_certificate_facts(1), of _ sha "[]" 388 IdentityEx_default]
    by (simp add: short_certificate_facts(3))
  then have i: "FromBuffer sha (full_bytes ?i) 388 IdentityEx_default = Inr (388, ?i)"
    by (simp add: short_certificate_identity_def Let_def)
  have "IdentityEx_assign ?i = Inr (?i\<lparr>m_Verifier := None\<rparr>)"
    by (rule IdentityEx_assign_wf) (rule short_certificate_facts)
  moreover have "GetSignatureLen ?i = Inl MemoryError"
    by (intro GetSignatureLen_short short_certificate_facts)
  ultimately have "ParseSessionConfirmed sha ?h ?t = Inl MemoryError"
    using t len i length_full_bytes [OF short_certificate_facts(1) [of sha]]
    by (simp add: ParseSessionConfirmed_split confirmed_tail_def pbind_def pget_def plift_def
        SkipBytes_in_eq Read_eq ReadBytes_eq short_certificate_facts(3) del: advance_by_advance_by length_remaining)
  with h show ?thesis
    by (simp add: ParsePacket_def pbind_def pget_def ParsePayload_def sample_header_def SSUHeader_new_def)
qed

text \<open>
  A header whose type nibble is 9 or more is rejected as an invalid argument
  before any payload is looked at.
\<close>

theorem ParsePacket_unknown_type:
  assumes "stream_inv s" and "37 \<le> m_Length s" and "9 \<le> unat (remaining s ! 32) div 16"
  shows "ParsePacket sha s = Inl InvalidArgument"
proof -
  have "drop 32 (remaining s) = remaining s ! 32 # drop 33 (remaining s)"
    using assms(1,2) Cons_nth_drop_Suc [of 32 "remaining s"] by simp
  moreover have "int 8 < int (unat (drop_bit 4 (remaining s ! 32)))"
    using assms(3) by (subst unsigned_drop_bit_eq) (simp add: drop_bit_eq_div take_bit_eq_mod)
  then have "8 < uint (drop_bit 4 (remaining s ! 32))" by simp
  ultimately show ?thesis
    using assms(1,2)
    by (simp add: ParsePacket_def ParseHeader_def pbind_def pget_def ReadBytes_eq Read_eq plift_def
        SetPayloadType_def)
qed

theorem ParsePacket_unknown_type_witness:
  "ParsePacket rev (datagram (replicate 32 0 @ [0x9C] @ replicate 20 0)) = Inl InvalidArgument"
  by (rule ParsePacket_unknown_type) (simp_all add: datagram_def stream_inv_def remaining_ptr_def slice_def nth_append)

text \<open>
  C26 (functional). A RelayRequest is accepted only with an IPv4 address and a challenge that is not
  empty; the stored sizes are the lengths of the stored bytes.
\<close>

theorem ParseRelayRequest_accepts:
  assumes "stream_inv s" and "ParseRelayRequest s = Inr (p, s')"
  shows "rq_IPAddressSize p = 4 \<and> 0 < rq_ChallengeSize p \<and> rq_ChallengeSize p < 256 \<and>
    (\<exists>ip ch key. rq_IPAddress p = Some ip \<and> length ip = 4 \<and>
       rq_Challenge p = Some ch \<and> length ch = rq_ChallengeSize p \<and>
       rq_IntroKey p = Some key \<and> length key = 32)"
  using assms
  by (auto simp: ParseRelayRequest_def pbind_def preturn_def plift_def ReadBytes_eq Read_eq
      RelayRequest_SetIPAddress_def result_simps unat_pos_iff not_less split: if_splits)

definition relay_request_datagram :: bytes where
  "relay_request_datagram =
     word_encode True (9 :: u32) @ [4] @ [10, 0, 0, 1] @ word_encode True (80 :: u16)
     @ [2] @ [1, 2] @ replicate 32 3 @ word_encode True (5 :: u32)"

theorem ParseRelayRequest_accepts_witness:
  "\<exists>p s'. ParseRelayRequest (datagram relay_request_datagram) = Inr (p, s') \<and>
     rq_IPAddressSize p = 4 \<and> 0 < rq_ChallengeSize p"
proof -
  have len: "m_Length (datagram relay_request_datagram) = 50"
    by (simp add: datagram_def relay_request_datagram_def)
  have "\<exists>p s'. ParseRelayRequest (datagram relay_request_datagram) = Inr (p, s')"
    by (simp add: ParseRelayRequest_def pbind_def preturn_def plift_def ReadBytes_eq Read_eq len
        RelayRequest_SetIPAddress_def) (simp add: relay_request_datagram_def)
  then show ?thesis using ParseRelayRequest_accepts [OF datagram_inv] by metis
qed

text \<open>
  An identity made from keys keeps its verifier; one that was received creates it when it is
  needed. Both are written in the same way.
\<close>

lemma keys_identity_ok:
  assumes "identityex_wf sha i" and "signing_type i = type"
    and "GetFullLen i = DEFAULT_IDENTITY_SIZE + (if type = 0 then 0 else 4 + excess_of_type type)"
  shows "identityex_wf sha (i\<lparr>m_Verifier := None\<rparr>)" and "key_cert_ok (i\<lparr>m_Verifier := None\<rparr>)"
    and "signing_type (i\<lparr>m_Verifier := None\<rparr>) = type" and "GetFullLen (i\<lparr>m_Verifier := None\<rparr>) = GetFullLen i"
  using assms
  by (auto simp: identityex_wf_def full_bytes_def key_cert_ok_def signing_type_def GetFullLen_def unat_eq_0
      simp del: excess_of_type.simps split: option.splits if_splits)

lemma WriteSessionConfirmed_verifier:
  assumes "GetSignatureLen (cf_RemoteIdentity p) = Inr (n, j)"
    and "GetSignatureLen ((cf_RemoteIdentity p)\<lparr>m_Verifier := None\<rparr>) = Inr (n, k)"
  shows "WriteSessionConfirmed rand_bytes h (p\<lparr>cf_RemoteIdentity := (cf_RemoteIdentity p)\<lparr>m_Verifier := None\<rparr>\<rparr>) s =
    WriteSessionConfirmed rand_bytes h p s"
proof -
  have "GetFullLen (i\<lparr>m_Verifier := v\<rparr>) = GetFullLen i" "ToBuffer (i\<lparr>m_Verifier := v\<rparr>) = ToBuffer i" for i v
    by (cases i, simp only: GetFullLen_def ToBuffer_def fun_eq_iff IdentityEx.simps simp_thms)+
  then show ?thesis using assms by (cases h) (simp_all add: WriteSessionConfirmed_def)
qed

lemma keys_signature_len:
  assumes "m_Verifier i = Some (verifier_of_type type k)" and "type < 8"
  shows "GetSignatureLen i = Inr (signature_len_of_type type, i)"
  using u16_less_8 [OF assms(2)] assms(1) by (auto simp: GetSignatureLen_def ensure_verifier_def)

text \<open>
  C24 (bounds). A SessionConfirmed with an identity made from keys of any of the eight signature
  types, a signature of that type, and a header without options. The builder writes exactly
  as many bytes as \<open>GetSize\<close> says besides the header, and the packet is a multiple of the AES
  block. The padding it writes before the signature is never empty, so that the streams, which
  reject a skip of no bytes, accept it; and the parser skips just this padding: it reads the
  packet back and stops at the signature.
\<close>

theorem SessionConfirmed_padding:
  assumes "256 \<le> length pk" and "512 \<le> length sk" and "\<And>n. length (rand_bytes n) = n"
    and "type < 8"
    and "IdentityEx_of_keys sha rand_bytes uninit pk sk type = Inr i"
    and "p = \<lparr>cf_RemoteIdentity = i, cf_Signature = Some sig, cf_SignedOnTime = time\<rparr>"
    and "GetSignatureLen i = Inr (length sig, i)"
    and "\<not> h_Rekey h" and "\<not> h_Extended h" and "stream_inv s"
  shows "\<exists>n. SessionConfirmed_GetSize (Some h) p = Inr (SSUHeader_GetSize h + n) \<and>
    (SSUHeader_GetSize h + n) mod 16 = 0 \<and> GetFullLen i + 7 + length sig < n \<and>
    (n \<le> m_Length s \<longrightarrow>
      (\<exists>s' t. WriteSessionConfirmed rand_bytes (Some h) p s = Inr s' \<and> m_DataPtr s' = m_DataPtr s + n \<and>
        ParseSessionConfirmed sha h (datagram (slice (m_DataPtr s) n (m_Buffer s'))) =
          Inr (p\<lparr>cf_RemoteIdentity := i\<lparr>m_Verifier := None\<rparr>\<rparr>, t) \<and> m_Length t = length sig))"
proof -
  let ?i = "i\<lparr>m_Verifier := None\<rparr>" let ?p = "p\<lparr>cf_RemoteIdentity := ?i\<rparr>"
  from IdentityEx_of_keys_result [OF assms(1-4), of sha uninit] assms(5)
  have i: "identityex_wf sha i" "signing_type i = type"
      "GetFullLen i = DEFAULT_IDENTITY_SIZE + (if type = 0 then 0 else 4 + excess_of_type type)"
    and v: "m_Verifier i = Some (verifier_of_type type (take (key_len_of_type type) sk))"
    by (auto simp del: verifier_of_type.simps excess_of_type.simps)
  note ok = keys_identity_ok [OF i]
  have sig: "length sig = signature_len_of_type type"
    using keys_signature_len [OF v assms(4)] assms(7) by simp
  have hd: "SSUHeader_GetSize h = 37" using assms(8,9) by (simp add: SSUHeader_GetSize_def)
  then have pad: "0 < confirmed_pad h ?p" and small: "GetFullLen i < 65536"
    using u16_less_8 [OF assms(4)] i(3) ok(3,4)
    by (auto simp: confirmed_pad_def GetPaddingSize_def DEFAULT_IDENTITY_SIZE_def)
  have wf: "confirmed_wf sha h ?p"
    using ok pad small sig by (simp add: confirmed_wf_def assms(6) del: signature_len_of_type.simps)
  obtain k where "GetSignatureLen ?i = Inr (length sig, k)"
    using GetSignatureLen_ok [OF ok(2)] ok(3) sig by (auto simp del: signature_len_of_type.simps)
  then have same: "WriteSessionConfirmed rand_bytes (Some h) p s = WriteSessionConfirmed rand_bytes (Some h) ?p s"
    using WriteSessionConfirmed_verifier [of p] assms(6,7) by simp
  let ?bs = "confirmed_enc (rand_bytes (confirmed_pad h ?p)) ?p" let ?n = "length ?bs"
  have n: "?n = GetFullLen i + 7 + confirmed_pad h ?p + length sig"
    using length_confirmed_fields [OF wf] ok(4) assms(3,6) by (simp add: confirmed_enc_def)
  have size: "SessionConfirmed_GetSize (Some h) p = Inr (SSUHeader_GetSize h + ?n)"
    unfolding n using assms(6,7) sig ok(3,4)
    by (simp add: SessionConfirmed_GetSize_def SSUPacket_GetSize_def GetPaddedSize_def confirmed_pad_def algebra_simps
        del: signature_len_of_type.simps)
  then have mod: "(SSUHeader_GetSize h + ?n) mod 16 = 0"
    using assms(6,7) GetPaddedSize_mod by (auto simp: SessionConfirmed_GetSize_def) (metis GetPaddedSize_mod)
  have "\<exists>s' t. WriteSessionConfirmed rand_bytes (Some h) p s = Inr s' \<and> m_DataPtr s' = m_DataPtr s + ?n \<and>
      ParseSessionConfirmed sha h (datagram (slice (m_DataPtr s) ?n (m_Buffer s'))) = Inr (?p, t) \<and> m_Length t = length sig"
    if room: "?n \<le> m_Length s"
  proof -
    have "WriteSessionConfirmed rand_bytes (Some h) p s = Inr (emit ?bs s)"
      unfolding same by (rule writesD [OF WriteSessionConfirmed_enc [OF wf assms(3)] assms(10) room])
    moreover have "slice (m_DataPtr s) ?n (m_Buffer (emit ?bs s)) = ?bs" by (rule emit_written [OF assms(10) room])
    moreover have "ParseSessionConfirmed sha h (datagram ?bs) =
        Inr (?p, advance_by (length (confirmed_fields ?p) + confirmed_pad h ?p) (datagram ?bs))"
      by (rule ParseSessionConfirmed_enc [OF wf datagram_inv remaining_datagram assms(3)])
    moreover have "m_Length (datagram ?bs) = ?n" by (simp add: datagram_def)
    ultimately show ?thesis using n length_confirmed_fields [OF wf] ok(4) by (auto simp: assms(6))
  qed
  then show ?thesis using size mod n pad by (intro exI [of _ ?n]) simp
qed

theorem SessionConfirmed_padding_witness:
  "\<exists>i p t. IdentityEx_of_keys rev (\<lambda>n. replicate n 0) [] (replicate 256 1) (replicate 512 2) 7 = Inr i \<and>
     SessionConfirmed_GetSize (Some (sample_header SessionConfirmed)) p = Inr 512 \<and>
     (\<exists>s'. WriteSessionConfirmed (\<lambda>n. replicate n 0) (Some (sample_header SessionConfirmed)) p (datagram (replicate 600 0)) = Inr s' \<and>
       ParseSessionConfirmed rev (sample_header SessionConfirmed) (datagram (slice 0 475 (m_Buffer s'))) =
         Inr (p\<lparr>cf_RemoteIdentity := i\<lparr>m_Verifier := None\<rparr>\<rparr>, t) \<and> m_Length t = 64)"
proof -
  let ?sk = "replicate 512 (2 :: byte)" let ?h = "sample_header SessionConfirmed" let ?sig = "replicate 64 (3 :: byte)"
  let ?s = "datagram (replicate 600 0)"
  obtain i where i: "IdentityEx_of_keys rev (\<lambda>n. replicate n 0) [] (replicate 256 1) ?sk 7 = Inr i"
      "GetFullLen i = DEFAULT_IDENTITY_SIZE + (if (7 :: u16) = 0 then 0 else 4 + excess_of_type 7)"
      "m_Verifier i = Some (verifier_of_type 7 (take (key_len_of_type 7) ?sk))"
    using IdentityEx_of_keys_result [of "replicate 256 1" ?sk "\<lambda>n. replicate n 0" 7 rev "[]"] by auto
  let ?p = "\<lparr>cf_RemoteIdentity = i, cf_Signature = Some ?sig, cf_SignedOnTime = 0\<rparr>"
  have l: "(256 :: nat) \<le> length (replicate 256 (1 :: byte))" "(512 :: nat) \<le> length ?sk" "(7 :: u16) < 8" by simp_all
  have sig: "GetSignatureLen i = Inr (length ?sig, i)"
    using keys_signature_len [OF i(3) l(3)] by (simp del: replicate.simps)
  have h: "\<not> h_Rekey ?h" "\<not> h_Extended ?h" by (simp_all add: sample_header_def SSUHeader_new_def)
  have d: "m_Length ?s = 600" "m_DataPtr ?s = 0" by (simp_all add: datagram_def del: replicate.simps)
  have hd: "SSUHeader_GetSize ?h = 37" using h by (simp add: SSUHeader_GetSize_def)
  have len: "GetFullLen i = 391" using i(2) by (simp add: DEFAULT_IDENTITY_SIZE_def)
  obtain n where n: "SessionConfirmed_GetSize (Some ?h) ?p = Inr (37 + n)" and
    w: "n \<le> 600 \<longrightarrow> (\<exists>s' t. WriteSessionConfirmed (\<lambda>n. replicate n 0) (Some ?h) ?p ?s = Inr s' \<and> m_DataPtr s' = n \<and>
        ParseSessionConfirmed rev ?h (datagram (slice 0 n (m_Buffer s'))) = Inr (?p\<lparr>cf_RemoteIdentity := i\<lparr>m_Verifier := None\<rparr>\<rparr>, t) \<and>
        m_Length t = length ?sig)"
    using SessionConfirmed_padding [OF l(1,2) length_replicate l(3) i(1) refl sig h datagram_inv [of "replicate 600 0"], of 0]
    unfolding d hd add_0 by blast
  have "SessionConfirmed_GetSize (Some ?h) ?p = Inr 512"
    using sig hd len by (simp add: SessionConfirmed_GetSize_def SSUPacket_GetSize_def GetPaddedSize_def GetPaddingSize_def del: replicate.simps)
  moreover from this n have "n = 475" by simp
  ultimately show ?thesis using w i(1) by (auto simp del: replicate.simps)
qed

lemma be_decode_Cons_0: "be_decode (0 # bs) = be_decode bs"
  by (simp add: be_decode_def)

lemma unat_word_decode_u32:
  assumes "length bs \<le> 4"
  shows "unat (word_decode True bs :: u32) = be_decode bs"
proof -
  have "be_decode bs < 256 ^ length bs" by (rule be_decode_less)
  also have "\<dots> \<le> 256 ^ 4" using assms by (intro power_increasing) simp_all
  finally show ?thesis by (simp add: word_decode_def unat_of_nat take_bit_eq_mod)
qed

lemma fragment_number_less:
  assumes "length bs = 3"
  shows "unat (ucast (drop_bit 17 (word_decode True (0 # bs) :: u32)) :: u8) < 128"
proof -
  have less: "be_decode bs < 2 ^ 24" using be_decode_less [of bs] assms by simp
  then have "be_decode bs div 131072 < 128" by simp
  moreover have "unat (drop_bit 17 (word_decode True (0 # bs) :: u32)) = be_decode bs div 131072"
    using unat_word_decode_u32 [of "0 # bs"] assms less
    by (subst unsigned_drop_bit_eq) (simp add: drop_bit_eq_div take_bit_eq_mod be_decode_Cons_0)
  ultimately show ?thesis by (simp add: unsigned_ucast_eq take_bit_eq_mod)
qed

lemma and_mask_less: "unat ((x :: u32) AND 0x3FFF) < 16384"
proof -
  have "x AND 0x3FFF = take_bit 14 x" by (simp add: take_bit_eq_mask mask_eq_exp_minus_1)
  then show ?thesis
    using take_bit_nat_less_exp [of 14 "unat x"] by (simp add: unsigned_take_bit_eq)
qed

lemma low_byte_of_id:
  assumes "4 \<le> length xs"
  shows "(ucast (word_decode True (take 4 xs) :: u32) :: u8) = xs ! 3"
proof -
  have "take 4 xs = take 3 xs @ [xs ! 3]"
    using assms take_Suc_conv_app_nth [of 3 xs] by simp
  moreover have "(ucast (word_decode True (bs @ [b]) :: u32) :: u8) = b" for bs b
    by (simp add: word_unat_eq_iff unsigned_ucast_eq word_decode_def unat_of_nat take_bit_eq_mod
        mod_mod_cancel del: of_nat_add of_nat_mult)
  ultimately show ?thesis by simp
qed

text \<open>
  C25 (bounds). What a parsed fragment can hold: the number has 7 bits, the size 14 bits and
  is not zero, the data has that size; and of the 32-bit message identifier on the wire only
  the low byte is kept.
\<close>

theorem ParseFragment_bounds:
  assumes "stream_inv s" and "ParseFragment s = Inr (f, s')"
  shows "unat (fr_Number f) < 128 \<and> 0 < fr_Size f \<and> fr_Size f < 16384 \<and>
    (\<exists>data. fr_Data f = Some data \<and> length data = fr_Size f) \<and>
    fr_MessageID f = remaining s ! 3"
  using assms
  by (auto simp: ParseFragment_def pbind_def preturn_def plift_def ReadBytes_eq Read_eq pget_def
      Read_buf_def mem_read_def slice_def SSUFragment_SetMessageID_def Let_def result_simps
      fragment_number_less and_mask_less low_byte_of_id not_less
      split: if_splits)

definition fragment_datagram :: bytes where
  "fragment_datagram = word_encode True (0x01020304 :: u32) @ [0x03, 0x00, 0x02] @ [8, 9]"

theorem ParseFragment_bounds_witness:
  "\<exists>f s'. ParseFragment (datagram fragment_datagram) = Inr (f, s') \<and>
     fr_MessageID f = 4 \<and> unat (fr_Number f) < 128 \<and> fr_Size f < 16384"
proof -
  have len: "m_Length (datagram fragment_datagram) = 9" "Size (datagram fragment_datagram) = 9"
    by (simp_all add: datagram_def fragment_datagram_def Size_def)
  have id: "fragment_datagram ! 3 = 4"
    by (simp add: fragment_datagram_def word_encode_def be_encode_def)
  have "\<exists>f s'. ParseFragment (datagram fragment_datagram) = Inr (f, s')"
    by (simp add: ParseFragment_def pbind_def preturn_def plift_def ReadBytes_eq Read_eq pget_def len
        Read_buf_def mem_read_def slice_def Let_def SSUFragment_SetMessageID_def Size_def)
      (simp add: fragment_datagram_def word_decode_def be_decode_def)
  then obtain f s' where f: "ParseFragment (datagram fragment_datagram) = Inr (f, s')" by blast
  with ParseFragment_bounds [OF datagram_inv f] id show ?thesis by simp
qed

text \<open>
  The loop over ACK bitfields appends the bytes of the stream up to and
  including the first one without the has-next flag.
\<close>

theorem ParseACKBitfields_spec:
  assumes "stream_inv s" and "ParseACKBitfields p s = Inr (p', s')"
  shows "\<exists>bs. bs \<noteq> [] \<and> dp_ACKBitfields p' = dp_ACKBitfields p @ bs \<and>
    bs = take (length bs) (remaining s) \<and> s' = advance_by (length bs) s \<and>
    (\<forall>b \<in> set (butlast bs). has_flag b DataACKBitFieldHasNext) \<and>
    \<not> has_flag (last bs) DataACKBitFieldHasNext"
  using assms
proof (induction p s arbitrary: p' s' rule: ParseACKBitfields.induct)
  case (1 p s)
  from 1(3) obtain b t where t: "Read_u8 s = Inr (b, t)"
    by (subst (asm) ParseACKBitfields.simps) (auto split: sum.splits)
  then have n: "1 \<le> m_Length s" "t = advance_by 1 s" "[b] = take 1 (remaining s)"
    using 1(2) by (auto simp: Read_eq take_Suc_conv_app_nth Suc_le_eq split: if_splits)
  then obtain rs where b: "remaining s = b # rs" "remaining t = rs"
    by (cases "remaining s") auto
  show ?case
  proof (cases "has_flag b DataACKBitFieldHasNext")
    case True
    with 1(3) t have rec: "ParseACKBitfields (AddACKBitfield b p) t = Inr (p', s')"
      by (subst (asm) ParseACKBitfields.simps) simp
    have "stream_inv t" using n(1,2) 1(2) by simp
    from 1(1) [OF t refl True this rec] obtain bs where
      bs: "bs \<noteq> []" "dp_ACKBitfields p' = dp_ACKBitfields (AddACKBitfield b p) @ bs"
        "bs = take (length bs) (remaining t)" "s' = advance_by (length bs) t"
        "\<forall>c \<in> set (butlast bs). has_flag c DataACKBitFieldHasNext"
        "\<not> has_flag (last bs) DataACKBitFieldHasNext" by blast
    have "b # bs = take (length (b # bs)) (remaining s)"
      by (metis b bs(3) length_Cons take_Suc_Cons)
    moreover have "s' = advance_by (length (b # bs)) s" using bs(4) n(2) by simp
    moreover have "dp_ACKBitfields p' = dp_ACKBitfields p @ b # bs"
      using bs(2) by (simp add: AddACKBitfield_def)
    moreover have "\<forall>c \<in> set (butlast (b # bs)). has_flag c DataACKBitFieldHasNext"
      "\<not> has_flag (last (b # bs)) DataACKBitFieldHasNext"
      using bs(1,5,6) True by simp_all
    ultimately show ?thesis by (intro exI [of _ "b # bs"] conjI) (rule list.distinct(2))
  next
    case False
    with 1(3) t have "p' = AddACKBitfield b p" "s' = t"
      by (subst (asm) ParseACKBitfields.simps, simp)+
    with False n(2) b(1) show ?thesis
      by (intro exI [of _ "[b]"]) (simp add: AddACKBitfield_def)
  qed
qed

theorem ParseACKBitfields_spec_witness:
  "\<exists>bs. bs \<noteq> [] \<and> bs = take (length bs) [0x81, 0x01, 0x7F] \<and>
     \<not> has_flag (last bs) DataACKBitFieldHasNext"
proof -
  let ?p = "\<lparr>dp_ExplicitACKs = [], dp_ACKs = [], dp_ACKBitfields = [], dp_Fragments = []\<rparr>"
  have "\<exists>q t. ParseACKBitfields ?p (datagram [0x81, 0x01, 0x7F]) = Inr (q, t)"
    by (simp add: ParseACKBitfields.simps datagram_def Read_def pbind_def ReadBytes_def Advance_def
        plift_def Read_buf_def mem_read_def slice_def throw_if_def has_flag_def)
  with ParseACKBitfields_spec [OF datagram_inv [of "[0x81, 0x01, 0x7F]"]] show ?thesis
    by (metis remaining_datagram)
qed
end
