(* ===== verification/SSU_Crypto.thy ===== *)
theory SSU_Crypto
  imports AES_Modes SSU_Packet
begin

text \<open>
  The cryptographic envelope of SSU datagrams, \<open>core/router/transports/ssu/session.cc\<close>:
  deriving the session and MAC keys from the Diffie-Hellman secret, writing the header and
  encrypting a packet in its buffer, checking the digest of a received packet and decrypting
  it. A packet occupies the first \<open>len\<close> bytes of a buffer; the digest is computed over the
  encrypted part followed by the IV and the length, which are written behind the packet, so
  the buffer must have 18 bytes more than the packet.
\<close>

section \<open>Key derivation\<close>

record CryptoEnv =
  c_UsingAESNI :: bool
  c_encrypt :: block_fun
  c_decrypt :: block_fun
  c_md5 :: "bytes \<Rightarrow> bytes"
  c_sha256 :: "bytes \<Rightarrow> bytes"

text \<open>The loop that looks for the first byte that is not zero; \<open>None\<close> is its early return.\<close>

function first_non_zero :: "bytes \<Rightarrow> nat \<Rightarrow> nat option result" where
  "first_non_zero shared_key non_zero =
     bind_result (peek non_zero shared_key) (\<lambda>b.
       if b \<noteq> 0 then Inr (Some non_zero)
       else if 32 < non_zero + 1 then Inr None
       else first_non_zero shared_key (non_zero + 1))"
  by pat_completeness auto
termination
  by (relation "measure (\<lambda>(k, p). 33 - p)") auto

declare first_non_zero.simps [simp del]

text \<open>
  \<open>CreateAESandMACKey\<close> from the agreed secret of 256 bytes (\<open>None\<close> when the agreement fails):
  the session key and the MAC key, or \<open>None\<close> when it returns \<open>false\<close>.
\<close>

definition CreateAESandMACKey :: "CryptoEnv \<Rightarrow> bytes option \<Rightarrow> (bytes \<times> bytes) option result" where
  "CreateAESandMACKey env agreed =
     (case agreed of
        None \<Rightarrow> Inr None
      | Some shared_key \<Rightarrow>
          bind_result (peek 0 shared_key) (\<lambda>b.
          if b AND 0x80 \<noteq> 0 then
            bind_result (mem_read 0 31 shared_key) (\<lambda>s.
            bind_result (mem_read 31 32 shared_key) (\<lambda>mac. Inr (Some (0 # s, mac))))
          else if b \<noteq> 0 then
            bind_result (mem_read 0 32 shared_key) (\<lambda>s.
            bind_result (mem_read 32 32 shared_key) (\<lambda>mac. Inr (Some (s, mac))))
          else
            bind_result (first_non_zero shared_key 1) (\<lambda>found.
            case found of
              None \<Rightarrow> Inr None
            | Some non_zero \<Rightarrow>
                bind_result (mem_read non_zero 32 shared_key) (\<lambda>s.
                bind_result (mem_read non_zero (64 - non_zero) shared_key) (\<lambda>bs.
                  Inr (Some (s, c_sha256 env bs)))))))"

section \<open>Sealing and opening a packet\<close>

text \<open>
  The steps after the choice of the cipher, common to both overloads: \<open>enc\<close> is the CBC state
  with key and IV set.
\<close>

definition seal_packet ::
    "CryptoEnv \<Rightarrow> bytes \<Rightarrow> u32 \<Rightarrow> u8 \<Rightarrow> bytes \<Rightarrow> CBCEncryption \<Rightarrow> bytes \<Rightarrow> nat \<Rightarrow> (CBCEncryption \<times> bytes) result" where
  "seal_packet env iv time flag mac_key enc buf len =
     bind_result (mem_write 16 iv buf) (\<lambda>b1.
     bind_result (mem_write 32 [flag] b1) (\<lambda>b2.
     bind_result (mem_write 33 (word_encode True time) b2) (\<lambda>b3.
     let encrypted_len = len - 32 in
     bind_result (CBC_Encrypt (c_UsingAESNI env) (c_encrypt env) 32 encrypted_len 32 enc b3) (\<lambda>(enc', b4).
     bind_result (mem_read 16 (SSUSize_value IV) b4) (\<lambda>iv'.
     bind_result (mem_write len iv' b4) (\<lambda>b5.
     bind_result (mem_write (len + SSUSize_value IV) (word_encode True (word_of_nat encrypted_len :: u16)) b5) (\<lambda>b6.
     bind_result (mem_read 32 (encrypted_len + SSUSize_value BufferMargin) b6) (\<lambda>covered.
     bind_result (HMACMD5Digest (c_md5 env) covered mac_key) (\<lambda>digest.
     bind_result (mem_write 0 digest b6) (\<lambda>b7. Inr (enc', b7)))))))))))"

text \<open>\<open>iv\<close> are the random bytes drawn, \<open>time\<close> the clock in seconds.\<close>

definition FillHeaderAndEncrypt ::
    "CryptoEnv \<Rightarrow> bytes \<Rightarrow> u32 \<Rightarrow> u8 \<Rightarrow> bytes \<Rightarrow> nat \<Rightarrow> bytes \<Rightarrow> bytes \<Rightarrow> u8 \<Rightarrow> bytes result" where
  "FillHeaderAndEncrypt env iv time payload_type buf len aes_key mac_key flag =
     (if len < SSUSize_value HeaderMin then Inr buf
      else bind_result
        (seal_packet env iv time (flag OR push_bit 4 payload_type) mac_key
          (CBCEncryption_new aes_key iv) buf len) (\<lambda>(_, b). Inr b))"

definition FillHeaderAndEncrypt_session ::
    "CryptoEnv \<Rightarrow> bytes \<Rightarrow> u32 \<Rightarrow> bytes \<Rightarrow> u8 \<Rightarrow> bytes \<Rightarrow> nat \<Rightarrow> CBCEncryption \<Rightarrow> (CBCEncryption \<times> bytes) result" where
  "FillHeaderAndEncrypt_session env iv time mac_key payload_type buf len enc =
     (if len < SSUSize_value HeaderMin then Inr (enc, buf)
      else seal_packet env iv time (push_bit 4 payload_type) mac_key (CBCEncryption_SetIV iv enc) buf len)"

definition Decrypt ::
    "CryptoEnv \<Rightarrow> bytes \<Rightarrow> nat \<Rightarrow> bytes \<Rightarrow> bool \<Rightarrow> CBCDecryption \<Rightarrow> (CBCDecryption \<times> bytes) result" where
  "Decrypt env buf len aes_key is_session dec =
     throw_if (len < SSUSize_value HeaderMin) LengthError
       (bind_result (mem_read 16 16 buf) (\<lambda>iv.
        let encrypted_len = len - 32 in
        if \<not> is_session then
          bind_result (CBC_Decrypt (c_UsingAESNI env) (c_decrypt env) 32 encrypted_len 32
            (CBCDecryption_new aes_key iv) buf) (\<lambda>(_, b). Inr (dec, b))
        else CBC_Decrypt (c_UsingAESNI env) (c_decrypt env) 32 encrypted_len 32
            (CBCDecryption_SetIV iv dec) buf))"

definition Validate :: "CryptoEnv \<Rightarrow> bytes \<Rightarrow> nat \<Rightarrow> bytes \<Rightarrow> (bool \<times> bytes) result" where
  "Validate env buf len mac_key =
     (if len < SSUSize_value HeaderMin then Inr (False, buf)
      else
        let encrypted_len = len - 32 in
        bind_result (mem_read 16 (SSUSize_value IV) buf) (\<lambda>iv.
        bind_result (mem_write len iv buf) (\<lambda>b1.
        bind_result (mem_write (len + SSUSize_value IV) (word_encode True (word_of_nat encrypted_len :: u16)) b1) (\<lambda>b2.
        bind_result (mem_read 32 (encrypted_len + SSUSize_value BufferMargin) b2) (\<lambda>covered.
        bind_result (HMACMD5Digest (c_md5 env) covered mac_key) (\<lambda>digest.
        bind_result (mem_read 0 16 b2) (\<lambda>mac. Inr (mac = digest, b2))))))))"

section \<open>The layout of a sealed packet\<close>

lemma mem_write_at:
  "length xs = p \<Longrightarrow> length ys = length zs \<Longrightarrow> mem_write p ys (xs @ zs @ r) = Inr (xs @ ys @ r)"
  by (auto simp: mem_write_def poke_def)

lemma mem_read_at: "length xs = p \<Longrightarrow> length ys = n \<Longrightarrow> mem_read p n (xs @ ys @ r) = Inr ys"
  by (auto simp: mem_read_def slice_def)

definition crypto_ok :: "CryptoEnv \<Rightarrow> bool" where
  "crypto_ok env \<longleftrightarrow> block_cipher (c_encrypt env) (c_decrypt env) \<and> (\<forall>b. length (c_md5 env b) = 16)"

text \<open>The encrypted part: whole blocks in CBC, a shorter rest as it is.\<close>

definition cipher_text :: "CryptoEnv \<Rightarrow> bytes \<Rightarrow> bytes \<Rightarrow> bytes \<Rightarrow> bytes" where
  "cipher_text env key iv plain =
     (let n = length plain div 16
      in cbc_enc (c_encrypt env) key iv n (take (16 * n) plain) @ drop (16 * n) plain)"

definition trailer :: "bytes \<Rightarrow> nat \<Rightarrow> bytes" where
  "trailer iv encrypted_len = iv @ word_encode True (word_of_nat encrypted_len :: u16)"

lemma crypto_okD:
  assumes "crypto_ok env"
  shows "block_cipher (c_encrypt env) (c_decrypt env)" and "length (c_md5 env b) = 16"
    and "length (keyed_md5 (c_md5 env) key msg) = 16"
  using assms by (simp_all add: crypto_ok_def keyed_md5_def)

lemma length_trailer [simp]: "length (trailer iv n) = length iv + 2"
  by (simp add: trailer_def)

lemma length_cipher_text:
  assumes "crypto_ok env" and "length iv = 16"
  shows "length (cipher_text env key iv plain) = length plain"
proof -
  have "16 * (length plain div 16) \<le> length plain" by simp
  then show ?thesis
    using assms length_cbc_enc [OF crypto_okD(1) [OF assms(1)], of iv "take (16 * (length plain div 16)) plain"]
    by (simp add: cipher_text_def Let_def)
qed

text \<open>CBC in place on the part of a buffer between a prefix and a rest.\<close>

lemma CBC_Encrypt_inplace:
  assumes "crypto_ok env" and "length (m_LastBlock c) = 16" and "length pre = p" and "length plain = len"
  shows "\<exists>c'. CBC_Encrypt b (c_encrypt env) p len p c (pre @ plain @ rest)
    = Inr (c', pre @ cipher_text env (m_EncryptionKey c) (m_LastBlock c) plain @ rest)"
proof -
  let ?n = "len div 16"
  have n: "16 * ?n \<le> len" by simp
  have "slice p (16 * ?n) (pre @ plain @ rest) = take (16 * ?n) plain"
    using n assms(3,4) by (simp add: slice_def)
  moreover have "poke p ys (pre @ plain @ rest) = pre @ (ys @ drop (16 * ?n) plain) @ rest"
    if "length ys = 16 * ?n" for ys
    using n assms(3,4) that by (simp add: poke_def)
  moreover have "length (cbc_enc (c_encrypt env) (m_EncryptionKey c) (m_LastBlock c) ?n (take (16 * ?n) plain)) = 16 * ?n"
    using n assms by (intro length_cbc_enc [OF crypto_okD(1)]) simp_all
  ultimately show ?thesis
    using CBC_Encrypt_spec [OF crypto_okD(1) [OF assms(1)] assms(2), of p len "pre @ plain @ rest" p b] assms(3,4)
    by (simp add: cipher_text_def Let_def)
qed

lemma CBC_Decrypt_inplace:
  assumes "crypto_ok env" and "length iv = 16" and "length pre = p" and "length plain = len"
    and "m_IV d = iv"
  shows "\<exists>d'. CBC_Decrypt b (c_decrypt env) p len p d
      (pre @ cipher_text env (m_DecryptionKey d) iv plain @ rest) = Inr (d', pre @ plain @ rest)"
proof -
  let ?n = "len div 16" let ?k = "m_DecryptionKey d"
  let ?e = "cbc_enc (c_encrypt env) ?k iv ?n (take (16 * ?n) plain)"
  have n: "16 * ?n \<le> len" by simp
  have e: "length ?e = 16 * ?n"
    using n assms by (intro length_cbc_enc [OF crypto_okD(1)]) simp_all
  have ct: "cipher_text env ?k iv plain = ?e @ drop (16 * ?n) plain"
    using assms(4) by (simp add: cipher_text_def Let_def)
  have "slice p (16 * ?n) (pre @ (?e @ drop (16 * ?n) plain) @ rest) = ?e"
    using e assms(3) by (simp add: slice_def)
  moreover have "cbc_dec (c_decrypt env) ?k iv ?n ?e = take (16 * ?n) plain"
    using n assms by (intro cbc_dec_enc [OF crypto_okD(1)]) simp_all
  moreover have "poke p (take (16 * ?n) plain) (pre @ (?e @ drop (16 * ?n) plain) @ rest) = pre @ plain @ rest"
    using n e assms(3,4) by (simp add: poke_def)
  ultimately show ?thesis
    using CBC_Decrypt_spec [OF crypto_okD(1) [OF assms(1)], of d p len "pre @ (?e @ drop (16 * ?n) plain) @ rest" p b]
      n e assms(2-5) unfolding ct by simp
qed

lemma seal_packet_eq:
  assumes env: "crypto_ok env" and key: "length mac_key = 32" and iv: "length iv = 16" "m_LastBlock enc = iv"
    and parts: "length a = 16" "length b = 16" "length c = 1" "length d = 4" "length t = 16" "length u = 2"
    and len: "len = 37 + length body" "len \<le> 1998"
  shows "let ct = cipher_text env (m_EncryptionKey enc) iv ([flag] @ word_encode True time @ body);
             covered = ct @ trailer iv (len - 32)
         in \<exists>enc'. seal_packet env iv time flag mac_key enc (a @ b @ c @ d @ body @ t @ u @ rest) len
           = Inr (enc', keyed_md5 (c_md5 env) mac_key covered @ iv @ covered @ rest)"
proof -
  let ?plain = "[flag] @ word_encode True time @ body"
  let ?ct = "cipher_text env (m_EncryptionKey enc) iv ?plain"
  let ?cov = "?ct @ trailer iv (len - 32)"
  have lct: "length ?ct = len - 32" using length_cipher_text [OF env iv(1)] len by simp
  have w1: "mem_write 16 iv (a @ b @ c @ d @ body @ t @ u @ rest) = Inr (a @ iv @ c @ d @ body @ t @ u @ rest)"
    using mem_write_at [of a 16 iv b] parts iv by simp
  have w2: "mem_write 32 [flag] (a @ iv @ c @ d @ body @ t @ u @ rest) = Inr (a @ iv @ [flag] @ d @ body @ t @ u @ rest)"
    using mem_write_at [of "a @ iv" 32 "[flag]" c] parts iv by simp
  have w3: "mem_write 33 (word_encode True time) (a @ iv @ [flag] @ d @ body @ t @ u @ rest)
      = Inr ((a @ iv) @ ?plain @ t @ u @ rest)"
    using mem_write_at [of "a @ iv @ [flag]" 33 "word_encode True time" d] parts iv by simp
  obtain enc' where enc: "CBC_Encrypt (c_UsingAESNI env) (c_encrypt env) 32 (len - 32) 32 enc
      ((a @ iv) @ ?plain @ t @ u @ rest) = Inr (enc', (a @ iv) @ ?ct @ t @ u @ rest)"
    using CBC_Encrypt_inplace [OF env, of enc "a @ iv" 32 ?plain "len - 32" "c_UsingAESNI env" "t @ u @ rest"]
      parts iv len by auto
  have r1: "mem_read 16 16 ((a @ iv) @ ?ct @ t @ u @ rest) = Inr iv"
    using mem_read_at [of a 16 iv 16] parts iv by simp
  have w4: "mem_write len iv ((a @ iv) @ ?ct @ t @ u @ rest) = Inr ((a @ iv) @ ?ct @ iv @ u @ rest)"
    using mem_write_at [of "(a @ iv) @ ?ct" len iv t "u @ rest"] parts iv lct len by simp
  have w5: "mem_write (len + 16) (word_encode True (word_of_nat (len - 32) :: u16)) ((a @ iv) @ ?ct @ iv @ u @ rest)
      = Inr ((a @ iv) @ ?cov @ rest)"
    using mem_write_at [of "(a @ iv) @ ?ct @ iv" "len + 16" "word_encode True (word_of_nat (len - 32) :: u16)" u rest]
      parts iv lct len by (simp add: trailer_def)
  have r2: "mem_read 32 (len - 32 + 18) ((a @ iv) @ ?cov @ rest) = Inr ?cov"
    using mem_read_at [of "a @ iv" 32 ?cov] parts iv lct len by simp
  have h: "HMACMD5Digest (c_md5 env) ?cov mac_key = Inr (keyed_md5 (c_md5 env) mac_key ?cov)"
    using len lct iv by (intro HMACMD5Digest_fits key crypto_okD(2) [OF env]) simp
  have w6: "mem_write 0 (keyed_md5 (c_md5 env) mac_key ?cov) ((a @ iv) @ ?cov @ rest)
      = Inr (keyed_md5 (c_md5 env) mac_key ?cov @ iv @ ?cov @ rest)"
    using mem_write_at [of "[]" 0 "keyed_md5 (c_md5 env) mac_key ?cov" a] parts crypto_okD(3) [OF env] by simp
  show ?thesis
    unfolding seal_packet_def Let_def w1 w2 w3 bind_result_Inr enc prod.case SSUSize_value.simps r1 w4 w5
    using r2 h w6 by (simp add: trailer_def)
qed


lemma buffer_parts:
  assumes "37 \<le> len" and "len + 18 \<le> length buf"
  shows "\<exists>a b c d t u rest. buf = a @ b @ c @ d @ slice 37 (len - 37) buf @ t @ u @ rest
    \<and> length a = 16 \<and> length b = 16 \<and> length c = 1 \<and> length d = 4 \<and> length t = 16 \<and> length u = 2"
proof -
  have "buf = slice 0 16 buf @ slice 16 16 buf @ slice 32 1 buf @ slice 33 4 buf @ slice 37 (len - 37) buf
      @ slice len 16 buf @ slice (len + 16) 2 buf @ drop (len + 18) buf"
  proof -
    have *: "drop p buf = slice p n buf @ drop (p + n) buf" for p n
      by (simp add: slice_def add.commute flip: drop_drop)
    show ?thesis
      using * [of 0 16] * [of 16 16] * [of 32 1] * [of 33 4] * [of 37 "len - 37"] * [of len 16]
        * [of "len + 16" 2] assms(1) by (simp add: add.commute)
  qed
  moreover have "length (slice 0 16 buf) = 16" "length (slice 16 16 buf) = 16" "length (slice 32 1 buf) = 1"
    "length (slice 33 4 buf) = 4" "length (slice len 16 buf) = 16" "length (slice (len + 16) 2 buf) = 2"
    using assms by simp_all
  ultimately show ?thesis by blast
qed

text \<open>What the receiver does with a packet that has the layout of a sealed one.\<close>

lemma Validate_sealed:
  assumes env: "crypto_ok env" and key: "length mac_key = 32" and iv: "length iv = 16" and mac: "length mac = 16"
    and len: "len = 32 + length ct" "37 \<le> len" "len \<le> 1998" and margin: "length t = 16" "length u = 2"
  shows "Validate env (mac @ iv @ ct @ t @ u @ rest) len mac_key
    = Inr (mac = keyed_md5 (c_md5 env) mac_key (ct @ trailer iv (len - 32)),
           mac @ iv @ ct @ trailer iv (len - 32) @ rest)"
proof -
  let ?cov = "ct @ trailer iv (len - 32)"
  have r1: "mem_read 16 16 (mac @ iv @ ct @ t @ u @ rest) = Inr iv"
    using mem_read_at [of mac 16 iv 16] mac iv by simp
  have w1: "mem_write len iv (mac @ iv @ ct @ t @ u @ rest) = Inr (mac @ iv @ ct @ iv @ u @ rest)"
    using mem_write_at [of "mac @ iv @ ct" len iv t "u @ rest"] mac iv len margin by simp
  have w2: "mem_write (len + 16) (word_encode True (word_of_nat (len - 32) :: u16)) (mac @ iv @ ct @ iv @ u @ rest)
      = Inr (mac @ iv @ ?cov @ rest)"
    using mem_write_at [of "mac @ iv @ ct @ iv" "len + 16" "word_encode True (word_of_nat (len - 32) :: u16)" u rest]
      mac iv len margin by (simp add: trailer_def)
  have r2: "mem_read 32 (len - 32 + 18) (mac @ iv @ ?cov @ rest) = Inr ?cov"
    using mem_read_at [of "mac @ iv" 32 ?cov] mac iv len by simp
  have h: "HMACMD5Digest (c_md5 env) ?cov mac_key = Inr (keyed_md5 (c_md5 env) mac_key ?cov)"
    using len iv by (intro HMACMD5Digest_fits key crypto_okD(2) [OF env]) simp
  have r3: "mem_read 0 16 (mac @ iv @ ?cov @ rest) = Inr mac"
    using mem_read_at [of "[]" 0 mac 16] mac by simp
  have "\<not> len < 37" using len by simp
  then show ?thesis
    unfolding Validate_def Let_def SSUSize_value.simps r1 w1 w2 bind_result_Inr
    using r2 h r3 by simp
qed

lemma Decrypt_sealed:
  assumes env: "crypto_ok env" and iv: "length iv = 16" and mac: "length mac = 16"
    and len: "len = 32 + length plain" "37 \<le> len" and k: "key = (if is_session then m_DecryptionKey dec else aes_key)"
  shows "\<exists>dec'. Decrypt env (mac @ iv @ cipher_text env key iv plain @ rest) len aes_key is_session dec
    = Inr (dec', mac @ iv @ plain @ rest)"
proof -
  have r: "mem_read 16 16 (mac @ iv @ bs) = Inr iv" for bs
    using mem_read_at [of mac 16 iv 16] mac iv by simp
  have D: "\<exists>d'. CBC_Decrypt (c_UsingAESNI env) (c_decrypt env) 32 (len - 32) 32 d
      (mac @ iv @ cipher_text env (m_DecryptionKey d) iv plain @ rest) = Inr (d', mac @ iv @ plain @ rest)"
    if "m_IV d = iv" for d
    using CBC_Decrypt_inplace [OF env iv, of "mac @ iv" 32 plain "len - 32" d "c_UsingAESNI env" rest] that mac iv len
    by simp
  have "\<not> len < 37" using len by simp
  then show ?thesis
    using D [of "CBCDecryption_new aes_key iv"] D [of "CBCDecryption_SetIV iv dec"] iv
    by (auto simp: Decrypt_def r k CBCDecryption_new_def CBCDecryption_SetIV_def Let_def)
qed

text \<open>
  A datagram opens to \<open>plain\<close> under a key pair: in every receive buffer with 18 bytes more the
  digest is valid, and decryption leaves \<open>plain\<close> behind the 32 bytes of digest and IV.
\<close>

definition opens_to :: "CryptoEnv \<Rightarrow> bytes \<Rightarrow> bytes \<Rightarrow> bytes \<Rightarrow> bytes \<Rightarrow> bool" where
  "opens_to env key mac_key packet plain \<longleftrightarrow>
     (\<forall>margin aes_key is_session dec. 18 \<le> length margin \<longrightarrow>
        key = (if is_session then m_DecryptionKey dec else aes_key) \<longrightarrow>
        (\<exists>buf dec' head rest.
           Validate env (packet @ margin) (length packet) mac_key = Inr (True, buf) \<and>
           Decrypt env buf (length packet) aes_key is_session dec = Inr (dec', head @ plain @ rest) \<and>
           length head = 32))"

lemma sealed_opens_to:
  assumes "crypto_ok env" and "length mac_key = 32" and "length iv = 16"
    and "37 \<le> 32 + length plain" "32 + length plain \<le> 1998"
  shows "opens_to env key mac_key
    (keyed_md5 (c_md5 env) mac_key (cipher_text env key iv plain @ trailer iv (length plain)) @ iv
      @ cipher_text env key iv plain) plain"
  unfolding opens_to_def
proof (intro allI impI)
  fix margin aes_key :: bytes and is_session :: bool and dec :: CBCDecryption
  assume margin: "18 \<le> length margin"
    and key: "key = (if is_session then m_DecryptionKey dec else aes_key)"
  let ?ct = "cipher_text env key iv plain" let ?n = "length plain"
  let ?mac = "keyed_md5 (c_md5 env) mac_key (?ct @ trailer iv ?n)"
  let ?t = "take 16 margin" let ?u = "take 2 (drop 16 margin)" let ?r = "drop 18 margin"
  have ct: "length ?ct = ?n" by (rule length_cipher_text [OF assms(1,3)])
  have mac: "length ?mac = 16" by (rule crypto_okD(3) [OF assms(1)])
  have len: "length (?mac @ iv @ ?ct) = 32 + ?n" using mac ct assms(3) by simp
  have m: "margin = ?t @ ?u @ ?r"
    using append_take_drop_id [of 2 "drop 16 margin"] append_take_drop_id [of 16 margin] by simp
  have "Validate env (?mac @ iv @ ?ct @ ?t @ ?u @ ?r) (32 + ?n) mac_key
      = Inr (True, ?mac @ iv @ ?ct @ trailer iv ?n @ ?r)"
    using assms(4,5) margin ct by (subst Validate_sealed [OF assms(1-3) mac]) simp_all
  then have v: "Validate env ((?mac @ iv @ ?ct) @ margin) (32 + ?n) mac_key
      = Inr (True, ?mac @ iv @ ?ct @ trailer iv ?n @ ?r)"
    unfolding m [symmetric] by simp
  obtain dec' where d: "Decrypt env (?mac @ iv @ ?ct @ trailer iv ?n @ ?r) (32 + ?n) aes_key is_session dec
      = Inr (dec', ?mac @ iv @ plain @ trailer iv ?n @ ?r)"
    using Decrypt_sealed [OF assms(1,3) mac refl assms(4) key] by blast
  show "\<exists>buf dec' head rest.
      Validate env ((?mac @ iv @ ?ct) @ margin) (length (?mac @ iv @ ?ct)) mac_key = Inr (True, buf) \<and>
      Decrypt env buf (length (?mac @ iv @ ?ct)) aes_key is_session dec = Inr (dec', head @ plain @ rest) \<and>
      length head = 32"
    unfolding len
  proof (intro exI conjI)
    show "Validate env ((?mac @ iv @ ?ct) @ margin) (32 + ?n) mac_key
      = Inr (True, ?mac @ iv @ ?ct @ trailer iv ?n @ ?r)" by (rule v)
    show "Decrypt env (?mac @ iv @ ?ct @ trailer iv ?n @ ?r) (32 + ?n) aes_key is_session dec
      = Inr (dec', (?mac @ iv) @ plain @ (trailer iv ?n @ ?r))" using d by simp
    show "length (?mac @ iv) = 32" using mac assms(3) by simp
  qed
qed

text \<open>Sealing a packet in a large enough buffer.\<close>

lemma CBCEncrypt_blocks_key:
  "CBCEncrypt_blocks E n src dst c mem = Inr (c', mem') \<Longrightarrow> m_EncryptionKey c' = m_EncryptionKey c"
  by (induction E n src dst c mem rule: CBCEncrypt_blocks.induct) (auto simp: result_simps Let_def)

lemma CBC_Encrypt_key:
  assumes "CBC_Encrypt b E src len dst c mem = Inr (c', mem')"
  shows "m_EncryptionKey c' = m_EncryptionKey c"
proof -
  from assms have "CBC_Encrypt False E src len dst c mem = Inr (c', mem')"
    using CBC_Encrypt_paths [of b] by simp
  then show ?thesis by (auto simp: CBC_Encrypt_def Let_def dest: CBCEncrypt_blocks_key split: if_splits)
qed

lemma seal_packet_opens:
  assumes "crypto_ok env" and "length mac_key = 32" and "length iv = 16" and "m_LastBlock enc = iv"
    and "37 \<le> len" "len \<le> 1998" "len + 18 \<le> length buf"
  shows "\<exists>enc' sent. seal_packet env iv time flag mac_key enc buf len = Inr (enc', sent) \<and>
    length sent = length buf \<and> m_EncryptionKey enc' = m_EncryptionKey enc \<and>
    opens_to env (m_EncryptionKey enc) mac_key (take len sent)
      ([flag] @ word_encode True time @ slice 37 (len - 37) buf)"
proof -
  let ?body = "slice 37 (len - 37) buf"
  let ?plain = "[flag] @ word_encode True time @ ?body"
  let ?ct = "cipher_text env (m_EncryptionKey enc) iv ?plain"
  let ?cov = "?ct @ trailer iv (len - 32)"
  let ?mac = "keyed_md5 (c_md5 env) mac_key ?cov"
  obtain a b c d t u rest where buf: "buf = a @ b @ c @ d @ ?body @ t @ u @ rest"
    and parts: "length a = 16" "length b = 16" "length c = 1" "length d = 4" "length t = 16" "length u = 2"
    using buffer_parts [OF assms(5,7)] by blast
  have lb: "len = 37 + length ?body" "length ?plain = len - 32" using assms(5,7) by simp_all
  have lct: "length ?ct = len - 32" using length_cipher_text [OF assms(1,3)] lb by simp
  have mac: "length ?mac = 16" by (rule crypto_okD(3) [OF assms(1)])
  let ?sent = "?mac @ iv @ ?cov @ rest"
  obtain enc' where seal: "seal_packet env iv time flag mac_key enc buf len = Inr (enc', ?sent)"
    using seal_packet_eq [OF assms(1-4) parts lb(1) assms(6), of flag time rest] buf by (auto simp: Let_def)
  have "length buf = length (a @ b @ c @ d @ ?body @ t @ u @ rest)" using buf by (rule arg_cong)
  then have len: "length ?sent = length buf" using mac lct lb parts assms(3,5) by simp
  have "m_EncryptionKey enc' = m_EncryptionKey enc"
    using seal by (auto simp: seal_packet_def result_simps Let_def dest!: CBC_Encrypt_key)
  moreover have "take len ?sent = ?mac @ iv @ ?ct" using mac assms(3,5) lct by simp
  moreover have "opens_to env (m_EncryptionKey enc) mac_key (?mac @ iv @ ?ct) ?plain"
    using sealed_opens_to [OF assms(1-3), of ?plain "m_EncryptionKey enc"] assms(5,6) unfolding lb(2) by simp
  ultimately show ?thesis using seal len by auto
qed

section \<open>Properties\<close>

text \<open>
  C10 (round trip). A packet of 37 to 1998 bytes, in a buffer with 18 bytes more, can be sealed
  with given keys. Whoever receives those bytes in such a buffer finds the digest valid under
  the same MAC key and, after decryption with the same key, reads the flag with the payload
  type, the time and the body that was sealed; the session keys work the same way.
\<close>

theorem sealed_packet_opens:
  assumes "crypto_ok env" and "length mac_key = 32" and "length iv = 16"
    and "37 \<le> len" "len \<le> 1998" "len + 18 \<le> length buf" and "18 \<le> length margin"
    and "key = (if is_session then m_DecryptionKey dec else aes_key)"
  shows "\<exists>sent buf' dec' opened.
    FillHeaderAndEncrypt env iv time payload_type buf len key mac_key flag = Inr sent \<and>
    length sent = length buf \<and>
    Validate env (take len sent @ margin) len mac_key = Inr (True, buf') \<and>
    Decrypt env buf' len aes_key is_session dec = Inr (dec', opened) \<and>
    slice 32 (len - 32) opened
      = [flag OR push_bit 4 payload_type] @ word_encode True time @ slice 37 (len - 37) buf"
proof -
  let ?plain = "[flag OR push_bit 4 payload_type] @ word_encode True time @ slice 37 (len - 37) buf"
  have pl: "length ?plain = len - 32" using assms(4,6) by simp
  obtain enc' sent where s: "seal_packet env iv time (flag OR push_bit 4 payload_type) mac_key
      (CBCEncryption_new key iv) buf len = Inr (enc', sent)" "length sent = length buf"
      "opens_to env key mac_key (take len sent) ?plain"
    using seal_packet_opens [OF assms(1-3) _ assms(4-6), of "CBCEncryption_new key iv" time
        "flag OR push_bit 4 payload_type"] assms(3)
    by (auto simp: CBCEncryption_new_def)
  have "length (take len sent) = len" using s(2) assms(6) by simp
  then obtain buf' dec' head rest where o:
      "Validate env (take len sent @ margin) len mac_key = Inr (True, buf')"
      "Decrypt env buf' len aes_key is_session dec = Inr (dec', head @ ?plain @ rest)" "length head = 32"
    using s(3) [unfolded opens_to_def, rule_format, OF assms(7,8)] by auto
  have "slice 32 (len - 32) (head @ ?plain @ rest) = ?plain"
    using o(3) pl slice_append_prefix [of head "len - 32" "?plain @ rest"] by (simp del: append.simps)
  moreover have "FillHeaderAndEncrypt env iv time payload_type buf len key mac_key flag = Inr sent"
    using s(1) assms(4) by (simp add: FillHeaderAndEncrypt_def)
  ultimately show ?thesis using s(2) o by blast
qed

definition sample_crypto :: CryptoEnv where
  "sample_crypto = \<lparr>c_UsingAESNI = True, c_encrypt = sample_cipher, c_decrypt = sample_cipher,
     c_md5 = (\<lambda>b. replicate 16 (foldl (XOR) 0 b)), c_sha256 = (\<lambda>b. replicate 32 0)\<rparr>"

lemma sample_crypto_ok: "crypto_ok sample_crypto"
  by (simp add: crypto_ok_def sample_crypto_def sample_cipher)

theorem sealed_packet_opens_witness:
  "\<exists>sent buf' dec' opened.
    FillHeaderAndEncrypt sample_crypto (replicate 16 1) 77 6 (replicate 66 3) 48 (replicate 32 4) (replicate 32 5) 0
      = Inr sent \<and> length sent = 66 \<and>
    Validate sample_crypto (take 48 sent @ replicate 20 9) 48 (replicate 32 5) = Inr (True, buf') \<and>
    Decrypt sample_crypto buf' 48 (replicate 32 4) False \<lparr>m_DecryptionKey = [], m_IV = []\<rparr> = Inr (dec', opened) \<and>
    slice 32 16 opened = [0x60] @ word_encode True (77 :: u32) @ replicate 11 3"
proof -
  have "slice 37 11 (replicate 66 (3 :: byte)) = replicate 11 3"
    by (simp add: slice_def del: replicate.simps)
  then show ?thesis
    using sealed_packet_opens [OF sample_crypto_ok, where mac_key = "replicate 32 5" and iv = "replicate 16 1"
        and len = 48 and buf = "replicate 66 3" and margin = "replicate 20 9" and key = "replicate 32 4"
        and is_session = False and aes_key = "replicate 32 4" and dec = "\<lparr>m_DecryptionKey = [], m_IV = []\<rparr>"
        and time = 77 and payload_type = 6 and flag = 0]
    by (simp del: replicate.simps)
qed

lemma first_non_zero_eq:
  assumes "length key = 256" and "p \<le> 32"
  shows "first_non_zero key p = Inr (find (\<lambda>i. key ! i \<noteq> 0) [p..<33])"
  using assms(2)
proof (induction "33 - p" arbitrary: p)
  case (Suc n)
  have p: "[p..<33] = p # [p + 1..<33]" using Suc.prems by (simp add: upt_conv_Cons)
  show ?case
  proof (cases "key ! p \<noteq> 0 \<or> p = 32")
    case True
    then show ?thesis using Suc.prems assms(1)
      by (subst first_non_zero.simps) (auto simp: peek_def p)
  next
    case False
    then have "first_non_zero key (p + 1) = Inr (find (\<lambda>i. key ! i \<noteq> 0) [p + 1..<33])"
      using Suc.hyps(2) Suc.prems by (intro Suc.hyps(1)) auto
    then show ?thesis using Suc.prems assms(1) False
      by (subst first_non_zero.simps) (auto simp: peek_def p)
  qed
qed simp

text \<open>The first byte after the leading zeros of the secret, as the loop looks for it.\<close>

lemma find_leading_zeros:
  assumes "key ! 0 = (0 :: byte)" and "32 < length key"
  shows "find (\<lambda>i. key ! i \<noteq> 0) [1..<33] =
    (let z = length (takeWhile (\<lambda>b. b = 0) key) in if 32 < z then None else Some z)"
proof -
  let ?z = "length (takeWhile (\<lambda>b. b = 0) key)"
  have zeros: "key ! i = 0" if "i < ?z" for i
    using that takeWhile_nth [of i "\<lambda>b. b = 0" key] set_takeWhileD [of "takeWhile (\<lambda>b. b = 0) key ! i"] nth_mem [of i] by metis
  have "?z \<noteq> 0" using assms by (cases key) auto
  show ?thesis
  proof (cases "32 < ?z")
    case True
    then show ?thesis using zeros by (auto simp: find_None_iff)
  next
    case False
    then have "key ! ?z \<noteq> 0" using nth_length_takeWhile [of "\<lambda>b. b = 0" key] assms(2) by simp
    moreover have "key ! ([1..<33] ! i) = 0" if "i < ?z - 1" for i using that False zeros [of "1 + i"] by simp
    ultimately show ?thesis
      using False \<open>?z \<noteq> 0\<close> by (auto simp: find_Some_iff Let_def intro!: exI [of _ "?z - 1"])
  qed
qed

text \<open>
  C37 (functional). The keys of a session, derived from a shared secret of 256 bytes. Written as a
  signed number without superfluous bytes, that is with a zero in front when its highest bit is
  set and without leading zeros otherwise, the first 32 bytes of the secret are the session key;
  the MAC key is the next 32 bytes, or, for a secret with leading zeros, the hash of what is left
  of its first 64 bytes. The derivation fails exactly when the first 33 bytes are zero, reads
  nothing outside the secret, and both keys have 32 bytes.
\<close>

theorem CreateAESandMACKey_total:
  assumes "length key = 256" and "\<And>b. length (c_sha256 env b) = 32"
    and "zeros = length (takeWhile (\<lambda>b. b = 0) key)" and "number = (if bit (key ! 0) 7 then 0 # key else drop zeros key)"
  shows "CreateAESandMACKey env (Some key) =
      Inr (if 32 < zeros then None
           else Some (take 32 number, if zeros = 0 then take 32 (drop 32 number) else c_sha256 env (take (64 - zeros) number))) \<and>
    (zeros \<le> 32 \<longrightarrow> length (take 32 number) = 32 \<and> length (take 32 (drop 32 number)) = 32)"
proof -
  have z: "first_non_zero key (Suc 0) = Inr (find (\<lambda>i. key ! i \<noteq> 0) [1..<33])"
    using first_non_zero_eq [OF assms(1), of 1] by simp
  have top: "key ! 0 AND 0x80 \<noteq> 0 \<longleftrightarrow> bit (key ! 0) 7"
    using and_exp_eq_0_iff_not_bit [of "key ! 0" 7] by simp
  have first: "zeros = 0 \<longleftrightarrow> key ! 0 \<noteq> 0" using assms(1,3) by (cases key) auto
  have "CreateAESandMACKey env (Some key) =
      Inr (if 32 < zeros then None
           else Some (take 32 number, if zeros = 0 then take 32 (drop 32 number) else c_sha256 env (take (64 - zeros) number)))"
  proof (cases "key ! 0 = 0")
    case True
    then show ?thesis
      using first find_leading_zeros [OF True] assms(1,3,4) z
      by (auto simp: CreateAESandMACKey_def peek_def mem_read_def slice_def)
  next
    case False
    then have "zeros = 0" using first by simp
    with False show ?thesis
      using assms(1,4) top by (auto simp: CreateAESandMACKey_def peek_def mem_read_def slice_def)
  qed
  then show ?thesis using assms(1,4) by auto
qed

theorem CreateAESandMACKey_total_witness:
  "CreateAESandMACKey sample_crypto (Some (replicate 9 0 @ replicate 247 1)) =
     Inr (Some (replicate 32 1, c_sha256 sample_crypto (replicate 55 1)))"
proof -
  let ?k = "replicate 9 0 @ replicate 247 (1 :: byte)"
  have "takeWhile (\<lambda>b. b = 0) (replicate 247 (1 :: byte)) = []" by (simp add: numeral_eq_Suc)
  then have z: "9 = length (takeWhile (\<lambda>b. b = 0) ?k)" by (simp add: takeWhile_append del: replicate.simps)
  have l: "length ?k = 256" "\<And>b. length (c_sha256 sample_crypto b) = 32"
    by (simp_all add: sample_crypto_def del: replicate.simps)
  have "\<not> bit (?k ! 0) 7" by (simp add: nth_append del: replicate.simps)
  moreover have "drop 9 ?k = replicate 247 1" by (simp del: replicate.simps)
  ultimately have n: "replicate 247 1 = (if bit (?k ! 0) 7 then 0 # ?k else drop 9 ?k)" by (simp only: if_False)
  from CreateAESandMACKey_total [OF l z n] show ?thesis
    by (simp add: take_replicate min_def del: replicate.simps)
qed

end
