(* ===== verification/Std_Map.thy ===== *)
theory Std_Map
  imports Prelude
begin

text \<open>
  The ordered containers of the C++ standard library that the router keeps its state in:
  \<open>std::map\<close>, and \<open>std::set\<close> with a comparator on one field of its elements, which is a
  map from that field. A container is the list of its entries in iteration order, so that a
  loop over it visits them as the source does. \<open>insert\<close> leaves an existing entry alone,
  as \<open>std::map::insert\<close> does; \<open>assign\<close> is a write through an iterator or \<open>operator[]\<close>.

  The locale \<open>map_container\<close> is the interface the components rely on; it is interpreted on
  the lists below.
\<close>

section \<open>The interface\<close>

locale map_container =
  fixes find :: "'k \<Rightarrow> 'm \<Rightarrow> 'v option"
    and insert :: "'k \<Rightarrow> 'v \<Rightarrow> 'm \<Rightarrow> 'm"
    and assign :: "'k \<Rightarrow> 'v \<Rightarrow> 'm \<Rightarrow> 'm"
    and erase :: "'k \<Rightarrow> 'm \<Rightarrow> 'm"
    and empty :: 'm
    and invar :: "'m \<Rightarrow> bool"
  assumes find_empty: "find k empty = None"
    and find_insert: "invar m \<Longrightarrow> find k' (insert k v m) =
        (if k' = k then (case find k m of None \<Rightarrow> Some v | Some w \<Rightarrow> Some w) else find k' m)"
    and find_assign: "invar m \<Longrightarrow> find k' (assign k v m) = (if k' = k then Some v else find k' m)"
    and find_erase: "invar m \<Longrightarrow> find k' (erase k m) = (if k' = k then None else find k' m)"
    and invar_empty: "invar empty"
    and invar_insert: "invar m \<Longrightarrow> invar (insert k v m)"
    and invar_assign: "invar m \<Longrightarrow> invar (assign k v m)"
    and invar_erase: "invar m \<Longrightarrow> invar (erase k m)"
begin

lemma insert_keeps_first: "invar m \<Longrightarrow> find k m = Some w \<Longrightarrow> find k (insert k v m) = Some w"
  by (simp add: find_insert)

lemma insert_fresh: "invar m \<Longrightarrow> find k m = None \<Longrightarrow> find k (insert k v m) = Some v"
  by (simp add: find_insert)

lemma insert_assign:
  "invar m \<Longrightarrow> find k' (assign k w (insert k v m)) = find k' (assign k w m)"
  by (simp add: find_insert find_assign invar_insert)

lemma erase_insert_fresh:
  "invar m \<Longrightarrow> find k m = None \<Longrightarrow> find k' (erase k (insert k v m)) = find k' m"
  by (simp add: find_insert find_erase invar_insert)

lemmas map_laws = find_empty find_insert find_assign find_erase
lemmas map_invars = invar_empty invar_insert invar_assign invar_erase

end

section \<open>Sorted association lists\<close>

type_synonym ('k, 'v) std_map = "('k \<times> 'v) list"

definition std_find :: "'k \<Rightarrow> ('k, 'v) std_map \<Rightarrow> 'v option" where
  "std_find k m = map_of m k"

fun std_insert :: "'k::linorder \<Rightarrow> 'v \<Rightarrow> ('k, 'v) std_map \<Rightarrow> ('k, 'v) std_map" where
  "std_insert k v [] = [(k, v)]"
| "std_insert k v ((k', v') # m) =
     (if k < k' then (k, v) # (k', v') # m
      else if k = k' then (k', v') # m
      else (k', v') # std_insert k v m)"

fun std_assign :: "'k::linorder \<Rightarrow> 'v \<Rightarrow> ('k, 'v) std_map \<Rightarrow> ('k, 'v) std_map" where
  "std_assign k v [] = [(k, v)]"
| "std_assign k v ((k', v') # m) =
     (if k < k' then (k, v) # (k', v') # m
      else if k = k' then (k, v) # m
      else (k', v') # std_assign k v m)"

definition std_erase :: "'k \<Rightarrow> ('k, 'v) std_map \<Rightarrow> ('k, 'v) std_map" where
  "std_erase k m = filter (\<lambda>(k', v). k' \<noteq> k) m"

definition std_count :: "'k \<Rightarrow> ('k, 'v) std_map \<Rightarrow> bool" where
  "std_count k m \<longleftrightarrow> std_find k m \<noteq> None"

definition std_inv :: "('k::linorder, 'v) std_map \<Rightarrow> bool" where
  "std_inv m \<longleftrightarrow> sorted_wrt (<) (map fst m)"

lemma std_inv_Nil [simp]: "std_inv []"
  by (simp add: std_inv_def)

lemma std_inv_Cons [simp]: "std_inv ((k, v) # m) \<longleftrightarrow> (\<forall>k' \<in> fst ` set m. k < k') \<and> std_inv m"
  by (simp add: std_inv_def)

lemma keys_std_insert [simp]: "fst ` set (std_insert k v m) = insert k (fst ` set m)"
  by (induction k v m rule: std_insert.induct) auto

lemma keys_std_assign [simp]: "fst ` set (std_assign k v m) = insert k (fst ` set m)"
  by (induction k v m rule: std_assign.induct) auto

lemma set_std_insert: "set (std_insert k v m) \<subseteq> insert (k, v) (set m)"
  by (induction k v m rule: std_insert.induct) auto

lemma set_std_assign: "set (std_assign k v m) \<subseteq> insert (k, v) (set m)"
  by (induction k v m rule: std_assign.induct) auto

lemma std_find_None_iff: "std_find k m = None \<longleftrightarrow> k \<notin> fst ` set m"
  by (simp add: std_find_def map_of_eq_None_iff)

lemma std_find_insert:
  "std_inv m \<Longrightarrow> std_find k' (std_insert k v m) =
     (if k' = k then (case std_find k m of None \<Rightarrow> Some v | Some w \<Rightarrow> Some w) else std_find k' m)"
  unfolding std_find_def
proof (induction k v m rule: std_insert.induct)
  case (2 k v k1 v1 m)
  show ?case
  proof (cases "k < k1")
    case True
    with "2.prems" have "k \<notin> fst ` set m" "k \<noteq> k1" by auto
    then have "map_of m k = None" by (simp add: map_of_eq_None_iff)
    with True \<open>k \<noteq> k1\<close> show ?thesis by auto
  next
    case False
    with 2 show ?thesis by auto
  qed
qed simp

lemma std_find_assign:
  "std_find k' (std_assign k v m) = (if k' = k then Some v else std_find k' m)"
  unfolding std_find_def by (induction k v m rule: std_assign.induct) auto

lemma std_find_erase: "std_find k' (std_erase k m) = (if k' = k then None else std_find k' m)"
  unfolding std_find_def std_erase_def by (induction m) auto

lemma set_std_erase: "set (std_erase k m) \<subseteq> set m"
  by (auto simp: std_erase_def)

lemma std_inv_insert: "std_inv m \<Longrightarrow> std_inv (std_insert k v m)"
  by (induction k v m rule: std_insert.induct) fastforce+

lemma std_inv_assign: "std_inv m \<Longrightarrow> std_inv (std_assign k v m)"
  by (induction k v m rule: std_assign.induct) fastforce+

lemma std_inv_erase: "std_inv m \<Longrightarrow> std_inv (std_erase k m)"
  unfolding std_erase_def by (induction m) auto

interpretation sm: map_container std_find std_insert std_assign std_erase "[]" std_inv
  by unfold_locales
    (auto simp: std_find_insert std_find_assign std_find_erase std_inv_insert std_inv_assign
      std_inv_erase, simp add: std_find_def)

lemmas std_map_simps [simp] = sm.map_laws sm.map_invars

section \<open>Iteration\<close>

text \<open>\<open>begin()\<close> of a non-empty container is its least key.\<close>

lemma std_inv_hd_least: "std_inv ((k, v) # m) \<Longrightarrow> k' \<in> fst ` set m \<Longrightarrow> k < k'"
  by auto

lemma std_find_mem: "std_inv m \<Longrightarrow> std_find k m = Some v \<longleftrightarrow> (k, v) \<in> set m"
proof -
  assume "std_inv m"
  then have "distinct (map fst m)"
    by (auto simp: std_inv_def strict_sorted_iff)
  then show ?thesis by (simp add: std_find_def)
qed

lemma std_map_rebuild:
  assumes "std_inv m"
  shows "map (\<lambda>k. (k, the (std_find k m))) (map fst m) = m"
  unfolding map_map
proof (rule map_idI)
  fix x assume "x \<in> set m"
  then have "std_find (fst x) m = Some (snd x)"
    by (simp add: std_find_mem [OF assms])
  then show "((\<lambda>k. (k, the (std_find k m))) \<circ> fst) x = x" by simp
qed

lemma std_map_ext:
  assumes "std_inv m" and "std_inv m'" and "\<And>k. std_find k m = std_find k m'"
  shows "m = m'"
proof -
  have "set m = set m'"
    using assms std_find_mem by (metis (full_types) subrelI subset_antisym)
  moreover have "sorted_wrt (<) (map fst m)" "sorted_wrt (<) (map fst m')"
    using assms by (simp_all add: std_inv_def)
  ultimately have "map fst m = map fst m'"
    by (metis list.set_map strict_sorted_equal)
  then have "map (\<lambda>k. (k, the (std_find k m))) (map fst m)
      = map (\<lambda>k. (k, the (std_find k m'))) (map fst m')"
    by (simp only: assms(3))
  then show ?thesis
    by (simp only: std_map_rebuild [OF assms(1)] std_map_rebuild [OF assms(2)])
qed

text \<open>A loop that changes or erases every entry.\<close>

fun std_update_all :: "('v \<Rightarrow> 'w option) \<Rightarrow> ('k, 'v) std_map \<Rightarrow> ('k, 'w) std_map" where
  "std_update_all f [] = []"
| "std_update_all f ((k, v) # m) =
     (case f v of None \<Rightarrow> std_update_all f m | Some w \<Rightarrow> (k, w) # std_update_all f m)"

lemma keys_std_update_all: "fst ` set (std_update_all f m) \<subseteq> fst ` set m"
  by (induction f m rule: std_update_all.induct) (auto split: option.splits)

lemma std_inv_update_all: "std_inv m \<Longrightarrow> std_inv (std_update_all f m)"
proof (induction f m rule: std_update_all.induct)
  case (2 f k v m)
  have "\<forall>k' \<in> fst ` set (std_update_all f m). k < k'"
    using "2.prems" keys_std_update_all [of f m] unfolding std_inv_Cons by blast
  moreover have "std_inv (std_update_all f m)" using 2 by (auto split: option.splits)
  ultimately show ?case by (cases "f v") (simp_all del: ball_simps)
qed simp

lemma std_find_update_all: "std_inv m \<Longrightarrow> std_find k (std_update_all f m) = Option.bind (std_find k m) f"
proof (induction f m rule: std_update_all.induct)
  case (2 f k' v m)
  show ?case
  proof (cases "k = k'")
    case True
    then have "std_find k (std_update_all f m) = None"
      using "2.prems" keys_std_update_all [of f m] unfolding std_inv_Cons std_find_None_iff by blast
    then show ?thesis using True by (simp add: std_find_def split: option.splits)
  next
    case False
    then show ?thesis using 2 by (auto simp: std_find_def split: option.splits)
  qed
qed (simp add: std_find_def)

end
