(* ===== verification/SSU_Data.thy ===== *)
theory SSU_Data
  imports I2NP SSU_Crypto Std_Map
begin

text \<open>
  The data layer of an SSU session, \<open>core/router/transports/ssu/data.{h,cc}\<close>: splitting an
  I2NP message into fragments and sending them, putting received fragments together in any
  order, acknowledgements, resending, and the three timers.

  \<open>SSUData\<close> and its \<open>SSUSession\<close> are friends that hold references to each other; the record
  \<open>SSUSession\<close> below holds the state of the data layer and what it reads and changes of the
  session. What leaves the session is the list of events an operation emits. The clock, the
  random source and the cryptographic primitives are parameters; the position in the random
  source is part of the state.

  A timer holds its expiry and the handlers waiting on it. \<open>cancel\<close> and \<open>expires_from_now\<close>
  complete the waiting handlers with \<open>operation_aborted\<close>, on which every handler of this file
  returns at once, so they are dropped.
\<close>

section \<open>State\<close>

datatype SSUDuration =
    ResendInterval | MaxResends | DecayInterval | IncompleteMessagesCleanupTimeout
  | ConnectTimeout | TerminationTimeout | KeepAliveInterval | PeerTestTimeout
  | ToIntroducerSessionDuration

fun SSUDuration_value :: "SSUDuration \<Rightarrow> nat" where
  "SSUDuration_value ResendInterval = 3"
| "SSUDuration_value MaxResends = 5"
| "SSUDuration_value DecayInterval = 20"
| "SSUDuration_value IncompleteMessagesCleanupTimeout = 30"
| "SSUDuration_value ConnectTimeout = 5"
| "SSUDuration_value TerminationTimeout = 330"
| "SSUDuration_value KeepAliveInterval = 30"
| "SSUDuration_value PeerTestTimeout = 60"
| "SSUDuration_value ToIntroducerSessionDuration = 3600"

text \<open>
  A received fragment keeps the \<open>len\<close> bytes copied into its buffer, a sent one the whole
  buffer of \<open>FragmentBuffer\<close> bytes with the sealed packet in front.
\<close>

record Fragment =
  fr_num :: nat
  fr_len :: nat
  fr_is_last :: bool
  fr_buffer :: bytes

record IncompleteMessage =
  im_msg :: I2NPMessage
  im_next_fragment_num :: nat
  im_last_fragment_insert_time :: u32
  im_saved_fragments :: "(nat, Fragment) std_map"

record SentMessage =
  sm_fragments :: "Fragment option list"
  sm_next_resend_time :: u32
  sm_num_resends :: nat

datatype SessionState = StateUnknown | Introduced | Established | Closed | Failed

datatype handler = HandleResendTimer_cb | HandleDecayTimer_cb | HandleCleanupTimer_cb

record timer =
  expiry :: "nat option"
  waiting :: "handler list"

record SSUSession =
  s_State :: SessionState
  s_IsV6 :: bool
  s_SessionKeyEncryption :: CBCEncryption
  s_MACKey :: bytes
  s_NumSentBytes :: nat
  s_Random :: nat
  s_PeerTest :: bool
  m_IncompleteMessages :: "(u32, IncompleteMessage) std_map"
  m_SentMessages :: "(u32, SentMessage) std_map"
  m_ReceivedMessages :: "(u32, unit) std_map"
  m_ResendTimer :: timer
  m_DecayTimer :: timer
  m_IncompleteMessagesCleanupTimer :: timer
  m_MaxPacketSize :: nat
  m_PacketSize :: nat
  m_Handler :: I2NPMessagesHandler

text \<open>What the data layer reads of the rest of the router.\<close>

record DataEnv =
  d_crypto :: CryptoEnv
  d_router :: RouterEnv
  d_random :: "nat \<Rightarrow> bytes"
  d_random32 :: u32
  d_stack :: bytes
  d_seconds :: nat
  d_network_ID :: u64
  d_gzip :: "bytes \<Rightarrow> bytes"
  d_router_buffer :: bytes
  d_remote_testing :: bool

datatype event =
    SendPacket bytes
  | HandlerAction action
  | PeerConnected
  | StartPeerTest
  | ScheduleTermination

type_synonym 'a step = "('a, event) steps"

section \<open>Timers\<close>

definition timer_cancel :: "timer \<Rightarrow> timer" where
  "timer_cancel t = t\<lparr>waiting := []\<rparr>"

definition expires_from_now :: "nat \<Rightarrow> nat \<Rightarrow> timer \<Rightarrow> timer" where
  "expires_from_now now secs t = t\<lparr>expiry := Some (now + secs), waiting := []\<rparr>"

definition async_wait :: "handler \<Rightarrow> timer \<Rightarrow> timer" where
  "async_wait h t = t\<lparr>waiting := waiting t @ [h]\<rparr>"

definition ScheduleResend :: "DataEnv \<Rightarrow> SSUSession \<Rightarrow> SSUSession" where
  "ScheduleResend env s =
     s\<lparr>m_ResendTimer := async_wait HandleResendTimer_cb
        (expires_from_now (d_seconds env) (SSUDuration_value ResendInterval) (timer_cancel (m_ResendTimer s)))\<rparr>"

text \<open>The expiry is set on the decay timer, but the handler waits on the resend timer.\<close>

definition ScheduleDecay :: "DataEnv \<Rightarrow> SSUSession \<Rightarrow> SSUSession" where
  "ScheduleDecay env s =
     s\<lparr>m_DecayTimer :=
         expires_from_now (d_seconds env) (SSUDuration_value DecayInterval) (timer_cancel (m_DecayTimer s)),
       m_ResendTimer := async_wait HandleDecayTimer_cb (m_ResendTimer s)\<rparr>"

definition ScheduleIncompleteMessagesCleanup :: "DataEnv \<Rightarrow> SSUSession \<Rightarrow> SSUSession" where
  "ScheduleIncompleteMessagesCleanup env s =
     s\<lparr>m_IncompleteMessagesCleanupTimer := async_wait HandleCleanupTimer_cb
        (expires_from_now (d_seconds env) (SSUDuration_value IncompleteMessagesCleanupTimeout)
          (timer_cancel (m_IncompleteMessagesCleanupTimer s)))\<rparr>"

definition Start :: "DataEnv \<Rightarrow> SSUSession \<Rightarrow> SSUSession" where
  "Start env s = ScheduleIncompleteMessagesCleanup env s"

definition Stop :: "SSUSession \<Rightarrow> SSUSession" where
  "Stop s =
     s\<lparr>m_ResendTimer := timer_cancel (m_ResendTimer s), m_DecayTimer := timer_cancel (m_DecayTimer s),
       m_IncompleteMessagesCleanupTimer := timer_cancel (m_IncompleteMessagesCleanupTimer s)\<rparr>"

section \<open>Packet size\<close>

text \<open>\<open>mtu\<close> is that of the remote router's SSU address, \<open>None\<close> without such an address.\<close>

definition AdjustPacketSize :: "u16 option \<Rightarrow> SSUSession \<Rightarrow> SSUSession" where
  "AdjustPacketSize ssu_mtu s =
     (case ssu_mtu of
        None \<Rightarrow> s
      | Some mtu \<Rightarrow>
          if mtu \<noteq> 0 then
            let sz = size_sub (unat mtu)
                  (SSUSize_value (if s_IsV6 s then HeaderIPv6 else HeaderIPv4) + SSUSize_value HeaderUDP) in
            if sz > 0 then
              let aligned = push_bit 4 (drop_bit 4 sz) in
              s\<lparr>m_PacketSize := (if aligned > m_MaxPacketSize s then m_MaxPacketSize s else aligned)\<rparr>
            else s\<lparr>m_PacketSize := m_MaxPacketSize s\<rparr>
          else s)"

text \<open>\<open>router\<close> is what the network database finds: the MTU of its SSU address, if it has one.\<close>

definition UpdatePacketSize :: "u16 option option \<Rightarrow> SSUSession \<Rightarrow> SSUSession" where
  "UpdatePacketSize router s = (case router of None \<Rightarrow> s | Some ssu_mtu \<Rightarrow> AdjustPacketSize ssu_mtu s)"

definition SSUData_init :: "u16 option option \<Rightarrow> SSUSession \<Rightarrow> SSUSession" where
  "SSUData_init remote_router s0 =
     (let sz = SSUSize_value (if s_IsV6 s0 then PacketMaxIPv6 else PacketMaxIPv4);
          s = s0\<lparr>m_IncompleteMessages := [], m_SentMessages := [], m_ReceivedMessages := [],
                m_ResendTimer := \<lparr>expiry = None, waiting = []\<rparr>, m_DecayTimer := \<lparr>expiry = None, waiting = []\<rparr>,
                m_IncompleteMessagesCleanupTimer := \<lparr>expiry = None, waiting = []\<rparr>,
                m_MaxPacketSize := sz, m_PacketSize := sz,
                m_Handler := \<lparr>m_TunnelMsgs = [], m_TunnelGatewayMsgs = []\<rparr>\<rparr>
      in UpdatePacketSize remote_router s)"

section \<open>Sending\<close>

text \<open>\<open>FillHeaderAndEncrypt(SSUPayloadType::Data, buf, len)\<close> with the session keys.\<close>

definition seal_data :: "DataEnv \<Rightarrow> bytes \<Rightarrow> nat \<Rightarrow> SSUSession \<Rightarrow> (bytes \<times> SSUSession) result" where
  "seal_data env buf len s =
     bind_result
       (FillHeaderAndEncrypt_session (d_crypto env) (d_random env (s_Random s)) (word_of_nat (d_seconds env))
         (s_MACKey s) (word_of_nat (SSUPayloadType_code Data)) buf len (s_SessionKeyEncryption s)) (\<lambda>(enc, b).
       Inr (b, s\<lparr>s_SessionKeyEncryption := enc, s_Random := s_Random s + 1\<rparr>))"

definition SSUSession_Send :: "bytes \<Rightarrow> nat \<Rightarrow> SSUSession \<Rightarrow> SSUSession step" where
  "SSUSession_Send buf len s =
     bind_result (mem_read 0 len buf) (\<lambda>packet.
       emit_step (SendPacket packet) (s\<lparr>s_NumSentBytes := s_NumSentBytes s + len\<rparr>))"

definition fragment_info_bytes :: "nat \<Rightarrow> bool \<Rightarrow> nat \<Rightarrow> bytes" where
  "fragment_info_bytes num is_last sz =
     (let info = push_bit 17 (word_of_nat num :: u32) OR (if is_last then 0x010000 else 0) OR word_of_nat sz
      in drop 1 (word_encode True info))"

text \<open>The size of a packet rounded up to 16 bytes.\<close>

definition packet_len :: "nat \<Rightarrow> nat" where
  "packet_len sz = (if sz AND 0x0F \<noteq> 0 then push_bit 4 (drop_bit 4 sz + 1) else sz)"

definition send_fragment ::
    "DataEnv \<Rightarrow> u32 \<Rightarrow> nat \<Rightarrow> bool \<Rightarrow> bytes \<Rightarrow> SSUSession \<Rightarrow> (Fragment \<times> SSUSession) step" where
  "send_fragment env msg_id num is_last chunk s =
     (let buf = replicate (SSUSize_value FragmentBuffer) 0; p = SSUSize_value HeaderMin in
      bind_result (mem_write p [SSUFlag_value DataWantReply] buf) (\<lambda>b1.
      bind_result (mem_write (p + 1) [1] b1) (\<lambda>b2.
      bind_result (mem_write (p + 2) (word_encode True msg_id) b2) (\<lambda>b3.
      bind_result (mem_write (p + 6) (fragment_info_bytes num is_last (length chunk)) b3) (\<lambda>b4.
      bind_result (mem_write (p + 9) chunk b4) (\<lambda>b5.
      let sz = packet_len (length chunk + (p + 9)) in
      bind_result (seal_data env b5 sz s) (\<lambda>(b6, s1).
      bind_step (SSUSession_Send b6 sz s1) (\<lambda>s2.
        pure_step (\<lparr>fr_num = num, fr_len = sz, fr_is_last = False, fr_buffer = b6\<rparr>, s2)))))))))"

text \<open>
  The loop over the message. Every round consumes \<open>psize\<close> bytes, so it ends unless that is
  zero; the fuel bounds the number of rounds.
\<close>

fun send_loop ::
    "nat \<Rightarrow> DataEnv \<Rightarrow> u32 \<Rightarrow> nat \<Rightarrow> nat \<Rightarrow> nat \<Rightarrow> nat \<Rightarrow> bytes \<Rightarrow> Fragment option list \<Rightarrow> SSUSession \<Rightarrow>
     (Fragment option list \<times> SSUSession) step" where
  "send_loop fuel env msg_id psize fnum len p mem frags s =
     (if len = 0 then pure_step (frags, s)
      else case fuel of
        0 \<Rightarrow> Inl OutOfFuel
      | Suc fuel' \<Rightarrow>
          let is_last = (len \<le> psize); sz = (if is_last then len else psize) in
          bind_result (mem_read p sz mem) (\<lambda>chunk.
          bind_step (send_fragment env msg_id fnum is_last chunk s) (\<lambda>(f, s').
            send_loop fuel' env msg_id psize (fnum + 1)
              (if is_last then 0 else len - psize) (if is_last then p else p + psize)
              mem (frags @ [Some f]) s')))"

declare send_loop.simps [simp del]

text \<open>The packet header, and 9 bytes of flag, fragment count, message ID and fragment info.\<close>

definition data_payload_size :: "SSUSession \<Rightarrow> nat" where
  "data_payload_size s = size_sub (m_PacketSize s) (SSUSize_value HeaderMin + 9)"

text \<open>The length of the message is fuel enough for every positive \<open>psize\<close>.\<close>

definition Send :: "DataEnv \<Rightarrow> I2NPMessage \<Rightarrow> SSUSession \<Rightarrow> SSUSession step" where
  "Send env m s =
     bind_result (ToSSU m) (\<lambda>(msg_id, m').
       if std_count msg_id (m_SentMessages s) then pure_step s
       else
         let s1 = (if m_SentMessages s = [] then ScheduleResend env s else s);
             sent = \<lparr>sm_fragments = [],
                     sm_next_resend_time = word_of_nat (d_seconds env + SSUDuration_value ResendInterval),
                     sm_num_resends = 0\<rparr>;
             s2 = s1\<lparr>m_SentMessages := std_insert msg_id sent (m_SentMessages s1)\<rparr>
         in bind_step
              (send_loop (GetLength m') env msg_id (data_payload_size s) 0 (GetLength m') (GetSSUHeader m')
                (msg_buf m') [] s2) (\<lambda>(frags, s3).
              pure_step (s3\<lparr>m_SentMessages :=
                std_assign msg_id (sent\<lparr>sm_fragments := frags\<rparr>) (m_SentMessages s3)\<rparr>)))"

text \<open>
  The acknowledgements are built in arrays that the source does not initialise; \<open>d_stack\<close>
  is what is in them.
\<close>

definition SendMsgACK :: "DataEnv \<Rightarrow> u32 \<Rightarrow> SSUSession \<Rightarrow> SSUSession step" where
  "SendMsgACK env msg_id s =
     (let buf = take (48 + 18) (d_stack env); p = SSUSize_value HeaderMin in
      bind_result (mem_write p ([SSUFlag_value DataExplicitACKsIncluded] @ [1] @ word_encode True msg_id @ [0]) buf) (\<lambda>b1.
      bind_result (seal_data env b1 48 s) (\<lambda>(b2, s1).
        SSUSession_Send b2 48 s1)))"

definition SendFragmentACK :: "DataEnv \<Rightarrow> u32 \<Rightarrow> nat \<Rightarrow> SSUSession \<Rightarrow> SSUSession step" where
  "SendFragmentACK env msg_id fnum s =
     (if fnum > 64 then pure_step s
      else
        let buf = take (64 + 18) (d_stack env); p = SSUSize_value HeaderMin; quot = fnum div 7 in
        bind_result (mem_write p ([SSUFlag_value DataACKBitfieldsIncluded] @ [1] @ word_encode True msg_id
            @ replicate quot 0x80 @ [push_bit (fnum mod 7) 1] @ [0]) buf) (\<lambda>b1.
        let len = (if quot < 4 then 48 else 64) in
        bind_result (seal_data env b1 len s) (\<lambda>(b2, s1).
          SSUSession_Send b2 len s1)))"

section \<open>Establishment\<close>

text \<open>\<open>SSUSession::Established\<close>, which the data layer calls on the first delivery status.\<close>

definition SSUSession_Established :: "DataEnv \<Rightarrow> SSUSession \<Rightarrow> SSUSession step" where
  "SSUSession_Established env s =
     (let r = d_router env; s1 = Start env (s\<lparr>s_State := Established\<rparr>) in
      bind_result (CreateDeliveryStatusMsg (e_sha256 r) (e_rnd1 r) (e_rnd2 r) (e_now r) (d_network_ID env) 0) (\<lambda>status.
      bind_step (Send env status s1) (\<lambda>s2.
      bind_result (CreateDatabaseStoreMsg_router (e_sha256 r) (d_random32 env) (e_now r) (d_gzip env)
          (e_own_ident r) (d_router_buffer env) 0) (\<lambda>store.
      bind_step (Send env store s2) (\<lambda>s3.
      bind_step (emit_step PeerConnected s3) (\<lambda>s4.
      bind_step (if s_PeerTest s4 \<and> d_remote_testing env then emit_step StartPeerTest s4 else pure_step s4)
        (emit_step ScheduleTermination)))))))"

section \<open>Acknowledgements\<close>

definition ProcessSentMessageACK :: "u32 \<Rightarrow> SSUSession \<Rightarrow> SSUSession" where
  "ProcessSentMessageACK msg_id s =
     (if std_count msg_id (m_SentMessages s) then
        let s1 = s\<lparr>m_SentMessages := std_erase msg_id (m_SentMessages s)\<rparr> in
        if m_SentMessages s1 = [] then s1\<lparr>m_ResendTimer := timer_cancel (m_ResendTimer s1)\<rparr> else s1
      else s)"

definition ack_bits :: "u8 \<Rightarrow> nat \<Rightarrow> Fragment option list \<Rightarrow> Fragment option list" where
  "ack_bits bitfield fragment frags =
     foldl (\<lambda>fs j. if bitfield AND push_bit j 1 \<noteq> 0 \<and> fragment + j < length fs
                 then fs[fragment + j := None] else fs) frags [0..<7]"

text \<open>
  The bytes of one bitfield. \<open>it\<close> is the list of fragments of the message, if it is known;
  the position advances only with a byte that has bits set.
\<close>

function ack_loop ::
    "bytes \<Rightarrow> nat \<Rightarrow> nat \<Rightarrow> Fragment option list option \<Rightarrow> (nat \<times> Fragment option list option) result" where
  "ack_loop mem p fragment it =
     bind_result (peek p mem) (\<lambda>b.
       let bitfield = b AND 0x7F;
           (fragment', it') =
             (case it of
                Some frags \<Rightarrow> if bitfield \<noteq> 0 then (fragment + 7, Some (ack_bits bitfield fragment frags))
                              else (fragment, it)
              | None \<Rightarrow> (fragment, it))
       in if b AND 0x80 \<noteq> 0 then ack_loop mem (p + 1) fragment' it' else Inr (p + 1, it'))"
  by pat_completeness auto
termination
  by (relation "measure (\<lambda>(mem, p, fragment, it). length mem - p)") (auto simp: result_simps)

declare ack_loop.simps [simp del]

definition process_bitfield :: "bytes \<Rightarrow> nat \<times> SSUSession \<Rightarrow> nat \<Rightarrow> (nat \<times> SSUSession) result" where
  "process_bitfield mem = (\<lambda>(p, s) i.
     bind_result (Read_buf True p mem) (\<lambda>msg_id.
     let it = std_find msg_id (m_SentMessages s) in
     bind_result (ack_loop mem (p + 4) 0 (map_option sm_fragments it)) (\<lambda>(p', frags).
       Inr (p', case (it, frags) of
          (Some sent, Some fs) \<Rightarrow>
            s\<lparr>m_SentMessages := std_assign msg_id (sent\<lparr>sm_fragments := fs\<rparr>) (m_SentMessages s)\<rparr>
        | _ \<Rightarrow> s))))"

definition ProcessACKs :: "bytes \<Rightarrow> nat \<Rightarrow> u8 \<Rightarrow> SSUSession \<Rightarrow> (nat \<times> SSUSession) result" where
  "ProcessACKs mem p flag s =
     bind_result
       (if has_flag flag DataExplicitACKsIncluded then
          bind_result (peek p mem) (\<lambda>num_ACKs.
          bind_result
            (fold_result (\<lambda>s i. bind_result (Read_buf True (p + 1 + i * 4) mem) (\<lambda>msg_id.
                Inr (ProcessSentMessageACK msg_id s))) s [0..<unat num_ACKs]) (\<lambda>s1.
            Inr (p + 1 + unat num_ACKs * 4, s1)))
        else Inr (p, s)) (\<lambda>(p1, s1).
       if has_flag flag DataACKBitfieldsIncluded then
         bind_result (peek p1 mem) (\<lambda>num_bitfields.
           fold_result (process_bitfield mem) (p1 + 1, s1) [0..<unat num_bitfields])
       else Inr (p1, s1))"

section \<open>Fragments\<close>

definition AttachNextFragment :: "bytes \<Rightarrow> IncompleteMessage \<Rightarrow> IncompleteMessage result" where
  "AttachNextFragment fragment im =
     (let m = im_msg im in
      bind_result
        (if msg_len m + length fragment > msg_max_len m then I2NPMessage_assign m NewI2NPMessage else Inr m) (\<lambda>m1.
      bind_result (put (msg_len m1) fragment m1) (\<lambda>m2.
        Inr (im\<lparr>im_msg := m2\<lparr>msg_len := msg_len m2 + length fragment\<rparr>,
                im_next_fragment_num := im_next_fragment_num im + 1\<rparr>))))"

definition Fragment_new :: "nat \<Rightarrow> bytes \<Rightarrow> bool \<Rightarrow> Fragment result" where
  "Fragment_new num buf is_last =
     (if length buf \<le> SSUSize_value FragmentBuffer
      then Inr \<lparr>fr_num = num, fr_len = length buf, fr_is_last = is_last, fr_buffer = buf\<rparr>
      else Inl MemoryError)"

text \<open>The loop over the saved fragments, from the lowest number on.\<close>

fun try_saved :: "(nat, Fragment) std_map \<Rightarrow> bool \<Rightarrow> IncompleteMessage \<Rightarrow> (bool \<times> IncompleteMessage) result" where
  "try_saved [] is_last im = Inr (is_last, im\<lparr>im_saved_fragments := []\<rparr>)"
| "try_saved ((k, f) # rest) is_last im =
     (if fr_num f = im_next_fragment_num im then
        bind_result (AttachNextFragment (take (fr_len f) (fr_buffer f)) im) (\<lambda>im1.
          try_saved rest (fr_is_last f) im1)
      else Inr (is_last, im\<lparr>im_saved_fragments := (k, f) # rest\<rparr>))"

definition handle_fragment ::
    "DataEnv \<Rightarrow> bytes \<Rightarrow> nat \<Rightarrow> nat \<Rightarrow> nat \<Rightarrow> bool \<Rightarrow> IncompleteMessage \<Rightarrow> (bool \<times> IncompleteMessage) result" where
  "handle_fragment env mem p sz fnum is_last im =
     (if fnum = im_next_fragment_num im then
        bind_result (mem_read p sz mem) (\<lambda>fragment.
        bind_result (AttachNextFragment fragment im) (\<lambda>im1.
          if \<not> is_last \<and> im_saved_fragments im1 \<noteq> []
          then try_saved (im_saved_fragments im1) is_last im1
          else Inr (is_last, im1)))
      else if fnum < im_next_fragment_num im then Inr (False, im)
      else
        bind_result (mem_read p sz mem) (\<lambda>fragment.
        bind_result (Fragment_new fnum fragment is_last) (\<lambda>f.
          Inr (False,
            if std_count fnum (im_saved_fragments im) then im
            else im\<lparr>im_saved_fragments := std_insert fnum f (im_saved_fragments im),
                    im_last_fragment_insert_time := word_of_nat (d_seconds env)\<rparr>))))"

definition put_next_message :: "DataEnv \<Rightarrow> I2NPMessage \<Rightarrow> SSUSession \<Rightarrow> SSUSession step" where
  "put_next_message env m s =
     bind_result (PutNextMessage (d_router env) (Some m) (m_Handler s)) (\<lambda>(acts, h).
       Inr (s\<lparr>m_Handler := h\<rparr>, map HandlerAction acts))"

text \<open>A complete message, after it has been taken out of the incomplete ones.\<close>

definition process_complete :: "DataEnv \<Rightarrow> u32 \<Rightarrow> I2NPMessage \<Rightarrow> SSUSession \<Rightarrow> SSUSession step" where
  "process_complete env msg_id m s =
     bind_step (SendMsgACK env msg_id s) (\<lambda>s1.
     bind_result (FromSSU msg_id m) (\<lambda>m1.
     if s_State s1 = Established then
       if \<not> std_count msg_id (m_ReceivedMessages s1) then
         let s2 = (if length (m_ReceivedMessages s1) > SSUSize_value MaxReceivedMessages
                   then s1\<lparr>m_ReceivedMessages := []\<rparr> else ScheduleDecay env s1);
             s3 = s2\<lparr>m_ReceivedMessages := std_insert msg_id () (m_ReceivedMessages s2)\<rparr>
         in put_next_message env m1 s3
       else pure_step s1
     else
       bind_result (GetTypeID m1) (\<lambda>t.
         if t = type_code I2NPDeliveryStatus then SSUSession_Established env s1
         else if t = type_code I2NPDatabaseStore then
           put_next_message env m1 (s1\<lparr>m_ReceivedMessages := std_insert msg_id () (m_ReceivedMessages s1)\<rparr>)
         else pure_step s1)))"

definition new_incomplete :: IncompleteMessage where
  "new_incomplete =
     (let m = NewI2NPShortMessage in
      \<lparr>im_msg = m\<lparr>msg_len := msg_len m - I2NP_SHORT_HEADER_SIZE\<rparr>, im_next_fragment_num = 0,
       im_last_fragment_insert_time = 0, im_saved_fragments = []\<rparr>)"

text \<open>
  One round of the loop over the fragments of a packet: the next position, or \<open>None\<close> when the
  function returns because the fragment is too long.
\<close>

definition process_fragment :: "DataEnv \<Rightarrow> bytes \<Rightarrow> nat \<Rightarrow> SSUSession \<Rightarrow> (nat option \<times> SSUSession) step" where
  "process_fragment env mem p s =
     bind_result (Read_buf True p mem) (\<lambda>msg_id.
     bind_result (mem_read (p + 4) 3 mem) (\<lambda>frag.
     let fragment_info = word_decode True (0 # frag) :: u32;
         sz = unat (fragment_info AND 0x3FFF);
         is_last = (fragment_info AND 0x010000 \<noteq> 0);
         fnum = unat (ucast (drop_bit 17 fragment_info) :: u8)
     in if sz \<ge> SSUSize_value PacketMaxIPv4 then pure_step (None, s)
        else
          let im = (case std_find msg_id (m_IncompleteMessages s) of Some im \<Rightarrow> im | None \<Rightarrow> new_incomplete) in
          bind_result (handle_fragment env mem (p + 7) sz fnum is_last im) (\<lambda>(complete, im1).
          bind_step
            (if complete then
               process_complete env msg_id (im_msg im1)
                 (s\<lparr>m_IncompleteMessages := std_erase msg_id (m_IncompleteMessages s)\<rparr>)
             else
               SendFragmentACK env msg_id fnum
                 (s\<lparr>m_IncompleteMessages := std_assign msg_id im1 (m_IncompleteMessages s)\<rparr>)) (\<lambda>s1.
          pure_step (Some (p + 7 + sz), s1)))))"

fun process_fragments :: "nat \<Rightarrow> DataEnv \<Rightarrow> bytes \<Rightarrow> nat \<Rightarrow> SSUSession \<Rightarrow> SSUSession step" where
  "process_fragments 0 env mem p s = pure_step s"
| "process_fragments (Suc n) env mem p s =
     bind_step (process_fragment env mem p s) (\<lambda>(next, s1).
       case next of
         None \<Rightarrow> pure_step s1
       | Some p1 \<Rightarrow> process_fragments n env mem p1 s1)"

definition ProcessFragments :: "DataEnv \<Rightarrow> bytes \<Rightarrow> nat \<Rightarrow> SSUSession \<Rightarrow> SSUSession step" where
  "ProcessFragments env mem p s =
     bind_result (peek p mem) (\<lambda>num_fragments. process_fragments (unat num_fragments) env mem (p + 1) s)"

text \<open>\<open>mem\<close> is the receive buffer from the payload on; the length argument is not used.\<close>

definition ProcessMessage :: "DataEnv \<Rightarrow> bytes \<Rightarrow> nat \<Rightarrow> SSUSession \<Rightarrow> SSUSession step" where
  "ProcessMessage env mem len s =
     bind_result (peek 0 mem) (\<lambda>flag.
     bind_result
       (if flag AND (SSUFlag_value DataACKBitfieldsIncluded OR SSUFlag_value DataExplicitACKsIncluded) \<noteq> 0
        then ProcessACKs mem 1 flag s else Inr (1, s)) (\<lambda>(p1, s1).
     bind_result
       (if has_flag flag DataExtendedIncluded
        then bind_result (peek p1 mem) (\<lambda>extended_data_size. Inr (p1 + 1 + unat extended_data_size))
        else Inr p1) (\<lambda>p2.
       ProcessFragments env mem p2 s1)))"

definition FlushReceivedMessage :: "SSUSession \<Rightarrow> SSUSession \<times> event list" where
  "FlushReceivedMessage s =
     (let (acts, h) = Flush (m_Handler s) in (s\<lparr>m_Handler := h\<rparr>, map HandlerAction acts))"

section \<open>Timer handlers\<close>

text \<open>
  Called with no error code: the timer has expired. Resending visits the fragments that have
  not been acknowledged.
\<close>

fun resend_fragments :: "Fragment option list \<Rightarrow> SSUSession \<Rightarrow> SSUSession step" where
  "resend_fragments [] s = pure_step s"
| "resend_fragments (None # fs) s = resend_fragments fs s"
| "resend_fragments (Some f # fs) s =
     bind_step (SSUSession_Send (fr_buffer f) (fr_len f) s) (resend_fragments fs)"

fun resend_messages ::
    "nat \<Rightarrow> (u32, SentMessage) std_map \<Rightarrow> SSUSession \<Rightarrow> ((u32, SentMessage) std_map \<times> SSUSession) step" where
  "resend_messages ts [] s = pure_step ([], s)"
| "resend_messages ts ((k, sent) # rest) s =
     (if ts \<ge> unat (sm_next_resend_time sent) then
        if sm_num_resends sent < SSUDuration_value MaxResends then
          bind_step (resend_fragments (sm_fragments sent) s) (\<lambda>s1.
          let n = sm_num_resends sent + 1;
              sent' = sent\<lparr>sm_num_resends := n,
                          sm_next_resend_time := sm_next_resend_time sent
                            + word_of_nat (n * SSUDuration_value ResendInterval)\<rparr>
          in bind_step (resend_messages ts rest s1) (\<lambda>(rest', s2). pure_step ((k, sent') # rest', s2)))
        else resend_messages ts rest s
      else bind_step (resend_messages ts rest s) (\<lambda>(rest', s1). pure_step ((k, sent) # rest', s1)))"

definition HandleResendTimer :: "DataEnv \<Rightarrow> SSUSession \<Rightarrow> SSUSession step" where
  "HandleResendTimer env s =
     bind_step (resend_messages (d_seconds env) (m_SentMessages s) s) (\<lambda>(sent, s1).
       pure_step (ScheduleResend env (s1\<lparr>m_SentMessages := sent\<rparr>)))"

definition HandleDecayTimer :: "SSUSession \<Rightarrow> SSUSession" where
  "HandleDecayTimer s = s\<lparr>m_ReceivedMessages := []\<rparr>"

definition HandleIncompleteMessagesCleanupTimer :: "DataEnv \<Rightarrow> SSUSession \<Rightarrow> SSUSession" where
  "HandleIncompleteMessagesCleanupTimer env s =
     ScheduleIncompleteMessagesCleanup env
       (s\<lparr>m_IncompleteMessages := filter (\<lambda>(k, im).
            \<not> d_seconds env > unat (im_last_fragment_insert_time im
              + word_of_nat (SSUDuration_value IncompleteMessagesCleanupTimeout))) (m_IncompleteMessages s)\<rparr>)"

section \<open>Attaching fragments\<close>

text \<open>
  The message being assembled holds \<open>d\<close> behind the place of the header, in a short buffer or,
  once it has outgrown that, in a long one whose recorded capacity is still the short one.
\<close>

definition assembled :: "bytes \<Rightarrow> I2NPMessage \<Rightarrow> bool" where
  "assembled d m \<longleftrightarrow> msg_offset m = 2 \<and> msg_max_len m = I2NP_MAX_SHORT_MESSAGE_SIZE \<and>
     msg_len m = 13 + length d \<and> msg_len m \<le> length (msg_buf m) \<and> slice 13 (length d) (msg_buf m) = d \<and>
     (length (msg_buf m) = I2NP_MAX_SHORT_MESSAGE_SIZE + 16 \<or> length (msg_buf m) = I2NP_MAX_MESSAGE_SIZE + 16)"

lemma NewI2NPMessage_fields:
  "msg_offset NewI2NPMessage = 2" "length (msg_buf NewI2NPMessage) = 32784"
  by (simp_all add: NewI2NPMessage_def I2NPMessageBuffer_def i2np_sizes del: replicate.simps)

text \<open>Moving to a long buffer keeps what is assembled.\<close>

lemma assembled_regrow:
  assumes "assembled d m" and "length d \<le> 32771"
  shows "\<exists>m'. I2NPMessage_assign m NewI2NPMessage = Inr m' \<and> assembled d m' \<and> length (msg_buf m') = 32784"
proof -
  let ?n = "NewI2NPMessage"
  note a = assms(1) [unfolded assembled_def i2np_sizes]
  let ?bs = "slice 2 (11 + length d) (msg_buf m)"
  have bs: "length ?bs = 11 + length d" using a by (auto simp: min_def)
  have rd: "mem_read (msg_offset m) (GetLength m) (msg_buf m) = Inr ?bs"
    using a by (simp add: mem_read_def msg_accessors)
  have wr: "put (msg_offset ?n) ?bs ?n = Inr (put_at 2 ?bs ?n)"
    using bs assms(2) by (simp add: put_eq NewI2NPMessage_fields)
  let ?m' = "(put_at 2 ?bs ?n)\<lparr>msg_len := msg_offset ?n + GetLength m, msg_from := msg_from m,
    msg_max_len := msg_max_len m\<rparr>"
  have "slice 13 (length d) (poke 2 ?bs (msg_buf ?n)) = slice 11 (length d) ?bs"
    using bs assms(2) by (subst slice_poke_inside) (simp_all add: NewI2NPMessage_fields)
  also have "\<dots> = slice 13 (length d) (msg_buf m)" by (simp add: slice_slice)
  finally have c: "slice 13 (length d) (poke 2 ?bs (msg_buf ?n)) = d" using a by simp
  have "length (poke 2 ?bs (msg_buf ?n)) = 32784"
    using bs assms(2) length_poke [of 2 ?bs "msg_buf ?n"] by (simp add: NewI2NPMessage_fields)
  then have "assembled d ?m'" "length (msg_buf ?m') = 32784"
    using a c assms(2) by (simp_all add: assembled_def i2np_sizes NewI2NPMessage_fields msg_accessors)
  then show ?thesis using rd wr by (simp add: I2NPMessage_assign_def)
qed

lemma assembled_append:
  assumes "assembled d m" and "13 + length d + length f \<le> length (msg_buf m)"
  shows "put (msg_len m) f m = Inr (put_at (msg_len m) f m)"
    and "assembled (d @ f) ((put_at (msg_len m) f m)\<lparr>msg_len := msg_len m + length f\<rparr>)"
proof -
  note a = assms(1) [unfolded assembled_def]
  show "put (msg_len m) f m = Inr (put_at (msg_len m) f m)"
    using a assms(2) by (simp add: put_eq)
  have "slice 13 (length d + length f) (poke (13 + length d) f (msg_buf m)) = d @ f"
    unfolding slice_add using a assms(2) by (simp add: slice_poke_before)
  then show "assembled (d @ f) ((put_at (msg_len m) f m)\<lparr>msg_len := msg_len m + length f\<rparr>)"
    using a assms(2) by (simp add: assembled_def)
qed

lemma AttachNextFragment_ok:
  assumes "assembled d (im_msg im)" and "length d + length f \<le> 32771"
  shows "\<exists>im'. AttachNextFragment f im = Inr im' \<and> assembled (d @ f) (im_msg im') \<and>
    im_next_fragment_num im' = im_next_fragment_num im + 1 \<and>
    im_saved_fragments im' = im_saved_fragments im \<and>
    im_last_fragment_insert_time im' = im_last_fragment_insert_time im"
proof -
  let ?m = "im_msg im"
  note a = assms(1) [unfolded assembled_def i2np_sizes]
  have "\<exists>m1. (if msg_len ?m + length f > msg_max_len ?m then I2NPMessage_assign ?m NewI2NPMessage else Inr ?m) = Inr m1
      \<and> assembled d m1 \<and> 13 + length d + length f \<le> length (msg_buf m1)"
  proof (cases "msg_len ?m + length f > msg_max_len ?m")
    case True
    then show ?thesis using assembled_regrow [OF assms(1)] assms(2) by auto
  next
    case False
    then show ?thesis using a assms(1) by auto
  qed
  then obtain m1 where m1: "(if msg_len ?m + length f > msg_max_len ?m then I2NPMessage_assign ?m NewI2NPMessage
      else Inr ?m) = Inr m1" "assembled d m1" "13 + length d + length f \<le> length (msg_buf m1)" by blast
  note ap = assembled_append [OF m1(2,3)]
  show ?thesis
    unfolding AttachNextFragment_def Let_def m1(1) bind_result_Inr ap(1) using ap(2) by simp
qed

lemma AttachNextFragment_overflow:
  assumes "assembled d (im_msg im)" and "\<not> length d + length f \<le> 32771"
  shows "AttachNextFragment f im = Inl MemoryError"
proof -
  let ?m = "im_msg im"
  note a = assms(1) [unfolded assembled_def i2np_sizes]
  have grow: "msg_len ?m + length f > msg_max_len ?m" "length d \<le> 32771" using a assms(2) by auto
  obtain m1 where m1: "I2NPMessage_assign ?m NewI2NPMessage = Inr m1" "assembled d m1" "length (msg_buf m1) = 32784"
    using assembled_regrow [OF assms(1) grow(2)] by blast
  then have "put (msg_len m1) f m1 = Inl MemoryError"
    using assms(2) by (simp add: put_def mem_write_def assembled_def)
  then show ?thesis
    unfolding AttachNextFragment_def Let_def using grow(1) m1(1) by simp
qed

section \<open>Reassembly as a set of received fragments\<close>

text \<open>
  \<open>cs\<close> are the pieces of one message. The abstract state of its reassembly is the set of the
  numbers received so far; the concrete state is a prefix that has been put together and a
  sorted collection of later pieces.
\<close>

definition pieces_ok :: "bytes list \<Rightarrow> bool" where
  "pieces_ok cs \<longleftrightarrow> cs \<noteq> [] \<and> length cs \<le> 128 \<and> (\<forall>c \<in> set cs. length c < SSUSize_value PacketMaxIPv4) \<and>
     length (concat cs) \<le> 32771"

definition frag_of :: "bytes list \<Rightarrow> nat \<Rightarrow> Fragment" where
  "frag_of cs i = \<lparr>fr_num = i, fr_len = length (cs ! i), fr_is_last = (i + 1 = length cs), fr_buffer = cs ! i\<rparr>"

definition saved_from :: "bytes list \<Rightarrow> nat \<Rightarrow> (nat, Fragment) std_map \<Rightarrow> bool" where
  "saved_from cs k sv \<longleftrightarrow> std_inv sv \<and> (\<forall>(j, f) \<in> set sv. k \<le> j \<and> j < length cs \<and> f = frag_of cs j)"

definition received :: "IncompleteMessage \<Rightarrow> nat set" where
  "received im = {0..<im_next_fragment_num im} \<union> fst ` set (im_saved_fragments im)"

definition prefix_ok :: "bytes list \<Rightarrow> IncompleteMessage \<Rightarrow> bool" where
  "prefix_ok cs im \<longleftrightarrow> im_next_fragment_num im \<le> length cs \<and>
     assembled (concat (take (im_next_fragment_num im) cs)) (im_msg im)"

definition partial :: "bytes list \<Rightarrow> IncompleteMessage \<Rightarrow> bool" where
  "partial cs im \<longleftrightarrow> prefix_ok cs im \<and> im_next_fragment_num im < length cs \<and>
     saved_from cs (Suc (im_next_fragment_num im)) (im_saved_fragments im)"

lemma piece_short: "pieces_ok cs \<Longrightarrow> i < length cs \<Longrightarrow> length (cs ! i) < 1456"
  by (simp add: pieces_ok_def)

lemma concat_take_le:
  assumes "pieces_ok cs"
  shows "length (concat (take k cs)) \<le> 32771"
proof -
  have "length (concat cs) = length (concat (take k cs)) + length (concat (drop k cs))"
    by (metis append_take_drop_id concat_append length_append)
  then show ?thesis using assms by (simp add: pieces_ok_def)
qed

lemma attach_piece:
  assumes "pieces_ok cs" and "prefix_ok cs im" and "im_next_fragment_num im < length cs"
  shows "\<exists>im'. AttachNextFragment (cs ! im_next_fragment_num im) im = Inr im' \<and> prefix_ok cs im' \<and>
    im_next_fragment_num im' = Suc (im_next_fragment_num im) \<and>
    im_saved_fragments im' = im_saved_fragments im \<and>
    im_last_fragment_insert_time im' = im_last_fragment_insert_time im"
proof -
  let ?k = "im_next_fragment_num im"
  have t: "concat (take (Suc ?k) cs) = concat (take ?k cs) @ cs ! ?k"
    using assms(3) by (simp add: take_Suc_conv_app_nth)
  then have "length (concat (take ?k cs)) + length (cs ! ?k) \<le> 32771"
    using concat_take_le [OF assms(1), of "Suc ?k"] by simp
  then show ?thesis
    using AttachNextFragment_ok [of "concat (take ?k cs)" im "cs ! ?k"] assms(2,3)
    unfolding prefix_ok_def t by (auto simp: t)
qed

lemma saved_from_Cons:
  "saved_from cs k ((j, f) # sv) \<longleftrightarrow>
     k \<le> j \<and> j < length cs \<and> f = frag_of cs j \<and> saved_from cs (Suc j) sv"
  by (fastforce simp: saved_from_def Suc_le_eq)

lemma saved_from_mono: "saved_from cs k sv \<Longrightarrow> k' \<le> k \<Longrightarrow> saved_from cs k' sv"
  by (fastforce simp: saved_from_def)

lemma saved_from_insert:
  assumes "saved_from cs k sv" and "k \<le> i" and "i < length cs"
  shows "saved_from cs k (std_insert i (frag_of cs i) sv)"
proof -
  have "set (std_insert i (frag_of cs i) sv) \<subseteq> insert (i, frag_of cs i) (set sv)"
    by (rule set_std_insert)
  then show ?thesis
    using assms unfolding saved_from_def by (auto simp: sm.invar_insert)
qed

lemma try_saved_spec:
  assumes cs: "pieces_ok cs"
  shows "prefix_ok cs im \<Longrightarrow> saved_from cs (im_next_fragment_num im) sv \<Longrightarrow>
    \<exists>l' im'. try_saved sv l im = Inr (l', im') \<and> prefix_ok cs im' \<and>
      im_next_fragment_num im \<le> im_next_fragment_num im' \<and>
      saved_from cs (Suc (im_next_fragment_num im')) (im_saved_fragments im') \<and>
      received im' = {0..<im_next_fragment_num im} \<union> fst ` set sv \<and>
      l' = (if im_next_fragment_num im' = im_next_fragment_num im then l
            else im_next_fragment_num im' = length cs) \<and>
      im_last_fragment_insert_time im' = im_last_fragment_insert_time im"
proof (induction sv arbitrary: l im)
  case Nil
  then show ?case by (auto simp: prefix_ok_def saved_from_def received_def)
next
  case (Cons a sv)
  obtain j f where a: "a = (j, f)" by (cases a)
  let ?k = "im_next_fragment_num im"
  from Cons.prems a have s: "?k \<le> j" "j < length cs" "f = frag_of cs j" "saved_from cs (Suc j) sv"
    by (simp_all add: saved_from_Cons)
  show ?case
  proof (cases "j = ?k")
    case True
    obtain im1 where im1: "AttachNextFragment (cs ! ?k) im = Inr im1" "prefix_ok cs im1"
      "im_next_fragment_num im1 = Suc ?k" "im_last_fragment_insert_time im1 = im_last_fragment_insert_time im"
      using attach_piece [OF cs Cons.prems(1)] s True by auto
    have "saved_from cs (im_next_fragment_num im1) sv" using s True im1(3) by simp
    from Cons.IH [OF im1(2) this, of "fr_is_last f"] obtain l' im' where
      r: "try_saved sv (fr_is_last f) im1 = Inr (l', im')" "prefix_ok cs im'"
        "Suc ?k \<le> im_next_fragment_num im'"
        "saved_from cs (Suc (im_next_fragment_num im')) (im_saved_fragments im')"
        "received im' = {0..<Suc ?k} \<union> fst ` set sv"
        "l' = (if im_next_fragment_num im' = Suc ?k then fr_is_last f else im_next_fragment_num im' = length cs)"
        "im_last_fragment_insert_time im' = im_last_fragment_insert_time im"
      unfolding im1(3,4) by blast
    have "l' = (im_next_fragment_num im' = length cs)"
      using r(6) s True by (auto simp: frag_of_def)
    moreover have "try_saved (a # sv) l im = Inr (l', im')"
      using r(1) im1(1) s True a by (simp add: frag_of_def)
    moreover have "received im' = {0..<?k} \<union> fst ` set (a # sv)"
      using r(5) a True by auto
    ultimately show ?thesis using r(2,3,4,7) by (intro exI [of _ l'] exI [of _ im']) auto
  next
    case False
    then have "saved_from cs (Suc ?k) ((j, f) # sv)" using s by (simp add: saved_from_Cons)
    then show ?thesis using False s Cons.prems(1) a
      by (auto simp: frag_of_def received_def prefix_ok_def)
  qed
qed

lemma received_bound:
  assumes "partial cs im"
  shows "received im \<subseteq> {0..<length cs}" and "im_next_fragment_num im \<notin> received im"
    and "j \<notin> fst ` set (im_saved_fragments im) \<Longrightarrow> im_next_fragment_num im < j \<Longrightarrow> j \<notin> received im"
  using assms by (force simp: partial_def saved_from_def received_def)+

text \<open>The set is full exactly when the prefix is the whole message.\<close>

lemma received_full:
  assumes "prefix_ok cs im" and "saved_from cs (Suc (im_next_fragment_num im)) (im_saved_fragments im)"
  shows "received im = {0..<length cs} \<longleftrightarrow> im_next_fragment_num im = length cs"
    and "if im_next_fragment_num im = length cs then assembled (concat cs) (im_msg im) else partial cs im"
proof -
  show "if im_next_fragment_num im = length cs then assembled (concat cs) (im_msg im) else partial cs im"
    using assms by (auto simp: prefix_ok_def partial_def)
  show "received im = {0..<length cs} \<longleftrightarrow> im_next_fragment_num im = length cs"
  proof (cases "im_next_fragment_num im = length cs")
    case True
    then have "im_saved_fragments im = []"
      using assms(2) by (cases "im_saved_fragments im") (auto simp: saved_from_def)
    with True show ?thesis by (simp add: received_def)
  next
    case False
    then have "im_next_fragment_num im < length cs" "partial cs im"
      using assms by (simp_all add: prefix_ok_def partial_def)
    with received_bound(2) False show ?thesis by fastforce
  qed
qed

lemma handle_expected:
  assumes cs: "pieces_ok cs" and im: "partial cs im" and rd: "mem_read p sz mem = Inr (cs ! im_next_fragment_num im)"
  shows "\<exists>c im'. handle_fragment env mem p sz (im_next_fragment_num im) (im_next_fragment_num im + 1 = length cs) im
      = Inr (c, im') \<and> received im' = insert (im_next_fragment_num im) (received im) \<and>
    c = (im_next_fragment_num im' = length cs) \<and> prefix_ok cs im' \<and>
    saved_from cs (Suc (im_next_fragment_num im')) (im_saved_fragments im')"
proof -
  let ?k = "im_next_fragment_num im" let ?l = "?k + 1 = length cs"
  note pim = im [unfolded partial_def]
  obtain im1 where im1: "AttachNextFragment (cs ! ?k) im = Inr im1" "prefix_ok cs im1"
    "im_next_fragment_num im1 = Suc ?k" "im_saved_fragments im1 = im_saved_fragments im"
    using attach_piece [OF cs] pim by blast
  have "im_saved_fragments im = []" if ?l
    using pim that by (cases "im_saved_fragments im") (auto simp: saved_from_Cons)
  then have h: "handle_fragment env mem p sz ?k ?l im = try_saved (im_saved_fragments im) ?l im1"
    using rd im1 by (auto simp: handle_fragment_def)
  have "saved_from cs (im_next_fragment_num im1) (im_saved_fragments im)" using pim im1(3) by simp
  from try_saved_spec [OF cs im1(2) this, of ?l] obtain l' im' where
    r: "try_saved (im_saved_fragments im) ?l im1 = Inr (l', im')" "prefix_ok cs im'"
      "saved_from cs (Suc (im_next_fragment_num im')) (im_saved_fragments im')"
      "received im' = {0..<Suc ?k} \<union> fst ` set (im_saved_fragments im)"
      "l' = (if im_next_fragment_num im' = Suc ?k then ?l else im_next_fragment_num im' = length cs)"
    unfolding im1(3) by blast
  have "received im' = insert ?k (received im)" using r(4) by (auto simp: received_def)
  moreover have "l' = (im_next_fragment_num im' = length cs)" using r(5) by auto
  ultimately show ?thesis using h r(1-3) by (intro exI [of _ l'] exI [of _ im']) simp
qed

lemma handle_early:
  assumes cs: "pieces_ok cs" and im: "partial cs im" and i: "i < length cs" "im_next_fragment_num im < i"
    and rd: "mem_read p sz mem = Inr (cs ! i)"
  shows "\<exists>im'. handle_fragment env mem p sz i (i + 1 = length cs) im = Inr (False, im') \<and>
    received im' = insert i (received im) \<and> partial cs im'"
proof (cases "std_count i (im_saved_fragments im)")
  case True
  then have "i \<in> received im" by (auto simp: received_def std_count_def std_find_None_iff)
  then show ?thesis
    using True i rd im piece_short [OF cs i(1)] by (auto simp: handle_fragment_def Fragment_new_def)
next
  case False
  let ?im = "im\<lparr>im_saved_fragments := std_insert i (frag_of cs i) (im_saved_fragments im),
              im_last_fragment_insert_time := word_of_nat (d_seconds env)\<rparr>"
  have "handle_fragment env mem p sz i (i + 1 = length cs) im = Inr (False, ?im)"
    using False i rd piece_short [OF cs i(1)] by (simp add: handle_fragment_def Fragment_new_def frag_of_def)
  moreover have "partial cs ?im"
    using im i by (auto simp: partial_def prefix_ok_def intro!: saved_from_insert)
  moreover have "received ?im = insert i (received im)" by (auto simp: received_def)
  ultimately show ?thesis by blast
qed

text \<open>
  One fragment: the concrete step adds its number to the set, and reports completion exactly
  when the set is full; the message then holds all pieces in order.
\<close>

lemma handle_fragment_refines:
  assumes cs: "pieces_ok cs" and im: "partial cs im" and i: "i < length cs"
    and rd: "mem_read p sz mem = Inr (cs ! i)"
  shows "\<exists>c im'. handle_fragment env mem p sz i (i + 1 = length cs) im = Inr (c, im') \<and>
    received im' = insert i (received im) \<and> c = (insert i (received im) = {0..<length cs}) \<and>
    (if c then assembled (concat cs) (im_msg im') else partial cs im')"
proof -
  have not_full: "received im' \<noteq> {0..<length cs}" if "partial cs im'" for im'
    using received_full(1) [of cs im'] that by (simp add: partial_def)
  consider "i = im_next_fragment_num im" | "i < im_next_fragment_num im" | "im_next_fragment_num im < i"
    by linarith
  then show ?thesis
  proof cases
    case 1
    obtain c im' where h: "handle_fragment env mem p sz i (i + 1 = length cs) im = Inr (c, im')"
      "received im' = insert i (received im)" "c = (im_next_fragment_num im' = length cs)" "prefix_ok cs im'"
      "saved_from cs (Suc (im_next_fragment_num im')) (im_saved_fragments im')"
      using handle_expected [OF cs im, of p sz mem env] rd unfolding 1 by blast
    from received_full [OF h(4,5)] h(1-3) show ?thesis by auto
  next
    case 2
    then have "insert i (received im) = received im" by (auto simp: received_def)
    then show ?thesis
      using 2 im not_full [OF im] by (intro exI [of _ False] exI [of _ im]) (simp add: handle_fragment_def)
  next
    case 3
    obtain im' where h: "handle_fragment env mem p sz i (i + 1 = length cs) im = Inr (False, im')"
      "received im' = insert i (received im)" "partial cs im'"
      using handle_early [OF cs im i 3 rd] by blast
    then show ?thesis using not_full [OF h(3)] by (intro exI [of _ False] exI [of _ im']) simp
  qed
qed

section \<open>The three bytes of fragment information\<close>

definition fragment_info :: "nat \<Rightarrow> bool \<Rightarrow> nat \<Rightarrow> u32" where
  "fragment_info num is_last sz =
     push_bit 17 (word_of_nat num) OR (if is_last then 0x010000 else 0) OR word_of_nat sz"

lemma bit_small_word:
  assumes "x < 2 ^ k"
  shows "bit (word_of_nat x :: u32) n \<longleftrightarrow> n < 32 \<and> n < k \<and> bit x n"
proof -
  have "\<not> bit x n" if "k \<le> n"
  proof -
    have "x < 2 ^ n" using assms that by (meson order_less_le_trans one_le_numeral power_increasing)
    then show ?thesis by (simp add: bit_iff_odd)
  qed
  then show ?thesis by (auto simp: bit_simps not_le [symmetric])
qed

lemma bit_last_flag: "bit (0x010000 :: int) n \<longleftrightarrow> n = 16"
proof -
  have e: "(0x010000 :: int) = 2 ^ 16" by simp
  show ?thesis unfolding e bit_exp_iff by auto
qed

lemma bit_fragment_info:
  assumes "num < 128" and "sz < 16384"
  shows "bit (fragment_info num is_last sz) n \<longleftrightarrow>
    n < 24 \<and> (if n < 14 then bit sz n else if n < 16 then False else if n = 16 then is_last else bit num (n - 17))"
proof -
  have num: "bit (word_of_nat num :: u32) m \<longleftrightarrow> m < 7 \<and> bit num m" for m
    using bit_small_word [of num 7 m] assms(1) by auto
  have sz: "bit (word_of_nat sz :: u32) m \<longleftrightarrow> m < 14 \<and> bit sz m" for m
    using bit_small_word [of sz 14 m] assms(2) by auto
  show ?thesis
    unfolding fragment_info_def bit_or_iff sz
    by (auto simp: bit_push_bit_iff num bit_last_flag)
qed

lemma fragment_info_fields:
  assumes "num < 128" and "sz < 16384"
  shows "unat (fragment_info num is_last sz AND 0x3FFF) = sz"
    and "(fragment_info num is_last sz AND 0x010000 \<noteq> 0) = is_last"
    and "unat (ucast (drop_bit 17 (fragment_info num is_last sz)) :: u8) = num"
    and "unat (fragment_info num is_last sz) < 2 ^ 24"
proof -
  note b = bit_fragment_info [OF assms]
  have m: "(0x3FFF :: u32) = mask 14" by (simp add: mask_eq_exp_minus_1)
  have "fragment_info num is_last sz AND 0x3FFF = word_of_nat sz"
    unfolding m using assms(2)
    by (intro bit_word_eqI) (auto simp: bit_and_iff b bit_mask_iff bit_small_word [of sz 14])
  then show "unat (fragment_info num is_last sz AND 0x3FFF) = sz"
    using assms(2) by (simp add: unat_of_nat take_bit_eq_mod)
  have "fragment_info num is_last sz AND 0x010000 = (if is_last then 0x010000 else 0)"
    by (intro bit_word_eqI) (auto simp: bit_and_iff b bit_last_flag)
  then show "(fragment_info num is_last sz AND 0x010000 \<noteq> 0) = is_last" by simp
  have "bit (word_of_nat num :: u8) n \<longleftrightarrow> n < 7 \<and> bit num n" for n
  proof -
    have "\<not> bit num n" if "7 \<le> n"
    proof -
      have "(2 :: nat) ^ 7 \<le> 2 ^ n" using that by (intro power_increasing) simp_all
      then show ?thesis using assms(1) by (simp add: bit_iff_odd)
    qed
    then show ?thesis by (auto simp: bit_simps not_le [symmetric])
  qed
  then have "(ucast (drop_bit 17 (fragment_info num is_last sz)) :: u8) = word_of_nat num"
    by (intro bit_word_eqI) (auto simp: bit_simps b)
  then show "unat (ucast (drop_bit 17 (fragment_info num is_last sz)) :: u8) = num"
    using assms(1) by (simp add: unat_of_nat take_bit_eq_mod)
  have "fragment_info num is_last sz = take_bit 24 (fragment_info num is_last sz)"
    by (intro bit_word_eqI) (auto simp: bit_take_bit_iff b)
  then have "unat (fragment_info num is_last sz) = unat (take_bit 24 (fragment_info num is_last sz))" by simp
  also have "\<dots> < 2 ^ 24" unfolding unsigned_take_bit_eq by (rule take_bit_nat_less_exp)
  finally show "unat (fragment_info num is_last sz) < 2 ^ 24" .
qed

lemma be_encode_4:
  "be_encode 4 x = [word_of_nat (x div 256 div 256 div 256), word_of_nat (x div 256 div 256),
     word_of_nat (x div 256), word_of_nat x]"
proof -
  have four: "(4 :: nat) = Suc (Suc (Suc (Suc 0)))" by simp
  show ?thesis unfolding four by simp
qed

lemma word_encode_fragment_info:
  assumes "num < 128" and "sz < 16384"
  shows "word_decode True (0 # fragment_info_bytes num is_last sz) = fragment_info num is_last sz"
    and "length (fragment_info_bytes num is_last sz) = 3"
proof -
  let ?i = "fragment_info num is_last sz"
  have fb: "fragment_info_bytes num is_last sz = drop 1 (word_encode True ?i)"
    by (simp add: fragment_info_bytes_def fragment_info_def Let_def)
  have e: "word_encode True ?i = be_encode 4 (unat ?i)"
    by (simp add: word_encode_def)
  have "unat ?i div 256 div 256 div 256 = unat ?i div 2 ^ 24"
    by (simp add: div_mult2_eq [symmetric])
  also have "\<dots> = 0" using fragment_info_fields(4) [OF assms, of is_last] by (rule div_less)
  finally have "word_encode True ?i = 0 # drop 1 (word_encode True ?i)"
    unfolding e be_encode_4 by simp
  then show "word_decode True (0 # fragment_info_bytes num is_last sz) = ?i"
    unfolding fb by (metis word_decode_encode_widths(3))
  show "length (fragment_info_bytes num is_last sz) = 3" by (simp add: fb)
qed

section \<open>Packets with fragments\<close>

text \<open>The part of a packet that carries piece \<open>i\<close> of the message \<open>msg_id\<close>.\<close>

definition fragment_bytes :: "u32 \<Rightarrow> bytes list \<Rightarrow> nat \<Rightarrow> bytes" where
  "fragment_bytes msg_id cs i =
     word_encode True msg_id @ fragment_info_bytes i (i + 1 = length cs) (length (cs ! i)) @ cs ! i"

text \<open>The session has received the pieces \<open>R\<close> of the message \<open>msg_id\<close>, and not all of them.\<close>

definition reassembling :: "bytes list \<Rightarrow> u32 \<Rightarrow> nat set \<Rightarrow> SSUSession \<Rightarrow> bool" where
  "reassembling cs msg_id R s \<longleftrightarrow> std_inv (m_IncompleteMessages s) \<and>
     (case std_find msg_id (m_IncompleteMessages s) of
        None \<Rightarrow> R = {}
      | Some im \<Rightarrow> partial cs im \<and> received im = R)"

lemma new_incomplete_partial: "cs \<noteq> [] \<Longrightarrow> partial cs new_incomplete" "received new_incomplete = {}"
  by (simp_all add: partial_def prefix_ok_def assembled_def new_incomplete_def Let_def NewI2NPShortMessage_def
      I2NPMessageBuffer_def i2np_sizes saved_from_def received_def del: replicate.simps)

lemma process_fragment_parse:
  assumes "pieces_ok cs" and "i < length cs"
    and "mem = pre @ fragment_bytes msg_id cs i @ rest" and "p = length pre"
  shows "process_fragment env mem p s =
    (let im = (case std_find msg_id (m_IncompleteMessages s) of Some im \<Rightarrow> im | None \<Rightarrow> new_incomplete);
         n = length (cs ! i) in
     bind_result (handle_fragment env mem (p + 7) n i (i + 1 = length cs) im) (\<lambda>(complete, im1).
     bind_step
       (if complete then
          process_complete env msg_id (im_msg im1)
            (s\<lparr>m_IncompleteMessages := std_erase msg_id (m_IncompleteMessages s)\<rparr>)
        else
          SendFragmentACK env msg_id i
            (s\<lparr>m_IncompleteMessages := std_assign msg_id im1 (m_IncompleteMessages s)\<rparr>)) (\<lambda>s1.
     pure_step (Some (p + 7 + n), s1))))"
    and "mem_read (p + 7) (length (cs ! i)) mem = Inr (cs ! i)"
proof -
  have i: "i < 128" "length (cs ! i) < 16384" "length (cs ! i) < 1456"
    using assms(2) piece_short [OF assms(1,2)] assms(1) [unfolded pieces_ok_def] by linarith+
  let ?l = "i + 1 = length cs" let ?b = "fragment_info_bytes i ?l (length (cs ! i))"
  note info = word_encode_fragment_info [OF i(1,2), of ?l] and fields = fragment_info_fields [OF i(1,2), of ?l]
  have id: "Read_buf True p mem = Inr msg_id"
    unfolding Read_buf_def assms(3,4) fragment_bytes_def
    by (simp add: mem_read_def slice_def)
  have b: "mem_read (p + 4) 3 mem = Inr ?b"
    using mem_read_at [of "pre @ word_encode True msg_id" "p + 4" ?b 3 "cs ! i @ rest"] info(2) assms(3,4)
    by (simp add: fragment_bytes_def)
  show rd: "mem_read (p + 7) (length (cs ! i)) mem = Inr (cs ! i)"
    using mem_read_at [of "pre @ word_encode True msg_id @ ?b" "p + 7" "cs ! i" "length (cs ! i)" rest] info(2) assms(3,4)
    by (simp add: fragment_bytes_def)
  show "process_fragment env mem p s =
    (let im = (case std_find msg_id (m_IncompleteMessages s) of Some im \<Rightarrow> im | None \<Rightarrow> new_incomplete);
         n = length (cs ! i) in
     bind_result (handle_fragment env mem (p + 7) n i (i + 1 = length cs) im) (\<lambda>(complete, im1).
     bind_step
       (if complete then
          process_complete env msg_id (im_msg im1)
            (s\<lparr>m_IncompleteMessages := std_erase msg_id (m_IncompleteMessages s)\<rparr>)
        else
          SendFragmentACK env msg_id i
            (s\<lparr>m_IncompleteMessages := std_assign msg_id im1 (m_IncompleteMessages s)\<rparr>)) (\<lambda>s1.
     pure_step (Some (p + 7 + n), s1))))"
    unfolding process_fragment_def id b bind_result_Inr info(1) Let_def fields(1-3) using i by simp
qed

section \<open>Properties of reassembly\<close>

lemma process_fragment_refines_aux:
  assumes "pieces_ok cs" and "reassembling cs msg_id R s" and "i < length cs"
    and "mem = pre @ fragment_bytes msg_id cs i @ rest" and "p = length pre"
  shows "if insert i R = {0..<length cs} then
      \<exists>m. assembled (concat cs) m \<and>
        process_fragment env mem p s =
          bind_step (process_complete env msg_id m
              (s\<lparr>m_IncompleteMessages := std_erase msg_id (m_IncompleteMessages s)\<rparr>))
            (\<lambda>s1. pure_step (Some (p + 7 + length (cs ! i)), s1))
    else
      \<exists>im. let s' = s\<lparr>m_IncompleteMessages := std_assign msg_id im (m_IncompleteMessages s)\<rparr> in
        reassembling cs msg_id (insert i R) s' \<and>
        process_fragment env mem p s =
          bind_step (SendFragmentACK env msg_id i s') (\<lambda>s1. pure_step (Some (p + 7 + length (cs ! i)), s1))"
proof -
  let ?im = "case std_find msg_id (m_IncompleteMessages s) of Some im \<Rightarrow> im | None \<Rightarrow> new_incomplete"
  have cs: "cs \<noteq> []" using assms(1) by (simp add: pieces_ok_def)
  have im: "partial cs ?im" "received ?im = R" and inv: "std_inv (m_IncompleteMessages s)"
    using assms(2) new_incomplete_partial cs by (auto simp: reassembling_def split: option.splits)
  note parse = process_fragment_parse [OF assms(1,3,4,5)]
  obtain c im1 where h: "handle_fragment env mem (p + 7) (length (cs ! i)) i (i + 1 = length cs) ?im = Inr (c, im1)"
      "received im1 = insert i R" "c = (insert i R = {0..<length cs})"
      "if c then assembled (concat cs) (im_msg im1) else partial cs im1"
    using handle_fragment_refines [OF assms(1) im(1) assms(3) parse(2), of env] im(2) by blast
  show ?thesis
  proof (cases c)
    case True
    then show ?thesis using parse(1) [of env s] h by (auto simp: Let_def)
  next
    case False
    then have "reassembling cs msg_id (insert i R)
        (s\<lparr>m_IncompleteMessages := std_assign msg_id im1 (m_IncompleteMessages s)\<rparr>)"
      using h inv by (simp add: reassembling_def)
    then show ?thesis using parse(1) [of env s] h False by (auto simp: Let_def)
  qed
qed

text \<open>
  C4 (refinement). The abstract state of a message that arrives in pieces is the set of piece
  numbers received. A packet with piece \<open>i\<close> adds \<open>i\<close> to that set. If the set is then full, the
  message is taken out and processed with all pieces in order; otherwise the piece is
  acknowledged and the session represents the larger set. No order of arrival, duplicate or
  early piece makes a difference.
\<close>

theorem process_fragment_refines:
  assumes "pieces_ok cs" and "reassembling cs msg_id R s" and "i < length cs"
    and "mem = pre @ fragment_bytes msg_id cs i @ rest" and "p = length pre"
  shows "if insert i R = {0..<length cs} then
      \<exists>m. assembled (concat cs) m \<and>
        process_fragment env mem p s =
          bind_step (process_complete env msg_id m
              (s\<lparr>m_IncompleteMessages := std_erase msg_id (m_IncompleteMessages s)\<rparr>))
            (\<lambda>s1. pure_step (Some (p + 7 + length (cs ! i)), s1))
    else
      \<exists>im. let s' = s\<lparr>m_IncompleteMessages := std_assign msg_id im (m_IncompleteMessages s)\<rparr> in
        reassembling cs msg_id (insert i R) s' \<and>
        process_fragment env mem p s =
          bind_step (SendFragmentACK env msg_id i s') (\<lambda>s1. pure_step (Some (p + 7 + length (cs ! i)), s1))"
  by (rule process_fragment_refines_aux [OF assms])

fun receive_pieces ::
    "DataEnv \<Rightarrow> bytes list \<Rightarrow> nat list \<Rightarrow> IncompleteMessage \<Rightarrow> (bool \<times> IncompleteMessage) result" where
  "receive_pieces env cs [] im = Inr (False, im)"
| "receive_pieces env cs (i # is) im =
     bind_result (handle_fragment env (cs ! i) 0 (length (cs ! i)) i (i + 1 = length cs) im) (\<lambda>(c, im1).
       if c then Inr (True, im1) else receive_pieces env cs is im1)"

lemma receive_pieces_from:
  assumes "pieces_ok cs"
  shows "set is \<subseteq> {0..<length cs} \<Longrightarrow> partial cs im \<Longrightarrow>
    \<exists>c im'. receive_pieces env cs is im = Inr (c, im') \<and>
      c = (received im \<union> set is = {0..<length cs}) \<and> (if c then assembled (concat cs) (im_msg im') else partial cs im')"
proof (induction "is" arbitrary: im)
  case Nil
  then show ?case
    using received_full(1) [of cs im] by (auto simp: partial_def)
next
  case (Cons i "is")
  have rd: "mem_read 0 (length (cs ! i)) (cs ! i) = Inr (cs ! i)" by (simp add: mem_read_def slice_full)
  obtain c im1 where h: "handle_fragment env (cs ! i) 0 (length (cs ! i)) i (i + 1 = length cs) im = Inr (c, im1)"
      "received im1 = insert i (received im)" "c = (insert i (received im) = {0..<length cs})"
      "if c then assembled (concat cs) (im_msg im1) else partial cs im1"
    using handle_fragment_refines [OF assms Cons.prems(2) _ rd, of env] Cons.prems(1) by auto
  show ?case
  proof (cases c)
    case True
    then have "received im \<union> set (i # is) = {0..<length cs}" using h(3) Cons.prems(1) by auto
    then show ?thesis using True h by auto
  next
    case False
    then obtain c' im' where "receive_pieces env cs is im1 = Inr (c', im')"
      "c' = (received im1 \<union> set is = {0..<length cs})"
      "if c' then assembled (concat cs) (im_msg im') else partial cs im'"
      using Cons.IH [of im1] Cons.prems(1) h(4) by auto
    then show ?thesis using False h(1,2) by auto
  qed
qed

text \<open>
  C8 (liveness). However the pieces of a message arrive, in any order, repeated or not, the
  message becomes complete exactly when every piece has arrived at least once, and it then
  holds the pieces in order.
\<close>

theorem reassembly_any_order:
  assumes "pieces_ok cs" and "set is \<subseteq> {0..<length cs}"
  shows "\<exists>c im. receive_pieces env cs is new_incomplete = Inr (c, im) \<and>
    c = (set is = {0..<length cs}) \<and> (c \<longrightarrow> assembled (concat cs) (im_msg im))"
proof -
  have "cs \<noteq> []" using assms(1) by (simp add: pieces_ok_def)
  from receive_pieces_from [OF assms new_incomplete_partial(1) [OF this], of env]
  show ?thesis by (auto simp: new_incomplete_partial(2))
qed

text \<open>
  C35 (error). Attaching a fragment keeps the message together as long as it has at most 32771
  bytes. The next byte is written past the end of the buffer: there is no check, and any peer
  with a session can send that much.
\<close>

theorem AttachNextFragment_exact:
  assumes "assembled d (im_msg im)"
  shows "if length d + length f \<le> 32771
    then \<exists>im'. AttachNextFragment f im = Inr im' \<and> assembled (d @ f) (im_msg im') \<and>
      im_next_fragment_num im' = im_next_fragment_num im + 1
    else AttachNextFragment f im = Inl MemoryError"
  using AttachNextFragment_ok [OF assms, of f] AttachNextFragment_overflow [OF assms, of f] by auto

section \<open>Sending\<close>

text \<open>What sending needs of the session and of the primitives.\<close>

definition can_send :: "DataEnv \<Rightarrow> SSUSession \<Rightarrow> bool" where
  "can_send env s \<longleftrightarrow> crypto_ok (d_crypto env) \<and> length (s_MACKey s) = 32 \<and> (\<forall>n. length (d_random env n) = 16) \<and>
     82 \<le> length (d_stack env)"

text \<open>What sending changes of the session: the cipher state and two counters.\<close>

definition sent_more :: "SSUSession \<Rightarrow> SSUSession \<Rightarrow> bool" where
  "sent_more s s' \<longleftrightarrow> (\<exists>enc n k. s' = s\<lparr>s_SessionKeyEncryption := enc, s_Random := n, s_NumSentBytes := k\<rparr> \<and>
     m_EncryptionKey enc = m_EncryptionKey (s_SessionKeyEncryption s))"

lemma sent_more_refl [simp]: "sent_more s s"
  unfolding sent_more_def by (intro exI [of _ "s_SessionKeyEncryption s"] exI [of _ "s_Random s"] exI [of _ "s_NumSentBytes s"]) simp

lemma sent_more_trans [trans]: "sent_more s s' \<Longrightarrow> sent_more s' s'' \<Longrightarrow> sent_more s s''"
  unfolding sent_more_def by fastforce

lemma sent_more_fields:
  assumes "sent_more s s'"
  shows "m_IncompleteMessages s' = m_IncompleteMessages s" "m_SentMessages s' = m_SentMessages s"
    "m_ReceivedMessages s' = m_ReceivedMessages s" "m_Handler s' = m_Handler s" "s_State s' = s_State s"
    "m_PacketSize s' = m_PacketSize s" "m_MaxPacketSize s' = m_MaxPacketSize s" "s_MACKey s' = s_MACKey s"
    "m_EncryptionKey (s_SessionKeyEncryption s') = m_EncryptionKey (s_SessionKeyEncryption s)"
    "m_ResendTimer s' = m_ResendTimer s" "can_send env s' = can_send env s"
  using assms by (auto simp: sent_more_def can_send_def)

text \<open>The body of a datagram under the keys of the session.\<close>

definition opens_data :: "DataEnv \<Rightarrow> SSUSession \<Rightarrow> bytes \<Rightarrow> bytes \<Rightarrow> bool" where
  "opens_data env s packet body \<longleftrightarrow>
     opens_to (d_crypto env) (m_EncryptionKey (s_SessionKeyEncryption s)) (s_MACKey s) packet
       ([0x60] @ word_encode True (word_of_nat (d_seconds env) :: u32) @ body)"

lemma opens_data_sent_more: "sent_more s s' \<Longrightarrow> opens_data env s' = opens_data env s"
  by (intro ext) (simp add: opens_data_def sent_more_fields)

lemma seal_data_ok:
  assumes "can_send env s" and "37 \<le> len" "len \<le> 1998" "len + 18 \<le> length buf"
  shows "\<exists>b s'. seal_data env buf len s = Inr (b, s') \<and> sent_more s s' \<and> length b = length buf \<and>
    opens_data env s (take len b) (slice 37 (len - 37) buf)"
proof -
  let ?iv = "d_random env (s_Random s)" let ?enc = "CBCEncryption_SetIV ?iv (s_SessionKeyEncryption s)"
  note c = assms(1) [unfolded can_send_def]
  have iv: "length ?iv = 16" "m_LastBlock ?enc = ?iv" "length (s_MACKey s) = 32" "crypto_ok (d_crypto env)"
    "m_EncryptionKey ?enc = m_EncryptionKey (s_SessionKeyEncryption s)"
    using c by (simp_all add: CBCEncryption_SetIV_def)
  have flag: "push_bit 4 (word_of_nat (SSUPayloadType_code Data) :: u8) = 0x60" by simp
  obtain enc' sent where s: "seal_packet (d_crypto env) ?iv (word_of_nat (d_seconds env)) 0x60 (s_MACKey s) ?enc buf len
      = Inr (enc', sent)" "length sent = length buf" "m_EncryptionKey enc' = m_EncryptionKey ?enc"
      "opens_to (d_crypto env) (m_EncryptionKey ?enc) (s_MACKey s) (take len sent)
        ([0x60] @ word_encode True (word_of_nat (d_seconds env) :: u32) @ slice 37 (len - 37) buf)"
    using seal_packet_opens [OF iv(4,3,1,2) assms(2-4), of "word_of_nat (d_seconds env)" "0x60"] by blast
  have "seal_data env buf len s = Inr (sent, s\<lparr>s_SessionKeyEncryption := enc', s_Random := s_Random s + 1\<rparr>)"
    using s(1) assms(2) by (simp add: seal_data_def FillHeaderAndEncrypt_session_def flag del: SSUPayloadType_code.simps)
  moreover have "sent_more s (s\<lparr>s_SessionKeyEncryption := enc', s_Random := s_Random s + 1\<rparr>)"
    using s(3) iv(5) unfolding sent_more_def
    by (intro exI [of _ enc'] exI [of _ "s_Random s + 1"] exI [of _ "s_NumSentBytes s"]) simp
  ultimately show ?thesis using s(2,4) iv(5) by (auto simp: opens_data_def)
qed

lemma SSUSession_Send_ok:
  assumes "len \<le> length buf"
  shows "\<exists>s'. SSUSession_Send buf len s = Inr (s', [SendPacket (take len buf)]) \<and> sent_more s s'"
proof -
  have "sent_more s (s\<lparr>s_NumSentBytes := s_NumSentBytes s + len\<rparr>)"
    unfolding sent_more_def
    by (intro exI [of _ "s_SessionKeyEncryption s"] exI [of _ "s_Random s"] exI [of _ "s_NumSentBytes s + len"]) simp
  then show ?thesis using assms by (simp add: SSUSession_Send_def mem_read_def slice_def emit_step_def)
qed

text \<open>Rounding a size up to 16 bytes.\<close>

lemma packet_len_eq: "packet_len n = (if n mod 16 = 0 then n else (n div 16 + 1) * 16)"
proof -
  have "n AND 15 = n mod 16"
    using take_bit_eq_mod [of 4 n] take_bit_eq_mask [of 4 n] by (simp add: mask_eq_exp_minus_1)
  then show ?thesis
    by (simp add: packet_len_def push_bit_eq_mult drop_bit_eq_div)
qed

lemma packet_len_bounds:
  "n \<le> packet_len n" "packet_len n < n + 16" "16 dvd packet_len n"
  "16 dvd m \<Longrightarrow> n \<le> m \<Longrightarrow> packet_len n \<le> m"
proof -
  have n: "n = n div 16 * 16 + n mod 16" "n mod 16 < 16" by simp_all
  have "n div 16 * 16 < n" if "n mod 16 \<noteq> 0" using n that by linarith
  moreover have "n < n div 16 * 16 + 16" using n by linarith
  ultimately show "n \<le> packet_len n" "packet_len n < n + 16" by (auto simp: packet_len_eq add_mult_distrib)
  show "16 dvd packet_len n" by (auto simp: packet_len_eq)
  assume "16 dvd m" "n \<le> m"
  then obtain k where k: "m = 16 * k" "n \<le> 16 * k" by blast
  show "packet_len n \<le> m"
  proof (cases "n mod 16 = 0")
    case False
    then have "n div 16 * 16 < k * 16" using n k by linarith
    then have "n div 16 < k" by (simp only: mult_less_cancel2)
    then show ?thesis using k False by (simp add: packet_len_eq)
  qed (use k in \<open>simp add: packet_len_eq\<close>)
qed

lemma send_fragment_ok:
  assumes "can_send env s" and "length chunk \<le> 1410"
  shows "\<exists>f s'. send_fragment env msg_id num is_last chunk s
      = Inr ((f, s'), [SendPacket (take (fr_len f) (fr_buffer f))]) \<and> sent_more s s' \<and>
    fr_len f = packet_len (46 + length chunk) \<and> length (fr_buffer f) = 1474 \<and>
    (\<exists>pad. opens_data env s (take (fr_len f) (fr_buffer f))
      ([0x04, 1] @ word_encode True msg_id @ fragment_info_bytes num is_last (length chunk) @ chunk @ pad))"
proof -
  let ?info = "fragment_info_bytes num is_last (length chunk)"
  let ?body = "[0x04, 1] @ word_encode True msg_id @ ?info @ chunk"
  let ?z = "replicate (1428 - length chunk) (0 :: byte)"
  let ?buf = "replicate 37 0 @ ?body @ ?z"
  let ?sz = "packet_len (46 + length chunk)"
  have info: "length ?info = 3" by (simp add: fragment_info_bytes_def Let_def)
  have z: "replicate 1474 0 = replicate 37 0 @ replicate 1 0 @ replicate 1 0 @ replicate 4 0 @ replicate 3 0
      @ replicate (length chunk) 0 @ ?z"
    using assms(2) by (simp add: replicate_add [symmetric] del: replicate.simps)
  have w1: "mem_write 37 [0x04] (replicate 1474 0)
      = Inr (replicate 37 0 @ [0x04] @ replicate 1 0 @ replicate 4 0 @ replicate 3 0 @ replicate (length chunk) 0 @ ?z)"
    unfolding z by (rule mem_write_at) simp_all
  have w2: "mem_write 38 [1] (replicate 37 0 @ [0x04] @ replicate 1 0 @ replicate 4 0 @ replicate 3 0 @ replicate (length chunk) 0 @ ?z)
      = Inr (replicate 37 0 @ [0x04, 1] @ replicate 4 0 @ replicate 3 0 @ replicate (length chunk) 0 @ ?z)"
    using mem_write_at [of "replicate 37 0 @ [0x04]" 38 "[1]" "replicate 1 0"] by simp
  have w3: "mem_write 39 (word_encode True msg_id) (replicate 37 0 @ [0x04, 1] @ replicate 4 0 @ replicate 3 0 @ replicate (length chunk) 0 @ ?z)
      = Inr (replicate 37 0 @ [0x04, 1] @ word_encode True msg_id @ replicate 3 0 @ replicate (length chunk) 0 @ ?z)"
    using mem_write_at [of "replicate 37 0 @ [0x04, 1]" 39 "word_encode True msg_id" "replicate 4 0"]
    by (simp del: replicate.simps)
  have w4: "mem_write 43 ?info (replicate 37 0 @ [0x04, 1] @ word_encode True msg_id @ replicate 3 0 @ replicate (length chunk) 0 @ ?z)
      = Inr (replicate 37 0 @ [0x04, 1] @ word_encode True msg_id @ ?info @ replicate (length chunk) 0 @ ?z)"
    using mem_write_at [of "replicate 37 0 @ [0x04, 1] @ word_encode True msg_id" 43 ?info "replicate 3 0"] info
    by (simp del: replicate.simps)
  have w5: "mem_write 46 chunk (replicate 37 0 @ [0x04, 1] @ word_encode True msg_id @ ?info @ replicate (length chunk) 0 @ ?z) = Inr ?buf"
    using mem_write_at [of "replicate 37 0 @ [0x04, 1] @ word_encode True msg_id @ ?info" 46 chunk "replicate (length chunk) 0" ?z] info
    by (simp del: replicate.simps)
  have sz: "46 + length chunk \<le> ?sz" "?sz \<le> 1456"
    using packet_len_bounds(1) packet_len_bounds(4) [of 1456 "46 + length chunk"] assms(2) by simp_all
  have buf: "length ?buf = 1474" using assms(2) info by (simp del: replicate.simps)
  obtain b s1 where b: "seal_data env ?buf ?sz s = Inr (b, s1)" "sent_more s s1" "length b = 1474"
      "opens_data env s (take ?sz b) (slice 37 (?sz - 37) ?buf)"
    using seal_data_ok [OF assms(1), of ?sz ?buf] sz buf by auto
  have "slice 37 (?sz - 37) ?buf = take (?sz - 37) (?body @ ?z)"
    by (simp add: slice_def del: replicate.simps)
  also have "\<dots> = ?body @ take (?sz - 37 - length ?body) ?z"
    using sz(1) info by (simp del: replicate.simps append.simps)
  finally have body: "opens_data env s (take ?sz b) (?body @ take (?sz - 37 - length ?body) ?z)" using b(4) by simp
  obtain s2 where s2: "SSUSession_Send b ?sz s1 = Inr (s2, [SendPacket (take ?sz b)])" "sent_more s1 s2"
    using SSUSession_Send_ok [of ?sz b s1] b(3) sz by auto
  let ?f = "\<lparr>fr_num = num, fr_len = ?sz, fr_is_last = False, fr_buffer = b\<rparr>"
  have "send_fragment env msg_id num is_last chunk s = Inr ((?f, s2), [SendPacket (take ?sz b)])"
    unfolding send_fragment_def Let_def using w1 w2 w3 w4 w5 b(1) s2(1)
    by (simp add: pure_step_def add.commute del: replicate.simps append.simps)
  then show ?thesis using sent_more_trans [OF b(2) s2(2)] b(3) body by (auto simp del: replicate.simps)
qed


text \<open>The pieces into which a message is cut.\<close>

function chunks :: "nat \<Rightarrow> bytes \<Rightarrow> bytes list" where
  "chunks n bs = (if n = 0 \<or> bs = [] then [] else take n bs # chunks n (drop n bs))"
  by pat_completeness auto
termination
  by (relation "measure (\<lambda>(n, bs). length bs)") auto

declare chunks.simps [simp del]

lemma concat_chunks: "0 < n \<Longrightarrow> concat (chunks n bs) = bs"
  by (induction n bs rule: chunks.induct) (subst chunks.simps, simp)

lemma chunks_bound: "c \<in> set (chunks n bs) \<Longrightarrow> length c \<le> n"
proof (induction n bs rule: chunks.induct)
  case (1 n bs)
  then show ?case by (subst (asm) (2) chunks.simps) (auto split: if_splits)
qed

lemma chunks_count: "0 < n \<Longrightarrow> length bs \<le> n * k \<Longrightarrow> length (chunks n bs) \<le> k"
proof (induction k arbitrary: bs)
  case (Suc k)
  then have "length (drop n bs) \<le> n * k" by simp
  with Suc show ?case by (subst chunks.simps) simp
qed (simp add: chunks.simps)

text \<open>What one packet of a message carries.\<close>

definition carries :: "DataEnv \<Rightarrow> SSUSession \<Rightarrow> u32 \<Rightarrow> nat \<Rightarrow> bool \<Rightarrow> bytes \<Rightarrow> Fragment \<Rightarrow> bool" where
  "carries env s msg_id num is_last chunk f \<longleftrightarrow>
     fr_len f = packet_len (46 + length chunk) \<and> fr_len f \<le> length (fr_buffer f) \<and>
     (\<exists>pad. opens_data env s (take (fr_len f) (fr_buffer f))
        ([0x04, 1] @ word_encode True msg_id @ fragment_info_bytes num is_last (length chunk) @ chunk @ pad))"

lemma carries_sent_more: "sent_more s s' \<Longrightarrow> carries env s' = carries env s"
  by (intro ext) (simp add: carries_def opens_data_sent_more)

abbreviation packet_of :: "Fragment \<Rightarrow> event" where
  "packet_of f \<equiv> SendPacket (take (fr_len f) (fr_buffer f))"

lemma send_fragment_carries:
  assumes "can_send env s" and "length chunk \<le> 1410"
  shows "\<exists>f s'. send_fragment env msg_id num is_last chunk s = Inr ((f, s'), [packet_of f]) \<and> sent_more s s' \<and>
    carries env s msg_id num is_last chunk f"
proof -
  have "packet_len (46 + length chunk) \<le> 1474"
    using packet_len_bounds(2) [of "46 + length chunk"] assms(2) by simp
  then show ?thesis using send_fragment_ok [OF assms, of msg_id num is_last] by (auto simp: carries_def)
qed

lemma send_loop_ok:
  assumes ps: "0 < psize" "psize \<le> 1410"
  shows "can_send env s \<Longrightarrow> len \<le> fuel \<Longrightarrow> p + len \<le> length mem \<Longrightarrow>
    \<exists>fs s'. send_loop fuel env msg_id psize fnum len p mem frags s
      = Inr ((frags @ map Some fs, s'), map packet_of fs) \<and> sent_more s s' \<and>
      length fs = length (chunks psize (slice p len mem)) \<and>
      (\<forall>j < length fs. carries env s msg_id (fnum + j) (j + 1 = length fs) (chunks psize (slice p len mem) ! j) (fs ! j))"
proof (induction fuel arbitrary: fnum len p frags s)
  case 0
  then show ?case
    by (intro exI [of _ "[]"] exI [of _ s]) (simp add: send_loop.simps pure_step_def chunks.simps)
next
  case (Suc fuel)
  show ?case
  proof (cases "len = 0")
    case True
    then show ?thesis
      by (intro exI [of _ "[]"] exI [of _ s]) (simp add: send_loop.simps pure_step_def chunks.simps)
  next
    case False
    let ?l = "len \<le> psize" let ?n = "if ?l then len else psize" let ?d = "slice p len mem"
    let ?c = "take psize ?d"
    let ?len = "if ?l then 0 else len - psize" let ?p = "if ?l then p else p + psize"
    have rd: "mem_read p ?n mem = Inr ?c"
      using Suc.prems(3) by (auto simp: mem_read_def min_def)
    have c: "length ?c \<le> 1410" using ps by simp
    obtain f s1 where f: "send_fragment env msg_id fnum ?l ?c s = Inr ((f, s1), [packet_of f])" "sent_more s s1"
        "carries env s msg_id fnum ?l ?c f"
      using send_fragment_carries [OF Suc.prems(1) c] by blast
    have rest: "slice ?p ?len mem = drop psize ?d"
      using Suc.prems(3) by (auto simp: slice_def drop_take add.commute)
    have cs: "chunks psize ?d = ?c # chunks psize (slice ?p ?len mem)"
      using False Suc.prems(3) ps unfolding rest by (subst chunks.simps) (auto simp: slice_def)
    have "can_send env s1" "?len \<le> fuel" "?p + ?len \<le> length mem"
      using Suc.prems False ps sent_more_fields(11) [OF f(2)] by auto
    from Suc.IH [OF this, of "fnum + 1" "frags @ [Some f]"] obtain fs s2 where
      IH: "send_loop fuel env msg_id psize (fnum + 1) ?len ?p mem (frags @ [Some f]) s1
        = Inr (((frags @ [Some f]) @ map Some fs, s2), map packet_of fs)" "sent_more s1 s2"
        "length fs = length (chunks psize (slice ?p ?len mem))"
        "\<forall>j < length fs. carries env s1 msg_id (fnum + 1 + j) (j + 1 = length fs)
          (chunks psize (slice ?p ?len mem) ! j) (fs ! j)"
      by blast
    have last: "?l \<longleftrightarrow> fs = []"
    proof -
      have "slice ?p ?len mem = [] \<longleftrightarrow> ?l" unfolding rest using Suc.prems(3) by auto
      then show ?thesis using IH(3) ps by (subst (asm) chunks.simps) auto
    qed
    have eq: "send_loop (Suc fuel) env msg_id psize fnum len p mem frags s
        = Inr ((frags @ map Some (f # fs), s2), map packet_of (f # fs))"
      using False rd f(1) IH(1) by (simp add: send_loop.simps [of "Suc fuel"] Let_def)
    have "carries env s msg_id (fnum + j) (j + 1 = length (f # fs)) (chunks psize ?d ! j) ((f # fs) ! j)"
      if "j < length (f # fs)" for j
    proof (cases j)
      case 0
      then show ?thesis using f(3) last unfolding cs by simp
    next
      case (Suc i)
      then show ?thesis using IH(4) that unfolding cs carries_sent_more [OF f(2)] by simp
    qed
    then show ?thesis
      using eq IH(3) sent_more_trans [OF f(2) IH(2)] unfolding cs by (intro exI [of _ "f # fs"] exI [of _ s2]) simp
  qed
qed


definition packet_size_ok :: "SSUSession \<Rightarrow> bool" where
  "packet_size_ok s \<longleftrightarrow> 16 dvd m_PacketSize s \<and> 48 \<le> m_PacketSize s \<and> m_PacketSize s \<le> 1456"

text \<open>A message that can be handed to \<open>Send\<close>: its header agrees with its length.\<close>

definition sendable :: "u8 \<Rightarrow> u32 \<Rightarrow> u64 \<Rightarrow> I2NPMessage \<Rightarrow> bool" where
  "sendable t i e m \<longleftrightarrow> msg_ok m \<and> GetTypeID m = Inr t \<and> GetMsgID m = Inr i \<and> GetExpiration m = Inr e \<and>
     GetSize m = Inr (word_of_nat (GetPayloadLength m)) \<and> GetPayloadLength m \<le> 32000"

lemma sendable_payload:
  assumes "sendable t i e m"
  shows "length (payload_bytes m) = GetPayloadLength m"
  using assms msg_ok_room [of m]
  by (auto simp: sendable_def payload_bytes_def msg_ok_def min_def)

lemma sendable_ToSSU:
  assumes "sendable t i e m"
  shows "\<exists>m'. ToSSU m = Inr (i, m') \<and> GetSSUHeader m' + GetLength m' \<le> length (msg_buf m') \<and>
    slice (GetSSUHeader m') (GetLength m') (msg_buf m') = ssu_bytes t e (payload_bytes m)"
proof -
  note a = assms [unfolded sendable_def]
  have ok: "msg_ok m" and len: "msg_offset m + 16 \<le> length (msg_buf m)" using a msg_ok_room by auto
  let ?sz = "word_of_nat (GetPayloadLength m) :: u16"
  obtain c where h: "slice (msg_offset m) 16 (msg_buf m) = header_bytes t i e ?sz c"
    using header_of_fields [of m t i e ?sz] a len by blast
  have sz: "unat ?sz = GetPayloadLength m" using a by (simp add: unat_of_nat take_bit_eq_mod)
  obtain m' where m': "ToSSU m = Inr (i, m')"
      "slice (GetSSUHeader m') (GetLength m') (msg_buf m') = ssu_bytes t e (payload_bytes m)"
    using ToSSU_wire [OF ok h sz] by blast
  have "m' = (put_at (msg_offset m + 11) ([t] @ word_encode True (ucast (e div 1000) :: u32)) m)
      \<lparr>msg_len := msg_offset m + 5 + unat ?sz\<rparr>"
    using ToSSU_eq [OF h len] m'(1) by simp
  then have "GetSSUHeader m' = msg_offset m + 11" "GetLength m' = 5 + GetPayloadLength m"
    "length (msg_buf m') = length (msg_buf m)"
    using len sz by (simp_all add: GetSSUHeader_eq msg_accessors)
  moreover have "GetPayload m + GetPayloadLength m = msg_len m" "msg_len m \<le> length (msg_buf m)"
    using msg_ok_room [OF ok] ok by (simp_all add: msg_ok_def)
  ultimately show ?thesis using m' by (auto simp: msg_accessors)
qed

lemma Send_ok:
  assumes "can_send env s" and "packet_size_ok s" and "std_inv (m_SentMessages s)"
    and "sendable t i e m" and "std_find i (m_SentMessages s) = None"
  shows "\<exists>fs s'. Send env m s = Inr (s', map packet_of fs) \<and>
    (let cs = chunks (m_PacketSize s - 46) (ssu_bytes t e (payload_bytes m)) in
     length fs = length cs \<and>
     (\<forall>j < length cs. carries env s i j (j + 1 = length cs) (cs ! j) (fs ! j)) \<and>
     (\<forall>k. std_find k (m_SentMessages s') = (if k = i then
        Some \<lparr>sm_fragments = map Some fs, sm_next_resend_time = word_of_nat (d_seconds env + 3), sm_num_resends = 0\<rparr>
        else std_find k (m_SentMessages s))))"
proof -
  obtain m' where m': "ToSSU m = Inr (i, m')" "GetSSUHeader m' + GetLength m' \<le> length (msg_buf m')"
    "slice (GetSSUHeader m') (GetLength m') (msg_buf m') = ssu_bytes t e (payload_bytes m)"
    using sendable_ToSSU [OF assms(4)] by blast
  let ?s1 = "if m_SentMessages s = [] then ScheduleResend env s else s"
  let ?sent = "\<lparr>sm_fragments = [], sm_next_resend_time = word_of_nat (d_seconds env + 3), sm_num_resends = 0\<rparr>"
  let ?s2 = "?s1\<lparr>m_SentMessages := std_insert i ?sent (m_SentMessages ?s1)\<rparr>"
  let ?cs = "chunks (m_PacketSize s - 46) (ssu_bytes t e (payload_bytes m))"
  have ps: "data_payload_size s = m_PacketSize s - 46" "0 < m_PacketSize s - 46" "m_PacketSize s - 46 \<le> 1410"
    using assms(2) by (auto simp: packet_size_ok_def data_payload_size_def)
  have s2: "can_send env ?s2" "carries env ?s2 = carries env s" "m_SentMessages ?s1 = m_SentMessages s"
    using assms(1) by (auto simp: can_send_def ScheduleResend_def carries_def opens_data_def fun_eq_iff)
  obtain fs s3 where loop: "send_loop (GetLength m') env i (m_PacketSize s - 46) 0 (GetLength m') (GetSSUHeader m')
        (msg_buf m') [] ?s2 = Inr ((map Some fs, s3), map packet_of fs)" "sent_more ?s2 s3"
      "length fs = length ?cs"
      "\<forall>j < length fs. carries env ?s2 i j (j + 1 = length fs) (?cs ! j) (fs ! j)"
    using send_loop_ok [OF ps(2,3) s2(1) order_refl m'(2), of i 0 "[]"] unfolding m'(3) by auto
  let ?s4 = "s3\<lparr>m_SentMessages := std_assign i (?sent\<lparr>sm_fragments := map Some fs\<rparr>) (m_SentMessages s3)\<rparr>"
  have "Send env m s = Inr (?s4, map packet_of fs)"
    using m'(1) assms(5) loop(1) ps(1)
    by (simp add: Send_def std_count_def Let_def pure_step_def)
  moreover have "m_SentMessages s3 = std_insert i ?sent (m_SentMessages s)"
    using sent_more_fields(2) [OF loop(2)] s2(3) by simp
  then have "\<forall>k. std_find k (m_SentMessages ?s4) = (if k = i then Some (?sent\<lparr>sm_fragments := map Some fs\<rparr>)
      else std_find k (m_SentMessages s))"
    using assms(3,5) by simp
  ultimately show ?thesis
    using loop(3,4) s2(2) by (intro exI [of _ fs] exI [of _ ?s4]) (simp add: Let_def)
qed


section \<open>Acknowledging and delivering\<close>

lemma send_ack_ok:
  assumes "can_send env s" and "37 + length bs \<le> len" and "len + 18 \<le> n" "n \<le> 82"
  shows "\<exists>s' packet pad. bind_result (mem_write 37 bs (take n (d_stack env))) (\<lambda>b1.
      bind_result (seal_data env b1 len s) (\<lambda>(b2, s1). SSUSession_Send b2 len s1)) = Inr (s', [SendPacket packet])
    \<and> sent_more s s' \<and> opens_data env s packet (bs @ pad)"
proof -
  let ?st = "take n (d_stack env)" let ?b = "poke 37 bs ?st"
  have st: "length ?st = n" using assms(1,4) by (simp add: can_send_def)
  have b: "mem_write 37 bs ?st = Inr ?b" "length ?b = n" using st assms(2,3) by (simp_all add: mem_write_def)
  obtain b2 s1 where seal: "seal_data env ?b len s = Inr (b2, s1)" "sent_more s s1" "length b2 = n"
      "opens_data env s (take len b2) (slice 37 (len - 37) ?b)"
    using seal_data_ok [OF assms(1), of len ?b] b(2) assms(2-4) by auto
  obtain s2 where send: "SSUSession_Send b2 len s1 = Inr (s2, [SendPacket (take len b2)])" "sent_more s1 s2"
    using SSUSession_Send_ok [of len b2 s1] seal(3) assms(3) by auto
  have "slice 37 (length bs + (len - 37 - length bs)) ?b = bs @ slice (37 + length bs) (len - 37 - length bs) ?b"
    unfolding slice_add using st assms(2,3) by simp
  then have "slice 37 (len - 37) ?b = bs @ slice (37 + length bs) (len - 37 - length bs) ?b"
    using assms(2) by simp
  then show ?thesis
    using b(1) seal send sent_more_trans [OF seal(2) send(2)] by auto
qed

lemma SendMsgACK_ok:
  assumes "can_send env s"
  shows "\<exists>s' packet pad. SendMsgACK env msg_id s = Inr (s', [SendPacket packet]) \<and> sent_more s s' \<and>
    opens_data env s packet (([0x80, 1] @ word_encode True msg_id @ [0]) @ pad)"
  using send_ack_ok [OF assms, of "[0x80, 1] @ word_encode True msg_id @ [0]" 48 66]
  by (simp add: SendMsgACK_def)

text \<open>The bytes of a fragment acknowledgement.\<close>

definition fragment_ack :: "u32 \<Rightarrow> nat \<Rightarrow> bytes" where
  "fragment_ack msg_id n =
     [0x40, 1] @ word_encode True msg_id @ replicate (n div 7) 0x80 @ [push_bit (n mod 7) 1] @ [0]"

lemma SendFragmentACK_ok:
  assumes "can_send env s"
  shows "\<exists>s' es. SendFragmentACK env msg_id n s = Inr (s', es) \<and> sent_more s s' \<and>
    (if n \<le> 64 then \<exists>packet pad. es = [SendPacket packet] \<and> opens_data env s packet (fragment_ack msg_id n @ pad)
     else es = [])"
proof (cases "n \<le> 64")
  case False
  then show ?thesis by (simp add: SendFragmentACK_def pure_step_def)
next
  case True
  let ?len = "if n div 7 < 4 then 48 else 64 :: nat"
  have "n div 7 \<le> 9" using True by (simp add: less_Suc_eq_le [symmetric] div_less_iff_less_mult)
  then have len: "37 + length (fragment_ack msg_id n) \<le> ?len" "?len + 18 \<le> 82" by (auto simp: fragment_ack_def)
  have "SendFragmentACK env msg_id n s = bind_result (mem_write 37 (fragment_ack msg_id n) (take 82 (d_stack env))) (\<lambda>b1.
      bind_result (seal_data env b1 ?len s) (\<lambda>(b2, s1). SSUSession_Send b2 ?len s1))"
    using True by (simp add: SendFragmentACK_def fragment_ack_def Let_def)
  then show ?thesis using send_ack_ok [OF assms len order_refl] True by auto
qed

text \<open>A packet with one fragment and no acknowledgements.\<close>

lemma ProcessMessage_single:
  "ProcessMessage env ([0x04, 1] @ bs) len s =
     bind_step (process_fragment env ([0x04, 1] @ bs) 2 s) (\<lambda>(_, s1). pure_step s1)"
proof -
  have "peek (Suc 0) (4 # 1 # bs) = Inr (1 :: byte)" "peek 0 (4 # 1 # bs) = Inr (4 :: byte)"
    by (simp_all add: peek_def)
  moreover have "bind_step m (\<lambda>(next, s1). case next of None \<Rightarrow> pure_step s1
        | Some p1 \<Rightarrow> process_fragments 0 env (4 # 1 # bs) p1 s1)
      = bind_step m (\<lambda>(_, s1). pure_step s1)" for m :: "(nat option \<times> SSUSession) step"
    by (auto simp: bind_step_def intro!: bind_result_cong split: option.splits)
  ultimately show ?thesis
    by (simp add: ProcessMessage_def ProcessFragments_def has_flag_def numeral_2_eq_2)
qed

text \<open>The message that has been put together, after the header is restored.\<close>

lemma FromSSU_assembled:
  assumes "assembled (ssu_bytes t e payload) m" and "length payload \<le> 32000"
  shows "\<exists>r. FromSSU i m = Inr r \<and> msg_ok r \<and> GetTypeID r = Inr t \<and> GetMsgID r = Inr i \<and>
    GetExpiration r = Inr (ucast (ucast (e div 1000) :: u32) * 1000) \<and>
    GetSize r = Inr (word_of_nat (length payload)) \<and> payload_bytes r = payload"
proof -
  let ?w = "ssu_bytes t e payload" let ?secs = "ucast (e div 1000) :: u32"
  note a = assms(1) [unfolded assembled_def i2np_sizes]
  have w: "length ?w = 5 + length payload" by (simp add: ssu_bytes_def)
  have m: "msg_offset m = 2" "msg_len m = 18 + length payload" "18 + length payload \<le> length (msg_buf m)"
    "slice 13 (length ?w) (msg_buf m) = ?w" using a w by auto
  have s5: "slice 13 5 (msg_buf m) = [t] @ word_encode True ?secs"
    using arg_cong [OF m(4), of "take 5"] w by (simp add: ssu_bytes_def)
  have s18: "slice 18 (length payload) (msg_buf m) = payload"
    using arg_cong [OF m(4), of "drop 5"] w by (simp add: slice_def drop_take ssu_bytes_def)
  let ?h = "header_bytes t i (ucast ?secs * 1000) (word_of_nat (length payload)) 0"
  let ?r = "put_at 2 ?h m"
  have eq: "FromSSU i m = Inr ?r"
    using FromSSU_eq [of m t ?secs i] s5 m by simp
  have "slice (msg_offset ?r) 16 (msg_buf ?r) = ?h" "msg_offset ?r + 16 \<le> length (msg_buf ?r)"
    using m by simp_all
  note f = header_fields [OF this]
  have "payload_bytes ?r = payload" "msg_ok ?r"
    using m s18 by (simp_all add: payload_bytes_def msg_accessors slice_poke_after msg_ok_def i2np_sizes)
  then show ?thesis using eq f by blast
qed

text \<open>Packets that arrive one after the other, each with the payload \<open>ds\<close> of a data packet.\<close>

fun deliver :: "DataEnv \<Rightarrow> bytes list \<Rightarrow> SSUSession \<Rightarrow> SSUSession step" where
  "deliver env [] s = pure_step s"
| "deliver env (d # ds) s = bind_step (ProcessMessage env d (length d) s) (deliver env ds)"

definition piece_packet :: "u32 \<Rightarrow> bytes list \<Rightarrow> nat \<Rightarrow> bytes \<Rightarrow> bytes" where
  "piece_packet msg_id cs i rest = [0x04, 1] @ fragment_bytes msg_id cs i @ rest"

lemma ProcessMessage_piece:
  assumes "pieces_ok cs" and "reassembling cs msg_id R s" and "i < length cs" and "can_send env s"
  shows "if insert i R = {0..<length cs} then
      \<exists>m. assembled (concat cs) m \<and>
        ProcessMessage env (piece_packet msg_id cs i rest) len s =
          process_complete env msg_id m (s\<lparr>m_IncompleteMessages := std_erase msg_id (m_IncompleteMessages s)\<rparr>)
    else
      \<exists>s' es. ProcessMessage env (piece_packet msg_id cs i rest) len s = Inr (s', es) \<and>
        reassembling cs msg_id (insert i R) s' \<and> can_send env s' \<and> s_State s' = s_State s \<and>
        m_ReceivedMessages s' = m_ReceivedMessages s \<and> m_Handler s' = m_Handler s"
proof -
  let ?mem = "piece_packet msg_id cs i rest"
  have mem: "?mem = [0x04, 1] @ fragment_bytes msg_id cs i @ rest" "2 = length [0x04, 1 :: byte]"
    by (simp_all add: piece_packet_def)
  have pm: "ProcessMessage env ?mem len s = bind_step (process_fragment env ?mem 2 s) (\<lambda>(_, s1). pure_step s1)"
    unfolding piece_packet_def by (rule ProcessMessage_single)
  have pure: "bind_step (bind_step x (\<lambda>s1. pure_step (n, s1))) (\<lambda>(_, s1). pure_step s1) = x"
    for x :: "SSUSession step" and n :: "nat option"
    by (auto simp: bind_step_def bind_result_def pure_step_def split: sum.splits)
  note ref = process_fragment_refines_aux [OF assms(1-3) mem, of env]
  show ?thesis
  proof (cases "insert i R = {0..<length cs}")
    case True
    then show ?thesis using ref pm pure by auto
  next
    case False
    then obtain im where im: "let s' = s\<lparr>m_IncompleteMessages := std_assign msg_id im (m_IncompleteMessages s)\<rparr> in
        reassembling cs msg_id (insert i R) s' \<and>
        process_fragment env ?mem 2 s =
          bind_step (SendFragmentACK env msg_id i s') (\<lambda>s1. pure_step (Some (2 + 7 + length (cs ! i)), s1))"
      using ref by auto
    let ?s' = "s\<lparr>m_IncompleteMessages := std_assign msg_id im (m_IncompleteMessages s)\<rparr>"
    have "can_send env ?s'" using assms(4) by (simp add: can_send_def)
    from SendFragmentACK_ok [OF this, of msg_id i] obtain s1 es where
      s1: "SendFragmentACK env msg_id i ?s' = Inr (s1, es)" "sent_more ?s' s1" by blast
    have "ProcessMessage env ?mem len s = Inr (s1, es)" using pm im s1(1) by (simp add: Let_def pure_step_def)
    moreover have "reassembling cs msg_id (insert i R) s1"
      using im sent_more_fields(1) [OF s1(2)] by (simp add: reassembling_def Let_def)
    ultimately show ?thesis
      using False sent_more_fields [OF s1(2)] \<open>can_send env ?s'\<close> by auto
  qed
qed

lemma deliver_pieces:
  assumes "pieces_ok cs"
  shows "reassembling cs msg_id R s \<Longrightarrow> can_send env s \<Longrightarrow> set is \<subseteq> {0..<length cs} \<Longrightarrow>
    R \<union> set is \<noteq> {0..<length cs} \<Longrightarrow> R \<subseteq> {0..<length cs} \<Longrightarrow>
    \<exists>s' es. deliver env (map (\<lambda>i. piece_packet msg_id cs i (pads i)) is) s = Inr (s', es) \<and>
      reassembling cs msg_id (R \<union> set is) s' \<and> can_send env s' \<and> s_State s' = s_State s \<and>
      m_ReceivedMessages s' = m_ReceivedMessages s \<and> m_Handler s' = m_Handler s"
proof (induction "is" arbitrary: R s)
  case (Cons i "is")
  have i: "i < length cs" "insert i R \<noteq> {0..<length cs}" using Cons.prems by auto
  let ?p = "piece_packet msg_id cs i (pads i)"
  obtain s1 es where s1: "ProcessMessage env ?p (length ?p) s = Inr (s1, es)"
      "reassembling cs msg_id (insert i R) s1" "can_send env s1" "s_State s1 = s_State s"
      "m_ReceivedMessages s1 = m_ReceivedMessages s" "m_Handler s1 = m_Handler s"
    using ProcessMessage_piece [OF assms Cons.prems(1) i(1) Cons.prems(2), of "pads i" "length ?p"] i(2) by auto
  from Cons.IH [OF s1(2,3)] Cons.prems obtain s2 es2 where
    "deliver env (map (\<lambda>i. piece_packet msg_id cs i (pads i)) is) s1 = Inr (s2, es2)"
    "reassembling cs msg_id (insert i R \<union> set is) s2" "can_send env s2" "s_State s2 = s_State s1"
    "m_ReceivedMessages s2 = m_ReceivedMessages s1" "m_Handler s2 = m_Handler s1" by auto
  then show ?case using s1 by auto
qed (simp add: pure_step_def)


lemma deliver_append:
  "deliver env (ds @ ds') s = bind_step (deliver env ds s) (deliver env ds')"
proof (induction ds arbitrary: s)
  case Nil
  show ?case by (simp add: pure_step_def bind_result_def split: sum.splits)
next
  case (Cons d ds)
  then show ?case
    by (auto simp: bind_step_def bind_result_def split: sum.splits prod.splits)
qed

text \<open>A complete message that has not been received before is handed on once.\<close>

lemma process_complete_new:
  assumes "can_send env s" and "s_State s = Established" and "std_inv (m_ReceivedMessages s)"
    and "std_find i (m_ReceivedMessages s) = None"
    and "assembled (ssu_bytes t e payload) m" and "length payload \<le> 32000"
  shows "\<exists>r s1 es. process_complete env i m s = bind_step (Inr ((), es)) (\<lambda>_. put_next_message env r s1) \<and>
    msg_ok r \<and> GetTypeID r = Inr t \<and> GetMsgID r = Inr i \<and> payload_bytes r = payload \<and>
    std_count i (m_ReceivedMessages s1) \<and> m_Handler s1 = m_Handler s"
proof -
  obtain s1 packet where ack: "SendMsgACK env i s = Inr (s1, [SendPacket packet])" "sent_more s s1"
    using SendMsgACK_ok [OF assms(1)] by blast
  note f = sent_more_fields [OF ack(2)]
  obtain r where r: "FromSSU i m = Inr r" "msg_ok r" "GetTypeID r = Inr t" "GetMsgID r = Inr i" "payload_bytes r = payload"
    using FromSSU_assembled [OF assms(5,6), of i] by blast
  let ?s2 = "if length (m_ReceivedMessages s1) > 1000 then s1\<lparr>m_ReceivedMessages := []\<rparr> else ScheduleDecay env s1"
  let ?s3 = "?s2\<lparr>m_ReceivedMessages := std_insert i () (m_ReceivedMessages ?s2)\<rparr>"
  have "process_complete env i m s = bind_step (Inr ((), [SendPacket packet])) (\<lambda>_. put_next_message env r ?s3)"
    using ack(1) r(1) assms(2,4) f by (simp add: process_complete_def std_count_def Let_def)
  moreover have "std_inv (m_ReceivedMessages ?s2)" using assms(3) f by (simp add: ScheduleDecay_def)
  then have "std_count i (m_ReceivedMessages ?s3)" by (simp add: std_count_def split: option.splits)
  moreover have "m_Handler ?s3 = m_Handler s" using f by (simp add: ScheduleDecay_def)
  ultimately show ?thesis using r(2-5) by blast
qed

lemma chunks_pieces_ok:
  assumes "0 < n" "n \<le> 1410" and "bs \<noteq> []" "length bs \<le> 32771" "length bs \<le> n * 128"
  shows "pieces_ok (chunks n bs)"
proof -
  have "chunks n bs \<noteq> []" using assms by (subst chunks.simps) simp
  moreover have "\<forall>c \<in> set (chunks n bs). length c < 1456" using chunks_bound [of _ n bs] assms(2) by fastforce
  ultimately show ?thesis
    using assms chunks_count [of n bs 128] by (simp add: pieces_ok_def concat_chunks)
qed

lemma Send_packets:
  assumes "can_send env s" "packet_size_ok s" "std_inv (m_SentMessages s)" "sendable t i e m"
    and "std_find i (m_SentMessages s) = None"
    and cs: "cs = chunks (m_PacketSize s - 46) (ssu_bytes t e (payload_bytes m))"
  shows "\<exists>fs s1. Send env m s = Inr (s1, map packet_of fs) \<and> length fs = length cs \<and>
    (\<forall>j < length cs. fr_len (fs ! j) \<le> m_PacketSize s \<and> 16 dvd fr_len (fs ! j) \<and>
      (\<exists>pad. opens_data env s (take (fr_len (fs ! j)) (fr_buffer (fs ! j))) (piece_packet i cs j pad)))"
proof -
  have ps: "16 dvd m_PacketSize s" "46 \<le> m_PacketSize s" using assms(2) by (auto simp: packet_size_ok_def)
  obtain fs s1 where send: "Send env m s = Inr (s1, map packet_of fs)" "length fs = length cs"
      "\<forall>j < length cs. carries env s i j (j + 1 = length cs) (cs ! j) (fs ! j)"
    using Send_ok [OF assms(1-5)] cs by (auto simp: Let_def)
  have "fr_len (fs ! j) \<le> m_PacketSize s \<and> 16 dvd fr_len (fs ! j) \<and>
      (\<exists>pad. opens_data env s (take (fr_len (fs ! j)) (fr_buffer (fs ! j))) (piece_packet i cs j pad))" if "j < length cs" for j
  proof -
    have c: "carries env s i j (j + 1 = length cs) (cs ! j) (fs ! j)" using send(3) that by blast
    have "length (cs ! j) \<le> m_PacketSize s - 46" using chunks_bound nth_mem [OF that] cs by blast
    then have "packet_len (46 + length (cs ! j)) \<le> m_PacketSize s"
      using ps by (intro packet_len_bounds(4)) simp_all
    then show ?thesis using c packet_len_bounds(3) unfolding carries_def piece_packet_def fragment_bytes_def
      by (metis append.assoc)
  qed
  then show ?thesis using send(1,2) by blast
qed

lemma deliver_complete:
  assumes "pieces_ok cs" and wire: "concat cs = ssu_bytes t e payload" "length payload \<le> 32000"
    and peer: "can_send env s" "s_State s = Established" "std_inv (m_IncompleteMessages s)"
      "std_find i (m_IncompleteMessages s) = None" "std_inv (m_ReceivedMessages s)"
      "std_find i (m_ReceivedMessages s) = None"
    and order: "set is \<noteq> {0..<length cs}" "insert k (set is) = {0..<length cs}"
  shows "\<exists>r s2 es. deliver env (map (\<lambda>j. piece_packet i cs j (pads j)) (is @ [k])) s
        = bind_step (Inr ((), es)) (\<lambda>_. put_next_message env r s2) \<and>
      msg_ok r \<and> GetTypeID r = Inr t \<and> GetMsgID r = Inr i \<and> payload_bytes r = payload \<and>
      std_count i (m_ReceivedMessages s2) \<and> m_Handler s2 = m_Handler s"
proof -
  have r0: "reassembling cs i {} s" using peer(3,4) by (simp add: reassembling_def)
  have "set is \<subseteq> {0..<length cs}" using order(2) by auto
  from deliver_pieces [OF assms(1) r0 peer(1) this, of pads] order(1) obtain sa ea where
    a: "deliver env (map (\<lambda>j. piece_packet i cs j (pads j)) is) s = Inr (sa, ea)"
      "reassembling cs i (set is) sa" "can_send env sa" "s_State sa = s_State s"
      "m_ReceivedMessages sa = m_ReceivedMessages s" "m_Handler sa = m_Handler s" by auto
  let ?p = "piece_packet i cs k (pads k)"
  let ?sb = "sa\<lparr>m_IncompleteMessages := std_erase i (m_IncompleteMessages sa)\<rparr>"
  have k: "k < length cs" using order(2) by auto
  obtain mm where mm: "assembled (ssu_bytes t e payload) mm"
      "ProcessMessage env ?p (length ?p) sa = process_complete env i mm ?sb"
    using ProcessMessage_piece [OF assms(1) a(2) k a(3), of "pads k" "length ?p"] order(2) wire(1) by auto
  have "can_send env ?sb" "s_State ?sb = Established" "std_inv (m_ReceivedMessages ?sb)"
    "std_find i (m_ReceivedMessages ?sb) = None" "m_Handler ?sb = m_Handler s"
    using a peer by (simp_all add: can_send_def)
  from process_complete_new [OF this(1-4) mm(1) wire(2)] this(5) obtain r s2 es where
    r: "process_complete env i mm ?sb = bind_step (Inr ((), es)) (\<lambda>_. put_next_message env r s2)"
      "msg_ok r" "GetTypeID r = Inr t" "GetMsgID r = Inr i" "payload_bytes r = payload"
      "std_count i (m_ReceivedMessages s2)" "m_Handler s2 = m_Handler s" by metis
  have "deliver env (map (\<lambda>j. piece_packet i cs j (pads j)) (is @ [k])) s
      = bind_step (Inr ((), ea @ es)) (\<lambda>_. put_next_message env r s2)"
    unfolding map_append deliver_append a(1)
    by (auto simp: mm(2) r(1) pure_step_def bind_step_def bind_result_def split: sum.splits)
  then show ?thesis using r(2-7) by blast
qed

text \<open>
  C1 (round trip). A message handed to \<open>Send\<close> leaves in packets of at most the negotiated size,
  each of which opens to one numbered piece. Whatever the order in which an established peer
  receives these packets, and however often each one but the last comes, the moment the last
  missing piece arrives the peer hands on one message with the type, identifier and payload
  that was sent, and remembers the identifier.
\<close>

theorem message_transfer:
  assumes sender: "can_send env s" "packet_size_ok s" "std_inv (m_SentMessages s)" "std_find i (m_SentMessages s) = None"
    and m: "sendable t i e m" "5 + length (payload_bytes m) \<le> (m_PacketSize s - 46) * 128"
    and peer: "can_send env' s'" "s_State s' = Established" "std_inv (m_IncompleteMessages s')"
      "std_find i (m_IncompleteMessages s') = None" "std_inv (m_ReceivedMessages s')"
      "std_find i (m_ReceivedMessages s') = None"
    and cs: "cs = chunks (m_PacketSize s - 46) (ssu_bytes t e (payload_bytes m))"
    and order: "set is \<noteq> {0..<length cs}" "insert k (set is) = {0..<length cs}"
  shows "\<exists>fs s1. Send env m s = Inr (s1, map packet_of fs) \<and> length fs = length cs \<and>
    (\<forall>j < length cs. fr_len (fs ! j) \<le> m_PacketSize s \<and> 16 dvd fr_len (fs ! j) \<and>
      (\<exists>pad. opens_data env s (take (fr_len (fs ! j)) (fr_buffer (fs ! j))) (piece_packet i cs j pad))) \<and>
    (\<forall>pads. \<exists>r s2 es. deliver env' (map (\<lambda>j. piece_packet i cs j (pads j)) (is @ [k])) s'
        = bind_step (Inr ((), es)) (\<lambda>_. put_next_message env' r s2) \<and>
      msg_ok r \<and> GetTypeID r = Inr t \<and> GetMsgID r = Inr i \<and> payload_bytes r = payload_bytes m \<and>
      std_count i (m_ReceivedMessages s2) \<and> m_Handler s2 = m_Handler s')"
proof -
  have ps: "0 < m_PacketSize s - 46" "m_PacketSize s - 46 \<le> 1410" using sender(2) by (auto simp: packet_size_ok_def)
  have pay: "length (payload_bytes m) \<le> 32000" using sendable_payload [OF m(1)] m(1) by (simp add: sendable_def)
  have ok: "pieces_ok cs"
    unfolding cs using ps m(2) pay by (intro chunks_pieces_ok) (auto simp: ssu_bytes_def)
  have "concat cs = ssu_bytes t e (payload_bytes m)" unfolding cs by (rule concat_chunks [OF ps(1)])
  from deliver_complete [OF ok this pay peer order] Send_packets [OF sender(1-3) m(1) sender(4) cs]
  show ?thesis by blast
qed


section \<open>Acknowledgements and resending\<close>

lemma bit_of_byte: "j < 7 \<Longrightarrow> r < 7 \<Longrightarrow> (push_bit r 1 :: u8) AND push_bit j 1 \<noteq> 0 \<longleftrightarrow> j = r"
proof -
  assume "j < 7" "r < 7"
  then have "(push_bit r 1 :: u8) AND push_bit j 1 = (if j = r then push_bit r 1 else 0)"
    by (intro bit_word_eqI) (auto simp: bit_and_iff bit_exp_iff)
  moreover have "(push_bit r 1 :: u8) \<noteq> 0" using \<open>r < 7\<close> by (simp add: push_bit_eq_0_iff)
  ultimately show ?thesis by simp
qed

lemma ack_bits_single:
  assumes "r < 7"
  shows "ack_bits (push_bit r 1) k frags = (if k + r < length frags then frags[k + r := None] else frags)"
proof -
  let ?f = "\<lambda>fs j. if (push_bit r 1 :: u8) AND push_bit j 1 \<noteq> 0 \<and> k + j < length fs then fs[k + j := None] else fs"
  have fold: "foldl ?f fs js = (if r \<in> set js \<and> k + r < length fs then fs[k + r := None] else fs)"
    if "set js \<subseteq> {..<7}" for js fs
    using that
  proof (induction js arbitrary: fs)
    case (Cons j js)
    then show ?case using bit_of_byte [of j r] assms by (auto simp: not_less)
  qed simp
  have js: "set [0..<7] \<subseteq> {..<7 :: nat}" "r \<in> set [0..<7]" using assms by auto
  show ?thesis unfolding ack_bits_def fold [OF js(1)] using js(2) by (simp only: simp_thms)
qed

lemma byte_bits:
  assumes "r < 7"
  shows "(push_bit r 1 :: u8) AND 0x7F = push_bit r 1" and "(push_bit r 1 :: u8) AND 0x80 = 0"
proof -
  have m: "(0x7F :: u8) = mask 7" by (simp add: mask_eq_exp_minus_1)
  have e: "bit (0x80 :: int) n \<longleftrightarrow> n = 7" for n
  proof -
    have e: "(0x80 :: int) = 2 ^ 7" by simp
    show ?thesis unfolding e bit_exp_iff by auto
  qed
  show "(push_bit r 1 :: u8) AND 0x7F = push_bit r 1"
    unfolding m using assms by (intro bit_word_eqI) (auto simp: bit_and_iff bit_mask_iff bit_exp_iff)
  show "(push_bit r 1 :: u8) AND 0x80 = 0"
    using assms by (intro bit_word_eqI) (auto simp: bit_and_iff bit_exp_iff e)
qed

text \<open>
  A bitfield of empty bytes before the one with the bit: the empty ones do not advance the
  position of the fragment.
\<close>

lemma ack_loop_zeros:
  assumes "r < 7" and "mem = pre @ replicate q 0x80 @ push_bit r 1 # rest" and "p = length pre"
  shows "ack_loop mem p 0 (Some frags) = Inr (p + q + 1, Some (if r < length frags then frags[r := None] else frags))"
  using assms(2,3)
proof (induction q arbitrary: pre p)
  case 0
  have "(push_bit r 1 :: u8) \<noteq> 0" using assms(1) by (simp add: push_bit_eq_0_iff)
  moreover have "peek p mem = Inr (push_bit r 1)" using 0 by (simp add: peek_def nth_append)
  ultimately show ?case
    using byte_bits [OF assms(1)] ack_bits_single [OF assms(1), of 0 frags]
    by (subst ack_loop.simps) (simp add: Let_def del: push_bit_of_1)
next
  case (Suc q)
  have "peek p mem = Inr 0x80" using Suc.prems by (simp add: peek_def nth_append)
  moreover have "ack_loop mem (p + 1) 0 (Some frags)
      = Inr (p + 1 + q + 1, Some (if r < length frags then frags[r := None] else frags))"
    using Suc.prems by (intro Suc.IH [of "pre @ [0x80]"]) simp_all
  ultimately show ?case by (subst ack_loop.simps) (simp add: Let_def)
qed

lemma ProcessMessage_fragment_ack:
  assumes "std_find i (m_SentMessages s) = Some sent"
  shows "ProcessMessage env (fragment_ack i n @ rest) len s =
    Inr (s\<lparr>m_SentMessages := std_assign i (sent\<lparr>sm_fragments :=
      (if n mod 7 < length (sm_fragments sent) then (sm_fragments sent)[n mod 7 := None] else sm_fragments sent)\<rparr>)
        (m_SentMessages s)\<rparr>, [])"
proof -
  let ?q = "n div 7" let ?r = "n mod 7" let ?mem = "fragment_ack i n @ rest"
  let ?fs = "if ?r < length (sm_fragments sent) then (sm_fragments sent)[?r := None] else sm_fragments sent"
  let ?s = "s\<lparr>m_SentMessages := std_assign i (sent\<lparr>sm_fragments := ?fs\<rparr>) (m_SentMessages s)\<rparr>"
  have r: "?r < 7" by simp
  have mem: "?mem = ([0x40, 1] @ word_encode True i) @ replicate ?q 0x80 @ push_bit ?r 1 # 0 # rest"
    by (simp add: fragment_ack_def)
  have l: "ack_loop ?mem 6 0 (Some (sm_fragments sent)) = Inr (6 + ?q + 1, Some ?fs)"
    by (rule ack_loop_zeros [OF r mem]) simp
  have id: "Read_buf True 2 ?mem = Inr i"
    unfolding mem Read_buf_def by (simp add: mem_read_def slice_def numeral_2_eq_2)
  have p: "peek 0 ?mem = Inr 0x40" "peek (Suc 0) ?mem = Inr 1" "peek (7 + ?q) ?mem = Inr 0"
    unfolding mem by (simp_all add: peek_def nth_append)
  have b: "process_bitfield ?mem (2, s) 0 = Inr (7 + ?q, ?s)"
    using id l assms by (simp add: process_bitfield_def)
  have a: "ProcessACKs ?mem 1 0x40 s = Inr (7 + ?q, ?s)"
    using p(2) b [unfolded numeral_2_eq_2] by (simp add: ProcessACKs_def has_flag_def)
  show ?thesis
    unfolding ProcessMessage_def p(1) bind_result_Inr
    using a p(3) by (simp add: has_flag_def ProcessFragments_def pure_step_def)
qed

text \<open>
  C36 (functional). The acknowledgement of fragment \<open>n\<close> makes the sender of the message drop
  fragment \<open>n mod 7\<close>: the sender does not count the empty bytes in front of the bit. For
  \<open>n < 7\<close> this is the acknowledged fragment; a later one keeps being resent, and a fragment
  that may never have arrived is not.
\<close>

theorem fragment_ack_clears:
  assumes "can_send env r" and "n \<le> 64" and "std_find i (m_SentMessages s) = Some sent"
    and "n < length (sm_fragments sent)"
  shows "\<exists>r' packet pad. SendFragmentACK env i n r = Inr (r', [SendPacket packet]) \<and>
    opens_data env r packet (fragment_ack i n @ pad) \<and>
    (\<forall>rest. ProcessMessage env' (fragment_ack i n @ pad @ rest) len s =
      Inr (s\<lparr>m_SentMessages := std_assign i (sent\<lparr>sm_fragments := (sm_fragments sent)[n mod 7 := None]\<rparr>)
        (m_SentMessages s)\<rparr>, []))"
proof -
  have "n mod 7 \<le> n" by simp
  then have "n mod 7 < length (sm_fragments sent)" using assms(4) by linarith
  then show ?thesis
    using SendFragmentACK_ok [OF assms(1), of i n] assms(2) ProcessMessage_fragment_ack [OF assms(3)] by fastforce
qed

text \<open>What one expiry of the resend timer does to one message.\<close>

definition resend_entry :: "nat \<Rightarrow> SentMessage \<Rightarrow> SentMessage option" where
  "resend_entry ts sent =
     (if ts \<ge> unat (sm_next_resend_time sent) then
        if sm_num_resends sent < 5 then
          Some (sent\<lparr>sm_num_resends := sm_num_resends sent + 1,
                     sm_next_resend_time := sm_next_resend_time sent + word_of_nat ((sm_num_resends sent + 1) * 3)\<rparr>)
        else None
      else Some sent)"

definition sendable_fragments :: "SentMessage \<Rightarrow> bool" where
  "sendable_fragments sent \<longleftrightarrow> (\<forall>f. Some f \<in> set (sm_fragments sent) \<longrightarrow> fr_len f \<le> length (fr_buffer f))"

text \<open>The packets of the fragments not acknowledged yet, and which of them an expiry sends.\<close>

definition unacknowledged :: "SentMessage \<Rightarrow> event list" where
  "unacknowledged sent = map packet_of (List.map_filter id (sm_fragments sent))"

definition entry_packets :: "nat \<Rightarrow> SentMessage \<Rightarrow> event list" where
  "entry_packets ts sent =
     (if unat (sm_next_resend_time sent) \<le> ts \<and> sm_num_resends sent < 5 then unacknowledged sent else [])"

definition expiry_packets :: "nat \<Rightarrow> (u32, SentMessage) std_map \<Rightarrow> event list" where
  "expiry_packets ts ms = concat (map (\<lambda>(k, sent). entry_packets ts sent) ms)"

lemma resend_fragments_ok:
  "\<forall>f. Some f \<in> set fs \<longrightarrow> fr_len f \<le> length (fr_buffer f) \<Longrightarrow>
   \<exists>s'. resend_fragments fs s = Inr (s', map packet_of (List.map_filter id fs)) \<and> sent_more s s'"
proof (induction fs s rule: resend_fragments.induct)
  case (1 s)
  then show ?case by (simp add: pure_step_def map_filter_def)
next
  case (2 fs s)
  then show ?case by (simp add: map_filter_def)
next
  case (3 f fs s)
  obtain s1 where s1: "SSUSession_Send (fr_buffer f) (fr_len f) s = Inr (s1, [packet_of f])" "sent_more s s1"
    using SSUSession_Send_ok [of "fr_len f" "fr_buffer f" s] 3(2) by auto
  obtain s2 where "resend_fragments fs s1 = Inr (s2, map packet_of (List.map_filter id fs))" "sent_more s1 s2"
    using 3 s1 by fastforce
  then show ?case using s1 sent_more_trans [of s s1 s2] by (auto simp: map_filter_def)
qed

lemma resend_messages_ok:
  "\<forall>(k, sent) \<in> set ms. sendable_fragments sent \<Longrightarrow>
   \<exists>s'. resend_messages ts ms s =
      Inr ((std_update_all (resend_entry ts) ms, s'), expiry_packets ts ms) \<and> sent_more s s'"
proof (induction ms arbitrary: s)
  case Nil
  then show ?case by (simp add: pure_step_def expiry_packets_def)
next
  case (Cons a ms)
  obtain k sent where a: "a = (k, sent)" by (cases a)
  obtain s1 where s1: "resend_fragments (sm_fragments sent) s
      = Inr (s1, map packet_of (List.map_filter id (sm_fragments sent)))" "sent_more s s1"
    using resend_fragments_ok [of "sm_fragments sent" s] Cons.prems a by (auto simp: sendable_fragments_def)
  have rest: "\<exists>s'. resend_messages ts ms s0 =
      Inr ((std_update_all (resend_entry ts) ms, s'), expiry_packets ts ms) \<and> sent_more s0 s'" for s0
    using Cons by auto
  from rest [of s] rest [of s1] show ?case
    using s1 sent_more_trans [OF s1(2)]
    by (auto simp: a resend_entry_def [of ts sent] pure_step_def Let_def expiry_packets_def entry_packets_def unacknowledged_def)
qed

lemma HandleResendTimer_ok:
  assumes "std_inv (m_SentMessages s)" and "\<forall>(k, sent) \<in> set (m_SentMessages s). sendable_fragments sent"
  shows "\<exists>s' es. HandleResendTimer env s = Inr (s', es) \<and> std_inv (m_SentMessages s') \<and>
    (\<forall>k. std_find k (m_SentMessages s') = Option.bind (std_find k (m_SentMessages s)) (resend_entry (d_seconds env))) \<and>
    m_SentMessages s' = std_update_all (resend_entry (d_seconds env)) (m_SentMessages s) \<and>
    m_IncompleteMessages s' = m_IncompleteMessages s \<and> m_ReceivedMessages s' = m_ReceivedMessages s \<and>
    m_PacketSize s' = m_PacketSize s \<and> m_MaxPacketSize s' = m_MaxPacketSize s"
proof -
  obtain s1 es where s1: "resend_messages (d_seconds env) (m_SentMessages s) s =
      Inr ((std_update_all (resend_entry (d_seconds env)) (m_SentMessages s), s1), es)"
      "sent_more s s1"
    using resend_messages_ok [OF assms(2)] by blast
  show ?thesis
    using s1(1) std_find_update_all [OF assms(1), of _ "resend_entry (d_seconds env)"]
      std_inv_update_all [OF assms(1), of "resend_entry (d_seconds env)"] sent_more_fields [OF s1(2)]
    by (simp add: HandleResendTimer_def pure_step_def ScheduleResend_def)
qed



section \<open>Concrete instances\<close>

definition sample_data_env :: DataEnv where
  "sample_data_env = \<lparr>d_crypto = sample_crypto, d_router = sample_env, d_random = (\<lambda>_. replicate 16 1), d_random32 = 1,
     d_stack = replicate 82 0, d_seconds = 77, d_network_ID = 2, d_gzip = id, d_router_buffer = [],
     d_remote_testing = False\<rparr>"

definition sample_session :: SSUSession where
  "sample_session = \<lparr>s_State = Established, s_IsV6 = False,
     s_SessionKeyEncryption = \<lparr>m_EncryptionKey = replicate 32 4, m_LastBlock = replicate 16 0\<rparr>,
     s_MACKey = replicate 32 5, s_NumSentBytes = 0, s_Random = 0, s_PeerTest = False,
     m_IncompleteMessages = [], m_SentMessages = [], m_ReceivedMessages = [],
     m_ResendTimer = \<lparr>expiry = None, waiting = []\<rparr>, m_DecayTimer = \<lparr>expiry = None, waiting = []\<rparr>,
     m_IncompleteMessagesCleanupTimer = \<lparr>expiry = None, waiting = []\<rparr>,
     m_MaxPacketSize = 1456, m_PacketSize = 48, m_Handler = \<lparr>m_TunnelMsgs = [], m_TunnelGatewayMsgs = []\<rparr>\<rparr>"

definition sample_sent :: SentMessage where
  "sample_sent = \<lparr>sm_fragments = replicate 9 (Some (frag_of [[1, 2]] 0)), sm_next_resend_time = 80, sm_num_resends = 0\<rparr>"

lemma sample_can_send [simp]: "can_send sample_data_env (sample_session\<lparr>m_SentMessages := sent\<rparr>)"
    "can_send sample_data_env sample_session"
  by (simp_all add: can_send_def sample_data_env_def sample_session_def sample_crypto_ok del: replicate.simps)

lemma sample_packet_size [simp]: "packet_size_ok sample_session"
  by (simp add: packet_size_ok_def sample_session_def)

lemma not_range: "i \<notin> I \<Longrightarrow> i < length cs \<Longrightarrow> I \<noteq> {0..<length cs}"
  by auto

lemma sample_maps: "m_IncompleteMessages sample_session = []" "m_SentMessages sample_session = []"
    "m_ReceivedMessages sample_session = []" "m_PacketSize sample_session = 48" "s_State sample_session = Established"
  by (simp_all add: sample_session_def)

lemma sample_sendable: "sendable 20 7 5000 sample_message" "payload_bytes sample_message = []"
proof -
  have m: "msg_offset sample_message = 2" "msg_len sample_message = 18" "length (msg_buf sample_message) = 4112"
    by (simp_all add: sample_message_def NewI2NPShortMessage_def I2NPMessageBuffer_def i2np_sizes del: replicate.simps)
  have "slice (msg_offset sample_message) 16 (msg_buf sample_message) = header_bytes 20 7 5000 0 0"
    "msg_offset sample_message + 16 \<le> length (msg_buf sample_message)"
    by (simp_all add: sample_message_def NewI2NPShortMessage_def I2NPMessageBuffer_def i2np_sizes del: replicate.simps)
  note f = header_fields [OF this]
  show "sendable 20 7 5000 sample_message" "payload_bytes sample_message = []"
    using m f by (simp_all add: sendable_def msg_ok_def i2np_sizes msg_accessors payload_bytes_def slice_def)
qed

lemma sample_pieces_ok: "pieces_ok [[1, 2], [3, 4], [5]]"
  by (simp add: pieces_ok_def)

theorem process_fragment_refines_witness:
  "\<exists>im. let s' = sample_session\<lparr>m_IncompleteMessages := std_assign 7 im []\<rparr> in
     reassembling [[1, 2], [3, 4], [5]] 7 {1} s' \<and>
     process_fragment sample_data_env (fragment_bytes 7 [[1, 2], [3, 4], [5]] 1) 0 sample_session =
       bind_step (SendFragmentACK sample_data_env 7 1 s') (\<lambda>s1. pure_step (Some 9, s1))"
proof -
  have r: "reassembling [[1, 2], [3, 4], [5]] 7 {} sample_session"
    by (simp add: reassembling_def sample_maps)
  have l: "0 + 7 + length ([[1, 2], [3, 4], [5 :: byte]] ! 1) = 9" by simp
  have i: "insert (1 :: nat) {} \<noteq> {0..<length [[1, 2], [3, 4], [5 :: byte]]}"
    using not_range [of 0 "{1}" "[[1, 2], [3, 4], [5 :: byte]]"] by simp
  have "1 < length [[1, 2], [3, 4], [5 :: byte]]"
    "fragment_bytes 7 [[1, 2], [3, 4], [5]] 1 = [] @ fragment_bytes 7 [[1, 2], [3, 4], [5]] 1 @ []"
    "0 = length ([] :: bytes)" by simp_all
  from process_fragment_refines [OF sample_pieces_ok r this, of sample_data_env, unfolded if_not_P [OF i] sample_maps]
  show ?thesis unfolding l by assumption
qed

theorem reassembly_any_order_witness:
  "\<exists>im. receive_pieces sample_data_env [[1, 2], [3, 4], [5]] [2, 0, 2, 1] new_incomplete = Inr (True, im) \<and>
     assembled [1, 2, 3, 4, 5] (im_msg im)"
proof -
  have "set [2, 0, 2, 1 :: nat] = {0..<length [[1, 2], [3, 4], [5 :: byte]]}" by auto
  then show ?thesis
    using reassembly_any_order [OF sample_pieces_ok, of "[2, 0, 2, 1]" sample_data_env] by auto
qed

theorem AttachNextFragment_exact_witness:
  "\<exists>im'. AttachNextFragment [1, 2] new_incomplete = Inr im' \<and> assembled [1, 2] (im_msg im')"
proof -
  have "assembled [] (im_msg new_incomplete)"
    using new_incomplete_partial(1) [of "[[]]"] by (simp add: partial_def prefix_ok_def new_incomplete_def Let_def)
  from AttachNextFragment_exact [OF this, of "[1, 2]"] show ?thesis by auto
qed

theorem fragment_ack_clears_witness:
  "\<exists>r' packet pad. SendFragmentACK sample_data_env 7 8 sample_session = Inr (r', [SendPacket packet]) \<and>
    opens_data sample_data_env sample_session packet (fragment_ack 7 8 @ pad) \<and>
    ProcessMessage sample_data_env (fragment_ack 7 8 @ pad @ []) 99 (sample_session\<lparr>m_SentMessages := [(7, sample_sent)]\<rparr>) =
      Inr (sample_session\<lparr>m_SentMessages := [(7, sample_sent\<lparr>sm_fragments := (sm_fragments sample_sent)[1 := None]\<rparr>)]\<rparr>, [])"
proof -
  have "std_find 7 (m_SentMessages (sample_session\<lparr>m_SentMessages := [(7, sample_sent)]\<rparr>)) = Some sample_sent"
    "8 < length (sm_fragments sample_sent)" by (simp_all add: sample_sent_def std_find_def del: replicate.simps)
  note fragment_ack_clears [OF sample_can_send(2) _ this, where env' = sample_data_env and len = 99]
  then obtain r' packet pad where
    "SendFragmentACK sample_data_env 7 8 sample_session = Inr (r', [SendPacket packet])"
    "opens_data sample_data_env sample_session packet (fragment_ack 7 8 @ pad)"
    and *: "\<forall>rest. ProcessMessage sample_data_env (fragment_ack 7 8 @ pad @ rest) 99 (sample_session\<lparr>m_SentMessages := [(7, sample_sent)]\<rparr>) =
      Inr (sample_session\<lparr>m_SentMessages := [(7, sample_sent)], m_SentMessages := std_assign 7
        (sample_sent\<lparr>sm_fragments := (sm_fragments sample_sent)[8 mod 7 := None]\<rparr>) [(7, sample_sent)]\<rparr>, [])" by auto
  then show ?thesis using spec [OF *, of "[]"] by (intro exI conjI) simp_all
qed

theorem message_transfer_witness:
  "\<exists>fs s1. Send sample_data_env sample_message sample_session = Inr (s1, map packet_of fs) \<and> length fs = 3 \<and>
    (\<forall>pads. \<exists>r s2 es.
      deliver sample_data_env (map (\<lambda>j. piece_packet 7 [[20, 0], [0, 0], [5]] j (pads j)) [2, 0, 2, 1]) sample_session
        = bind_step (Inr ((), es)) (\<lambda>_. put_next_message sample_data_env r s2) \<and>
      GetTypeID r = Inr 20 \<and> GetMsgID r = Inr 7 \<and> payload_bytes r = [])"
proof -
  have be5: "be_encode 4 5 = [0, 0, 0, 5]"
    by code_simp
  have cs: "[[20, 0], [0, 0], [5]] = chunks (m_PacketSize sample_session - 46) (ssu_bytes 20 5000 (payload_bytes sample_message))"
    by (simp add: sample_sendable(2) sample_maps ssu_bytes_def chunks.simps word_encode_def be5)
  have o: "set [2, 0, 2 :: nat] \<noteq> {0..<length [[20, 0], [0, 0], [5 :: byte]]}"
    "insert (1 :: nat) (set [2, 0, 2]) = {0..<length [[20, 0], [0, 0], [5 :: byte]]}"
    using not_range [of 1 "set [2, 0, 2]" "[[20, 0], [0, 0], [5 :: byte]]"] by (simp, auto)
  have s: "std_inv (m_SentMessages sample_session)" "std_find 7 (m_SentMessages sample_session) = None"
    "5 + length (payload_bytes sample_message) \<le> (m_PacketSize sample_session - 46) * 128"
    "s_State sample_session = Established" "std_inv (m_IncompleteMessages sample_session)"
      "std_find 7 (m_IncompleteMessages sample_session) = None" "std_inv (m_ReceivedMessages sample_session)"
      "std_find 7 (m_ReceivedMessages sample_session) = None"
    by (simp_all add: sample_maps sample_sendable(2))
  from message_transfer [OF sample_can_send(2) sample_packet_size s(1,2) sample_sendable(1) s(3)
      sample_can_send(2) s(4-8) cs o]
  obtain fs s1 where "Send sample_data_env sample_message sample_session = Inr (s1, map packet_of fs)"
    "length fs = length [[20, 0], [0, 0], [5 :: byte]]"
    "\<forall>pads. \<exists>r s2 es.
      deliver sample_data_env (map (\<lambda>j. piece_packet 7 [[20, 0], [0, 0], [5]] j (pads j)) ([2, 0, 2] @ [1])) sample_session
        = bind_step (Inr ((), es)) (\<lambda>_. put_next_message sample_data_env r s2) \<and>
      GetTypeID r = Inr 20 \<and> GetMsgID r = Inr 7 \<and> payload_bytes r = []"
    unfolding sample_sendable(2) by blast
  then show ?thesis
    unfolding append_Cons append_Nil by (intro exI conjI) (assumption, simp add: numeral_3_eq_3, assumption)
qed

end
