(* ===== verification/SSU_Reachable.thy ===== *)
theory SSU_Reachable
  imports SSU_Data
begin

unbundle bit_operations_syntax

text \<open>
  The states a session of the SSU data layer can reach. Every operation that returns keeps the
  invariant \<open>session_inv\<close> (the locale \<open>session_op\<close> states this contract; \<open>Send\<close>,
  \<open>ProcessMessage\<close>, the establishment, a completed message and the resend timer are its
  instances), so rule induction over \<open>reachable\<close> gives the invariant of all sessions. From it
  follow that the resend timer never touches memory outside a fragment, that a message that is
  not acknowledged is dropped in the end, that \<open>Send\<close> ends, and what a small MTU does.
\<close>

section \<open>What a successful send keeps\<close>

lemma CBCEncrypt_blocks_keeps:
  "CBCEncrypt_blocks E n src dst c mem = Inr (c', mem') \<Longrightarrow>
   m_EncryptionKey c' = m_EncryptionKey c \<and> length mem' = length mem"
  by (induction n arbitrary: src dst c mem) (fastforce simp: result_simps Let_def)+

lemma CBCEncrypt_asm_keeps:
  "CBCEncrypt_asm E sched n src dst xmm1 mem = Inr (xmm1', mem') \<Longrightarrow> length mem' = length mem"
proof (induction n arbitrary: src dst xmm1 mem)
  case 0
  then show ?case by (subst (asm) CBCEncrypt_asm.simps) (auto simp: result_simps Let_def)
next
  case (Suc n)
  from Suc.prems show ?case
    by (subst (asm) CBCEncrypt_asm.simps) (auto simp: result_simps Let_def split: if_splits dest!: Suc.IH)
qed

lemma CBC_Encrypt_keeps:
  "CBC_Encrypt ni E src len dst c mem = Inr (c', mem') \<Longrightarrow>
   m_EncryptionKey c' = m_EncryptionKey c \<and> length mem' = length mem"
  by (auto simp: CBC_Encrypt_def result_simps Let_def split: if_splits
      dest: CBCEncrypt_blocks_keeps CBCEncrypt_asm_keeps)

lemma seal_packet_keeps:
  assumes "seal_packet env iv time flag mac_key enc buf len = Inr (enc', b)"
  shows "m_EncryptionKey enc' = m_EncryptionKey enc" "length b = length buf" "len + 18 \<le> length buf"
proof -
  let ?b3 = "poke 33 (word_encode True time) (poke 32 [flag] (poke 16 iv buf))"
  obtain b4 where "length ?b3 = length buf"
    "CBC_Encrypt (c_UsingAESNI env) (c_encrypt env) 32 (len - 32) 32 enc ?b3 = Inr (enc', b4)"
    "length b = length b4" "len + 18 \<le> length b4"
    using assms by (auto simp: seal_packet_def result_simps Let_def)
  then show "m_EncryptionKey enc' = m_EncryptionKey enc" "length b = length buf" "len + 18 \<le> length buf"
    using CBC_Encrypt_keeps by fastforce+
qed

lemma seal_data_keeps:
  assumes "seal_data env buf len s = Inr (b, s')"
  shows "sent_more s s'" "length b = length buf" "37 \<le> len \<Longrightarrow> len + 18 \<le> length buf"
proof -
  obtain enc where e: "FillHeaderAndEncrypt_session (d_crypto env) (d_random env (s_Random s)) (word_of_nat (d_seconds env))
      (s_MACKey s) (word_of_nat (SSUPayloadType_code Data)) buf len (s_SessionKeyEncryption s) = Inr (enc, b)"
    "s' = s\<lparr>s_SessionKeyEncryption := enc, s_Random := s_Random s + 1\<rparr>"
    using assms by (auto simp: seal_data_def result_simps)
  have *: "m_EncryptionKey enc = m_EncryptionKey (s_SessionKeyEncryption s) \<and> length b = length buf \<and>
      (37 \<le> len \<longrightarrow> len + 18 \<le> length buf)"
    using e(1) seal_packet_keeps
    by (fastforce simp: FillHeaderAndEncrypt_session_def CBCEncryption_SetIV_def split: if_splits)
  then show "length b = length buf" "37 \<le> len \<Longrightarrow> len + 18 \<le> length buf" by auto
  show "sent_more s s'"
    unfolding sent_more_def e(2) using *
    by (intro exI [of _ enc] exI [of _ "s_Random s + 1"] exI [of _ "s_NumSentBytes s"]) simp
qed

lemma SSUSession_Send_keeps: "SSUSession_Send buf len s = Inr (s', es) \<Longrightarrow> sent_more s s'"
  unfolding SSUSession_Send_def sent_more_def
  by (auto simp: result_simps intro!: exI [of _ "s_SessionKeyEncryption s"])
    (intro exI [of _ "s_Random s"] exI [of _ "s_NumSentBytes s + len"], simp)

section \<open>The invariant of a session\<close>

definition fragment_ok :: "Fragment \<Rightarrow> bool" where
  "fragment_ok f \<longleftrightarrow> 16 dvd fr_len f \<and> fr_len f \<le> 1456 \<and> length (fr_buffer f) = 1474"

definition sent_ok :: "SentMessage \<Rightarrow> bool" where
  "sent_ok sent \<longleftrightarrow> sm_num_resends sent \<le> 5 \<and> (\<forall>f. Some f \<in> set (sm_fragments sent) \<longrightarrow> fragment_ok f)"

definition saved_ok :: "nat \<Rightarrow> (nat, Fragment) std_map \<Rightarrow> bool" where
  "saved_ok k sv \<longleftrightarrow> std_inv sv \<and>
     (\<forall>(j, f) \<in> set sv. k \<le> j \<and> j < 128 \<and> fr_num f = j \<and> fr_len f = length (fr_buffer f) \<and> fr_len f < 1456)"

definition incomplete_ok :: "IncompleteMessage \<Rightarrow> bool" where
  "incomplete_ok im \<longleftrightarrow> (\<exists>d. assembled d (im_msg im)) \<and> im_next_fragment_num im \<le> 128 \<and>
     saved_ok (Suc (im_next_fragment_num im)) (im_saved_fragments im)"

definition session_inv :: "SSUSession \<Rightarrow> bool" where
  "session_inv s \<longleftrightarrow>
     std_inv (m_IncompleteMessages s) \<and> (\<forall>(i, im) \<in> set (m_IncompleteMessages s). incomplete_ok im) \<and>
     std_inv (m_SentMessages s) \<and> (\<forall>(i, sent) \<in> set (m_SentMessages s). sent_ok sent) \<and>
     std_inv (m_ReceivedMessages s) \<and>
     m_MaxPacketSize s = SSUSize_value (if s_IsV6 s then PacketMaxIPv6 else PacketMaxIPv4) \<and>
     16 dvd m_PacketSize s \<and> m_PacketSize s \<le> m_MaxPacketSize s"

lemma session_invD:
  assumes "session_inv s"
  shows "std_inv (m_IncompleteMessages s)" "(i, im) \<in> set (m_IncompleteMessages s) \<Longrightarrow> incomplete_ok im"
    "std_inv (m_SentMessages s)" "(i, sent) \<in> set (m_SentMessages s) \<Longrightarrow> sent_ok sent"
    "std_inv (m_ReceivedMessages s)"
  using assms by (auto simp: session_inv_def)

text \<open>The invariant does not read the cipher state, the counters, the timers and the handler.\<close>

lemma session_inv_sent_more: "sent_more s s' \<Longrightarrow> session_inv s' = session_inv s"
  by (auto simp: sent_more_def session_inv_def)

lemma session_inv_schedule [simp]:
  "session_inv (ScheduleResend env s) = session_inv s" "session_inv (ScheduleDecay env s) = session_inv s"
  "session_inv (ScheduleIncompleteMessagesCleanup env s) = session_inv s" "session_inv (Start env s) = session_inv s"
  "session_inv (Stop s) = session_inv s" "session_inv (s\<lparr>m_Handler := h\<rparr>) = session_inv s"
  "session_inv (s\<lparr>s_State := st\<rparr>) = session_inv s" "session_inv (s\<lparr>m_ResendTimer := t\<rparr>) = session_inv s"
  by (simp_all add: session_inv_def ScheduleResend_def ScheduleDecay_def ScheduleIncompleteMessagesCleanup_def
      Start_def Stop_def)

lemma session_inv_sent:
  assumes "session_inv s" and "std_inv sent" and "\<And>k m. (k, m) \<in> set sent \<Longrightarrow> sent_ok m"
  shows "session_inv (s\<lparr>m_SentMessages := sent\<rparr>)"
  using assms by (auto simp: session_inv_def)

lemma session_inv_incomplete:
  assumes "session_inv s" and "std_inv ims" and "\<And>k im. (k, im) \<in> set ims \<Longrightarrow> incomplete_ok im"
  shows "session_inv (s\<lparr>m_IncompleteMessages := ims\<rparr>)"
  using assms by (auto simp: session_inv_def)

lemma session_inv_received: "session_inv s \<Longrightarrow> std_inv r \<Longrightarrow> session_inv (s\<lparr>m_ReceivedMessages := r\<rparr>)"
  by (simp add: session_inv_def)

lemma session_inv_assign_sent:
  assumes "session_inv s" and "sent_ok sent"
  shows "session_inv (s\<lparr>m_SentMessages := std_assign i sent (m_SentMessages s)\<rparr>)"
  using assms session_invD [OF assms(1)] set_std_assign [of i sent "m_SentMessages s"]
  by (intro session_inv_sent) auto

text \<open>The contract every operation of the data layer keeps when it returns.\<close>

locale session_op =
  fixes run_op :: "SSUSession \<Rightarrow> SSUSession step"
  assumes keeps: "session_inv s \<Longrightarrow> run_op s = Inr (s', es) \<Longrightarrow> session_inv s'"
begin

lemma then_keeps:
  "session_inv s \<Longrightarrow> bind_step (run_op s) k = Inr (s', es) \<Longrightarrow>
   (\<And>s1 es1. session_inv s1 \<Longrightarrow> k s1 = Inr (s', es1) \<Longrightarrow> session_inv s') \<Longrightarrow> session_inv s'"
  by (auto simp: bind_step_eq_Inr) (metis keeps)

end

section \<open>Sending keeps the invariant\<close>

lemma send_fragment_keeps:
  assumes "send_fragment env msg_id num is_last chunk s = Inr ((f, s'), es)"
  shows "sent_more s s'" "fragment_ok f"
proof -
  let ?sz = "packet_len (length chunk + 46)"
  obtain b5 b6 s1 es1 where b: "seal_data env b5 ?sz s = Inr (b6, s1)" "length b5 = 1474"
      "SSUSession_Send b6 ?sz s1 = Inr (s', es1)" "f = \<lparr>fr_num = num, fr_len = ?sz, fr_is_last = False, fr_buffer = b6\<rparr>"
    using assms by (auto simp: send_fragment_def result_simps Let_def simp del: replicate.simps)
  show "sent_more s s'" using sent_more_trans seal_data_keeps(1) [OF b(1)] SSUSession_Send_keeps [OF b(3)] by blast
  show "fragment_ok f"
    using seal_data_keeps(2,3) [OF b(1)] b(2) packet_len_bounds(1,3) [of "length chunk + 46"]
    by (simp add: fragment_ok_def b(4))
qed

lemma send_loop_keeps:
  "send_loop fuel env msg_id psize fnum len p mem frags s = Inr ((fs, s'), es) \<Longrightarrow>
   \<forall>f. Some f \<in> set frags \<longrightarrow> fragment_ok f \<Longrightarrow>
   sent_more s s' \<and> (\<forall>f. Some f \<in> set fs \<longrightarrow> fragment_ok f)"
proof (induction fuel arbitrary: fnum len p frags s es)
  case 0
  then show ?case by (auto simp: send_loop.simps result_simps split: if_splits)
next
  case (Suc fuel)
  show ?case
  proof (cases "len = 0")
    case True
    then show ?thesis using Suc.prems by (auto simp: send_loop.simps result_simps)
  next
    case False
    then obtain f s1 es1 es2 c fnum' len' p' where f: "send_fragment env msg_id fnum (len \<le> psize) c s = Inr ((f, s1), es1)"
      "send_loop fuel env msg_id psize fnum' len' p' mem (frags @ [Some f]) s1 = Inr ((fs, s'), es2)"
      using Suc.prems(1) by (subst (asm) send_loop.simps) (fastforce simp: result_simps Let_def)
    have "\<forall>g. Some g \<in> set (frags @ [Some f]) \<longrightarrow> fragment_ok g"
      using Suc.prems(2) send_fragment_keeps(2) [OF f(1)] by auto
    from Suc.IH [OF f(2) this] send_fragment_keeps(1) [OF f(1)] sent_more_trans show ?thesis by blast
  qed
qed

interpretation send_op: session_op "Send env m"
proof
  fix s s' es
  assume inv: "session_inv s" and send: "Send env m s = Inr (s', es)"
  from send obtain i m' where i: "ToSSU m = Inr (i, m')" by (auto simp: Send_def result_simps)
  define s1 where "s1 = (if m_SentMessages s = [] then ScheduleResend env s else s)"
  define sent where "sent = \<lparr>sm_fragments = [],
    sm_next_resend_time = word_of_nat (d_seconds env + SSUDuration_value ResendInterval), sm_num_resends = 0\<rparr>"
  define s2 where "s2 = s1\<lparr>m_SentMessages := std_insert i sent (m_SentMessages s1)\<rparr>"
  show "session_inv s'"
  proof (cases "std_count i (m_SentMessages s)")
    case True
    then show ?thesis using inv send i by (simp add: Send_def result_simps)
  next
    case False
    then obtain frags s3 es1 where l: "send_loop (GetLength m') env i (data_payload_size s) 0 (GetLength m')
        (GetSSUHeader m') (msg_buf m') [] s2 = Inr ((frags, s3), es1)"
      "s' = s3\<lparr>m_SentMessages := std_assign i (sent\<lparr>sm_fragments := frags\<rparr>) (m_SentMessages s3)\<rparr>"
      using send i by (auto simp: Send_def result_simps Let_def s2_def s1_def sent_def)
    have "session_inv s1" using inv by (simp add: s1_def)
    then have "session_inv s2"
      unfolding s2_def using session_invD [OF \<open>session_inv s1\<close>] set_std_insert [of i sent "m_SentMessages s1"]
      by (intro session_inv_sent) (auto simp: sent_ok_def sent_def)
    with send_loop_keeps [OF l(1)] show ?thesis
      unfolding l(2) by (intro session_inv_assign_sent) (auto simp: session_inv_sent_more sent_ok_def sent_def)
  qed
qed

lemma fragment_number_small:
  assumes "length frag = 3"
  shows "unat (ucast (drop_bit 17 (word_decode True (0 # frag) :: u32)) :: u8) < 128"
proof -
  have "be_decode (0 # frag) < 2 ^ 24"
    using be_decode_less [of frag] assms by (simp add: be_decode_def)
  then have "unat (word_decode True (0 # frag) :: u32) < 2 ^ 24"
    by (simp add: word_decode_def unat_of_nat)
  then have "unat (drop_bit 17 (word_decode True (0 # frag) :: u32)) < 128"
    by (simp add: unat_drop_bit_eq drop_bit_eq_div unat_div)
  then show ?thesis by (simp add: unsigned_ucast_eq take_bit_eq_mod)
qed

section \<open>Acknowledgements keep the invariant\<close>

lemma ack_bits_mem: "Some f \<in> set (ack_bits b n fs) \<Longrightarrow> Some f \<in> set fs"
proof -
  have "Some f \<in> set (foldl (\<lambda>fs j. if b AND push_bit j 1 \<noteq> 0 \<and> n + j < length fs then fs[n + j := None] else fs) fs js)
      \<Longrightarrow> Some f \<in> set fs" for js
    by (induction js arbitrary: fs) (auto split: if_splits dest!: set_update_subset_insert [THEN subsetD])
  then show "Some f \<in> set (ack_bits b n fs) \<Longrightarrow> Some f \<in> set fs" by (simp add: ack_bits_def)
qed

lemma ack_loop_mem:
  "ack_loop mem p n it = Inr (p', Some fs') \<Longrightarrow> \<exists>fs. it = Some fs \<and> (\<forall>f. Some f \<in> set fs' \<longrightarrow> Some f \<in> set fs)"
proof (induction "length mem - p" arbitrary: p n it rule: less_induct)
  case less
  obtain b where b: "peek p mem = Inr b" "p < length mem"
    using less.prems by (subst (asm) ack_loop.simps) (auto simp: result_simps)
  define r where "r = (case it of
      Some frags \<Rightarrow> if b AND 0x7F \<noteq> 0 then (n + 7, Some (ack_bits (b AND 0x7F) n frags)) else (n, it)
    | None \<Rightarrow> (n, it))"
  have step: "(if b AND 0x80 \<noteq> 0 then ack_loop mem (p + 1) (fst r) (snd r) else Inr (p + 1, snd r)) = Inr (p', Some fs')"
    using less.prems b(1) unfolding r_def
    by (subst (asm) ack_loop.simps) (simp add: Let_def case_prod_beta split: option.splits if_splits)
  have "\<exists>fs. snd r = Some fs \<and> (\<forall>f. Some f \<in> set fs' \<longrightarrow> Some f \<in> set fs)"
    using step less.hyps [of "p + 1" "fst r" "snd r"] b(2) by (auto split: if_splits)
  then show ?case
    unfolding r_def by (fastforce split: option.splits if_splits dest: ack_bits_mem)
qed

lemma process_bitfield_keeps:
  assumes "session_inv s" and "process_bitfield mem (p, s) i = Inr (p', s')"
  shows "session_inv s'"
proof -
  obtain msg_id frags where r: "ack_loop mem (p + 4) 0 (map_option sm_fragments (std_find msg_id (m_SentMessages s))) = Inr (p', frags)"
    "s' = (case (std_find msg_id (m_SentMessages s), frags) of
          (Some sent, Some fs) \<Rightarrow>
            s\<lparr>m_SentMessages := std_assign msg_id (sent\<lparr>sm_fragments := fs\<rparr>) (m_SentMessages s)\<rparr>
        | _ \<Rightarrow> s)"
    using assms(2) by (auto simp: process_bitfield_def result_simps Let_def)
  show ?thesis
  proof (cases "\<exists>sent fs. std_find msg_id (m_SentMessages s) = Some sent \<and> frags = Some fs")
    case True
    then obtain sent fs where f: "std_find msg_id (m_SentMessages s) = Some sent" "frags = Some fs" by blast
    then have "sent_ok sent" using session_invD [OF assms(1)] by (auto simp: std_find_mem)
    moreover have "\<forall>f. Some f \<in> set fs \<longrightarrow> Some f \<in> set (sm_fragments sent)"
      using r(1) ack_loop_mem [of mem "p + 4" 0 _ p' fs] f by auto
    ultimately have "sent_ok (sent\<lparr>sm_fragments := fs\<rparr>)" by (auto simp: sent_ok_def)
    then show ?thesis using assms(1) f r(2) by (simp add: session_inv_assign_sent)
  qed (use assms(1) r(2) in \<open>auto split: option.splits\<close>)
qed

lemma ProcessSentMessageACK_keeps: "session_inv s \<Longrightarrow> session_inv (ProcessSentMessageACK i s)"
  using set_std_erase [of i "m_SentMessages s"] session_invD [of s]
  by (auto simp: ProcessSentMessageACK_def Let_def intro!: session_inv_sent)

lemma ProcessACKs_keeps:
  assumes "session_inv s" and "ProcessACKs mem p flag s = Inr (p', s')"
  shows "session_inv s'"
proof -
  have acks: "session_inv s2" if "fold_result (\<lambda>s i. bind_result (Read_buf True (p + 1 + i * 4) mem) (\<lambda>msg_id.
      Inr (ProcessSentMessageACK msg_id s))) s is = Inr s2" for s2 "is"
    using that assms(1) by (induction "is" arbitrary: s) (auto simp: result_simps intro: ProcessSentMessageACK_keeps)
  have bits: "session_inv s2" if "fold_result (process_bitfield mem) (q, s1) is = Inr (q', s2)" "session_inv s1" for q q' s1 s2 "is"
    using that by (induction "is" arbitrary: q s1) (auto simp: result_simps intro: process_bitfield_keeps)
  show ?thesis
    using assms acks bits by (fastforce simp: ProcessACKs_def result_simps split: if_splits)
qed

section \<open>Reassembly keeps the invariant\<close>

lemma AttachNextFragment_keeps:
  assumes "AttachNextFragment f im = Inr im'" and "assembled d (im_msg im)"
  shows "\<exists>d'. assembled d' (im_msg im')" "im_next_fragment_num im' = Suc (im_next_fragment_num im)"
    "im_saved_fragments im' = im_saved_fragments im"
  using assms AttachNextFragment_ok [OF assms(2), of f] AttachNextFragment_overflow [OF assms(2), of f]
  by (cases "length d + length f \<le> 32771"; force)+

lemma try_saved_keeps:
  "try_saved sv islast im = Inr (c, im') \<Longrightarrow> assembled d (im_msg im) \<Longrightarrow> saved_ok (im_next_fragment_num im) sv \<Longrightarrow>
   im_next_fragment_num im \<le> 128 \<Longrightarrow> incomplete_ok im'"
proof (induction sv islast im arbitrary: d rule: try_saved.induct)
  case (1 islast im)
  then show ?case by (auto simp: incomplete_ok_def saved_ok_def)
next
  case (2 k f rest islast im)
  have k: "fr_num f = k" "im_next_fragment_num im \<le> k" "k < 128" "\<forall>j \<in> fst ` set rest. k < j" "saved_ok (Suc k) rest"
    using "2.prems"(3) by (auto simp: saved_ok_def)
  show ?case
  proof (cases "k = im_next_fragment_num im")
    case True
    then obtain im1 where im1: "AttachNextFragment (take (fr_len f) (fr_buffer f)) im = Inr im1"
      "try_saved rest (fr_is_last f) im1 = Inr (c, im')" using "2.prems"(1) k(1) by (auto simp: result_simps)
    from AttachNextFragment_keeps [OF im1(1) "2.prems"(2)] "2.IH" [OF _ im1] True k show ?thesis by auto
  next
    case False
    then have "im' = im\<lparr>im_saved_fragments := (k, f) # rest\<rparr>" using "2.prems"(1) k(1) by simp
    moreover have "saved_ok (Suc (im_next_fragment_num im)) ((k, f) # rest)"
      using "2.prems"(3) False k by (fastforce simp: saved_ok_def)
    ultimately show ?thesis using "2.prems"(2,4) by (auto simp: incomplete_ok_def)
  qed
qed

lemma handle_fragment_keeps:
  assumes "handle_fragment env mem p sz fnum islast im = Inr (c, im')" and "incomplete_ok im" and "fnum < 128" and "sz < 1456"
  shows "incomplete_ok im' \<or> c"
proof -
  obtain d where d: "assembled d (im_msg im)" using assms(2) by (auto simp: incomplete_ok_def)
  consider (current) "fnum = im_next_fragment_num im" | (old) "fnum < im_next_fragment_num im" | (new) "fnum > im_next_fragment_num im"
    by linarith
  then show ?thesis
  proof cases
    case current
    then obtain g im1 where im1: "AttachNextFragment g im = Inr im1"
      "(if \<not> islast \<and> im_saved_fragments im1 \<noteq> [] then try_saved (im_saved_fragments im1) islast im1 else Inr (islast, im1)) = Inr (c, im')"
      using assms(1) by (auto simp: handle_fragment_def result_simps)
    note a = AttachNextFragment_keeps [OF im1(1) d]
    have "saved_ok (im_next_fragment_num im1) (im_saved_fragments im1)" "im_next_fragment_num im1 \<le> 128"
      using a assms(2,3) current by (auto simp: incomplete_ok_def)
    then show ?thesis
      using im1(2) a(1) try_saved_keeps [of "im_saved_fragments im1" islast im1 c im']
      by (auto simp: incomplete_ok_def saved_ok_def split: if_splits)
  next
    case old
    then show ?thesis using assms(1,2) by (auto simp: handle_fragment_def)
  next
    case new
    then obtain f where f: "p + sz \<le> length mem" "Fragment_new fnum (slice p sz mem) islast = Inr f" "im' = (if std_count fnum (im_saved_fragments im) then im
          else im\<lparr>im_saved_fragments := std_insert fnum f (im_saved_fragments im),
                  im_last_fragment_insert_time := word_of_nat (d_seconds env)\<rparr>)"
      using assms(1) by (auto simp: handle_fragment_def result_simps)
    have "saved_ok (Suc (im_next_fragment_num im)) (std_insert fnum f (im_saved_fragments im))"
      using assms(2-4) f(1,2) new set_std_insert [of fnum f "im_saved_fragments im"]
      by (auto simp: incomplete_ok_def saved_ok_def Fragment_new_def split: if_splits)
    then show ?thesis using f(3) assms(2) by (auto simp: incomplete_ok_def)
  qed
qed

lemma SendMsgACK_keeps: "SendMsgACK env i s = Inr (s', es) \<Longrightarrow> sent_more s s'"
  by (auto simp: SendMsgACK_def result_simps Let_def dest!: seal_data_keeps(1) SSUSession_Send_keeps intro: sent_more_trans)

lemma SendFragmentACK_keeps: "SendFragmentACK env i n s = Inr (s', es) \<Longrightarrow> sent_more s s'"
  by (auto simp: SendFragmentACK_def result_simps Let_def split: if_splits
      dest!: seal_data_keeps(1) SSUSession_Send_keeps intro: sent_more_trans)

interpretation established_op: session_op "SSUSession_Established env"
proof
  fix s s' es
  assume inv: "session_inv s" and est: "SSUSession_Established env s = Inr (s', es)"
  let ?s1 = "Start env (s\<lparr>s_State := Established\<rparr>)"
  obtain status s2 es2 store es3 where s2: "Send env status ?s1 = Inr (s2, es2)" "Send env store s2 = Inr (s', es3)"
    using est unfolding SSUSession_Established_def Let_def bind_step_eq_Inr bind_result_eq_Inr emit_step_eq_Inr
    by (fastforce simp only: pure_step_eq_Inr emit_step_eq_Inr split: if_splits)
  have "session_inv ?s1" using inv by simp
  from send_op.keeps [OF send_op.keeps [OF this s2(1)] s2(2)] show "session_inv s'" .
qed

lemma put_next_message_keeps:
  "session_inv s \<Longrightarrow> put_next_message env m s = Inr (s', es) \<Longrightarrow> session_inv s'"
  by (auto simp: put_next_message_def result_simps)

interpretation complete_op: session_op "process_complete env i m"
proof
  fix s s' es
  assume inv: "session_inv s" and pc: "process_complete env i m s = Inr (s', es)"
  from pc obtain s1 es0 es1 where s1: "SendMsgACK env i s = Inr (s1, es0)" and
    k: "bind_result (FromSSU i m) (\<lambda>m1.
     if s_State s1 = Established then
       if \<not> std_count i (m_ReceivedMessages s1) then
         let s2 = (if length (m_ReceivedMessages s1) > SSUSize_value MaxReceivedMessages
                   then s1\<lparr>m_ReceivedMessages := []\<rparr> else ScheduleDecay env s1);
             s3 = s2\<lparr>m_ReceivedMessages := std_insert i () (m_ReceivedMessages s2)\<rparr>
         in put_next_message env m1 s3
       else pure_step s1
     else
       bind_result (GetTypeID m1) (\<lambda>t.
         if t = type_code I2NPDeliveryStatus then SSUSession_Established env s1
         else if t = type_code I2NPDatabaseStore then
           put_next_message env m1 (s1\<lparr>m_ReceivedMessages := std_insert i () (m_ReceivedMessages s1)\<rparr>)
         else pure_step s1)) = Inr (s', es1)"
    unfolding process_complete_def bind_step_eq_Inr by blast
  from k obtain m1 where r:
    "(if s_State s1 = Established then
       if \<not> std_count i (m_ReceivedMessages s1) then
         let s2 = (if length (m_ReceivedMessages s1) > SSUSize_value MaxReceivedMessages
                   then s1\<lparr>m_ReceivedMessages := []\<rparr> else ScheduleDecay env s1);
             s3 = s2\<lparr>m_ReceivedMessages := std_insert i () (m_ReceivedMessages s2)\<rparr>
         in put_next_message env m1 s3
       else pure_step s1
     else
       bind_result (GetTypeID m1) (\<lambda>t.
         if t = type_code I2NPDeliveryStatus then SSUSession_Established env s1
         else if t = type_code I2NPDatabaseStore then
           put_next_message env m1 (s1\<lparr>m_ReceivedMessages := std_insert i () (m_ReceivedMessages s1)\<rparr>)
         else pure_step s1)) = Inr (s', es1)"
    unfolding bind_result_eq_Inr by blast
  have inv1: "session_inv s1" using inv session_inv_sent_more [OF SendMsgACK_keeps [OF s1]] by simp
  note rec = session_invD(5) [OF inv1]
  have ins: "session_inv (s2\<lparr>m_ReceivedMessages := std_insert i () (m_ReceivedMessages s2)\<rparr>)" if "session_inv s2" for s2
    using that session_invD(5) [OF that] by (intro session_inv_received) simp_all
  have "session_inv (s1\<lparr>m_ReceivedMessages := []\<rparr>)" "session_inv (ScheduleDecay env s1)"
    using inv1 by (simp_all add: session_inv_received)
  note recs = ins [OF this(1)] ins [OF this(2)] ins [OF inv1]
  consider (dup) "s' = s1"
    | (put) s3 where "session_inv s3" "put_next_message env m1 s3 = Inr (s', es1)"
    | (est) "SSUSession_Established env s1 = Inr (s', es1)"
  proof (cases "s_State s1 = Established")
    case True
    note r = r [unfolded if_P [OF True]]
    show ?thesis
    proof (cases "std_count i (m_ReceivedMessages s1)")
      case True
      with r dup show ?thesis by (simp add: pure_step_eq_Inr)
    next
      case False
      show ?thesis
      proof (cases "length (m_ReceivedMessages s1) > SSUSize_value MaxReceivedMessages")
        case True
        show ?thesis
          by (rule put [OF recs(1)]) (use r [unfolded if_P [OF False] Let_def if_P [OF True]] in assumption)
      next
        case n: False
        show ?thesis
          by (rule put [OF recs(2)]) (use r [unfolded if_P [OF False] Let_def if_not_P [OF n]] in assumption)
      qed
    qed
  next
    case False
    from r [unfolded if_not_P [OF False] bind_result_eq_Inr] show ?thesis
      using dup put [OF recs(3)] est by (auto simp only: pure_step_eq_Inr split: if_splits)
  qed
  then show "session_inv s'"
    using inv1 put_next_message_keeps established_op.keeps by cases blast+
qed

lemma new_incomplete_ok: "incomplete_ok new_incomplete"
  using new_incomplete_partial(1) [of "[[]]"]
  by (auto simp: incomplete_ok_def partial_def prefix_ok_def saved_ok_def new_incomplete_def Let_def)

lemma process_fragment_keeps:
  assumes "session_inv s" and "process_fragment env mem p s = Inr ((next, s'), es)"
  shows "session_inv s'"
proof -
  obtain i :: u32 and frag where fr: "Read_buf True p mem = Inr i" "mem_read (p + 4) 3 mem = Inr frag"
    using assms(2) by (auto simp: process_fragment_def result_simps)
  define info where "info = (word_decode True (0 # frag) :: u32)"
  define sz where "sz = unat (info AND 0x3FFF)"
  define n where "n = unat (ucast (drop_bit 17 info) :: u8)"
  define im where "im = (case std_find i (m_IncompleteMessages s) of Some im \<Rightarrow> im | None \<Rightarrow> new_incomplete)"
  note step = assms(2) [unfolded process_fragment_def fr bind_result_Inr Let_def, folded info_def, folded sz_def n_def im_def]
  have im_ok: "incomplete_ok im"
    unfolding im_def using session_invD [OF assms(1)] new_incomplete_ok by (auto simp: std_find_mem split: option.splits)
  have "length frag = 3" using fr(2) by (auto simp: result_simps)
  then have n: "n < 128" unfolding n_def info_def by (rule fragment_number_small)
  show ?thesis
  proof (cases "sz \<ge> SSUSize_value PacketMaxIPv4")
    case True
    then show ?thesis using step assms(1) by (simp add: result_simps)
  next
    case False
    then obtain c im1 where h: "handle_fragment env mem (p + 7) sz n (info AND 0x010000 \<noteq> 0) im = Inr (c, im1)" and
      r: "(if c then process_complete env i (im_msg im1) (s\<lparr>m_IncompleteMessages := std_erase i (m_IncompleteMessages s)\<rparr>)
          else SendFragmentACK env i n (s\<lparr>m_IncompleteMessages := std_assign i im1 (m_IncompleteMessages s)\<rparr>)) = Inr (s', es)"
      using step by (auto simp: result_simps)
    have "incomplete_ok im1 \<or> c" using handle_fragment_keeps [OF h im_ok n] False by simp
    moreover have "session_inv (s\<lparr>m_IncompleteMessages := std_erase i (m_IncompleteMessages s)\<rparr>)"
      using assms(1) session_invD [OF assms(1)] set_std_erase [of i "m_IncompleteMessages s"]
      by (intro session_inv_incomplete) auto
    moreover have "session_inv (s\<lparr>m_IncompleteMessages := std_assign i im1 (m_IncompleteMessages s)\<rparr>)" if "incomplete_ok im1"
      using assms(1) that session_invD [OF assms(1)] set_std_assign [of i im1 "m_IncompleteMessages s"]
      by (intro session_inv_incomplete) auto
    ultimately show ?thesis
      using r complete_op.keeps session_inv_sent_more [OF SendFragmentACK_keeps] by (auto split: if_splits)
  qed
qed

lemma process_fragments_keeps:
  "session_inv s \<Longrightarrow> process_fragments n env mem p s = Inr (s', es) \<Longrightarrow> session_inv s'"
proof (induction n arbitrary: p s es)
  case 0
  then show ?case by (simp add: result_simps)
next
  case (Suc n)
  then obtain q s1 es1 es2 where s1: "process_fragment env mem p s = Inr ((q, s1), es1)"
    "(case q of None \<Rightarrow> pure_step s1 | Some p1 \<Rightarrow> process_fragments n env mem p1 s1) = Inr (s', es2)"
    by (auto simp: result_simps)
  from process_fragment_keeps [OF Suc.prems(1) s1(1)] show ?case
    using s1(2) Suc.IH by (auto simp: result_simps split: option.splits)
qed

interpretation receive_op: session_op "ProcessMessage env mem len"
proof
  fix s s' es
  assume inv: "session_inv s" and "ProcessMessage env mem len s = Inr (s', es)"
  then obtain flag p1 s1 p2 where s1:
    "(if flag AND (SSUFlag_value DataACKBitfieldsIncluded OR SSUFlag_value DataExplicitACKsIncluded) \<noteq> 0
      then ProcessACKs mem 1 flag s else Inr (1, s)) = Inr (p1, s1)"
    "ProcessFragments env mem p2 s1 = Inr (s', es)"
    unfolding ProcessMessage_def bind_result_eq_Inr by (auto simp only: prod.case bind_result_eq_Inr)
  have "session_inv s1" using s1(1) inv by (auto simp only: ProcessACKs_keeps prod.inject sum.inject split: if_splits)
  then show "session_inv s'"
    using s1(2) by (auto simp: ProcessFragments_def result_simps intro: process_fragments_keeps)
qed

section \<open>Timers keep the invariant\<close>

lemma std_update_all_mem: "(k, w) \<in> set (std_update_all f m) \<Longrightarrow> \<exists>v. (k, v) \<in> set m \<and> f v = Some w"
  by (induction f m rule: std_update_all.induct) (auto split: option.splits)

lemma std_inv_filter: "std_inv m \<Longrightarrow> std_inv (filter P m)"
  by (induction m) auto

lemma resend_entry_ok: "sent_ok sent \<Longrightarrow> resend_entry ts sent = Some sent' \<Longrightarrow> sent_ok sent'"
  by (auto simp: resend_entry_def sent_ok_def split: if_splits)

lemma HandleResendTimer_total:
  assumes "session_inv s"
  shows "\<exists>s'. HandleResendTimer env s = Inr (s', expiry_packets (d_seconds env) (m_SentMessages s)) \<and> session_inv s' \<and>
    m_SentMessages s' = std_update_all (resend_entry (d_seconds env)) (m_SentMessages s)"
proof -
  let ?sent = "std_update_all (resend_entry (d_seconds env)) (m_SentMessages s)"
  have "\<forall>(k, sent) \<in> set (m_SentMessages s). sendable_fragments sent"
    using session_invD(4) [OF assms] by (fastforce simp: sent_ok_def sendable_fragments_def fragment_ok_def)
  from resend_messages_ok [OF this] obtain s1 where
    s1: "resend_messages (d_seconds env) (m_SentMessages s) s =
      Inr ((?sent, s1), expiry_packets (d_seconds env) (m_SentMessages s))" "sent_more s s1" by blast
  have "session_inv s1" using assms session_inv_sent_more [OF s1(2)] by simp
  then have "session_inv (s1\<lparr>m_SentMessages := ?sent\<rparr>)"
    using session_invD(3,4) [OF assms]
    by (intro session_inv_sent) (auto intro: std_inv_update_all resend_entry_ok dest!: std_update_all_mem)
  then show ?thesis using s1(1) by (simp add: HandleResendTimer_def pure_step_def ScheduleResend_def session_inv_schedule)
qed

interpretation resend_op: session_op "HandleResendTimer env"
proof
  fix s s' es
  assume "session_inv s" "HandleResendTimer env s = Inr (s', es)"
  with HandleResendTimer_total [of s env] show "session_inv s'" by auto
qed

lemma cleanup_keeps: "session_inv s \<Longrightarrow> session_inv (HandleIncompleteMessagesCleanupTimer env s)"
  unfolding HandleIncompleteMessagesCleanupTimer_def
  by (auto intro!: session_inv_incomplete std_inv_filter dest: session_invD)

lemma decay_keeps: "session_inv s \<Longrightarrow> session_inv (HandleDecayTimer s)"
  by (simp add: HandleDecayTimer_def session_inv_received)

lemma UpdatePacketSize_keeps: "session_inv s \<Longrightarrow> session_inv (UpdatePacketSize router s)"
  by (auto simp: UpdatePacketSize_def AdjustPacketSize_def session_inv_def Let_def push_bit_eq_mult split: option.splits)

lemma init_inv: "session_inv (SSUData_init router s0)"
proof -
  let ?sz = "SSUSize_value (if s_IsV6 s0 then PacketMaxIPv6 else PacketMaxIPv4)"
  have "16 dvd ?sz" by simp
  then have "session_inv (s0\<lparr>m_IncompleteMessages := [], m_SentMessages := [], m_ReceivedMessages := [],
      m_ResendTimer := \<lparr>expiry = None, waiting = []\<rparr>, m_DecayTimer := \<lparr>expiry = None, waiting = []\<rparr>,
      m_IncompleteMessagesCleanupTimer := \<lparr>expiry = None, waiting = []\<rparr>,
      m_MaxPacketSize := ?sz, m_PacketSize := ?sz, m_Handler := \<lparr>m_TunnelMsgs = [], m_TunnelGatewayMsgs = []\<rparr>\<rparr>)"
    by (simp add: session_inv_def)
  then show ?thesis unfolding SSUData_init_def Let_def by (rule UpdatePacketSize_keeps)
qed

section \<open>Reachable sessions\<close>

text \<open>
  The states of a session, whatever the peer sends, the clock says and the rest of the router
  does. \<open>other\<close> stands for the parts of \<open>SSUSession\<close> that are not the data layer.
\<close>

inductive reachable :: "SSUSession \<Rightarrow> bool" where
  init: "reachable (SSUData_init router s0)"
| send: "reachable s \<Longrightarrow> Send env m s = Inr (s', es) \<Longrightarrow> reachable s'"
| receive: "reachable s \<Longrightarrow> ProcessMessage env mem len s = Inr (s', es) \<Longrightarrow> reachable s'"
| established: "reachable s \<Longrightarrow> SSUSession_Established env s = Inr (s', es) \<Longrightarrow> reachable s'"
| flush: "reachable s \<Longrightarrow> FlushReceivedMessage s = (s', es) \<Longrightarrow> reachable s'"
| resize: "reachable s \<Longrightarrow> reachable (UpdatePacketSize router s)"
| resend: "reachable s \<Longrightarrow> HandleResendTimer env s = Inr (s', es) \<Longrightarrow> reachable s'"
| decay: "reachable s \<Longrightarrow> reachable (HandleDecayTimer s)"
| cleanup: "reachable s \<Longrightarrow> reachable (HandleIncompleteMessagesCleanupTimer env s)"
| start: "reachable s \<Longrightarrow> reachable (Start env s)"
| stop: "reachable s \<Longrightarrow> reachable (Stop s)"
| other: "reachable s \<Longrightarrow> reachable (s\<lparr>s_State := st, s_SessionKeyEncryption := enc, s_MACKey := mac,
    s_NumSentBytes := n, s_Random := r, s_PeerTest := pt\<rparr>)"

lemma reachable_inv: "reachable s \<Longrightarrow> session_inv s"
proof (induction rule: reachable.induct)
  case (flush s s' es)
  then show ?case by (auto simp: FlushReceivedMessage_def split: prod.splits)
next
  case (other s st enc mac n r pt)
  then show ?case by (simp add: session_inv_def)
qed (auto intro: init_inv send_op.keeps receive_op.keeps established_op.keeps UpdatePacketSize_keeps resend_op.keeps
    decay_keeps cleanup_keeps)

text \<open>
  C7 (invariant). In every state a session can reach, whatever its peer sends: the three
  containers are ordered with unique keys; every message being assembled is consistent with
  its buffer, expects a fragment number of at most 128 and keeps only later fragments; no
  message has been resent more than five times, and its fragments are whole cipher blocks
  inside their buffers; the packet size is a multiple of 16 and at most the maximum of the
  address family. The resend timer therefore always finds sendable fragments.
\<close>

theorem session_invariant:
  assumes "reachable s"
  shows "session_inv s \<and> (\<exists>s' es. HandleResendTimer env s = Inr (s', es))"
  using reachable_inv [OF assms] HandleResendTimer_total by blast+

lemma sample_sent_state:
  "\<exists>s es sent. Send sample_data_env sample_message (SSUData_init (Some (Some 76)) sample_session) = Inr (s, es) \<and>
     reachable s \<and> std_find 7 (m_SentMessages s) = Some sent \<and> sm_num_resends sent = 0 \<and> sm_next_resend_time sent = 80"
proof -
  let ?s = "SSUData_init (Some (Some 76)) sample_session"
  have f: "s_MACKey ?s = s_MACKey sample_session" "m_SentMessages ?s = []" "m_PacketSize ?s = 48"
    by (simp_all add: SSUData_init_def UpdatePacketSize_def AdjustPacketSize_def Let_def sample_session_def
        size_sub_def push_bit_eq_mult drop_bit_eq_div)
  have "can_send sample_data_env ?s" using sample_can_send(2) f(1) by (simp add: can_send_def)
  moreover have "packet_size_ok ?s" using f(3) by (simp add: packet_size_ok_def)
  moreover have "d_seconds sample_data_env = 77" by (simp add: sample_data_env_def)
  ultimately obtain s es sent where s: "Send sample_data_env sample_message ?s = Inr (s, es)"
      "std_find 7 (m_SentMessages s) = Some sent" "sm_num_resends sent = 0" "sm_next_resend_time sent = 80"
    using Send_ok [of sample_data_env ?s 20 7 5000 sample_message] sample_sendable(1) f(2)
    by (auto simp: std_find_def Let_def)
  have "reachable s" by (rule reachable.send [OF reachable.init s(1)])
  with s show ?thesis by blast
qed

theorem session_invariant_witness:
  "\<exists>s es. Send sample_data_env sample_message (SSUData_init (Some (Some 76)) sample_session) = Inr (s, es) \<and>
     session_inv s \<and> (\<exists>s' es'. HandleResendTimer sample_data_env s = Inr (s', es'))"
proof -
  obtain s es where "Send sample_data_env sample_message (SSUData_init (Some (Some 76)) sample_session) = Inr (s, es)" "reachable s"
    using sample_sent_state by blast
  with session_invariant [of s sample_data_env] show ?thesis by auto
qed

section \<open>Giving up on a message\<close>

text \<open>The expiries of the resend timer at the times of the environments.\<close>

fun fire_resends :: "DataEnv list \<Rightarrow> SSUSession \<Rightarrow> SSUSession step" where
  "fire_resends [] s = pure_step s"
| "fire_resends (env # envs) s = bind_step (HandleResendTimer env s) (fire_resends envs)"

text \<open>A message sent at second \<open>t\<close> that has been resent \<open>k\<close> times.\<close>

definition resent :: "nat \<Rightarrow> nat \<Rightarrow> SentMessage \<Rightarrow> bool" where
  "resent t k sent \<longleftrightarrow> k \<le> 5 \<and> sm_num_resends sent = k \<and>
     sm_next_resend_time sent = word_of_nat (t + 3 + 3 * (k * (k + 1) div 2))"

lemma resend_entry_resent:
  assumes "resent t k sent" and "t + 48 < 2 ^ 32"
  shows "case resend_entry ts sent of
      None \<Rightarrow> k = 5 \<and> t + 48 \<le> ts
    | Some sent' \<Rightarrow> unacknowledged sent' = unacknowledged sent \<and>
        (resent t k sent' \<and> ts < t + 48 \<and> entry_packets ts sent = [] \<or>
         resent t (k + 1) sent' \<and> entry_packets ts sent = unacknowledged sent)"
proof -
  let ?d = "t + 3 + 3 * (k * (k + 1) div 2)"
  have k: "k \<in> {0, 1, 2, 3, 4, 5}" using assms(1) by (auto simp: resent_def)
  then have "?d \<le> t + 48" by auto
  then have "?d < 2 ^ LENGTH(32)" using assms(2) by simp
  then have "unat (sm_next_resend_time sent) = ?d"
    using assms(1) of_nat_inverse [of ?d "sm_next_resend_time sent"] by (simp only: resent_def)
  moreover have "?d + (k + 1) * 3 = t + 3 + 3 * ((k + 1) * (k + 1 + 1) div 2)" using k by auto
  then have "word_of_nat ?d + word_of_nat ((k + 1) * 3) = (word_of_nat (t + 3 + 3 * ((k + 1) * (k + 1 + 1) div 2)) :: u32)"
    by (metis of_nat_add)
  ultimately show ?thesis
    using assms(1) k \<open>?d \<le> t + 48\<close> unfolding resend_entry_def resent_def entry_packets_def unacknowledged_def by auto
qed

text \<open>What a sequence of expiries sends, and its share of one message.\<close>

fun resent_packets :: "nat list \<Rightarrow> (u32, SentMessage) std_map \<Rightarrow> event list" where
  "resent_packets [] ms = []"
| "resent_packets (ts # tss) ms = expiry_packets ts ms @ resent_packets tss (std_update_all (resend_entry ts) ms)"

lemma fire_resends_eq:
  "session_inv s \<Longrightarrow> \<exists>s'. fire_resends envs s = Inr (s', resent_packets (map d_seconds envs) (m_SentMessages s)) \<and>
     m_SentMessages s' = fold (\<lambda>env. std_update_all (resend_entry (d_seconds env))) envs (m_SentMessages s)"
proof (induction envs arbitrary: s)
  case (Cons env envs)
  obtain s1 where s1: "HandleResendTimer env s = Inr (s1, expiry_packets (d_seconds env) (m_SentMessages s))" "session_inv s1"
      "m_SentMessages s1 = std_update_all (resend_entry (d_seconds env)) (m_SentMessages s)"
    using HandleResendTimer_total [OF Cons.prems] by blast
  then show ?case using Cons.IH [OF s1(2)] by (auto simp: bind_step_def)
qed (simp add: pure_step_def)

lemma shuffles_append: "zs \<in> shuffles xs ys \<Longrightarrow> us \<in> shuffles vs ws \<Longrightarrow> zs @ us \<in> shuffles (xs @ vs) (ys @ ws)"
proof (induction zs arbitrary: xs ys)
  case (Cons z zs)
  from Cons.prems(1) consider "xs \<noteq> []" "hd xs = z" "zs \<in> shuffles (tl xs) ys" | "ys \<noteq> []" "hd ys = z" "zs \<in> shuffles xs (tl ys)"
    unfolding Cons_in_shuffles_iff by blast
  then show ?case
    by cases (use Cons.IH [of "tl xs" ys] Cons.IH [of xs "tl ys"] Cons.prems(2) in \<open>simp_all add: Cons_in_shuffles_iff\<close>)
qed simp

lemma std_erase_absent: "std_find i m = None \<Longrightarrow> std_erase i m = m"
  unfolding std_find_def std_erase_def by (induction m) (auto split: if_splits)

lemma std_erase_update_all: "std_erase i (std_update_all f m) = std_update_all f (std_erase i m)"
  unfolding std_erase_def by (induction f m rule: std_update_all.induct) (auto split: option.splits)

lemma expiry_packets_split:
  "std_inv ms \<Longrightarrow> std_find i ms = Some sent \<Longrightarrow> expiry_packets ts ms \<in> shuffles (entry_packets ts sent) (expiry_packets ts (std_erase i ms))"
proof (induction ms)
  case (Cons a ms)
  obtain k v where a: "a = (k, v)" by (cases a)
  show ?case
  proof (cases "k = i")
    case True
    then have "std_find i ms = None" using Cons.prems(1) a by (auto simp: std_inv_Cons std_find_None_iff)
    then have "std_erase i (a # ms) = ms" using std_erase_absent [of i ms] True a by (simp add: std_erase_def)
    moreover have "v = sent" using Cons.prems(2) a True by (simp add: std_find_def)
    ultimately show ?thesis
      using shuffles_append [of "entry_packets ts v" "entry_packets ts v" "[]" "expiry_packets ts ms" "[]" "expiry_packets ts ms"]
      by (simp add: a expiry_packets_def)
  next
    case False
    then have "expiry_packets ts ms \<in> shuffles (entry_packets ts sent) (expiry_packets ts (std_erase i ms))"
      using Cons a by (auto simp: std_inv_Cons std_find_def)
    from shuffles_append [OF _ this, of "entry_packets ts v" "[]" "entry_packets ts v"] False show ?thesis
      by (simp add: a expiry_packets_def std_erase_def)
  qed
qed (simp add: std_find_def)

lemma resent_packets_split:
  assumes "t + 48 < 2 ^ 32"
  shows "std_inv ms \<Longrightarrow> std_find i ms = Some sent \<Longrightarrow> resent t k sent \<Longrightarrow> 6 \<le> k + length (filter (\<lambda>ts. t + 48 \<le> ts) tss) \<Longrightarrow>
    resent_packets tss ms \<in> shuffles (concat (replicate (5 - k) (unacknowledged sent))) (resent_packets tss (std_erase i ms)) \<and>
    std_find i (fold (\<lambda>ts. std_update_all (resend_entry ts)) tss ms) = None"
proof (induction tss arbitrary: ms sent k)
  case Nil
  then show ?case by (simp add: resent_def)
next
  case (Cons ts tss)
  let ?ms = "std_update_all (resend_entry ts) ms"
  note split = expiry_packets_split [OF Cons.prems(1,2), of ts]
  have inv: "std_inv ?ms" using Cons.prems(1) by (rule std_inv_update_all)
  have find: "std_find i ?ms = resend_entry ts sent" using Cons.prems(1,2) by (simp add: std_find_update_all)
  have gone: "std_find i (fold (\<lambda>ts. std_update_all (resend_entry ts)) tss ms') = None" if "std_inv ms'" "std_find i ms' = None" for ms'
    using that by (induction tss arbitrary: ms') (simp_all add: std_inv_update_all std_find_update_all)
  note e = resend_entry_resent [OF Cons.prems(3) assms, of ts]
  show ?case
  proof (cases "resend_entry ts sent")
    case None
    then have "k = 5" "entry_packets ts sent = []"
      using e Cons.prems(3) by (auto simp: entry_packets_def resent_def)
    moreover have "std_erase i ?ms = ?ms" using find None std_erase_absent by metis
    ultimately show ?thesis
      using split gone [OF inv] find None by (simp add: std_erase_update_all [symmetric])
  next
    case (Some sent')
    then consider "unacknowledged sent' = unacknowledged sent" "resent t k sent'" "ts < t + 48" "entry_packets ts sent = []"
      | "unacknowledged sent' = unacknowledged sent" "resent t (k + 1) sent'" "entry_packets ts sent = unacknowledged sent"
      using e by auto
    then show ?thesis
    proof cases
      case 1
      with Cons.IH [OF inv _ 1(2)] Cons.prems(4) find Some shuffles_append [OF split] show ?thesis
        by (fastforce simp: std_erase_update_all)
    next
      case 2
      then have "5 - k = Suc (5 - (k + 1))" by (auto simp: resent_def)
      moreover have "6 \<le> (k + 1) + length (filter (\<lambda>ts. t + 48 \<le> ts) tss)" using Cons.prems(4) by (simp split: if_splits)
      ultimately show ?thesis
        using Cons.IH [OF inv _ 2(2)] find Some shuffles_append [OF split] 2(1,3) by (fastforce simp: std_erase_update_all)
    qed
  qed
qed

text \<open>
  C17 (liveness). A message that is never acknowledged does not stay for ever, and is not given
  up early: once the resend timer has expired six times after the last deadline, 48 seconds
  after it was sent, the session has dropped it, and the unacknowledged fragments have been sent
  exactly five times more. What else the session has sent is what it would have sent without
  this message.
\<close>

theorem unacknowledged_given_up:
  assumes "reachable s" and "std_find i (m_SentMessages s) = Some sent" and "resent t 0 sent" and "t + 48 < 2 ^ 32"
    and "6 \<le> length (filter (\<lambda>env. t + 48 \<le> d_seconds env) envs)"
  shows "\<exists>s' es s'' rest. fire_resends envs s = Inr (s', es) \<and> std_find i (m_SentMessages s') = None \<and>
    fire_resends envs (s\<lparr>m_SentMessages := std_erase i (m_SentMessages s)\<rparr>) = Inr (s'', rest) \<and>
    es \<in> shuffles (concat (replicate 5 (map packet_of (List.map_filter id (sm_fragments sent))))) rest"
proof -
  note inv = reachable_inv [OF assms(1)]
  let ?ms = "std_erase i (m_SentMessages s)"
  have "std_inv ?ms" using session_invD(3) [OF inv] by (rule std_inv_erase)
  moreover have "set ?ms \<subseteq> set (m_SentMessages s)" by (rule set_std_erase)
  ultimately have inv': "session_inv (s\<lparr>m_SentMessages := ?ms\<rparr>)"
    using inv session_invD(4) [OF inv] by (intro session_inv_sent) auto
  have "6 \<le> 0 + length (filter (\<lambda>ts. t + 48 \<le> ts) (map d_seconds envs))" using assms(5) by (simp add: filter_map comp_def)
  from resent_packets_split [OF assms(4) session_invD(3) [OF inv] assms(2,3) this]
  show ?thesis
    using fire_resends_eq [OF inv, of envs] fire_resends_eq [OF inv', of envs]
    by (auto simp: unacknowledged_def fold_map comp_def)
qed

theorem unacknowledged_given_up_witness:
  "\<exists>s es s' es'. Send sample_data_env sample_message (SSUData_init (Some (Some 76)) sample_session) = Inr (s, es) \<and>
     std_find 7 (m_SentMessages s) \<noteq> None \<and>
     fire_resends (replicate 6 (sample_data_env\<lparr>d_seconds := 125\<rparr>)) s = Inr (s', es') \<and>
     std_find 7 (m_SentMessages s') = None"
proof -
  obtain s es sent where s: "Send sample_data_env sample_message (SSUData_init (Some (Some 76)) sample_session) = Inr (s, es)"
    "reachable s" "std_find 7 (m_SentMessages s) = Some sent" "resent 77 0 sent"
    using sample_sent_state by (auto simp: resent_def)
  have "6 \<le> length (filter (\<lambda>env. 77 + 48 \<le> d_seconds env) (replicate 6 (sample_data_env\<lparr>d_seconds := 125\<rparr>)))"
    by (simp del: replicate.simps)
  from unacknowledged_given_up [OF s(2-4) _ this] s(1,3) show ?thesis by auto
qed

section \<open>The loop of \<open>Send\<close> ends\<close>

text \<open>The only way sending fails is an access outside a buffer.\<close>

lemma CBCEncrypt_blocks_error: "CBCEncrypt_blocks E n src dst c mem = Inl e \<Longrightarrow> e = MemoryError"
  by (induction n arbitrary: src dst c mem) (auto simp: result_simps Let_def dest: mem_error_only)

lemma CBCEncrypt_asm_error: "CBCEncrypt_asm E sched n src dst xmm1 mem = Inl e \<Longrightarrow> e = MemoryError"
proof (induction n arbitrary: src dst xmm1 mem)
  case 0
  then show ?case by (subst (asm) CBCEncrypt_asm.simps) (auto simp: result_simps Let_def dest: mem_error_only)
next
  case (Suc n)
  from Suc.prems show ?case
    by (subst (asm) CBCEncrypt_asm.simps)
      (auto simp: result_simps Let_def split: if_splits dest: mem_error_only Suc.IH)
qed

lemma CBC_Encrypt_error: "CBC_Encrypt ni E src len dst c mem = Inl e \<Longrightarrow> e = MemoryError"
  by (auto simp: CBC_Encrypt_def result_simps Let_def split: if_splits
      dest: CBCEncrypt_blocks_error CBCEncrypt_asm_error)

lemma HMACMD5Digest_error: "HMACMD5Digest md5 msg key = Inl e \<Longrightarrow> e = MemoryError"
  by (auto simp: HMACMD5Digest_def result_simps Let_def simp del: replicate.simps dest: mem_error_only)

lemma seal_packet_error: "seal_packet env iv time flag mac_key enc buf len = Inl e \<Longrightarrow> e = MemoryError"
  unfolding seal_packet_def Let_def bind_result_eq_Inl
  by (auto simp: bind_result_eq_Inl dest: mem_error_only CBC_Encrypt_error HMACMD5Digest_error)

lemma send_fragment_error:
  "send_fragment env i n islast chunk s = Inl e \<Longrightarrow> e = MemoryError"
  unfolding send_fragment_def Let_def bind_step_def
  by (auto simp: bind_result_eq_Inl seal_data_def SSUSession_Send_def FillHeaderAndEncrypt_session_def
      pure_step_def emit_step_def simp del: replicate.simps split: if_splits dest: mem_error_only seal_packet_error)

lemma send_loop_error:
  "0 < psize \<Longrightarrow> len \<le> fuel \<Longrightarrow> send_loop fuel env i psize n len p mem frags s = Inl e \<Longrightarrow> e = MemoryError"
proof (induction fuel arbitrary: n len p frags s)
  case 0
  then show ?case by (simp add: send_loop.simps pure_step_def)
next
  case (Suc fuel)
  let ?l = "len \<le> psize"
  show ?case
  proof (cases "len = 0")
    case True
    then show ?thesis using Suc.prems(3) by (simp add: send_loop.simps pure_step_def)
  next
    case False
    let ?len = "if ?l then 0 else len - psize" let ?p = "if ?l then p else p + psize"
    have step: "bind_result (mem_read p (if ?l then len else psize) mem) (\<lambda>chunk.
        bind_step (send_fragment env i n ?l chunk s) (\<lambda>(f, s').
          send_loop fuel env i psize (n + 1) ?len ?p mem (frags @ [Some f]) s')) = Inl e"
      using Suc.prems(3) False by (subst (asm) send_loop.simps) (simp add: Let_def)
    have rest: "e = MemoryError" if "send_loop fuel env i psize (n + 1) ?len ?p mem fs s1 = Inl e" for fs s1
      by (rule Suc.IH [OF Suc.prems(1) _ that]) (use Suc.prems(1,2) in auto)
    from step show ?thesis
      unfolding bind_step_def bind_result_eq_Inl using mem_error_only(1) send_fragment_error rest
      by (auto simp: bind_result_eq_Inl split: prod.splits)
  qed
qed

lemma ToSSU_error: "ToSSU m = Inl e \<Longrightarrow> e = MemoryError"
  by (auto simp: ToSSU_def result_simps Let_def put_def Read_buf_def dest: mem_error_only)

text \<open>
  C18 (termination). In every state a session can reach, \<open>Send\<close> ends: the packet size is a
  multiple of 16, so what is left of it for the payload is never zero, and the loop makes
  progress. The only failure is an access outside a buffer.
\<close>

theorem Send_terminates:
  assumes "reachable s"
  shows "(\<exists>s' es. Send env m s = Inr (s', es)) \<or> Send env m s = Inl MemoryError"
proof (cases "Send env m s")
  case (Inl e)
  have "16 dvd m_PacketSize s" "m_PacketSize s \<le> 1456"
    using reachable_inv [OF assms] by (auto simp: session_inv_def split: if_splits)
  then have "m_PacketSize s \<noteq> 46" by auto
  then have "0 < data_payload_size s" using \<open>m_PacketSize s \<le> 1456\<close> by (auto simp: data_payload_size_def size_sub_def)
  then have "e = MemoryError"
    using Inl unfolding Send_def Let_def bind_step_def
    by (auto simp: bind_result_eq_Inl pure_step_def split: if_splits dest: ToSSU_error send_loop_error)
  then show ?thesis using Inl by simp
qed auto

theorem Send_terminates_witness:
  "(\<exists>s' es. Send sample_data_env sample_message (SSUData_init (Some (Some 60)) sample_session) = Inr (s', es)) \<or>
   Send sample_data_env sample_message (SSUData_init (Some (Some 60)) sample_session) = Inl MemoryError"
  by (rule Send_terminates [OF reachable.init])

text \<open>An MTU that leaves less than a header makes the payload size wrap around.\<close>

lemma AdjustPacketSize_small:
  assumes "\<not> s_IsV6 s" and "29 \<le> mtu" and "mtu < 76" and "m_MaxPacketSize s = 1456"
  shows "m_PacketSize (AdjustPacketSize (Some mtu) s) < 46"
proof -
  have u: "29 \<le> unat mtu" "unat mtu < 76" using assms(2,3) by (simp_all add: word_le_nat_alt word_less_nat_alt)
  then have "(unat mtu - 28) div 16 < 3" by (simp add: less_mult_imp_div_less)
  then have "(unat mtu - 28) div 16 * 16 < 46" by linarith
  then show ?thesis
    using assms(1,4) u by (auto simp: AdjustPacketSize_def Let_def push_bit_eq_mult drop_bit_eq_div size_sub_def)
qed

lemma send_fragment_too_long:
  assumes "1410 < length chunk"
  shows "send_fragment env i n islast chunk s = Inl MemoryError"
proof (cases "send_fragment env i n islast chunk s")
  case (Inl e)
  then show ?thesis using send_fragment_error by blast
next
  case (Inr r)
  obtain f s' es where r: "r = ((f, s'), es)" by (metis surj_pair)
  have "fr_len f = packet_len (length chunk + 46)"
    using Inr unfolding r by (auto simp: send_fragment_def result_simps Let_def simp del: replicate.simps)
  moreover have "fr_len f \<le> 1456" using send_fragment_keeps(2) [OF Inr [unfolded r]] by (simp add: fragment_ok_def)
  ultimately show ?thesis using assms packet_len_bounds(1) [of "length chunk + 46"] by simp
qed

text \<open>
  C38 (error). A router that publishes an IPv4 SSU address with an MTU of 29 to 75 makes its
  peers overflow a buffer: the packet size becomes less than the 46 bytes of headers, the
  payload size wraps around, and a message of more than 1410 bytes is copied into one
  fragment.
\<close>

theorem small_mtu_overflow:
  assumes "reachable s" and "\<not> s_IsV6 s" and "29 \<le> mtu" and "mtu < 76"
    and "sendable t i e m" and "1405 < length (payload_bytes m)" and "std_find i (m_SentMessages s) = None"
  shows "Send env m (UpdatePacketSize (Some (Some mtu)) s) = Inl MemoryError"
proof -
  let ?s = "UpdatePacketSize (Some (Some mtu)) s"
  have inv: "session_inv s" by (rule reachable_inv [OF assms(1)])
  then have "m_MaxPacketSize s = 1456" using assms(2) by (simp add: session_inv_def)
  from AdjustPacketSize_small [OF assms(2-4) this] have ps: "2 ^ 64 - 46 \<le> data_payload_size ?s"
    by (auto simp: data_payload_size_def size_sub_def UpdatePacketSize_def)
  have sent: "m_SentMessages ?s = m_SentMessages s"
    by (simp add: UpdatePacketSize_def AdjustPacketSize_def Let_def)
  obtain m' where m': "ToSSU m = Inr (i, m')" "GetSSUHeader m' + GetLength m' \<le> length (msg_buf m')"
    "slice (GetSSUHeader m') (GetLength m') (msg_buf m') = ssu_bytes t e (payload_bytes m)"
    using sendable_ToSSU [OF assms(5)] by blast
  let ?l = "GetLength m'"
  have l: "?l = 5 + length (payload_bytes m)"
    using arg_cong [OF m'(3), of length] m'(2) by (simp add: ssu_bytes_def)
  have "length (payload_bytes m) \<le> 32000"
    using sendable_payload [OF assms(5)] assms(5) by (simp add: sendable_def)
  then have lp: "?l \<le> data_payload_size ?s" using ps l by simp
  have "send_loop ?l env i (data_payload_size ?s) 0 ?l (GetSSUHeader m') (msg_buf m') [] s2 = Inl MemoryError" for s2
    using l lp assms(6) m'(2) send_fragment_too_long [of "slice (GetSSUHeader m') ?l (msg_buf m')" env i 0 True s2]
    by (subst send_loop.simps) (simp add: mem_read_def split: nat.splits)
  then show ?thesis
    using m'(1) assms(7) sent by (simp add: Send_def Let_def std_count_def)
qed

definition long_message :: I2NPMessage where
  "long_message = (put_at 2 (header_bytes 20 7 5000 1500 0) NewI2NPShortMessage)\<lparr>msg_len := 1518\<rparr>"

lemma long_message_sendable: "sendable 20 7 5000 long_message" "length (payload_bytes long_message) = 1500"
proof -
  have m: "msg_offset long_message = 2" "msg_len long_message = 1518" "length (msg_buf long_message) = 4112"
    by (simp_all add: long_message_def NewI2NPShortMessage_def I2NPMessageBuffer_def i2np_sizes del: replicate.simps)
  have "slice (msg_offset long_message) 16 (msg_buf long_message) = header_bytes 20 7 5000 1500 0"
    "msg_offset long_message + 16 \<le> length (msg_buf long_message)"
    by (simp_all add: long_message_def NewI2NPShortMessage_def I2NPMessageBuffer_def i2np_sizes del: replicate.simps)
  note f = header_fields [OF this]
  show "sendable 20 7 5000 long_message" "length (payload_bytes long_message) = 1500"
    using m f by (simp_all add: sendable_def msg_ok_def i2np_sizes msg_accessors payload_bytes_def)
qed

theorem small_mtu_overflow_witness:
  "Send sample_data_env long_message (UpdatePacketSize (Some (Some 60)) (SSUData_init None sample_session)) = Inl MemoryError"
proof (rule small_mtu_overflow [OF reachable.init _ _ _ long_message_sendable(1)])
  show "\<not> s_IsV6 (SSUData_init None sample_session)" "std_find 7 (m_SentMessages (SSUData_init None sample_session)) = None"
    by (simp_all add: SSUData_init_def UpdatePacketSize_def sample_session_def)
  show "(29 :: u16) \<le> 60" "(60 :: u16) < 76" "1405 < length (payload_bytes long_message)"
    by (simp_all add: long_message_sendable(2))
qed

end
