(* ===== verification/Tunnel_Gateway.thy ===== *)
theory Tunnel_Gateway
  imports I2NP AES_Modes Std_Map
begin

unbundle bit_operations_syntax

text \<open>
  The gateway end of a tunnel (\<open>tunnel/base.h\<close>, \<open>tunnel/gateway.h\<close> and
  \<open>tunnel/gateway.cc\<close>): I2NP messages with delivery instructions are packed into tunnel data
  messages of 1028 bytes, cut into fragments where they do not fit, and completed with IV,
  checksum and padding.

  A buffer is built from the back: \<open>CreateCurrentTunnelDataMessage\<close> moves the offset past the
  room of the header and the padding, and \<open>CompleteCurrentTunnelDataMessage\<close> moves it back
  so that the message ends where the fragments end. Random bytes, the padding offset and the
  machine addresses of the buffers are parameters, indexed by the number of messages drawn.
\<close>

section \<open>Data\<close>

datatype TunnelDeliveryType = DeliveryTypeLocal | DeliveryTypeTunnel | DeliveryTypeRouter | DeliveryTypeUnknown

text \<open>\<open>DeliveryTypeUnknown\<close> is the value 3, which has no name in the enumeration.\<close>

fun delivery_code :: "TunnelDeliveryType \<Rightarrow> u8" where
  "delivery_code DeliveryTypeLocal = 0"
| "delivery_code DeliveryTypeTunnel = 1"
| "delivery_code DeliveryTypeRouter = 2"
| "delivery_code DeliveryTypeUnknown = 3"

definition TUNNEL_DATA_MAX_PAYLOAD_SIZE :: nat where "TUNNEL_DATA_MAX_PAYLOAD_SIZE = 1003"

record TunnelMessageBlock =
  delivery_type :: TunnelDeliveryType
  block_hash :: bytes
  tunnel_ID :: u32
  block_data :: "I2NPMessage option"

record TunnelGatewayBuffer =
  g_TunnelID :: u32
  g_TunnelDataMsgs :: "I2NPMessage list"
  g_CurrentTunnelDataMsg :: "I2NPMessage option"
  g_RemainingSize :: nat
  g_NonZeroRandomBuffer :: bytes
  g_Draws :: nat

record GatewayEnv =
  g_sha256 :: "bytes \<Rightarrow> bytes"
  g_iv :: "nat \<Rightarrow> bytes"
  g_rand_in_range :: "nat \<Rightarrow> nat \<Rightarrow> nat \<Rightarrow> nat"
  g_address :: "nat \<Rightarrow> nat"

section \<open>The buffer\<close>

text \<open>\<open>random\<close> are the 1003 random bytes the constructor draws.\<close>

definition TunnelGatewayBuffer_new :: "u32 \<Rightarrow> bytes \<Rightarrow> TunnelGatewayBuffer" where
  "TunnelGatewayBuffer_new tunnel random =
     \<lparr>g_TunnelID = tunnel, g_TunnelDataMsgs = [], g_CurrentTunnelDataMsg = None, g_RemainingSize = 0,
      g_NonZeroRandomBuffer = map (\<lambda>b. if b = 0 then 1 else b) (take TUNNEL_DATA_MAX_PAYLOAD_SIZE random),
      g_Draws = 0\<rparr>"

definition ClearTunnelDataMsgs :: "TunnelGatewayBuffer \<Rightarrow> TunnelGatewayBuffer" where
  "ClearTunnelDataMsgs b = b\<lparr>g_TunnelDataMsgs := []\<rparr>"

definition CreateCurrentTunnelDataMessage :: "GatewayEnv \<Rightarrow> TunnelGatewayBuffer \<Rightarrow> TunnelGatewayBuffer" where
  "CreateCurrentTunnelDataMessage env b =
     (let m = Align (g_address env (g_Draws b)) 12 NewI2NPShortMessage;
          offset = msg_offset m + (TUNNEL_DATA_MSG_SIZE + I2NP_HEADER_SIZE)
      in b\<lparr>g_CurrentTunnelDataMsg := Some (m\<lparr>msg_offset := offset, msg_len := offset\<rparr>),
           g_RemainingSize := TUNNEL_DATA_MAX_PAYLOAD_SIZE\<rparr>)"

definition CompleteCurrentTunnelDataMessage :: "GatewayEnv \<Rightarrow> TunnelGatewayBuffer \<Rightarrow> TunnelGatewayBuffer result" where
  "CompleteCurrentTunnelDataMessage env b =
     (case g_CurrentTunnelDataMsg b of
        None \<Rightarrow> Inr b
      | Some m0 \<Rightarrow>
          let payload = GetBuffer m0;
              sz = msg_len m0 - msg_offset m0;
              m = m0\<lparr>msg_offset := msg_len m0 - TUNNEL_DATA_MSG_SIZE - I2NP_HEADER_SIZE\<rparr>;
              buf = GetPayload m
          in bind_result (put buf (word_encode True (g_TunnelID b)) m) (\<lambda>m1.
             bind_result (put (buf + 4) (g_iv env (g_Draws b)) m1) (\<lambda>m2.
             bind_result (mem_read (buf + 4) 16 (msg_buf m2)) (\<lambda>iv.
             bind_result (put (payload + sz) iv m2) (\<lambda>m3.
             bind_result (mem_read payload (sz + 16) (msg_buf m3)) (\<lambda>covered.
             bind_result (put (buf + 20) (take 4 (g_sha256 env covered)) m3) (\<lambda>m4.
             bind_result (put (payload - 1) [0] m4) (\<lambda>m5.
             bind_result
               (if payload > buf + 25 then
                  let padding_size = payload - buf - 25;
                      random_offset = g_rand_in_range env (g_Draws b) 0 (TUNNEL_DATA_MAX_PAYLOAD_SIZE - padding_size)
                  in bind_result (mem_read random_offset padding_size (g_NonZeroRandomBuffer b)) (\<lambda>padding.
                       put (buf + 24) padding m5)
                else Inr m5) (\<lambda>m6.
             Inr (b\<lparr>g_TunnelDataMsgs := g_TunnelDataMsgs b @ [m6], g_CurrentTunnelDataMsg := None,
                    g_Draws := g_Draws b + 1\<rparr>))))))))))"

text \<open>Delivery instructions without the part that depends on how the message fits.\<close>

definition delivery_instructions :: "TunnelMessageBlock \<Rightarrow> bytes" where
  "delivery_instructions block =
     [push_bit 5 (delivery_code (delivery_type block))] @
     (if delivery_type block \<noteq> DeliveryTypeLocal then
        (if delivery_type block = DeliveryTypeTunnel then word_encode True (tunnel_ID block) else []) @
        take 32 (block_hash block)
      else [])"

text \<open>\<open>memcpy\<close> of instructions and data to the end of the current message.\<close>

definition append_current :: "bytes \<Rightarrow> I2NPMessage \<Rightarrow> I2NPMessage result" where
  "append_current bs m = bind_result (put (msg_len m) bs m) (\<lambda>m'. Inr (m'\<lparr>msg_len := msg_len m + length bs\<rparr>))"

text \<open>The message fits: it is the first and the last fragment.\<close>

definition put_whole :: "GatewayEnv \<Rightarrow> bytes \<Rightarrow> I2NPMessage \<Rightarrow> I2NPMessage \<Rightarrow> TunnelGatewayBuffer \<Rightarrow> TunnelGatewayBuffer result" where
  "put_whole env di msg cur b =
     (let len = GetLength msg; di' = di @ word_encode True (word_of_nat len :: u16) in
      bind_result (mem_read (GetBuffer msg) len (msg_buf msg)) (\<lambda>data.
      bind_result (append_current (di' @ data) cur) (\<lambda>cur'.
      let b' = b\<lparr>g_CurrentTunnelDataMsg := Some cur', g_RemainingSize := g_RemainingSize b - (length di' + len)\<rparr> in
      if g_RemainingSize b' = 0 then CompleteCurrentTunnelDataMessage env b' else Inr b')))"

text \<open>The fragments after the first; \<open>sz\<close> bytes of the message have been sent.\<close>

function put_follow_on ::
    "GatewayEnv \<Rightarrow> u32 \<Rightarrow> I2NPMessage \<Rightarrow> nat \<Rightarrow> nat \<Rightarrow> TunnelGatewayBuffer \<Rightarrow> TunnelGatewayBuffer result" where
  "put_follow_on env msg_ID msg fragment_number sz b =
     (if sz < GetLength msg then
        let b1 = CreateCurrentTunnelDataMessage env b;
            is_last = \<not> GetLength msg - sz > TUNNEL_DATA_MAX_PAYLOAD_SIZE - 7;
            s = (if is_last then GetLength msg - sz else TUNNEL_DATA_MAX_PAYLOAD_SIZE - 7);
            flag = (0x80 OR push_bit 1 (word_of_nat fragment_number :: u8)) OR (if is_last then 1 else 0)
        in bind_result (mem_read (GetBuffer msg + sz) s (msg_buf msg)) (\<lambda>data.
           bind_result (append_current ([flag] @ word_encode False msg_ID @ word_encode True (word_of_nat s :: u16) @ data)
             (the (g_CurrentTunnelDataMsg b1))) (\<lambda>cur.
           bind_result
             (if is_last then
                let b2 = b1\<lparr>g_CurrentTunnelDataMsg := Some cur, g_RemainingSize := g_RemainingSize b1 - (s + 7)\<rparr> in
                if g_RemainingSize b2 = 0 then CompleteCurrentTunnelDataMessage env b2 else Inr b2
              else CompleteCurrentTunnelDataMessage env (b1\<lparr>g_CurrentTunnelDataMsg := Some cur\<rparr>)) (\<lambda>b3.
           put_follow_on env msg_ID msg (fragment_number + 1) (sz + s) b3)))
      else Inr b)"
  by pat_completeness auto
termination
  by (relation "measure (\<lambda>(env, i, msg, n, sz, b). GetLength msg - sz)")
    (auto simp: TUNNEL_DATA_MAX_PAYLOAD_SIZE_def split: if_splits)

declare put_follow_on.simps [simp del]

text \<open>The first fragment of a message that does not fit, and the fragments after it.\<close>

definition put_fragmented :: "GatewayEnv \<Rightarrow> bytes \<Rightarrow> I2NPMessage \<Rightarrow> I2NPMessage \<Rightarrow> TunnelGatewayBuffer \<Rightarrow> TunnelGatewayBuffer result" where
  "put_fragmented env di msg cur b =
     bind_result (Read_buf False (GetBuffer msg + 1) (msg_buf msg)) (\<lambda>msg_ID :: u32.
     let sz = g_RemainingSize b - length di - 6;
         di' = (hd di OR 0x08) # tl di @ word_encode False msg_ID @ word_encode True (word_of_nat sz :: u16)
     in bind_result (mem_read (GetBuffer msg) sz (msg_buf msg)) (\<lambda>data.
        bind_result (append_current (di' @ data) cur) (\<lambda>cur'.
        bind_result (CompleteCurrentTunnelDataMessage env (b\<lparr>g_CurrentTunnelDataMsg := Some cur'\<rparr>)) (\<lambda>b1.
          put_follow_on env msg_ID msg 1 sz b1))))"

text \<open>A message that has been started is completed early when the rest of \<open>block\<close> would not fill it.\<close>

definition complete_previous :: "GatewayEnv \<Rightarrow> nat \<Rightarrow> TunnelGatewayBuffer \<Rightarrow> TunnelGatewayBuffer result" where
  "complete_previous env full_msg_len b =
     (let num_follow_on_fragments = full_msg_len div TUNNEL_DATA_MAX_PAYLOAD_SIZE;
          non_fit = (full_msg_len + num_follow_on_fragments * 7) mod TUNNEL_DATA_MAX_PAYLOAD_SIZE
      in if non_fit = 0 \<or> non_fit > g_RemainingSize b then
           bind_result (CompleteCurrentTunnelDataMessage env b) (\<lambda>b1. Inr (CreateCurrentTunnelDataMessage env b1))
         else Inr b)"

lemma CompleteCurrent_none: "CompleteCurrentTunnelDataMessage env b = Inr b' \<Longrightarrow> g_CurrentTunnelDataMsg b' = None"
  by (auto simp: CompleteCurrentTunnelDataMessage_def Let_def bind_result_eq_Inr split: option.splits)

lemma CompleteCurrent_TunnelID: "CompleteCurrentTunnelDataMessage env b = Inr b' \<Longrightarrow> g_TunnelID b' = g_TunnelID b"
  by (auto simp: CompleteCurrentTunnelDataMessage_def Let_def bind_result_eq_Inr split: option.splits)

lemma delivery_instructions_short: "length (delivery_instructions block) \<le> 37"
  by (auto simp: delivery_instructions_def min_def)

text \<open>
  \<open>PutI2NPMsg\<close>. The recursion completes the current message first, and a message that has
  just been created has room for all delivery instructions.
\<close>

function PutI2NPMsg :: "GatewayEnv \<Rightarrow> TunnelMessageBlock \<Rightarrow> TunnelGatewayBuffer \<Rightarrow> TunnelGatewayBuffer result" where
  "PutI2NPMsg env block b =
     (case block_data block of
        None \<Rightarrow> Inl MemoryError
      | Some msg \<Rightarrow>
      let message_created = (g_CurrentTunnelDataMsg b = None);
          b1 = (if message_created then CreateCurrentTunnelDataMessage env b else b);
          di = delivery_instructions block;
          full_msg_len = length di + GetLength msg + 2
      in if full_msg_len \<le> g_RemainingSize b1 then
           put_whole env di msg (the (g_CurrentTunnelDataMsg b1)) b1
         else
           bind_result (if \<not> message_created then complete_previous env full_msg_len b1 else Inr b1) (\<lambda>b2.
             if length di + 6 \<le> g_RemainingSize b2 then
               put_fragmented env di msg (the (g_CurrentTunnelDataMsg b2)) b2
             else
               bind_result (CompleteCurrentTunnelDataMessage env b2) (PutI2NPMsg env block)))"
  by pat_completeness auto
termination
proof (relation "measure (\<lambda>(env, block, b). case g_CurrentTunnelDataMsg b of None \<Rightarrow> 0 | Some _ \<Rightarrow> 1)", goal_cases)
  case (2 env block b msg created b1 di full b2 b3)
  have "g_RemainingSize (CreateCurrentTunnelDataMessage env b) = 1003"
    by (simp add: CreateCurrentTunnelDataMessage_def Let_def TUNNEL_DATA_MAX_PAYLOAD_SIZE_def)
  then have "g_CurrentTunnelDataMsg b \<noteq> None"
    using 2 delivery_instructions_short [of block] by auto
  then show ?case using CompleteCurrent_none [OF 2(9)] by auto
qed simp

declare PutI2NPMsg.simps [simp del]

text \<open>The identifier of the tunnel never changes.\<close>

lemma CreateCurrent_TunnelID [simp]: "g_TunnelID (CreateCurrentTunnelDataMessage env b) = g_TunnelID b"
  by (simp add: CreateCurrentTunnelDataMessage_def Let_def)

lemma put_follow_on_TunnelID: "put_follow_on env i msg n sz b = Inr b' \<Longrightarrow> g_TunnelID b' = g_TunnelID b"
proof (induction "GetLength msg - sz" arbitrary: n sz b rule: less_induct)
  case less
  show ?case
  proof (cases "sz < GetLength msg")
    case True
    let ?s = "if GetLength msg - sz > TUNNEL_DATA_MAX_PAYLOAD_SIZE - 7 then TUNNEL_DATA_MAX_PAYLOAD_SIZE - 7 else GetLength msg - sz"
    from less.prems True obtain b3 where b3: "put_follow_on env i msg (n + 1) (sz + ?s) b3 = Inr b'" "g_TunnelID b3 = g_TunnelID b"
      by (subst (asm) put_follow_on.simps)
        (fastforce simp: Let_def bind_result_eq_Inr split: if_splits dest: CompleteCurrent_TunnelID)
    have "GetLength msg - (sz + ?s) < GetLength msg - sz" using True by (simp add: TUNNEL_DATA_MAX_PAYLOAD_SIZE_def) linarith
    from less.hyps [OF this b3(1)] b3(2) show ?thesis by simp
  next
    case False
    then show ?thesis using less.prems by (subst (asm) put_follow_on.simps) simp
  qed
qed

lemma put_parts_TunnelID:
  "put_whole env di msg cur b = Inr b' \<Longrightarrow> g_TunnelID b' = g_TunnelID b"
  "put_fragmented env di msg cur b = Inr b' \<Longrightarrow> g_TunnelID b' = g_TunnelID b"
  "complete_previous env n b = Inr b' \<Longrightarrow> g_TunnelID b' = g_TunnelID b"
  by (auto simp: put_whole_def put_fragmented_def complete_previous_def Let_def bind_result_eq_Inr split: if_splits
      dest!: CompleteCurrent_TunnelID put_follow_on_TunnelID)

lemma PutI2NPMsg_TunnelID: "PutI2NPMsg env block b = Inr b' \<Longrightarrow> g_TunnelID b' = g_TunnelID b"
proof (induction env block b rule: PutI2NPMsg.induct)
  case (1 env block b)
  obtain msg where msg: "block_data block = Some msg" using 1(2) by (subst (asm) PutI2NPMsg.simps) (auto split: option.splits)
  let ?di = "delivery_instructions block" let ?created = "g_CurrentTunnelDataMsg b = None"
  let ?b1 = "if ?created then CreateCurrentTunnelDataMessage env b else b" let ?n = "length ?di + GetLength msg + 2"
  show ?case
  proof (cases "?n \<le> g_RemainingSize ?b1")
    case True
    then have "put_whole env ?di msg (the (g_CurrentTunnelDataMsg ?b1)) ?b1 = Inr b'"
      using 1(2) msg by (subst (asm) PutI2NPMsg.simps) (simp only: Let_def option.case if_True)
    from put_parts_TunnelID(1) [OF this] show ?thesis by (simp split: if_splits)
  next
    case False
    then obtain b2 where b2: "(if \<not> ?created then complete_previous env ?n ?b1 else Inr ?b1) = Inr b2"
        "(if length ?di + 6 \<le> g_RemainingSize b2 then put_fragmented env ?di msg (the (g_CurrentTunnelDataMsg b2)) b2
          else bind_result (CompleteCurrentTunnelDataMessage env b2) (PutI2NPMsg env block)) = Inr b'"
      using 1(2) msg by (subst (asm) PutI2NPMsg.simps) (auto simp only: Let_def option.case if_False bind_result_eq_Inr)
    then have id: "g_TunnelID b2 = g_TunnelID b" by (auto split: if_splits dest: put_parts_TunnelID)
    show ?thesis
    proof (cases "length ?di + 6 \<le> g_RemainingSize b2")
      case True
      then show ?thesis using b2(2) id put_parts_TunnelID(2) by fastforce
    next
      case rest: False
      then obtain b3 where b3: "CompleteCurrentTunnelDataMessage env b2 = Inr b3" "PutI2NPMsg env block b3 = Inr b'"
        using b2(2) by (auto simp: bind_result_eq_Inr)
      from 1(1) [OF msg refl refl refl refl False b2(1) rest b3] CompleteCurrent_TunnelID [OF b3(1)] id show ?thesis by simp
    qed
  qed
qed

section \<open>The gateway\<close>

text \<open>
  A tunnel as the gateway sees it: the next hop and the encryption of a data message. The
  identifiers and the clock of the message headers are parameters.
\<close>

record TunnelGateway =
  tg_NextIdent :: bytes
  tg_EncryptTunnelMsg :: "I2NPMessage \<Rightarrow> I2NPMessage \<Rightarrow> I2NPMessage result"
  tg_Buffer :: TunnelGatewayBuffer
  tg_NumSentBytes :: nat

definition PutTunnelDataMsg :: "GatewayEnv \<Rightarrow> TunnelMessageBlock \<Rightarrow> TunnelGateway \<Rightarrow> TunnelGateway result" where
  "PutTunnelDataMsg env block g =
     (if block_data block \<noteq> None then
        bind_result (PutI2NPMsg env block (tg_Buffer g)) (\<lambda>b. Inr (g\<lparr>tg_Buffer := b\<rparr>))
      else Inr g)"

text \<open>The loop over the completed messages: each one is encrypted in place and gets its header.\<close>

fun seal_messages ::
    "GatewayEnv \<Rightarrow> (nat \<Rightarrow> u32) \<Rightarrow> u64 \<Rightarrow> (I2NPMessage \<Rightarrow> I2NPMessage \<Rightarrow> I2NPMessage result) \<Rightarrow> I2NPMessage list \<Rightarrow>
     I2NPMessage list result" where
  "seal_messages env rnd now enc [] = Inr []"
| "seal_messages env rnd now enc (m # ms) =
     bind_result (enc m m) (\<lambda>m1.
     bind_result (FillI2NPMessageHeader (g_sha256 env) (rnd (length ms)) now I2NPTunnelData 0 m1) (\<lambda>m2.
     bind_result (seal_messages env rnd now enc ms) (\<lambda>ms'. Inr (m2 # ms'))))"

definition SendBuffer ::
    "GatewayEnv \<Rightarrow> (nat \<Rightarrow> u32) \<Rightarrow> u64 \<Rightarrow> TunnelGateway \<Rightarrow> (TunnelGateway \<times> (bytes \<times> I2NPMessage list)) result" where
  "SendBuffer env rnd now g =
     bind_result (CompleteCurrentTunnelDataMessage env (tg_Buffer g)) (\<lambda>b.
     bind_result (seal_messages env rnd now (tg_EncryptTunnelMsg g) (g_TunnelDataMsgs b)) (\<lambda>ms.
       Inr (g\<lparr>tg_Buffer := ClearTunnelDataMsgs b,
              tg_NumSentBytes := tg_NumSentBytes g + length ms * TUNNEL_DATA_MSG_SIZE\<rparr>, (tg_NextIdent g, ms))))"

definition SendTunnelDataMsg ::
    "GatewayEnv \<Rightarrow> (nat \<Rightarrow> u32) \<Rightarrow> u64 \<Rightarrow> TunnelMessageBlock \<Rightarrow> TunnelGateway \<Rightarrow>
     (TunnelGateway \<times> (bytes \<times> I2NPMessage list) option) result" where
  "SendTunnelDataMsg env rnd now block g =
     (if block_data block \<noteq> None then
        bind_result (PutTunnelDataMsg env block g) (\<lambda>g1.
        bind_result (SendBuffer env rnd now g1) (\<lambda>(g2, sent). Inr (g2, Some sent)))
      else Inr (g, None))"

section \<open>Fragments as data\<close>

text \<open>
  What a data message carries: a whole message, the first fragment of one, or a follow-on
  fragment with its number, last-fragment flag and message identifier.
\<close>

datatype piece =
    Whole TunnelMessageBlock bytes
  | First TunnelMessageBlock u32 bytes
  | Follow nat bool u32 bytes

abbreviation size_bytes :: "bytes \<Rightarrow> bytes" where
  "size_bytes d \<equiv> word_encode True (word_of_nat (length d) :: u16)"

fun piece_bytes :: "piece \<Rightarrow> bytes" where
  "piece_bytes (Whole block d) = delivery_instructions block @ size_bytes d @ d"
| "piece_bytes (First block i d) =
     ((hd (delivery_instructions block) OR 0x08) # tl (delivery_instructions block))
       @ word_encode True i @ size_bytes d @ d"
| "piece_bytes (Follow n is_last i d) =
     [(0x80 OR push_bit 1 (word_of_nat n :: u8)) OR (if is_last then 1 else 0)] @ word_encode True i @ size_bytes d @ d"

definition pieces_bytes :: "piece list \<Rightarrow> bytes" where
  "pieces_bytes ps = concat (map piece_bytes ps)"

lemma pieces_bytes_simps [simp]:
  "pieces_bytes [] = []" "pieces_bytes (p # ps) = piece_bytes p @ pieces_bytes ps"
  "pieces_bytes (ps @ qs) = pieces_bytes ps @ pieces_bytes qs"
  by (simp_all add: pieces_bytes_def)

text \<open>The 1028 bytes of a data message with the fragments \<open>ps\<close>.\<close>

definition carries_pieces :: "(bytes \<Rightarrow> bytes) \<Rightarrow> bytes \<Rightarrow> piece list \<Rightarrow> bool" where
  "carries_pieces sha256 d ps \<longleftrightarrow> length d = 1028 \<and>
     (\<exists>tid iv pad. length tid = 4 \<and> length iv = 16 \<and> 0 \<notin> set pad \<and> length (sha256 (pieces_bytes ps @ iv)) = 32 \<and>
        d = tid @ iv @ take 4 (sha256 (pieces_bytes ps @ iv)) @ pad @ [0] @ pieces_bytes ps)"

definition data_payload :: "I2NPMessage \<Rightarrow> bytes" where
  "data_payload m = slice (GetPayload m) 1028 (msg_buf m)"

section \<open>The state of the gateway\<close>

definition gateway_env_ok :: "GatewayEnv \<Rightarrow> bool" where
  "gateway_env_ok env \<longleftrightarrow> (\<forall>x. length (g_sha256 env x) = 32) \<and> (\<forall>n. length (g_iv env n) = 16) \<and>
     (\<forall>n a b. a \<le> b \<longrightarrow> a \<le> g_rand_in_range env n a b \<and> g_rand_in_range env n a b \<le> b)"

definition current_holds :: "I2NPMessage \<Rightarrow> bytes \<Rightarrow> bool" where
  "current_holds m bs \<longleftrightarrow> length (msg_buf m) = 4112 \<and> 1046 \<le> msg_offset m \<and> msg_offset m \<le> 1058 \<and>
     msg_len m = msg_offset m + length bs \<and> length bs \<le> 1003 \<and> slice (msg_offset m) (length bs) (msg_buf m) = bs"

text \<open>Where a completed data message lies in its buffer.\<close>

definition data_msg_ok :: "I2NPMessage \<Rightarrow> bool" where
  "data_msg_ok m \<longleftrightarrow> length (msg_buf m) = 4112 \<and> msg_len m = msg_offset m + 1044 \<and> msg_offset m + 1060 \<le> 4112"

definition gateway_ok :: "GatewayEnv \<Rightarrow> TunnelGatewayBuffer \<Rightarrow> piece list list \<Rightarrow> piece list \<Rightarrow> bool" where
  "gateway_ok env b sent ps \<longleftrightarrow>
     length (g_NonZeroRandomBuffer b) = 1003 \<and> 0 \<notin> set (g_NonZeroRandomBuffer b) \<and>
     list_all2 (\<lambda>m ps. data_msg_ok m \<and> carries_pieces (g_sha256 env) (data_payload m) ps \<and>
       take 4 (data_payload m) = word_encode True (g_TunnelID b)) (g_TunnelDataMsgs b) sent \<and>
     (case g_CurrentTunnelDataMsg b of
        None \<Rightarrow> ps = []
      | Some m \<Rightarrow> current_holds m (pieces_bytes ps) \<and> g_RemainingSize b + length (pieces_bytes ps) = 1003)"

lemma gateway_new_ok: "length random = 1003 \<Longrightarrow> gateway_ok env (TunnelGatewayBuffer_new tunnel random) [] []"
  by (auto simp: gateway_ok_def TunnelGatewayBuffer_new_def TUNNEL_DATA_MAX_PAYLOAD_SIZE_def)

lemma create_ok:
  assumes "gateway_ok env b sent []" and "g_CurrentTunnelDataMsg b = None"
  shows "gateway_ok env (CreateCurrentTunnelDataMessage env b) sent []"
    and "g_RemainingSize (CreateCurrentTunnelDataMessage env b) = 1003"
    and "g_CurrentTunnelDataMsg (CreateCurrentTunnelDataMessage env b) \<noteq> None"
proof -
  let ?m = "Align (g_address env (g_Draws b)) 12 NewI2NPShortMessage"
  have "length (msg_buf ?m) = 4112 \<and> 2 \<le> msg_offset ?m \<and> msg_offset ?m \<le> 14"
    by (auto simp: Align_def Let_def NewI2NPShortMessage_def I2NPMessageBuffer_def i2np_sizes simp del: replicate.simps)
  then show "gateway_ok env (CreateCurrentTunnelDataMessage env b) sent []"
    using assms by (simp add: gateway_ok_def CreateCurrentTunnelDataMessage_def Let_def current_holds_def i2np_sizes
        TUNNEL_DATA_MAX_PAYLOAD_SIZE_def)
qed (simp_all add: CreateCurrentTunnelDataMessage_def Let_def TUNNEL_DATA_MAX_PAYLOAD_SIZE_def)

lemma append_current_ok:
  assumes "current_holds m bs" and "length bs + length cs \<le> 1003"
  shows "\<exists>m'. append_current cs m = Inr m' \<and> current_holds m' (bs @ cs)"
proof -
  note c = assms(1) [unfolded current_holds_def]
  have "put (msg_len m) cs m = Inr (put_at (msg_len m) cs m)" using c assms(2) by (simp add: put_eq)
  moreover have "slice (msg_offset m) (length bs + length cs) (poke (msg_len m) cs (msg_buf m)) = bs @ cs"
    unfolding slice_add using c assms(2) by (simp add: slice_poke_before)
  ultimately show ?thesis
    using c assms(2) by (simp add: append_current_def current_holds_def)
qed

lemma slice_split6:
  "slice q (4 + 16 + 4 + k + 1 + n) X =
     slice q 4 X @ slice (q + 4) 16 X @ slice (q + 20) 4 X @ slice (q + 24) k X @ slice (q + 24 + k) 1 X @ slice (q + 25 + k) n X"
  unfolding slice_add by (simp add: add.assoc)

text \<open>The writes of \<open>CompleteCurrentTunnelDataMessage\<close> on a buffer with \<open>n\<close> bytes at \<open>q + 25 + k\<close>.\<close>

lemma complete_layout:
  assumes "slice (q + 25 + k) n B = bs" and "q + 25 + k + n + 16 \<le> length B" and "n = length bs"
    and "length tid = 4" and "length iv = 16" and "length chk = 4" and "length pad = k"
  shows "slice q (4 + 16 + 4 + k + 1 + n)
    (poke (q + 24) pad (poke (q + 24 + k) [0] (poke (q + 20) chk (poke (q + 25 + k + n) iv (poke (q + 4) iv (poke q tid B))))))
    = tid @ iv @ chk @ pad @ [0] @ bs"
  unfolding slice_split6 using assms by (simp add: slice_poke_before slice_poke_after)

lemma complete_eq:
  assumes cur: "g_CurrentTunnelDataMsg b = Some m" and B: "length (msg_buf m) = 4112"
    and off: "msg_offset m = q + 25 + k" and len: "msg_len m = q + 1028" and nk: "n + k = 1003"
    and q: "16 \<le> q" "q + 1044 \<le> 4112" and bs: "slice (q + 25 + k) n (msg_buf m) = bs" "n = length bs"
    and iv: "length (g_iv env (g_Draws b)) = 16" and sha: "\<And>x. length (g_sha256 env x) = 32"
    and pad: "mem_read (g_rand_in_range env (g_Draws b) 0 n) k (g_NonZeroRandomBuffer b) = Inr pad" "length pad = k"
  shows "CompleteCurrentTunnelDataMessage env b =
      Inr (b\<lparr>g_TunnelDataMsgs := g_TunnelDataMsgs b @ [m\<lparr>msg_offset := q - 16, msg_buf :=
          poke (q + 24) pad (poke (q + 24 + k) [0] (poke (q + 20) (take 4 (g_sha256 env (bs @ g_iv env (g_Draws b))))
            (poke (q + 25 + k + n) (g_iv env (g_Draws b)) (poke (q + 4) (g_iv env (g_Draws b))
              (poke q (word_encode True (g_TunnelID b)) (msg_buf m))))))\<rparr>],
        g_CurrentTunnelDataMsg := None, g_Draws := g_Draws b + 1\<rparr>)"
proof -
  let ?iv = "g_iv env (g_Draws b)" let ?tid = "word_encode True (g_TunnelID b)"
  define B1 where "B1 = poke (q + 25 + k + n) ?iv (poke (q + 4) ?iv (poke q ?tid (msg_buf m)))"
  define B2 where "B2 = poke (q + 24 + k) [0] (poke (q + 20) (take 4 (g_sha256 env (bs @ ?iv))) B1)"
  have l: "length B1 = 4112" using B q iv nk by (simp add: B1_def)
  have cov: "slice (q + 25 + k) (n + 16) B1 = bs @ ?iv"
    unfolding slice_add B1_def using B bs q iv nk by (simp add: slice_poke_before slice_poke_after)
  have l2: "length B2 = 4112" using l q sha nk by (simp add: B2_def)
  have n: "1003 - k = n" "q + 1028 - (q + 25 + k) = n" "q + 1028 - 1028 - 16 = q - 16" "q - 16 + 16 = q"
    "q + 25 + k + n = q + 1028" "q + 25 + k - 1 = q + 24 + k" "q + 25 + k - q - 25 = k"
    using nk q by simp_all
  let ?f = "\<lambda>buf. m\<lparr>msg_offset := q - 16, msg_buf := buf\<rparr>"
  have w: "put q ?tid (m\<lparr>msg_offset := q - 16\<rparr>) = Inr (?f (poke q ?tid (msg_buf m)))"
      "put (q + 4) ?iv (?f (poke q ?tid (msg_buf m))) = Inr (?f (poke (q + 4) ?iv (poke q ?tid (msg_buf m))))"
      "mem_read (q + 4) 16 (poke (q + 4) ?iv (poke q ?tid (msg_buf m))) = Inr ?iv"
      "put (q + 25 + k + n) ?iv (?f (poke (q + 4) ?iv (poke q ?tid (msg_buf m)))) = Inr (?f B1)"
      "put (q + 20) (take 4 (g_sha256 env (bs @ ?iv))) (?f B1) = Inr (?f (poke (q + 20) (take 4 (g_sha256 env (bs @ ?iv))) B1))"
      "put (q + 24 + k) [0] (?f (poke (q + 20) (take 4 (g_sha256 env (bs @ ?iv))) B1)) = Inr (?f B2)"
    using B q iv nk l sha by (simp_all add: put_def mem_write_def mem_read_def B1_def B2_def)
  have rd: "mem_read (q + 25 + k) (n + 16) B1 = Inr (bs @ ?iv)" using cov l q nk by (simp add: mem_read_def)
  have sel: "msg_offset (m\<lparr>msg_offset := q - 16\<rparr>) = q - 16" "\<And>buf. msg_buf (?f buf) = buf" by simp_all
  have p: "(if q + 25 + k > q + 25 then bind_result (mem_read (g_rand_in_range env (g_Draws b) 0 n) k (g_NonZeroRandomBuffer b))
      (\<lambda>padding. put (q + 24) padding (?f B2)) else Inr (?f B2)) = Inr (?f (poke (q + 24) pad B2))"
    using pad l2 q nk by (auto simp: put_def mem_write_def)
  show ?thesis
    unfolding CompleteCurrentTunnelDataMessage_def cur option.case Let_def msg_accessors i2np_sizes
      TUNNEL_DATA_MAX_PAYLOAD_SIZE_def off len sel n w [unfolded n] rd bind_result_Inr p [unfolded n]
    by (simp only: B2_def B1_def n)
qed

text \<open>The recorded remaining size is not used.\<close>

lemma complete_ok:
  assumes env: "gateway_env_ok env" and g: "gateway_ok env (b\<lparr>g_RemainingSize := r\<rparr>) sent ps" and cur: "g_CurrentTunnelDataMsg b = Some m"
  shows "\<exists>b'. CompleteCurrentTunnelDataMessage env b = Inr b' \<and> gateway_ok env b' (sent @ [ps]) [] \<and>
    g_CurrentTunnelDataMsg b' = None"
proof -
  let ?bs = "pieces_bytes ps" let ?n = "length ?bs" let ?k = "1003 - ?n"
  have c: "length (msg_buf m) = 4112" "1046 \<le> msg_offset m" "msg_offset m \<le> 1058" "msg_len m = msg_offset m + ?n"
      "?n \<le> 1003" "slice (msg_offset m) ?n (msg_buf m) = ?bs"
    and nz: "length (g_NonZeroRandomBuffer b) = 1003" "0 \<notin> set (g_NonZeroRandomBuffer b)"
    using g cur by (auto simp: gateway_ok_def current_holds_def)
  define q where "q = msg_offset m + ?n - 1028"
  have q: "msg_offset m = q + 25 + ?k" "msg_len m = q + 1028" "16 \<le> q" "q + 1044 \<le> 4112" "?n + ?k = 1003"
    "slice (q + 25 + ?k) ?n (msg_buf m) = ?bs"
    using c by (auto simp: q_def)
  let ?iv = "g_iv env (g_Draws b)" let ?tid = "word_encode True (g_TunnelID b)"
  let ?chk = "take 4 (g_sha256 env (?bs @ ?iv))"
  let ?r = "g_rand_in_range env (g_Draws b) 0 ?n"
  define pad where "pad = slice ?r ?k (g_NonZeroRandomBuffer b)"
  have iv: "length ?iv = 16" and sha: "\<And>x. length (g_sha256 env x) = 32" and r: "?r \<le> ?n"
    using env by (auto simp: gateway_env_ok_def)
  have pad: "length pad = ?k" "0 \<notin> set pad" "mem_read ?r ?k (g_NonZeroRandomBuffer b) = Inr pad"
    using r nz c(5) by (auto simp: pad_def slice_def mem_read_def dest!: in_set_takeD in_set_dropD)
  note eq = complete_eq [OF cur c(1) q(1,2,5,3,4,6) refl iv sha pad(3,1)]
  let ?m = "m\<lparr>msg_offset := q - 16, msg_buf := poke (q + 24) pad (poke (q + 24 + ?k) [0] (poke (q + 20) ?chk
    (poke (q + 25 + ?k + ?n) ?iv (poke (q + 4) ?iv (poke q ?tid (msg_buf m))))))\<rparr>"
  have "data_payload ?m = slice q (4 + 16 + 4 + ?k + 1 + ?n) (msg_buf ?m)"
    using q(3,5) by (simp add: data_payload_def msg_accessors i2np_sizes)
  also have "\<dots> = ?tid @ ?iv @ ?chk @ pad @ [0] @ ?bs"
    using complete_layout [OF q(6) _ refl, of ?tid ?iv ?chk pad] c(1) q(4,5) iv sha pad(1) by simp
  finally have payload: "data_payload ?m = ?tid @ ?iv @ ?chk @ pad @ [0] @ ?bs" .
  moreover have "length (?tid @ ?iv @ ?chk @ pad @ [0] @ ?bs) = 1028" using iv sha pad(1) c(5) by simp
  moreover have "length ?tid = 4" by simp
  ultimately have "carries_pieces (g_sha256 env) (data_payload ?m) ps"
    unfolding carries_pieces_def using iv sha pad(2) by metis
  moreover have "data_msg_ok ?m" using q c iv sha pad(1) by (simp add: data_msg_ok_def)
  moreover have "take 4 (data_payload ?m) = ?tid" using payload by simp
  ultimately show ?thesis
    using g eq nz by (auto simp: gateway_ok_def list_all2_appendI)
qed

section \<open>Putting a message\<close>

fun follows :: "nat \<Rightarrow> u32 \<Rightarrow> bytes list \<Rightarrow> piece list" where
  "follows n i [] = []"
| "follows n i (c # cs) = Follow n (cs = []) i c # follows (n + 1) i cs"

text \<open>The ways a gateway may cut a block with message identifier \<open>i\<close> and bytes \<open>d\<close>.\<close>

definition splits :: "TunnelMessageBlock \<Rightarrow> u32 \<Rightarrow> bytes \<Rightarrow> piece list \<Rightarrow> bool" where
  "splits block i d ps \<longleftrightarrow> ps = [Whole block d] \<and> length d < 1003 \<or>
     (\<exists>c cs. ps = First block i c # follows 1 i cs \<and> concat (c # cs) = d \<and> cs \<noteq> [] \<and> length cs \<le> 32 \<and>
        (\<forall>x \<in> set (c # cs). length x < 1003))"

definition block_ok :: "TunnelMessageBlock \<Rightarrow> u32 \<Rightarrow> bytes \<Rightarrow> bool" where
  "block_ok block i d \<longleftrightarrow> (\<exists>msg. block_data block = Some msg \<and> msg_ok msg \<and> GetMsgID msg = Inr i \<and>
     d = slice (GetBuffer msg) (GetLength msg) (msg_buf msg)) \<and> i \<noteq> 0 \<and> length (block_hash block) = 32 \<and>
     delivery_type block \<noteq> DeliveryTypeUnknown \<and> length d \<le> 28655"

lemma gateway_append:
  assumes "gateway_ok env b sent ps" and "g_CurrentTunnelDataMsg b = Some m" and "length (piece_bytes p) \<le> g_RemainingSize b"
  shows "\<exists>m'. append_current (piece_bytes p) m = Inr m' \<and>
    gateway_ok env (b\<lparr>g_CurrentTunnelDataMsg := Some m', g_RemainingSize := g_RemainingSize b - length (piece_bytes p)\<rparr>)
      sent (ps @ [p])"
proof -
  have c: "current_holds m (pieces_bytes ps)" "g_RemainingSize b + length (pieces_bytes ps) = 1003"
    using assms(1,2) by (auto simp: gateway_ok_def)
  from append_current_ok [OF c(1), of "piece_bytes p"] c(2) assms(3) obtain m' where
    "append_current (piece_bytes p) m = Inr m'" "current_holds m' (pieces_bytes ps @ piece_bytes p)" by auto
  then show ?thesis using assms c(2) by (auto simp: gateway_ok_def)
qed

lemma maybe_complete:
  assumes "gateway_env_ok env" and "gateway_ok env b sent ps" and "g_CurrentTunnelDataMsg b \<noteq> None"
  shows "\<exists>b' sent' ps'. (if g_RemainingSize b = 0 then CompleteCurrentTunnelDataMessage env b else Inr b) = Inr b' \<and>
    gateway_ok env b' (sent @ sent') ps' \<and> concat sent' @ ps' = ps"
proof (cases "g_RemainingSize b = 0")
  case True
  obtain m where "g_CurrentTunnelDataMsg b = Some m" using assms(3) by auto
  from complete_ok [OF assms(1) _ this, of "g_RemainingSize b" sent ps] assms(2) obtain b' where
    "CompleteCurrentTunnelDataMessage env b = Inr b'" "gateway_ok env b' (sent @ [ps]) []" by auto
  then show ?thesis using True by (intro exI [of _ b'] exI [of _ "[ps]"] exI [of _ "[]"]) simp
next
  case False
  then show ?thesis using assms(2) by (intro exI [of _ b] exI [of _ "[]"] exI [of _ ps]) simp
qed

lemma take_drop_slice: "k + s \<le> n \<Longrightarrow> take s (drop k (slice p n X)) = slice (p + k) s X"
  by (simp add: slice_def drop_take min_def add.commute)

lemma put_follow_on_ok:
  assumes env: "gateway_env_ok env" and msg: "msg_ok msg" and d: "d = slice (GetBuffer msg) (GetLength msg) (msg_buf msg)"
    and i: "word_encode False msg_ID = word_encode True i"
  shows "gateway_ok env b sent [] \<Longrightarrow> g_CurrentTunnelDataMsg b = None \<Longrightarrow> sz < GetLength msg \<Longrightarrow>
    GetLength msg \<le> sz + 996 * k \<Longrightarrow>
    \<exists>b' sent' ps cs. put_follow_on env msg_ID msg n sz b = Inr b' \<and> gateway_ok env b' (sent @ sent') ps \<and>
      concat sent' @ ps = follows n i cs \<and> concat cs = drop sz d \<and> cs \<noteq> [] \<and> length cs \<le> k \<and> (\<forall>c \<in> set cs. length c \<le> 996)"
proof (induction k arbitrary: n sz b sent)
  case (Suc k)
  let ?L = "GetLength msg"
  define islast where "islast = (\<not> ?L - sz > 996)"
  define s where "s = (if islast then ?L - sz else 996)"
  let ?c = "take s (drop sz d)" let ?p = "Follow n islast i ?c"
  let ?b1 = "CreateCurrentTunnelDataMessage env b"
  have room: "GetBuffer msg + ?L \<le> length (msg_buf msg)" using msg by (simp add: msg_ok_def msg_accessors i2np_sizes)
  then have ld: "length d = ?L" by (simp add: d)
  have s_le: "sz + s \<le> ?L" "s \<le> 996" using Suc.prems(3) by (auto simp: s_def islast_def)
  have rd: "mem_read (GetBuffer msg + sz) s (msg_buf msg) = Inr ?c" and lc: "length ?c = s"
    using room s_le ld take_drop_slice [of sz s ?L "GetBuffer msg" "msg_buf msg"]
    by (auto simp: mem_read_def simp flip: d)
  note cr = create_ok [OF Suc.prems(1,2)]
  then obtain m where m: "g_CurrentTunnelDataMsg ?b1 = Some m" by auto
  have pb: "piece_bytes ?p = [(0x80 OR push_bit 1 (word_of_nat n :: u8)) OR (if islast then 1 else 0)] @
      word_encode False msg_ID @ word_encode True (word_of_nat s :: u16) @ ?c" "length (piece_bytes ?p) = s + 7"
    using lc i by simp_all
  obtain m' where ap: "append_current (piece_bytes ?p) m = Inr m'"
    and g2: "gateway_ok env (?b1\<lparr>g_CurrentTunnelDataMsg := Some m', g_RemainingSize := 1003 - (s + 7)\<rparr>) sent [?p]"
    using gateway_append [OF cr(1) m, of ?p] pb(2) cr(2) s_le(2) by auto
  let ?b2 = "?b1\<lparr>g_CurrentTunnelDataMsg := Some m', g_RemainingSize := 1003 - (s + 7)\<rparr>"
  have t: "TUNNEL_DATA_MAX_PAYLOAD_SIZE - 7 = 996" by (simp add: TUNNEL_DATA_MAX_PAYLOAD_SIZE_def)
  have step: "put_follow_on env msg_ID msg n sz b =
      bind_result (if islast then if g_RemainingSize ?b2 = 0 then CompleteCurrentTunnelDataMessage env ?b2 else Inr ?b2
        else CompleteCurrentTunnelDataMessage env (?b1\<lparr>g_CurrentTunnelDataMsg := Some m'\<rparr>))
       (put_follow_on env msg_ID msg (n + 1) (sz + s))"
    by (subst put_follow_on.simps)
      (simp only: Suc.prems(3) if_True Let_def t islast_def [symmetric] s_def [symmetric] rd bind_result_Inr m option.sel
        pb(1) [symmetric] ap cr(2))
  show ?case
  proof (cases islast)
    case True
    obtain b' sent' ps' where b': "(if g_RemainingSize ?b2 = 0 then CompleteCurrentTunnelDataMessage env ?b2 else Inr ?b2) = Inr b'"
      "gateway_ok env b' (sent @ sent') ps'" "concat sent' @ ps' = [?p]"
      using maybe_complete [OF env g2] by auto
    have "put_follow_on env msg_ID msg (n + 1) (sz + s) b' = Inr b'"
      by (subst put_follow_on.simps) (use True Suc.prems(3) in \<open>simp add: s_def\<close>)
    then have "put_follow_on env msg_ID msg n sz b = Inr b'" unfolding step b'(1) using True b'(1) by simp
    moreover have "?c = drop sz d" using True ld by (simp add: s_def)
    ultimately show ?thesis
      using b'(2,3) True lc s_le(2) by (intro exI [of _ b'] exI [of _ sent'] exI [of _ ps'] exI [of _ "[?c]"]) auto
  next
    case False
    obtain b' where b': "CompleteCurrentTunnelDataMessage env (?b1\<lparr>g_CurrentTunnelDataMsg := Some m'\<rparr>) = Inr b'"
      "gateway_ok env b' (sent @ [[?p]]) []" "g_CurrentTunnelDataMsg b' = None"
      using complete_ok [OF env, where b = "?b1\<lparr>g_CurrentTunnelDataMsg := Some m'\<rparr>" and m = m' and r = "1003 - (s + 7)"] g2 by fastforce
    have "sz + s < ?L" "?L \<le> sz + s + 996 * k" using False Suc.prems(4) by (auto simp: s_def islast_def)
    from Suc.IH [OF b'(2,3) this, of "n + 1"] obtain b'' sent' ps cs where
      IH: "put_follow_on env msg_ID msg (n + 1) (sz + s) b' = Inr b''" "gateway_ok env b'' ((sent @ [[?p]]) @ sent') ps"
        "concat sent' @ ps = follows (n + 1) i cs" "concat cs = drop (sz + s) d" "cs \<noteq> []" "length cs \<le> k"
        "\<forall>c \<in> set cs. length c \<le> 996" by auto
    have "put_follow_on env msg_ID msg n sz b = Inr b''" unfolding step using False b'(1) IH(1) by simp
    moreover have "concat (?c # cs) = drop sz d" using IH(4) by (simp add: add.commute flip: drop_drop)
    ultimately show ?thesis
      using IH False lc s_le(2)
      by (intro exI [of _ b''] exI [of _ "[?p] # sent'"] exI [of _ ps] exI [of _ "?c # cs"]) auto
  qed
qed simp

lemma whole_length: "length (piece_bytes (Whole block d)) = length (delivery_instructions block) + length d + 2"
  by simp

lemma first_length: "length (piece_bytes (First block i d)) = length (delivery_instructions block) + length d + 6"
  by (cases "delivery_instructions block") (auto simp: delivery_instructions_def)

lemma put_whole_ok:
  assumes env: "gateway_env_ok env" and g: "gateway_ok env b sent ps" and cur: "g_CurrentTunnelDataMsg b = Some m"
    and msg: "msg_ok msg" and d: "d = slice (GetBuffer msg) (GetLength msg) (msg_buf msg)"
    and fits: "length (delivery_instructions block) + GetLength msg + 2 \<le> g_RemainingSize b"
  shows "\<exists>b' sent' ps'. put_whole env (delivery_instructions block) msg m b = Inr b' \<and>
    gateway_ok env b' (sent @ sent') ps' \<and> concat sent' @ ps' = ps @ [Whole block d]"
proof -
  have room: "GetBuffer msg + GetLength msg \<le> length (msg_buf msg)"
    using msg by (simp add: msg_ok_def msg_accessors i2np_sizes)
  then have ld: "length d = GetLength msg" and rd: "mem_read (GetBuffer msg) (GetLength msg) (msg_buf msg) = Inr d"
    by (simp_all add: d mem_read_def)
  have len: "length (piece_bytes (Whole block d)) \<le> g_RemainingSize b" using fits ld by (simp only: whole_length)
  from gateway_append [OF g cur len] obtain m' where
    m': "append_current (piece_bytes (Whole block d)) m = Inr m'"
      "gateway_ok env (b\<lparr>g_CurrentTunnelDataMsg := Some m',
        g_RemainingSize := g_RemainingSize b - length (piece_bytes (Whole block d))\<rparr>) sent (ps @ [Whole block d])" by blast
  let ?b = "b\<lparr>g_CurrentTunnelDataMsg := Some m', g_RemainingSize := g_RemainingSize b - length (piece_bytes (Whole block d))\<rparr>"
  have "put_whole env (delivery_instructions block) msg m b =
      (if g_RemainingSize ?b = 0 then CompleteCurrentTunnelDataMessage env ?b else Inr ?b)"
    using m'(1) rd ld by (simp add: put_whole_def Let_def)
  with maybe_complete [OF env m'(2)] show ?thesis by simp
qed

lemma put_fragmented_ok:
  assumes env: "gateway_env_ok env" and g: "gateway_ok env b sent ps" and cur: "g_CurrentTunnelDataMsg b = Some m"
    and msg: "msg_ok msg" "GetMsgID msg = Inr i" and d: "d = slice (GetBuffer msg) (GetLength msg) (msg_buf msg)"
    and small: "length d \<le> 28655"
    and di: "length (delivery_instructions block) + 6 \<le> g_RemainingSize b"
    and large: "g_RemainingSize b < length (delivery_instructions block) + GetLength msg + 6"
  shows "\<exists>b' sent' ps' qs. put_fragmented env (delivery_instructions block) msg m b = Inr b' \<and>
    gateway_ok env b' (sent @ sent') ps' \<and> concat sent' @ ps' = ps @ qs \<and> splits block i d qs"
proof -
  let ?L = "GetLength msg"
  have room: "GetBuffer msg + ?L \<le> length (msg_buf msg)" "16 \<le> ?L"
    using msg(1) by (auto simp: msg_ok_def msg_accessors i2np_sizes)
  then have ld: "length d = ?L" by (simp add: d)
  define sz where "sz = g_RemainingSize b - length (delivery_instructions block) - 6"
  have R: "g_RemainingSize b + length (pieces_bytes ps) = 1003" using g cur by (simp add: gateway_ok_def)
  have sz: "sz < ?L" "sz < 1003" using large di R by (auto simp: sz_def)
  let ?c = "take sz d"
  have rd: "mem_read (GetBuffer msg) sz (msg_buf msg) = Inr ?c" and lc: "length ?c = sz"
    using room sz ld by (simp_all add: mem_read_def d)
  define j where "j = (word_decode False (slice (GetBuffer msg + 1) 4 (msg_buf msg)) :: u32)"
  have j: "Read_buf False (GetBuffer msg + 1) (msg_buf msg) = Inr j" and ij: "word_encode False j = word_encode True i"
    using msg(2) room by (auto simp: j_def GetMsgID_def Read_buf_def result_simps word_encode_decode)
  let ?p = "First block i ?c"
  have len: "length (piece_bytes ?p) = g_RemainingSize b" using lc di by (simp add: first_length sz_def del: piece_bytes.simps)
  have pb: "((hd (delivery_instructions block) OR 0x08) # tl (delivery_instructions block) @ word_encode False j
      @ word_encode True (word_of_nat sz :: u16)) @ ?c = piece_bytes ?p" using lc by (simp add: ij)
  from gateway_append [OF g cur, of ?p] len obtain m' where
    m': "append_current (piece_bytes ?p) m = Inr m'"
      "gateway_ok env (b\<lparr>g_CurrentTunnelDataMsg := Some m', g_RemainingSize := 0\<rparr>) sent (ps @ [?p])" by auto
  obtain b1 where b1: "CompleteCurrentTunnelDataMessage env (b\<lparr>g_CurrentTunnelDataMsg := Some m'\<rparr>) = Inr b1"
      "gateway_ok env b1 (sent @ [ps @ [?p]]) []" "g_CurrentTunnelDataMsg b1 = None"
    using complete_ok [OF env, where b = "b\<lparr>g_CurrentTunnelDataMsg := Some m'\<rparr>" and m = m' and r = 0] m'(2) by fastforce
  have "?L \<le> sz + 996 * 32" using small ld by simp
  from put_follow_on_ok [OF env msg(1) d ij b1(2,3) sz(1) this, of 1] obtain b' sent' ps' cs where
    f: "put_follow_on env j msg 1 sz b1 = Inr b'" "gateway_ok env b' ((sent @ [ps @ [?p]]) @ sent') ps'"
      "concat sent' @ ps' = follows 1 i cs" "concat cs = drop sz d" "cs \<noteq> []" "length cs \<le> 32" "\<forall>c \<in> set cs. length c \<le> 996"
    by blast
  have "put_fragmented env (delivery_instructions block) msg m b = Inr b'"
    unfolding put_fragmented_def Let_def j bind_result_Inr sz_def [symmetric] rd pb m'(1) b1(1) f(1) by simp
  moreover have "splits block i d (?p # follows 1 i cs)"
    unfolding splits_def using f(4-7) sz(2) lc by (intro disjI2 exI [of _ ?c] exI [of _ cs]) fastforce
  moreover have "concat ([ps @ [?p]] @ sent') @ ps' = ps @ ?p # follows 1 i cs" using f(3) by simp
  ultimately show ?thesis using f(2) by (intro exI [of _ b'] exI [of _ "[ps @ [?p]] @ sent'"] exI) auto
qed

lemma complete_previous_ok:
  assumes env: "gateway_env_ok env" and g: "gateway_ok env b sent ps" and cur: "g_CurrentTunnelDataMsg b \<noteq> None"
  shows "\<exists>b' sent' ps'. complete_previous env n b = Inr b' \<and> gateway_ok env b' (sent @ sent') ps' \<and>
    concat sent' @ ps' = ps \<and> g_CurrentTunnelDataMsg b' \<noteq> None \<and> (g_RemainingSize b' = g_RemainingSize b \<or> g_RemainingSize b' = 1003)"
proof -
  obtain m where m: "g_CurrentTunnelDataMsg b = Some m" using cur by auto
  obtain b1 where b1: "CompleteCurrentTunnelDataMessage env b = Inr b1" "gateway_ok env b1 (sent @ [ps]) []" "g_CurrentTunnelDataMsg b1 = None"
    using complete_ok [OF env _ m, of "g_RemainingSize b" sent ps] g by auto
  let ?b2 = "CreateCurrentTunnelDataMessage env b1"
  note create_ok [OF b1(2,3)]
  then have "gateway_ok env ?b2 (sent @ [ps]) []" "g_RemainingSize ?b2 = 1003" "g_CurrentTunnelDataMsg ?b2 \<noteq> None" by auto
  moreover have "complete_previous env n b = Inr ?b2 \<or> complete_previous env n b = Inr b"
    using b1(1) by (simp add: complete_previous_def Let_def)
  moreover have "concat [ps] @ [] = ps" "concat [] @ ps = ps" "sent @ [] = sent" by simp_all
  ultimately show ?thesis using g cur by metis
qed

text \<open>Putting a block adds its fragments to what the gateway holds, and nothing else.\<close>

lemma PutI2NPMsg_created:
  assumes env: "gateway_env_ok env" and g: "gateway_ok env b sent []" and cur: "g_CurrentTunnelDataMsg b = None"
    and block: "block_ok block i d"
  shows "\<exists>b' sent' ps qs. PutI2NPMsg env block b = Inr b' \<and> gateway_ok env b' (sent @ sent') ps \<and>
    concat sent' @ ps = qs \<and> splits block i d qs"
proof -
  obtain msg where msg: "block_data block = Some msg" "msg_ok msg" "GetMsgID msg = Inr i"
      "d = slice (GetBuffer msg) (GetLength msg) (msg_buf msg)" "length d \<le> 28655"
    using block by (auto simp: block_ok_def)
  have ld: "length d = GetLength msg" using msg(2,4) by (auto simp: msg_ok_def msg_accessors i2np_sizes min_def)
  let ?b1 = "CreateCurrentTunnelDataMessage env b" let ?di = "delivery_instructions block"
  note c = create_ok [OF g cur]
  obtain m where m: "g_CurrentTunnelDataMsg ?b1 = Some m" using c(3) by auto
  show ?thesis
  proof (cases "length ?di + GetLength msg + 2 \<le> g_RemainingSize ?b1")
    case True
    then have "PutI2NPMsg env block b = put_whole env ?di msg m ?b1"
      using msg(1) cur m by (subst PutI2NPMsg.simps) (simp add: Let_def)
    moreover have "splits block i d [Whole block d]" using True c(2) ld by (simp add: splits_def)
    ultimately show ?thesis using put_whole_ok [OF env c(1) m msg(2,4) True] by fastforce
  next
    case False
    have di: "length ?di + 6 \<le> g_RemainingSize ?b1" using delivery_instructions_short [of block] c(2) by simp
    have "PutI2NPMsg env block b = put_fragmented env ?di msg m ?b1"
      using msg(1) cur m False di by (subst PutI2NPMsg.simps) (simp add: Let_def)
    then show ?thesis using put_fragmented_ok [OF env c(1) m msg(2-5) di] False by fastforce
  qed
qed

text \<open>
  The case in which a block is put correctly: there is no started message, or the block fits
  into it, or it does not fit into any single message.
\<close>

definition placeable :: "TunnelMessageBlock \<Rightarrow> TunnelGatewayBuffer \<Rightarrow> bool" where
  "placeable block b \<longleftrightarrow> g_CurrentTunnelDataMsg b = None \<or>
     (\<exists>msg. block_data block = Some msg \<and>
       (length (delivery_instructions block) + GetLength msg + 2 \<le> g_RemainingSize b \<or>
        1003 < length (delivery_instructions block) + GetLength msg + 6))"

lemma PutI2NPMsg_ok:
  assumes env: "gateway_env_ok env" and g: "gateway_ok env b sent ps" and block: "block_ok block i d"
    and place: "placeable block b"
  shows "\<exists>b' sent' ps' qs. PutI2NPMsg env block b = Inr b' \<and> gateway_ok env b' (sent @ sent') ps' \<and>
    concat sent' @ ps' = ps @ qs \<and> splits block i d qs"
proof (cases "g_CurrentTunnelDataMsg b")
  case None
  then have "ps = []" using g by (simp add: gateway_ok_def)
  then show ?thesis using PutI2NPMsg_created [OF env _ None block] g by auto
next
  case (Some m)
  obtain msg where msg: "block_data block = Some msg" "msg_ok msg" "GetMsgID msg = Inr i"
      "d = slice (GetBuffer msg) (GetLength msg) (msg_buf msg)" "length d \<le> 28655"
    using block by (auto simp: block_ok_def)
  have ld: "length d = GetLength msg" using msg(2,4) by (auto simp: msg_ok_def msg_accessors i2np_sizes min_def)
  let ?di = "delivery_instructions block" let ?n = "length (delivery_instructions block) + GetLength msg + 2"
  show ?thesis
  proof (cases "?n \<le> g_RemainingSize b")
    case True
    then have "PutI2NPMsg env block b = put_whole env ?di msg m b"
      using msg(1) Some by (subst PutI2NPMsg.simps) (simp add: Let_def)
    moreover have "splits block i d [Whole block d]"
      using True ld g Some by (simp add: splits_def gateway_ok_def)
    ultimately show ?thesis using put_whole_ok [OF env g Some msg(2,4) True] by fastforce
  next
    case False
    obtain b2 sent2 ps2 where b2: "complete_previous env ?n b = Inr b2" "gateway_ok env b2 (sent @ sent2) ps2"
        "concat sent2 @ ps2 = ps" "g_CurrentTunnelDataMsg b2 \<noteq> None"
        "g_RemainingSize b2 = g_RemainingSize b \<or> g_RemainingSize b2 = 1003"
      using complete_previous_ok [OF env g, of ?n] Some by auto
    then obtain m2 where m2: "g_CurrentTunnelDataMsg b2 = Some m2" by auto
    have step: "PutI2NPMsg env block b = (if length ?di + 6 \<le> g_RemainingSize b2 then put_fragmented env ?di msg m2 b2
        else bind_result (CompleteCurrentTunnelDataMessage env b2) (PutI2NPMsg env block))"
      using msg(1) Some False b2(1) m2 by (subst PutI2NPMsg.simps) (simp add: Let_def)
    show ?thesis
    proof (cases "length ?di + 6 \<le> g_RemainingSize b2")
      case True
      have large: "g_RemainingSize b2 < length ?di + GetLength msg + 6"
        using b2(5) False place Some msg(1) by (auto simp: placeable_def)
      from put_fragmented_ok [OF env b2(2) m2 msg(2-5) True large] obtain b' sent' ps' qs where
        "put_fragmented env ?di msg m2 b2 = Inr b'" "gateway_ok env b' ((sent @ sent2) @ sent') ps'"
        "concat sent' @ ps' = ps2 @ qs" "splits block i d qs" by blast
      then show ?thesis
        using step True b2(3) by (intro exI [of _ b'] exI [of _ "sent2 @ sent'"] exI [of _ ps'] exI [of _ qs]) auto
    next
      case no: False
      obtain b3 where b3: "CompleteCurrentTunnelDataMessage env b2 = Inr b3" "gateway_ok env b3 ((sent @ sent2) @ [ps2]) []"
          "g_CurrentTunnelDataMsg b3 = None"
        using complete_ok [OF env _ m2, of "g_RemainingSize b2" "sent @ sent2" ps2] b2(2) by auto
      from PutI2NPMsg_created [OF env b3(2,3) block] obtain b' sent' ps' qs where
        "PutI2NPMsg env block b3 = Inr b'" "gateway_ok env b' (((sent @ sent2) @ [ps2]) @ sent') ps'"
        "concat sent' @ ps' = qs" "splits block i d qs" by blast
      then show ?thesis
        using step no b3(1) b2(3)
        by (intro exI [of _ b'] exI [of _ "sent2 @ [ps2] @ sent'"] exI [of _ ps'] exI [of _ qs]) auto
    qed
  qed
qed

section \<open>A short message behind a started one\<close>

lemma complete_previous_short:
  assumes env: "gateway_env_ok env" and g: "gateway_ok env b sent ps" and m: "g_CurrentTunnelDataMsg b = Some m"
    and n: "g_RemainingSize b < n" "n < 1003"
  shows "\<exists>b' m'. complete_previous env n b = Inr b' \<and> gateway_ok env b' (sent @ [ps]) [] \<and>
    g_CurrentTunnelDataMsg b' = Some m' \<and> g_RemainingSize b' = 1003"
proof -
  obtain b1 where b1: "CompleteCurrentTunnelDataMessage env b = Inr b1" "gateway_ok env b1 (sent @ [ps]) []" "g_CurrentTunnelDataMsg b1 = None"
    using complete_ok [OF env _ m, of "g_RemainingSize b" sent ps] g by auto
  moreover have "complete_previous env n b = Inr (CreateCurrentTunnelDataMessage env b1)"
    using n b1(1) by (simp add: complete_previous_def Let_def TUNNEL_DATA_MAX_PAYLOAD_SIZE_def)
  ultimately show ?thesis using create_ok [OF b1(2,3)] by auto
qed

text \<open>
  C39 (error). A message that does not fit behind the ones already in the current data message
  but would fit into a new one is not delivered: the gateway starts a new data message and
  then cuts off a first fragment as long as the room, which is more than the message has. The
  fragment carries bytes from behind the message, there is no follow-on fragment, and the
  endpoint waits for one.
\<close>

theorem short_message_lost:
  assumes env: "gateway_env_ok env" and g: "gateway_ok env b sent ps" and m: "g_CurrentTunnelDataMsg b = Some m"
    and msg: "block_data block = Some msg" "GetMsgID msg = Inr i" and di: "di = delivery_instructions block"
    and size: "g_RemainingSize b < length di + GetLength msg + 2" "length di + GetLength msg + 6 \<le> 1003"
    and buf: "GetBuffer msg + (997 - length di) \<le> length (msg_buf msg)"
  shows "\<exists>b' c. PutI2NPMsg env block b = Inr b' \<and> gateway_ok env b' (sent @ [ps, [First block i c]]) [] \<and>
    length c = 997 - length di \<and> GetLength msg \<le> length c \<and>
    take (GetLength msg) c = slice (GetBuffer msg) (GetLength msg) (msg_buf msg)"
proof -
  let ?n = "length di + GetLength msg + 2" let ?sz = "997 - length di"
  have dl: "length di \<le> 37" unfolding di by (rule delivery_instructions_short)
  obtain b2 m2 where b2: "complete_previous env ?n b = Inr b2" "gateway_ok env b2 (sent @ [ps]) []"
      "g_CurrentTunnelDataMsg b2 = Some m2" "g_RemainingSize b2 = 1003"
    using complete_previous_short [OF env g m, of ?n] size by auto
  have step: "PutI2NPMsg env block b = put_fragmented env di msg m2 b2"
    using msg(1) m size b2 dl by (subst PutI2NPMsg.simps) (simp add: Let_def flip: di)
  define c where "c = slice (GetBuffer msg) ?sz (msg_buf msg)"
  have rd: "mem_read (GetBuffer msg) ?sz (msg_buf msg) = Inr c" and lc: "length c = ?sz"
    using buf by (simp_all add: mem_read_def c_def)
  define j where "j = (word_decode False (slice (GetBuffer msg + 1) 4 (msg_buf msg)) :: u32)"
  have j: "Read_buf False (GetBuffer msg + 1) (msg_buf msg) = Inr j" and ij: "word_encode False j = word_encode True i"
    using msg(2) by (auto simp: j_def GetMsgID_def Read_buf_def result_simps word_encode_decode)
  let ?p = "First block i c"
  have "length (piece_bytes ?p) = 1003" using lc dl by (simp add: first_length di [symmetric] del: piece_bytes.simps)
  with gateway_append [OF b2(2,3), of ?p] b2(4) obtain m' where
    m': "append_current (piece_bytes ?p) m2 = Inr m'"
      "gateway_ok env (b2\<lparr>g_CurrentTunnelDataMsg := Some m', g_RemainingSize := 0\<rparr>) (sent @ [ps]) [?p]" by auto
  obtain b' where b': "CompleteCurrentTunnelDataMessage env (b2\<lparr>g_CurrentTunnelDataMsg := Some m'\<rparr>) = Inr b'"
      "gateway_ok env b' ((sent @ [ps]) @ [[?p]]) []"
    using complete_ok [OF env, where b = "b2\<lparr>g_CurrentTunnelDataMsg := Some m'\<rparr>" and m = m' and r = 0] m'(2) by fastforce
  have pb: "((hd di OR 0x08) # tl di @ word_encode False j @ word_encode True (word_of_nat ?sz :: u16)) @ c = piece_bytes ?p"
    using lc by (simp add: ij di)
  have sz: "g_RemainingSize b2 - length di - 6 = ?sz" using b2(4) by simp
  have "put_fragmented env di msg m2 b2 = put_follow_on env j msg 1 ?sz b'"
    unfolding put_fragmented_def Let_def j bind_result_Inr sz rd pb m'(1) b'(1) by simp
  also have "\<not> ?sz < GetLength msg" using size(2) by simp
  then have "put_follow_on env j msg 1 ?sz b' = Inr b'" by (subst put_follow_on.simps) (simp only: if_False)
  finally show ?thesis
    using step b'(2) lc size(2) take_drop_slice [of 0 "GetLength msg" ?sz "GetBuffer msg" "msg_buf msg"]
    by (intro exI [of _ b'] exI [of _ c]) (auto simp: c_def)
qed

section \<open>Concrete instances\<close>

lemma PutI2NPMsg_started:
  assumes env: "gateway_env_ok env" and g: "gateway_ok env b sent []" and cur: "g_CurrentTunnelDataMsg b = None"
    and block: "block_ok block i d" and n: "n = length (delivery_instructions block) + length d + 2" "n < 1003"
  shows "\<exists>b' m. PutI2NPMsg env block b = Inr b' \<and> gateway_ok env b' sent [Whole block d] \<and>
    g_CurrentTunnelDataMsg b' = Some m \<and> g_RemainingSize b' = 1003 - n"
proof -
  obtain msg where msg: "block_data block = Some msg" "msg_ok msg" "d = slice (GetBuffer msg) (GetLength msg) (msg_buf msg)"
    using block by (auto simp: block_ok_def)
  have room: "GetBuffer msg + GetLength msg \<le> length (msg_buf msg)"
    using msg(2) by (simp add: msg_ok_def msg_accessors i2np_sizes)
  then have ld: "length d = GetLength msg" and rd: "mem_read (GetBuffer msg) (GetLength msg) (msg_buf msg) = Inr d"
    by (simp_all add: msg(3) mem_read_def)
  let ?b1 = "CreateCurrentTunnelDataMessage env b" let ?di = "delivery_instructions block"
  note c = create_ok [OF g cur]
  obtain m where m: "g_CurrentTunnelDataMsg ?b1 = Some m" using c(3) by auto
  have len: "length (piece_bytes (Whole block d)) = n" using n(1) by (simp only: whole_length)
  from gateway_append [OF c(1) m, of "Whole block d"] len n(2) c(2) obtain m' where
    m': "append_current (piece_bytes (Whole block d)) m = Inr m'"
      "gateway_ok env (?b1\<lparr>g_CurrentTunnelDataMsg := Some m', g_RemainingSize := 1003 - n\<rparr>) sent [Whole block d]" by auto
  have "PutI2NPMsg env block b = put_whole env ?di msg m ?b1"
    using msg(1) cur m n ld c(2) by (subst PutI2NPMsg.simps) (simp add: Let_def)
  also have "\<dots> = Inr (?b1\<lparr>g_CurrentTunnelDataMsg := Some m', g_RemainingSize := 1003 - n\<rparr>)"
    using m'(1) rd ld n c(2) by (simp add: put_whole_def Let_def)
  finally show ?thesis using m'(2) by auto
qed

definition sample_gateway_env :: GatewayEnv where
  "sample_gateway_env = \<lparr>g_sha256 = (\<lambda>_. replicate 32 0), g_iv = (\<lambda>_. replicate 16 1),
     g_rand_in_range = (\<lambda>n a b. a), g_address = (\<lambda>_. 0)\<rparr>"

definition sample_data :: "nat \<Rightarrow> I2NPMessage" where
  "sample_data n = (put_at 2 (header_bytes 20 7 5000 (word_of_nat (n - 16)) 0) NewI2NPShortMessage)\<lparr>msg_len := n + 2\<rparr>"

definition sample_block :: "nat \<Rightarrow> TunnelMessageBlock" where
  "sample_block n = \<lparr>delivery_type = DeliveryTypeLocal, block_hash = replicate 32 0, tunnel_ID = 0,
     block_data = Some (sample_data n)\<rparr>"

definition sample_gateway :: TunnelGatewayBuffer where
  "sample_gateway = TunnelGatewayBuffer_new 5 (replicate 1003 1)"

lemma sample_gateway_ok:
  "gateway_env_ok sample_gateway_env" "gateway_ok sample_gateway_env sample_gateway [] []"
  "g_CurrentTunnelDataMsg sample_gateway = None"
proof -
  show "gateway_ok sample_gateway_env sample_gateway [] []"
    unfolding sample_gateway_def by (rule gateway_new_ok) simp
qed (simp_all add: gateway_env_ok_def sample_gateway_env_def sample_gateway_def TunnelGatewayBuffer_new_def
    del: replicate.simps)

lemma sample_data_fields:
  "length (msg_buf (sample_data n)) = 4112" "GetBuffer (sample_data n) = 2" "GetLength (sample_data n) = n"
  "16 \<le> n \<Longrightarrow> n \<le> 4000 \<Longrightarrow> msg_ok (sample_data n)" "GetMsgID (sample_data n) = Inr 7"
proof -
  have "slice (msg_offset (sample_data n)) 16 (msg_buf (sample_data n)) = header_bytes 20 7 5000 (word_of_nat (n - 16)) 0"
    "msg_offset (sample_data n) + 16 \<le> length (msg_buf (sample_data n))"
    by (simp_all add: sample_data_def NewI2NPShortMessage_def I2NPMessageBuffer_def i2np_sizes del: replicate.simps)
  from header_fields [OF this] show "GetMsgID (sample_data n) = Inr 7" by simp
qed (simp_all add: sample_data_def NewI2NPShortMessage_def I2NPMessageBuffer_def i2np_sizes msg_accessors msg_ok_def
    del: replicate.simps)

lemma sample_block_ok:
  assumes "16 \<le> n" "n \<le> 4000"
  shows "block_ok (sample_block n) 7 (slice 2 n (msg_buf (sample_data n)))"
  using assms sample_data_fields [of n]
  by (auto simp: block_ok_def sample_block_def simp del: replicate.simps)

theorem short_message_lost_witness:
  "\<exists>b b' c. PutI2NPMsg sample_gateway_env (sample_block 600) sample_gateway = Inr b \<and>
     PutI2NPMsg sample_gateway_env (sample_block 500) b = Inr b' \<and> length (g_TunnelDataMsgs b') = 2 \<and> length c = 996 \<and>
     carries_pieces (g_sha256 sample_gateway_env) (data_payload (g_TunnelDataMsgs b' ! 1)) [First (sample_block 500) 7 c]"
proof -
  let ?d = "slice 2 600 (msg_buf (sample_data 600))"
  have di: "delivery_instructions (sample_block n) = [0]" for n by (simp add: delivery_instructions_def sample_block_def)
  have "length ?d = 600" using sample_data_fields(1) [of 600] by simp
  then obtain b m where b: "PutI2NPMsg sample_gateway_env (sample_block 600) sample_gateway = Inr b"
      "gateway_ok sample_gateway_env b [] [Whole (sample_block 600) ?d]" "g_CurrentTunnelDataMsg b = Some m" "g_RemainingSize b = 400"
    using PutI2NPMsg_started [OF sample_gateway_ok sample_block_ok [of 600]] di by auto
  have "block_data (sample_block 500) = Some (sample_data 500)" by (simp add: sample_block_def)
  from short_message_lost [OF sample_gateway_ok(1) b(2,3) this sample_data_fields(5) di [symmetric]]
  obtain b' c where "PutI2NPMsg sample_gateway_env (sample_block 500) b = Inr b'"
    "gateway_ok sample_gateway_env b' ([] @ [[Whole (sample_block 600) ?d], [First (sample_block 500) 7 c]]) []" "length c = 996"
    using b(4) sample_data_fields [of 500] by auto
  then show ?thesis
    using b(1) by (intro exI [of _ b] exI [of _ b'] exI [of _ c]) (auto simp: gateway_ok_def list_all2_conv_all_nth)
qed

end
