(* ===== verification/Tunnel_Endpoint.thy ===== *)
theory Tunnel_Endpoint
  imports Tunnel_Gateway
begin

unbundle bit_operations_syntax

text \<open>
  The far end of a tunnel (\<open>tunnel/endpoint.h\<close> and \<open>tunnel/endpoint.cc\<close>): a decrypted data
  message is checked, cut into fragments at its delivery instructions, and the fragments are
  put together and handed on. One fragment per message can be kept out of sequence.
\<close>

section \<open>Data\<close>

text \<open>\<open>TunnelMessageBlockEx\<close>: the block and the number of the fragment it waits for.\<close>

record TunnelMessageBlockEx = TunnelMessageBlock +
  next_fragment_num :: u8

record EndpointFragment =
  ef_fragment_num :: u8
  ef_is_last_fragment :: bool
  ef_data :: I2NPMessage

record TunnelEndpoint =
  ep_IncompleteMessages :: "(u32, TunnelMessageBlockEx) std_map"
  ep_OutOfSequenceFragments :: "(u32, EndpointFragment) std_map"
  ep_IsInbound :: bool
  ep_NumReceivedBytes :: nat

definition TunnelEndpoint_new :: "bool \<Rightarrow> TunnelEndpoint" where
  "TunnelEndpoint_new is_inbound =
     \<lparr>ep_IncompleteMessages = [], ep_OutOfSequenceFragments = [], ep_IsInbound = is_inbound, ep_NumReceivedBytes = 0\<rparr>"

section \<open>Handing on\<close>

text \<open>The data of a block is never null here; a null pointer would be dereferenced.\<close>

definition data_of :: "('a TunnelMessageBlock_scheme) \<Rightarrow> I2NPMessage result" where
  "data_of m = (case block_data m of None \<Rightarrow> Inl MemoryError | Some d \<Rightarrow> Inr d)"

definition HandleNextMessage :: "RouterEnv \<Rightarrow> 'a TunnelMessageBlock_scheme \<Rightarrow> TunnelEndpoint \<Rightarrow> (TunnelEndpoint, action) steps" where
  "HandleNextMessage env msg ep =
     bind_result (data_of msg) (\<lambda>d.
     case delivery_type msg of
       DeliveryTypeLocal \<Rightarrow> bind_result (HandleI2NPMessage env (Some d)) (\<lambda>acts. Inr (ep, acts))
     | DeliveryTypeTunnel \<Rightarrow>
         bind_result (CreateTunnelGatewayMsg (e_sha256 env) (e_rnd1 env) (e_now env) (tunnel_ID msg) d) (\<lambda>g.
           Inr (ep, [SendMessage (block_hash msg) g]))
     | DeliveryTypeRouter \<Rightarrow>
         if block_hash msg = e_own_ident env then
           bind_result (HandleI2NPMessage env (Some d)) (\<lambda>acts. Inr (ep, acts))
         else if \<not> ep_IsInbound ep then Inr (ep, [SendMessage (block_hash msg) d])
         else Inr (ep, [])
     | DeliveryTypeUnknown \<Rightarrow> Inr (ep, []))"

section \<open>Fragments\<close>

definition AddOutOfSequenceFragment :: "u32 \<Rightarrow> u8 \<Rightarrow> bool \<Rightarrow> I2NPMessage \<Rightarrow> TunnelEndpoint \<Rightarrow> TunnelEndpoint" where
  "AddOutOfSequenceFragment msg_ID fragment_num is_last_fragment data ep =
     (if \<not> std_count msg_ID (ep_OutOfSequenceFragments ep) then
        ep\<lparr>ep_OutOfSequenceFragments := std_insert msg_ID
             \<lparr>ef_fragment_num = fragment_num, ef_is_last_fragment = is_last_fragment, ef_data = data\<rparr>
             (ep_OutOfSequenceFragments ep)\<rparr>
      else ep)"

text \<open>A longer buffer where the message does not fit, and the copy of the fragment to its end.\<close>

definition concatenate :: "I2NPMessage \<Rightarrow> I2NPMessage \<Rightarrow> I2NPMessage result" where
  "concatenate fragment m =
     (let sz = GetLength fragment in
      bind_result (if msg_len m + sz > msg_max_len m then I2NPMessage_assign m NewI2NPMessage else Inr m) (\<lambda>m1.
      bind_result (mem_read (GetBuffer fragment) sz (msg_buf fragment)) (\<lambda>bs.
      bind_result (put (msg_len m1) bs m1) (\<lambda>m2. Inr (m2\<lparr>msg_len := msg_len m2 + sz\<rparr>)))))"

text \<open>
  \<open>msg\<close> is the entry of \<open>msg_ID\<close> in the incomplete messages, which the source holds by
  reference: what becomes of it is written back.
\<close>

definition HandleOutOfSequenceFragment ::
    "RouterEnv \<Rightarrow> u32 \<Rightarrow> TunnelMessageBlockEx \<Rightarrow> TunnelEndpoint \<Rightarrow> (TunnelEndpoint, action) steps" where
  "HandleOutOfSequenceFragment env msg_ID msg ep =
     (case std_find msg_ID (ep_OutOfSequenceFragments ep) of
        None \<Rightarrow> pure_step ep
      | Some f \<Rightarrow>
          if ef_fragment_num f = next_fragment_num msg then
            bind_result (data_of msg) (\<lambda>d.
            bind_result (concatenate (ef_data f) d) (\<lambda>d1.
            let msg1 = msg\<lparr>block_data := Some d1\<rparr> in
            bind_step
              (if ef_is_last_fragment f then
                 bind_step (HandleNextMessage env msg1 ep) (\<lambda>ep1.
                   pure_step (ep1\<lparr>ep_IncompleteMessages := std_erase msg_ID (ep_IncompleteMessages ep1)\<rparr>))
               else
                 pure_step (ep\<lparr>ep_IncompleteMessages :=
                   std_assign msg_ID (msg1\<lparr>next_fragment_num := next_fragment_num msg1 + 1\<rparr>)
                     (ep_IncompleteMessages ep)\<rparr>)) (\<lambda>ep2.
            pure_step (ep2\<lparr>ep_OutOfSequenceFragments := std_erase msg_ID (ep_OutOfSequenceFragments ep2)\<rparr>))))
          else pure_step ep)"

definition HandleFollowOnFragment ::
    "RouterEnv \<Rightarrow> u32 \<Rightarrow> bool \<Rightarrow> TunnelMessageBlockEx \<Rightarrow> TunnelEndpoint \<Rightarrow> (TunnelEndpoint, action) steps" where
  "HandleFollowOnFragment env msg_ID is_last_fragment m ep =
     bind_result (data_of m) (\<lambda>fragment.
     let sz = GetLength fragment;
         save = pure_step (AddOutOfSequenceFragment msg_ID (next_fragment_num m) is_last_fragment fragment ep)
     in case std_find msg_ID (ep_IncompleteMessages ep) of
          None \<Rightarrow> save
        | Some msg \<Rightarrow>
            if next_fragment_num m = next_fragment_num msg then
              bind_result (data_of msg) (\<lambda>d.
              if msg_len d + sz < I2NP_MAX_MESSAGE_SIZE then
                bind_result (concatenate fragment d) (\<lambda>d1.
                let msg1 = msg\<lparr>block_data := Some d1\<rparr> in
                if is_last_fragment then
                  bind_step (HandleNextMessage env msg1 ep) (\<lambda>ep1.
                    pure_step (ep1\<lparr>ep_IncompleteMessages := std_erase msg_ID (ep_IncompleteMessages ep1)\<rparr>))
                else
                  let msg2 = msg1\<lparr>next_fragment_num := next_fragment_num msg1 + 1\<rparr> in
                  HandleOutOfSequenceFragment env msg_ID msg2
                    (ep\<lparr>ep_IncompleteMessages := std_assign msg_ID msg2 (ep_IncompleteMessages ep)\<rparr>))
              else pure_step (ep\<lparr>ep_IncompleteMessages := std_erase msg_ID (ep_IncompleteMessages ep)\<rparr>))
            else save)"

section \<open>Data messages\<close>

definition delivery_of :: "u8 \<Rightarrow> TunnelDeliveryType" where
  "delivery_of code =
     (if code = 0 then DeliveryTypeLocal else if code = 1 then DeliveryTypeTunnel
      else if code = 2 then DeliveryTypeRouter else DeliveryTypeUnknown)"

text \<open>
  The instructions of a fragment at \<open>p\<close>: the block without data, the message identifier, the
  last-fragment flag, the fragment number, whether it is a follow-on fragment, and the
  position of its size. Members that the source leaves uninitialised are zero; they are not
  read before they are set.
\<close>

definition parse_instructions ::
    "nat \<Rightarrow> bytes \<Rightarrow> (TunnelMessageBlockEx \<times> u32 \<times> bool \<times> u8 \<times> bool \<times> nat) result" where
  "parse_instructions p mem =
     bind_result (peek p mem) (\<lambda>flag.
     let m0 = \<lparr>delivery_type = DeliveryTypeLocal, block_hash = replicate 32 0, tunnel_ID = 0, block_data = None,
               next_fragment_num = 0\<rparr>;
         p = p + 1
     in if flag AND 0x80 = 0 then
          let m1 = m0\<lparr>delivery_type := delivery_of (drop_bit 5 flag AND 0x03)\<rparr> in
          bind_result
            (case delivery_type m1 of
               DeliveryTypeTunnel \<Rightarrow>
                 bind_result (Read_buf True p mem) (\<lambda>t.
                 bind_result (mem_read (p + 4) 32 mem) (\<lambda>h.
                   Inr (m1\<lparr>tunnel_ID := t, block_hash := h\<rparr>, p + 4 + 32)))
             | DeliveryTypeRouter \<Rightarrow>
                 bind_result (mem_read p 32 mem) (\<lambda>h. Inr (m1\<lparr>block_hash := h\<rparr>, p + 32))
             | _ \<Rightarrow> Inr (m1, p)) (\<lambda>(m2, p2).
          if flag AND 0x08 \<noteq> 0 then
            bind_result (Read_buf True p2 mem) (\<lambda>msg_ID. Inr (m2, msg_ID, False, 0, False, p2 + 4))
          else Inr (m2, 0, True, 0, False, p2))
        else
          bind_result (Read_buf True p mem) (\<lambda>msg_ID.
            Inr (m0, msg_ID, flag AND 0x01 \<noteq> 0, drop_bit 1 flag AND 0x3F, True, p + 4)))"

lemma parse_instructions_advances: "parse_instructions p mem = Inr r \<Longrightarrow> p < snd (snd (snd (snd (snd r))))"
  by (auto simp: parse_instructions_def bind_result_eq_Inr Let_def split: if_splits TunnelDeliveryType.splits)

text \<open>What is done with a fragment once its data is known.\<close>

definition handle_block ::
    "RouterEnv \<Rightarrow> TunnelMessageBlockEx \<Rightarrow> u32 \<Rightarrow> bool \<Rightarrow> u8 \<Rightarrow> bool \<Rightarrow> TunnelEndpoint \<Rightarrow> (TunnelEndpoint, action) steps" where
  "handle_block env m msg_ID is_last_fragment fragment_num is_follow_on_fragment ep =
     (if \<not> is_follow_on_fragment \<and> is_last_fragment then HandleNextMessage env m ep
      else if msg_ID \<noteq> 0 then
        if \<not> is_follow_on_fragment then
          let m1 = m\<lparr>next_fragment_num := 1\<rparr> in
          if \<not> std_count msg_ID (ep_IncompleteMessages ep) then
            HandleOutOfSequenceFragment env msg_ID m1
              (ep\<lparr>ep_IncompleteMessages := std_insert msg_ID m1 (ep_IncompleteMessages ep)\<rparr>)
          else pure_step ep
        else HandleFollowOnFragment env msg_ID is_last_fragment (m\<lparr>next_fragment_num := fragment_num\<rparr>) ep
      else pure_step ep)"

text \<open>
  The loop over the fragments from \<open>p\<close> to \<open>end_pos\<close>; every round consumes at least the flag
  and the size of a fragment. The message is copied unless the fragment is its last one.
\<close>

function handle_fragments ::
    "RouterEnv \<Rightarrow> nat \<Rightarrow> nat \<Rightarrow> I2NPMessage \<Rightarrow> TunnelEndpoint \<Rightarrow> (TunnelEndpoint, action) steps" where
  "handle_fragments env end_pos p msg ep =
     (if p < end_pos then
        bind_result (parse_instructions p (msg_buf msg)) (\<lambda>(m, msg_ID, is_last, fragment_num, follow_on, q).
        bind_result (Read_buf True q (msg_buf msg)) (\<lambda>sz :: u16.
        let p1 = q + 2;
            msg1 = msg\<lparr>msg_offset := p1, msg_len := p1 + unat sz\<rparr>
        in bind_result
             (if p1 + unat sz < end_pos then
                let d = NewI2NPShortMessage in
                I2NPMessage_assign msg1
                  (d\<lparr>msg_offset := msg_offset d + TUNNEL_GATEWAY_HEADER_SIZE,
                     msg_len := msg_len d + TUNNEL_GATEWAY_HEADER_SIZE\<rparr>)
              else Inr msg1) (\<lambda>data.
           bind_step (handle_block env (m\<lparr>block_data := Some data\<rparr>) msg_ID is_last fragment_num follow_on ep) (\<lambda>ep1.
             handle_fragments env end_pos (p1 + unat sz) msg1 ep1))))
      else pure_step ep)"
  by pat_completeness auto
termination
proof (relation "measure (\<lambda>(env, end_pos, p, msg, ep). end_pos - p)", goal_cases)
  case (2 env end_pos p msg ep)
  then show ?case using parse_instructions_advances [OF 2(2)] by auto
qed simp

declare handle_fragments.simps [simp del]

text \<open>\<open>memchr\<close>: the position of the first zero byte.\<close>

definition find_zero :: "bytes \<Rightarrow> nat option" where
  "find_zero bs = (let n = length (takeWhile (\<lambda>b. b \<noteq> 0) bs) in if n < length bs then Some n else None)"

definition HandleDecryptedTunnelDataMsg ::
    "RouterEnv \<Rightarrow> I2NPMessage \<Rightarrow> TunnelEndpoint \<Rightarrow> (TunnelEndpoint, action) steps" where
  "HandleDecryptedTunnelDataMsg env msg ep0 =
     (let ep = ep0\<lparr>ep_NumReceivedBytes := ep_NumReceivedBytes ep0 + TUNNEL_DATA_MSG_SIZE\<rparr>;
          payload = GetPayload msg;
          decrypted = payload + 20
      in bind_result (mem_read (decrypted + 4) (TUNNEL_DATA_ENCRYPTED_SIZE - 4) (msg_buf msg)) (\<lambda>searched.
         case find_zero searched of
           None \<Rightarrow> pure_step ep
         | Some z \<Rightarrow>
             let fragment = decrypted + 4 + z + 1 in
             bind_result (mem_read (payload + 4) 16 (msg_buf msg)) (\<lambda>iv.
             bind_result (put (payload + TUNNEL_DATA_MSG_SIZE) iv msg) (\<lambda>msg1.
             bind_result (mem_read fragment (TUNNEL_DATA_MSG_SIZE - (fragment - payload) + 16) (msg_buf msg1)) (\<lambda>covered.
             bind_result (mem_read decrypted 4 (msg_buf msg1)) (\<lambda>checksum.
             if take 4 (e_sha256 env covered) \<noteq> checksum then pure_step ep
             else handle_fragments env (decrypted + TUNNEL_DATA_ENCRYPTED_SIZE) fragment msg1 ep))))))"


section \<open>Reading the instructions of a fragment\<close>

lemma Read_buf_at:
  fixes x :: "'a::len word"
  assumes "8 dvd LENGTH('a)" and "p = length pre"
  shows "Read_buf True p (pre @ word_encode True x @ rest) = Inr x"
  using assms by (simp add: Read_buf_def mem_read_def slice_def word_decode_encode)

lemma mem_read_slice: "p = length pre \<Longrightarrow> n = length xs \<Longrightarrow> mem_read p n (pre @ xs @ rest) = Inr xs"
  by (simp add: mem_read_def slice_def)

lemma peek_at: "p = length pre \<Longrightarrow> peek p (pre @ x # rest) = Inr x"
  by (simp add: peek_def)

text \<open>The block that the endpoint makes of the instructions of \<open>block\<close>.\<close>

definition parsed_block :: "TunnelMessageBlock \<Rightarrow> TunnelMessageBlockEx" where
  "parsed_block block = \<lparr>delivery_type = delivery_type block,
     block_hash = (if delivery_type block = DeliveryTypeLocal then replicate 32 0 else block_hash block),
     tunnel_ID = (if delivery_type block = DeliveryTypeTunnel then tunnel_ID block else 0),
     block_data = None, next_fragment_num = 0\<rparr>"

definition empty_block :: TunnelMessageBlockEx where
  "empty_block = \<lparr>delivery_type = DeliveryTypeLocal, block_hash = replicate 32 0, tunnel_ID = 0, block_data = None,
     next_fragment_num = 0\<rparr>"

definition target_ok :: "TunnelMessageBlock \<Rightarrow> bool" where
  "target_ok block \<longleftrightarrow> length (block_hash block) = 32 \<and> delivery_type block \<noteq> DeliveryTypeUnknown"

lemma delivery_instructions_cases:
  assumes "target_ok block"
  shows "delivery_type block = DeliveryTypeLocal \<and> delivery_instructions block = [0] \<or>
    delivery_type block = DeliveryTypeTunnel \<and>
      delivery_instructions block = 0x20 # word_encode True (tunnel_ID block) @ block_hash block \<or>
    delivery_type block = DeliveryTypeRouter \<and> delivery_instructions block = 0x40 # block_hash block"
  using assms by (cases "delivery_type block") (auto simp: target_ok_def delivery_instructions_def)

lemma parse_block:
  assumes ok: "target_ok block" and f: "f = 0 \<or> f = 0x08" and di: "di = delivery_instructions block"
    and mem: "mem = pre @ ((hd di OR f) # tl di) @ rest"
  shows "parse_instructions (length pre) mem =
    (if f = 0 then Inr (parsed_block block, 0, True, 0, False, length pre + length di)
     else bind_result (Read_buf True (length pre + length di) mem) (\<lambda>i.
       Inr (parsed_block block, i, False, 0, False, length pre + length di + 4)))"
proof -
  let ?t = "word_encode True (tunnel_ID block)" let ?h = "block_hash block"
  have h: "length ?h = 32" using ok by (simp add: target_ok_def)
  from delivery_instructions_cases [OF ok] show ?thesis
  proof (elim disjE conjE)
    assume "delivery_type block = DeliveryTypeLocal" "delivery_instructions block = [0]"
    then show ?thesis
      using f by (auto simp: parse_instructions_def mem di peek_at delivery_of_def Let_def parsed_block_def)
  next
    assume t: "delivery_type block = DeliveryTypeTunnel" "delivery_instructions block = 0x20 # ?t @ ?h"
    have m: "mem = pre @ (0x20 OR f) # ?t @ ?h @ rest" by (simp add: mem di t(2))
    have "Read_buf True (length pre + 1) mem = Inr (tunnel_ID block)"
      "mem_read (length pre + 1 + 4) 32 mem = Inr ?h"
      using Read_buf_at [of "length pre + 1" "pre @ [0x20 OR f]" "tunnel_ID block" "?h @ rest"]
        mem_read_slice [of "length pre + 1 + 4" "pre @ (0x20 OR f) # ?t" 32 ?h rest] h by (simp_all add: m)
    then show ?thesis
      using f t h by (auto simp: parse_instructions_def m di peek_at delivery_of_def Let_def parsed_block_def)
        (simp_all add: add.commute)
  next
    assume t: "delivery_type block = DeliveryTypeRouter" "delivery_instructions block = 0x40 # ?h"
    have m: "mem = pre @ (0x40 OR f) # ?h @ rest" by (simp add: mem di t(2))
    have "mem_read (length pre + 1) 32 mem = Inr ?h"
      using mem_read_slice [of "length pre + 1" "pre @ [0x40 OR f]" 32 ?h rest] h by (simp add: m)
    then show ?thesis
      using f t h by (auto simp: parse_instructions_def m di peek_at delivery_of_def Let_def parsed_block_def)
        (simp_all add: add.commute)
  qed
qed

lemma follow_flag:
  assumes "n < 64" and "w = (0x80 OR push_bit 1 (word_of_nat n :: u8)) OR (if l then 1 else 0)"
  shows "w AND 0x80 \<noteq> 0" "(w AND 0x01 \<noteq> 0) = l" "drop_bit 1 w AND 0x3F = word_of_nat n"
proof -
  have n: "\<not> bit (word_of_nat n :: u8) j" if "6 \<le> j" for j
  proof -
    have "n < 2 ^ j" using assms(1) that power_increasing [of 6 j "2 :: nat"] by simp
    then have "\<not> bit n j" by (simp add: bit_iff_odd)
    then show ?thesis by (simp add: bit_of_nat_iff)
  qed
  have b80: "bit (0x80 :: u8) j = (j = 7)" for j
  proof -
    have "(0x80 :: u8) = push_bit 7 1" by simp
    then show ?thesis by (simp only: bit_push_bit_iff) (auto simp: bit_1_iff)
  qed
  have b3f: "bit (0x3F :: u8) j = (j < 6)" for j
  proof -
    have "(0x3F :: u8) = mask 6" by (simp add: mask_eq_exp_minus_1)
    then show ?thesis by (simp only: bit_mask_iff) auto
  qed
  have bw: "bit w j = (j = 7 \<or> (1 \<le> j \<and> j < 8 \<and> bit (word_of_nat n :: u8) (j - 1)) \<or> (l \<and> j = 0))" for j
    unfolding assms(2) bit_or_iff b80 bit_push_bit_iff by (auto simp: bit_1_iff possible_bit_word)
  have "bit (w AND 0x80) 7" by (simp add: bit_and_iff bw b80)
  then show "w AND 0x80 \<noteq> 0" by auto
  have "w AND 0x01 = (if bit w 0 then 1 else 0)" by (rule bit_word_eqI) (auto simp: bit_and_iff bit_1_iff intro: gr_zeroI)
  then show "(w AND 0x01 \<noteq> 0) = l" by (simp add: bw)
  show "drop_bit 1 w AND 0x3F = word_of_nat n"
  proof (rule bit_word_eqI)
    fix j :: nat assume "j < LENGTH(8)"
    then show "bit (drop_bit 1 w AND 0x3F) j = bit (word_of_nat n :: u8) j"
      unfolding bit_and_iff bit_drop_bit_eq o_apply bw b3f using n [of j] by (cases "6 \<le> j") auto
  qed
qed

lemma parse_follow:
  assumes "n < 64" and "mem = pre @ ((0x80 OR push_bit 1 (word_of_nat n :: u8)) OR (if l then 1 else 0)) # word_encode True i @ rest"
  shows "parse_instructions (length pre) mem = Inr (empty_block, i, l, word_of_nat n, True, length pre + 5)"
proof -
  define w where "w = (0x80 OR push_bit 1 (word_of_nat n :: u8)) OR (if l then 1 else 0)"
  note f = follow_flag [OF assms(1) w_def]
  have m: "mem = pre @ w # word_encode True i @ rest" by (simp only: assms(2) w_def)
  have "Read_buf True (length pre + 1) mem = Inr i"
    using Read_buf_at [of "length pre + 1" "pre @ [w]" i rest] by (simp add: m)
  moreover have "peek (length pre) mem = Inr w" by (simp add: m peek_at)
  ultimately show ?thesis using f by (simp add: parse_instructions_def Let_def empty_block_def)
qed

text \<open>What the endpoint reads of a fragment: block, identifier, last, number, follow-on.\<close>

fun piece_head :: "piece \<Rightarrow> TunnelMessageBlockEx \<times> u32 \<times> bool \<times> u8 \<times> bool" where
  "piece_head (Whole block d) = (parsed_block block, 0, True, 0, False)"
| "piece_head (First block i d) = (parsed_block block, i, False, 0, False)"
| "piece_head (Follow n l i d) = (empty_block, i, l, word_of_nat n, True)"

fun piece_data :: "piece \<Rightarrow> bytes" where
  "piece_data (Whole block d) = d"
| "piece_data (First block i d) = d"
| "piece_data (Follow n l i d) = d"

fun piece_ok :: "piece \<Rightarrow> bool" where
  "piece_ok (Whole block d) = (target_ok block \<and> length d < 1003)"
| "piece_ok (First block i d) = (target_ok block \<and> length d < 1003)"
| "piece_ok (Follow n l i d) = (n < 64 \<and> length d < 1003)"

lemma parse_piece:
  assumes "piece_ok p" and "mem = pre @ piece_bytes p @ rest"
  shows "\<exists>q. parse_instructions (length pre) mem = (case piece_head p of (m, i, l, n, f) \<Rightarrow> Inr (m, i, l, n, f, q)) \<and>
    Read_buf True q mem = Inr (word_of_nat (length (piece_data p)) :: u16) \<and>
    q + 2 + length (piece_data p) = length pre + length (piece_bytes p) \<and>
    slice (q + 2) (length (piece_data p)) mem = piece_data p"
proof -
  have sz: "Read_buf True (length hd) (hd @ size_bytes d @ d @ rest) = Inr (word_of_nat (length d) :: u16)"
    and da: "slice (length hd + 2) (length d) (hd @ size_bytes d @ d @ rest) = d" for hd :: bytes and d
    using Read_buf_at [of "length hd" hd "word_of_nat (length d) :: u16" "d @ rest"] by (simp_all add: slice_def)
  show ?thesis
  proof (cases p)
    case (Whole block d)
    let ?di = "delivery_instructions block"
    have m: "mem = (pre @ ?di) @ size_bytes d @ d @ rest" using assms(2) Whole by simp
    have "?di = (hd ?di OR 0) # tl ?di" by (simp add: delivery_instructions_def)
    then have "mem = pre @ ((hd ?di OR 0) # tl ?di) @ size_bytes d @ d @ rest" using m by (metis append_assoc)
    from parse_block [OF _ _ refl this] assms(1) Whole
    have "parse_instructions (length pre) mem = Inr (parsed_block block, 0, True, 0, False, length (pre @ ?di))" by simp
    then show ?thesis using sz [of "pre @ ?di" d] da [of "pre @ ?di" d] Whole by (auto simp: m)
  next
    case (First block i d)
    let ?di = "delivery_instructions block" let ?f = "(hd ?di OR 0x08) # tl ?di"
    have l: "length ?f = length ?di" by (simp add: delivery_instructions_def)
    have m: "mem = (pre @ ?f @ word_encode True i) @ size_bytes d @ d @ rest"
      "mem = pre @ ?f @ word_encode True i @ size_bytes d @ d @ rest" using assms(2) First by simp_all
    have "Read_buf True (length pre + length ?di) mem = Inr i"
      using Read_buf_at [of "length pre + length ?di" "pre @ ?f" i "size_bytes d @ d @ rest"] l by (simp add: m)
    then have "parse_instructions (length pre) mem = Inr (parsed_block block, i, False, 0, False, length pre + length ?di + 4)"
      using parse_block [OF _ _ refl m(2)] assms(1) First by simp
    then show ?thesis
      using sz [of "pre @ ?f @ word_encode True i" d] da [of "pre @ ?f @ word_encode True i" d] First l by (auto simp: m add.commute add.left_commute)
  next
    case (Follow n l i d)
    let ?w = "(0x80 OR push_bit 1 (word_of_nat n :: u8)) OR (if l then 1 else 0)"
    have m: "mem = (pre @ ?w # word_encode True i) @ size_bytes d @ d @ rest"
      "mem = pre @ ?w # word_encode True i @ size_bytes d @ d @ rest" using assms(2) Follow by simp_all
    have "parse_instructions (length pre) mem = Inr (empty_block, i, l, word_of_nat n, True, length pre + 5)"
      using parse_follow [OF _ m(2)] assms(1) Follow by simp
    then show ?thesis
      using sz [of "pre @ ?w # word_encode True i" d] da [of "pre @ ?w # word_encode True i" d] Follow by (auto simp: m)
  qed
qed

section \<open>The bytes of a message\<close>

text \<open>A message whose data are \<open>d\<close>, in a buffer that starts not too far in.\<close>

definition holds :: "I2NPMessage \<Rightarrow> bytes \<Rightarrow> bool" where
  "holds m d \<longleftrightarrow> msg_len m = msg_offset m + length d \<and> msg_len m \<le> length (msg_buf m) \<and>
     slice (msg_offset m) (length d) (msg_buf m) = d \<and> msg_max_len m \<le> length (msg_buf m) \<and> msg_offset m \<le> 4112"

lemma holds_length: "holds m d \<Longrightarrow> GetLength m = length d"
  by (simp add: holds_def msg_accessors)

lemma holds_read: "holds m d \<Longrightarrow> mem_read (GetBuffer m) (GetLength m) (msg_buf m) = Inr d"
  by (simp add: holds_def msg_accessors mem_read_def)

lemma assign_holds:
  assumes "holds other d" and "msg_offset m + length d \<le> length (msg_buf m)" and "msg_max_len other \<le> length (msg_buf m)"
    and "msg_offset m \<le> 4112"
  shows "\<exists>m'. I2NPMessage_assign other m = Inr m' \<and> holds m' d \<and> msg_offset m' = msg_offset m \<and>
    length (msg_buf m') = length (msg_buf m)"
  using assms holds_read [OF assms(1)] holds_length [OF assms(1)]
  by (simp add: I2NPMessage_assign_def put_eq holds_def msg_accessors)

lemma append_holds:
  assumes "holds m d" and "msg_len m + length c \<le> length (msg_buf m)"
  shows "\<exists>m'. put (msg_len m) c m = Inr m' \<and> holds (m'\<lparr>msg_len := msg_len m' + length c\<rparr>) (d @ c)"
proof -
  note h = assms(1) [unfolded holds_def]
  have "slice (msg_offset m) (length d + length c) (poke (msg_len m) c (msg_buf m)) = d @ c"
    unfolding slice_add using h assms(2) by (simp add: slice_poke_before)
  then show ?thesis using h assms(2) by (simp add: put_eq holds_def)
qed

lemma concatenate_ok:
  assumes "holds f c" and "holds m d" and "length d + length c \<le> 28655" and "msg_max_len m \<le> 4112"
  shows "\<exists>m'. concatenate f m = Inr m' \<and> holds m' (d @ c) \<and> msg_max_len m' \<le> 4112"
proof -
  let ?grow = "msg_len m + length c > msg_max_len m"
  have "\<exists>m1. (if ?grow then I2NPMessage_assign m NewI2NPMessage else Inr m) = Inr m1 \<and> holds m1 d \<and>
      msg_len m1 + length c \<le> length (msg_buf m1) \<and> msg_max_len m1 \<le> 4112"
  proof (cases ?grow)
    case True
    have n: "msg_offset NewI2NPMessage = 2" "length (msg_buf NewI2NPMessage) = 32784"
      by (simp_all add: NewI2NPMessage_def I2NPMessageBuffer_def i2np_sizes del: replicate.simps)
    obtain m1 where "I2NPMessage_assign m NewI2NPMessage = Inr m1" "holds m1 d" "msg_offset m1 = 2" "length (msg_buf m1) = 32784"
      using assign_holds [OF assms(2), of NewI2NPMessage] n assms(3,4) by auto
    moreover from this have "msg_max_len m1 = msg_max_len m"
      by (auto simp: I2NPMessage_assign_def put_def result_simps)
    ultimately show ?thesis using True assms(3,4) by (auto simp: holds_def)
  next
    case False
    then show ?thesis using assms(2,4) by (auto simp: holds_def)
  qed
  then obtain m1 where m1: "(if ?grow then I2NPMessage_assign m NewI2NPMessage else Inr m) = Inr m1" "holds m1 d"
      "msg_len m1 + length c \<le> length (msg_buf m1)" "msg_max_len m1 \<le> 4112" by blast
  from append_holds [OF m1(2,3)] obtain m2 where m2: "put (msg_len m1) c m1 = Inr m2"
    "holds (m2\<lparr>msg_len := msg_len m2 + length c\<rparr>) (d @ c)" by blast
  moreover have "msg_max_len m2 = msg_max_len m1" using m2(1) by (auto simp: put_def result_simps)
  ultimately show ?thesis
    using m1 holds_length [OF assms(1)] holds_read [OF assms(1)] by (simp add: concatenate_def)
qed

section \<open>Handing on as a function of the block\<close>

definition hand_on :: "RouterEnv \<Rightarrow> bool \<Rightarrow> 'a TunnelMessageBlock_scheme \<Rightarrow> action list result" where
  "hand_on env inbound msg =
     bind_result (HandleNextMessage env msg
       \<lparr>ep_IncompleteMessages = [], ep_OutOfSequenceFragments = [], ep_IsInbound = inbound, ep_NumReceivedBytes = 0\<rparr>)
       (\<lambda>(_, acts). Inr acts)"

lemma HandleNextMessage_hand_on:
  "HandleNextMessage env msg ep = bind_result (hand_on env (ep_IsInbound ep) msg) (\<lambda>acts. Inr (ep, acts))"
  by (auto simp: hand_on_def HandleNextMessage_def data_of_def split: option.splits TunnelDeliveryType.splits
      intro!: bind_result_cong)

fun hand_all :: "RouterEnv \<Rightarrow> bool \<Rightarrow> TunnelMessageBlockEx list \<Rightarrow> action list result" where
  "hand_all env inbound [] = Inr []"
| "hand_all env inbound (m # ms) =
     bind_result (hand_on env inbound m) (\<lambda>as. bind_result (hand_all env inbound ms) (\<lambda>bs. Inr (as @ bs)))"

lemma hand_all_append:
  "hand_all env inbound (ms @ ns) =
     bind_result (hand_all env inbound ms) (\<lambda>as. bind_result (hand_all env inbound ns) (\<lambda>bs. Inr (as @ bs)))"
  by (induction ms) (simp_all add: bind_result_def split: sum.splits)

text \<open>A step that hands on \<open>ms\<close> and ends in \<open>ep'\<close>.\<close>

abbreviation handing :: "RouterEnv \<Rightarrow> bool \<Rightarrow> TunnelMessageBlockEx list \<Rightarrow> TunnelEndpoint \<Rightarrow> (TunnelEndpoint, action) steps" where
  "handing env inbound ms ep' \<equiv> bind_result (hand_all env inbound ms) (\<lambda>acts. Inr (ep', acts))"

lemma handing_bind:
  assumes "k ep' = handing env inbound ns ep''"
  shows "bind_step (handing env inbound ms ep') k = handing env inbound (ms @ ns) ep''"
  using assms by (simp add: hand_all_append bind_step_def bind_result_def split: sum.splits)

section \<open>The abstract endpoint\<close>

text \<open>
  The abstract state is the message that is being received: its identifier, the block its
  first fragment announced, the bytes so far and the number of the next fragment. A fragment
  that continues it is accepted, and a complete message is delivered.
\<close>

type_synonym partial_msg = "(u32 \<times> TunnelMessageBlock \<times> bytes \<times> nat) option"

fun feed :: "partial_msg \<Rightarrow> piece \<Rightarrow> (partial_msg \<times> (TunnelMessageBlock \<times> bytes) list) option" where
  "feed None (Whole block d) = Some (None, [(block, d)])"
| "feed None (First block i d) = (if i \<noteq> 0 \<and> length d \<le> 28655 then Some (Some (i, block, d, 1), []) else None)"
| "feed (Some (i, block, acc, n)) (Follow n' l i' d) =
     (if i = i' \<and> n = n' \<and> i \<noteq> 0 \<and> length acc + length d \<le> 28655
      then Some (if l then (None, [(block, acc @ d)]) else (Some (i, block, acc @ d, n + 1), []))
      else None)"
| "feed _ _ = None"

fun feed_all :: "partial_msg \<Rightarrow> piece list \<Rightarrow> (partial_msg \<times> (TunnelMessageBlock \<times> bytes) list) option" where
  "feed_all st [] = Some (st, [])"
| "feed_all st (p # ps) =
     (case feed st p of
        None \<Rightarrow> None
      | Some (st1, outs) \<Rightarrow> map_option (\<lambda>(st2, outs'). (st2, outs @ outs')) (feed_all st1 ps))"

lemma feed_all_append:
  "feed_all st (ps @ qs) =
     (case feed_all st ps of
        None \<Rightarrow> None
      | Some (st1, outs) \<Rightarrow> map_option (\<lambda>(st2, outs'). (st2, outs @ outs')) (feed_all st1 qs))"
proof (induction ps arbitrary: st)
  case Nil
  then show ?case by (cases "feed_all st qs") auto
next
  case (Cons p ps)
  then show ?case
    by (auto split: option.splits prod.splits simp: option.map_comp comp_def case_prod_unfold)
qed

definition same_target :: "TunnelMessageBlock \<Rightarrow> TunnelMessageBlockEx \<Rightarrow> bool" where
  "same_target block m \<longleftrightarrow> delivery_type m = delivery_type block \<and>
     (delivery_type block \<noteq> DeliveryTypeLocal \<longrightarrow> block_hash m = block_hash block) \<and>
     (delivery_type block = DeliveryTypeTunnel \<longrightarrow> tunnel_ID m = tunnel_ID block)"

definition delivers :: "TunnelMessageBlock \<times> bytes \<Rightarrow> TunnelMessageBlockEx \<Rightarrow> bool" where
  "delivers bd m \<longleftrightarrow> same_target (fst bd) m \<and> (\<exists>x. block_data m = Some x \<and> holds x (snd bd))"

definition endpoint_rel :: "TunnelEndpoint \<Rightarrow> partial_msg \<Rightarrow> bool" where
  "endpoint_rel ep st \<longleftrightarrow> ep_OutOfSequenceFragments ep = [] \<and>
     (case st of
        None \<Rightarrow> ep_IncompleteMessages ep = []
      | Some (i, block, acc, n) \<Rightarrow> \<exists>mx x. ep_IncompleteMessages ep = [(i, mx)] \<and> same_target block mx \<and>
          block_data mx = Some x \<and> holds x acc \<and> msg_max_len x \<le> 4112 \<and> next_fragment_num mx = word_of_nat n)"

lemma parsed_block_target: "same_target block ((parsed_block block)\<lparr>block_data := x\<rparr>)"
    "same_target block ((parsed_block block)\<lparr>block_data := x, next_fragment_num := k\<rparr>)"
  by (simp_all add: same_target_def parsed_block_def)

lemma handle_block_feed:
  assumes rel: "endpoint_rel ep st" and feed: "feed st p = Some (st', outs)" and head: "piece_head p = (m, i, l, n, f)"
    and x: "holds x (piece_data p)" "msg_max_len x \<le> 4112"
  shows "\<exists>ep' ms. handle_block env (m\<lparr>block_data := Some x\<rparr>) i l n f ep = handing env (ep_IsInbound ep) ms ep' \<and>
    list_all2 delivers outs ms \<and> endpoint_rel ep' st' \<and> ep_IsInbound ep' = ep_IsInbound ep"
proof (cases p)
  case (Whole block d)
  then have st: "st = None" "st' = None" "outs = [(block, d)]" using feed by (cases st; auto)+
  let ?m = "(parsed_block block)\<lparr>block_data := Some x\<rparr>"
  have "handle_block env (m\<lparr>block_data := Some x\<rparr>) i l n f ep = handing env (ep_IsInbound ep) [?m] ep"
    using Whole head by (simp add: handle_block_def HandleNextMessage_hand_on)
  moreover have "delivers (block, d) ?m"
    using parsed_block_target(1) x(1) Whole by (simp add: delivers_def)
  ultimately show ?thesis using rel st by (intro exI [of _ ep] exI [of _ "[?m]"]) auto
next
  case (First block j d)
  then have st: "st = None" "st' = Some (j, block, d, 1)" "outs = []" "j \<noteq> 0"
    using feed by (cases st; auto split: if_splits)+
  let ?m = "(parsed_block block)\<lparr>block_data := Some x, next_fragment_num := 1\<rparr>"
  let ?ep = "ep\<lparr>ep_IncompleteMessages := [(j, ?m)]\<rparr>"
  have e: "ep_IncompleteMessages ep = []" "ep_OutOfSequenceFragments ep = []" using rel st(1) by (simp_all add: endpoint_rel_def)
  have "handle_block env (m\<lparr>block_data := Some x\<rparr>) i l n f ep = handing env (ep_IsInbound ep) [] ?ep"
    using First head st(4) e by (simp add: handle_block_def HandleOutOfSequenceFragment_def pure_step_def std_count_def)
  moreover have "endpoint_rel ?ep st'"
    using e st(2) x First parsed_block_target(2) by (simp add: endpoint_rel_def)
  ultimately show ?thesis using st(3) by (intro exI [of _ ?ep] exI [of _ "[]"]) auto
next
  case (Follow k l' j c)
  then obtain block acc where st: "st = Some (j, block, acc, k)" "j \<noteq> 0" "length acc + length c \<le> 28655"
      "(st', outs) = (if l' then (None, [(block, acc @ c)]) else (Some (j, block, acc @ c, k + 1), []))"
    using feed by (cases st) (auto split: if_splits)
  obtain mx y where mx: "ep_IncompleteMessages ep = [(j, mx)]" "same_target block mx" "block_data mx = Some y" "holds y acc"
      "msg_max_len y \<le> 4112" "next_fragment_num mx = word_of_nat k" "ep_OutOfSequenceFragments ep = []"
    using rel st(1) by (auto simp: endpoint_rel_def)
  have x': "holds x c" using x(1) Follow by simp
  obtain z where z: "concatenate x y = Inr z" "holds z (acc @ c)" "msg_max_len z \<le> 4112"
    using concatenate_ok [OF x' mx(4) st(3) mx(5)] by blast
  have len: "msg_len y + GetLength x < I2NP_MAX_MESSAGE_SIZE"
    using mx(4) holds_length [OF x'] st(3) by (auto simp: holds_def i2np_sizes)
  let ?m = "mx\<lparr>block_data := Some z\<rparr>" let ?m2 = "?m\<lparr>next_fragment_num := next_fragment_num mx + 1\<rparr>"
  have step: "handle_block env (m\<lparr>block_data := Some x\<rparr>) i l n f ep =
      (if l' then bind_step (HandleNextMessage env ?m ep) (\<lambda>ep1. pure_step (ep1\<lparr>ep_IncompleteMessages := std_erase j (ep_IncompleteMessages ep1)\<rparr>))
       else pure_step (ep\<lparr>ep_IncompleteMessages := [(j, ?m2)]\<rparr>))"
    using Follow head st(2) mx(1,3,6,7) len z(1)
    by (simp add: handle_block_def HandleFollowOnFragment_def HandleOutOfSequenceFragment_def data_of_def std_find_def Let_def)
  show ?thesis
  proof (cases l')
    case True
    let ?ep = "ep\<lparr>ep_IncompleteMessages := []\<rparr>"
    have "handle_block env (m\<lparr>block_data := Some x\<rparr>) i l n f ep = handing env (ep_IsInbound ep) [?m] ?ep"
      unfolding step HandleNextMessage_hand_on using True mx(1)
      by (simp add: bind_step_def pure_step_def std_erase_def)
    moreover have "delivers (block, acc @ c) ?m" using mx(2) z(2) by (simp add: delivers_def same_target_def)
    ultimately show ?thesis
      using st(4) True mx(7) by (intro exI [of _ ?ep] exI [of _ "[?m]"]) (simp add: endpoint_rel_def)
  next
    case False
    let ?ep = "ep\<lparr>ep_IncompleteMessages := [(j, ?m2)]\<rparr>"
    have "same_target block ?m2" using mx(2) by (simp add: same_target_def)
    then have "endpoint_rel ?ep st'" using st(4) False mx(6,7) z by (simp add: endpoint_rel_def)
    then show ?thesis
      unfolding step using st(4) False by (intro exI [of _ ?ep] exI [of _ "[]"]) (simp add: pure_step_def)
  qed
qed

section \<open>A data message\<close>

text \<open>The buffers data messages are received in: short ones, with room for a copy of the IV.\<close>

lemma handle_fragments_feed:
  assumes msg: "length (msg_buf msg) = 4112" "msg_max_len msg \<le> 4112"
  shows "msg_buf msg = pre @ pieces_bytes ps @ post \<Longrightarrow> \<forall>p \<in> set ps. piece_ok p \<Longrightarrow>
    endpoint_rel ep st \<Longrightarrow> feed_all st ps = Some (st', outs) \<Longrightarrow>
    \<exists>ep' ms. handle_fragments env (length pre + length (pieces_bytes ps)) (length pre) msg ep =
        handing env (ep_IsInbound ep) ms ep' \<and>
      list_all2 delivers outs ms \<and> endpoint_rel ep' st' \<and> ep_IsInbound ep' = ep_IsInbound ep"
  using msg
proof (induction ps arbitrary: pre msg ep st outs)
  case Nil
  then show ?case
    by (intro exI [of _ ep] exI [of _ "[]"]) (simp add: handle_fragments.simps pure_step_def)
next
  case (Cons p ps)
  let ?d = "piece_data p" let ?lim = "length pre + length (pieces_bytes (p # ps))"
  obtain m i l n f where head: "piece_head p = (m, i, l, n, f)" by (metis surj_pair)
  have mem: "msg_buf msg = pre @ piece_bytes p @ (pieces_bytes ps @ post)" using Cons.prems(1) by simp
  have ok: "piece_ok p" using Cons.prems(2) by simp
  from parse_piece [OF ok mem] obtain q where
    q: "parse_instructions (length pre) (msg_buf msg) = Inr (m, i, l, n, f, q)"
      "Read_buf True q (msg_buf msg) = Inr (word_of_nat (length ?d) :: u16)"
      "q + 2 + length ?d = length pre + length (piece_bytes p)" "slice (q + 2) (length ?d) (msg_buf msg) = ?d"
    by (auto simp: head)
  have d: "length ?d < 1003" using ok by (cases p) auto
  then have sz: "unat (word_of_nat (length ?d) :: u16) = length ?d" by (simp add: unat_of_nat take_bit_eq_mod)
  define msg1 where "msg1 = msg\<lparr>msg_offset := q + 2, msg_len := q + 2 + length ?d\<rparr>"
  have le: "q + 2 + length ?d \<le> 4112"
    using q(3) arg_cong [OF mem, of length] Cons.prems(5) by simp
  have h1: "holds msg1 ?d" using q(4) le Cons.prems(5,6) by (simp add: msg1_def holds_def)
  let ?fresh = "NewI2NPShortMessage\<lparr>msg_offset := msg_offset NewI2NPShortMessage + TUNNEL_GATEWAY_HEADER_SIZE,
    msg_len := msg_len NewI2NPShortMessage + TUNNEL_GATEWAY_HEADER_SIZE\<rparr>"
  have fr: "msg_offset ?fresh = 8" "length (msg_buf ?fresh) = 4112"
    by (simp_all add: NewI2NPShortMessage_def I2NPMessageBuffer_def i2np_sizes del: replicate.simps)
  obtain x where x: "(if q + 2 + length ?d < ?lim then I2NPMessage_assign msg1 ?fresh else Inr msg1) = Inr x" "holds x ?d"
      "msg_max_len x \<le> 4112"
  proof (cases "q + 2 + length ?d < ?lim")
    case True
    obtain x where "I2NPMessage_assign msg1 ?fresh = Inr x" "holds x ?d" "length (msg_buf x) = 4112"
      using assign_holds [OF h1, of ?fresh] fr d Cons.prems(6) by (auto simp: msg1_def)
    then show ?thesis using that True by (auto simp: holds_def)
  next
    case False
    then show ?thesis using that h1 Cons.prems(6) by (auto simp: msg1_def)
  qed
  obtain st1 outs1 outs2 where st1: "feed st p = Some (st1, outs1)" "feed_all st1 ps = Some (st', outs2)" "outs = outs1 @ outs2"
    using Cons.prems(4) by (auto split: option.splits)
  from handle_block_feed [OF Cons.prems(3) st1(1) head x(2,3)] obtain ep1 ms1 where
    b: "handle_block env (m\<lparr>block_data := Some x\<rparr>) i l n f ep = handing env (ep_IsInbound ep) ms1 ep1"
      "list_all2 delivers outs1 ms1" "endpoint_rel ep1 st1" "ep_IsInbound ep1 = ep_IsInbound ep" by blast
  have mem1: "msg_buf msg1 = (pre @ piece_bytes p) @ pieces_bytes ps @ post" using mem by (simp add: msg1_def)
  have oks: "\<forall>p \<in> set ps. piece_ok p" "length (msg_buf msg1) = 4112" "msg_max_len msg1 \<le> 4112"
    using Cons.prems(2,5,6) by (simp_all add: msg1_def)
  from Cons.IH [OF mem1 oks(1) b(3) st1(2) oks(2,3)] obtain ep2 ms2 where
    r: "handle_fragments env ?lim (q + 2 + length ?d) msg1 ep1 = handing env (ep_IsInbound ep) ms2 ep2"
      "list_all2 delivers outs2 ms2" "endpoint_rel ep2 st'" "ep_IsInbound ep2 = ep_IsInbound ep"
    using q(3) b(4) by (auto simp: add.assoc)
  have "length pre < ?lim" by (cases p) auto
  then have "handle_fragments env ?lim (length pre) msg ep =
      bind_step (handle_block env (m\<lparr>block_data := Some x\<rparr>) i l n f ep) (handle_fragments env ?lim (q + 2 + length ?d) msg1)"
    by (subst handle_fragments.simps)
      (simp only: if_True q(1,2) bind_result_Inr prod.case Let_def sz msg1_def [symmetric] x(1))
  also have "\<dots> = handing env (ep_IsInbound ep) (ms1 @ ms2) ep2" unfolding b(1) by (rule handing_bind) (rule r(1))
  finally show ?case
    using b(2) r(2-4) st1(3) by (intro exI [of _ ep2] exI [of _ "ms1 @ ms2"]) (auto intro: list_all2_appendI)
qed

lemma poke_at: "p = length xs \<Longrightarrow> poke p ys (xs @ zs) = xs @ ys @ drop (length ys) zs"
  by (simp add: poke_def)

lemma find_zero_pad: "0 \<notin> set pad \<Longrightarrow> find_zero (pad @ [0] @ rest) = Some (length pad)"
  by (simp add: find_zero_def Let_def takeWhile_append)

definition received_ok :: "I2NPMessage \<Rightarrow> bool" where
  "received_ok msg \<longleftrightarrow> length (msg_buf msg) = 4112 \<and> msg_max_len msg \<le> 4112 \<and> GetPayload msg + 1044 \<le> 4112"

lemma HandleDecrypted_feed:
  assumes msg: "received_ok msg" and d: "carries_pieces (e_sha256 env) (data_payload msg) ps"
    and ok: "\<forall>p \<in> set ps. piece_ok p" and rel: "endpoint_rel ep st" and feed: "feed_all st ps = Some (st', outs)"
  shows "\<exists>ep' ms. HandleDecryptedTunnelDataMsg env msg ep = handing env (ep_IsInbound ep) ms ep' \<and>
    list_all2 delivers outs ms \<and> endpoint_rel ep' st' \<and> ep_IsInbound ep' = ep_IsInbound ep"
proof -
  let ?bs = "pieces_bytes ps" let ?P = "GetPayload msg"
  obtain tid iv pad where t: "length tid = 4" "length iv = 16" "0 \<notin> set pad" "length (e_sha256 env (?bs @ iv)) = 32"
      "data_payload msg = tid @ iv @ take 4 (e_sha256 env (?bs @ iv)) @ pad @ [0] @ ?bs"
    and len: "length (data_payload msg) = 1028"
    using d by (auto simp: carries_pieces_def)
  define chk where "chk = take 4 (e_sha256 env (?bs @ iv))"
  have lc: "length chk = 4" using t(4) by (simp add: chk_def)
  have lp: "length pad + length ?bs = 1003" using t(1,2,5) len lc by (simp add: chk_def)
  define pre where "pre = take ?P (msg_buf msg)"
  define post where "post = drop (?P + 1028) (msg_buf msg)"
  have m: "length (msg_buf msg) = 4112" "?P + 1044 \<le> 4112" using msg by (auto simp: received_ok_def)
  have lpre: "length pre = ?P" using m by (simp add: pre_def)
  have lpost: "16 \<le> length post" using m by (simp add: post_def)
  have "msg_buf msg = pre @ data_payload msg @ post"
    unfolding pre_def post_def data_payload_def slice_def by (metis append_take_drop_id drop_drop add.commute)
  then have mem: "msg_buf msg = pre @ tid @ iv @ chk @ pad @ [0] @ ?bs @ post" using t(5) by (simp add: chk_def)
  let ?mem1 = "pre @ tid @ iv @ chk @ pad @ [0] @ ?bs @ iv @ drop 16 post"
  let ?msg1 = "msg\<lparr>msg_buf := ?mem1\<rparr>" let ?F = "length (pre @ tid @ iv @ chk @ pad @ [0])"
  have pos: "?P + 20 + 4 = length (pre @ tid @ iv @ chk)" "?P + 4 = length (pre @ tid)" "?P + 20 = length (pre @ tid @ iv)"
      "?P + 20 + 4 + length pad + 1 = ?F" "1028 - (?F - ?P) + 16 = length (?bs @ iv)"
      "?P + 20 + 1008 = ?F + length ?bs"
    using lpre t(1,2) lc lp by simp_all
  have s: "mem_read (?P + 20 + 4) (1008 - 4) (msg_buf msg) = Inr (pad @ [0] @ ?bs)"
    using mem_read_slice [OF pos(1), of "1008 - 4" "pad @ [0] @ ?bs" post] lp by (simp add: mem)
  have i: "mem_read (?P + 4) 16 (msg_buf msg) = Inr iv"
    using mem_read_slice [OF pos(2), of 16 iv "chk @ pad @ [0] @ ?bs @ post"] t(2) by (simp add: mem)
  have "?P + 1028 = length (pre @ tid @ iv @ chk @ pad @ [0] @ ?bs)" using lpre t(1,2) lc lp by simp
  from poke_at [OF this, of iv post] have "poke (?P + 1028) iv (msg_buf msg) = ?mem1"
    using t(2) by (simp add: mem)
  then have w: "put (?P + 1028) iv msg = Inr ?msg1" using m t(2) by (simp add: put_def mem_write_def)
  have c: "mem_read ?F (1028 - (?F - ?P) + 16) ?mem1 = Inr (?bs @ iv)"
    using mem_read_slice [OF refl pos(5), of "pre @ tid @ iv @ chk @ pad @ [0]" "drop 16 post"] by simp
  have k: "mem_read (?P + 20) 4 ?mem1 = Inr chk"
    using mem_read_slice [OF pos(3), of 4 chk "pad @ [0] @ ?bs @ iv @ drop 16 post"] lc by simp
  have "HandleDecryptedTunnelDataMsg env msg ep =
      handle_fragments env (?P + 20 + 1008) ?F ?msg1 (ep\<lparr>ep_NumReceivedBytes := ep_NumReceivedBytes ep + 1028\<rparr>)"
    unfolding HandleDecryptedTunnelDataMsg_def Let_def i2np_sizes TUNNEL_DATA_ENCRYPTED_SIZE_def s bind_result_Inr
      find_zero_pad [OF t(3)] option.case pos(4) i w
    using c k by (simp add: chk_def)
  then have eq: "HandleDecryptedTunnelDataMsg env msg ep =
      handle_fragments env (?F + length ?bs) ?F ?msg1 (ep\<lparr>ep_NumReceivedBytes := ep_NumReceivedBytes ep + 1028\<rparr>)"
    unfolding pos(6) .
  have rel': "endpoint_rel (ep\<lparr>ep_NumReceivedBytes := ep_NumReceivedBytes ep + 1028\<rparr>) st"
    using rel by (auto simp: endpoint_rel_def split: option.splits)
  have l1: "length (msg_buf ?msg1) = 4112" "msg_max_len ?msg1 \<le> 4112"
    using m lpost t(2) msg arg_cong [OF mem, of length] by (simp_all add: received_ok_def)
  have "msg_buf ?msg1 = (pre @ tid @ iv @ chk @ pad @ [0]) @ ?bs @ (iv @ drop 16 post)" by simp
  from handle_fragments_feed [OF l1 this ok rel' feed, of env] show ?thesis unfolding eq by simp
qed

section \<open>From the gateway to the endpoint\<close>

lemma feed_follows:
  "cs \<noteq> [] \<Longrightarrow> i \<noteq> 0 \<Longrightarrow> length acc + length (concat cs) \<le> 28655 \<Longrightarrow>
   feed_all (Some (i, block, acc, n)) (follows n i cs) = Some (None, [(block, acc @ concat cs)])"
proof (induction cs arbitrary: acc n)
  case (Cons c cs)
  then show ?case by (cases "cs = []") auto
qed simp

lemma feed_splits:
  assumes "splits block i d qs" and "block_ok block i d"
  shows "feed_all None qs = Some (None, [(block, d)])" and "\<forall>p \<in> set qs. piece_ok p"
proof -
  have b: "i \<noteq> 0" "length d \<le> 28655" "target_ok block" using assms(2) by (auto simp: block_ok_def target_ok_def)
  have fol: "\<forall>p \<in> set (follows n i cs). piece_ok p" if "n + length cs \<le> 64" "\<forall>c \<in> set cs. length c < 1003" for n cs
    using that
  proof (induction cs arbitrary: n)
    case (Cons c cs)
    then show ?case using Cons.IH [of "n + 1"] by simp
  qed simp
  consider "qs = [Whole block d]" "length d < 1003" | c cs where "qs = First block i c # follows 1 i cs" "concat (c # cs) = d"
      "cs \<noteq> []" "length cs \<le> 32" "\<forall>x \<in> set (c # cs). length x < 1003"
    using assms(1) by (auto simp: splits_def)
  then have "feed_all None qs = Some (None, [(block, d)]) \<and> (\<forall>p \<in> set qs. piece_ok p)"
  proof cases
    case 1
    then show ?thesis using b by simp
  next
    case (2 c cs)
    have "length c \<le> 28655" "length c + length (concat cs) \<le> 28655" using b(2) by (simp_all flip: 2(2))
    then have "feed_all None qs = Some (None, [(block, d)])"
      using b(1) feed_follows [OF 2(3) b(1), of c block 1] by (simp add: 2(1) flip: 2(2))
    then show ?thesis using b fol [of 1 cs] 2(1,4,5) by simp
  qed
  then show "feed_all None qs = Some (None, [(block, d)])" "\<forall>p \<in> set qs. piece_ok p" by blast+
qed

fun put_blocks :: "GatewayEnv \<Rightarrow> TunnelMessageBlock list \<Rightarrow> TunnelGatewayBuffer \<Rightarrow> TunnelGatewayBuffer result" where
  "put_blocks env [] b = Inr b"
| "put_blocks env (block # blocks) b = bind_result (PutI2NPMsg env block b) (put_blocks env blocks)"

text \<open>Every block can be placed where the blocks before it have left the buffer.\<close>

fun all_placeable :: "GatewayEnv \<Rightarrow> TunnelMessageBlock list \<Rightarrow> TunnelGatewayBuffer \<Rightarrow> bool" where
  "all_placeable env [] b = True"
| "all_placeable env (block # blocks) b =
     (placeable block b \<and> (case PutI2NPMsg env block b of Inl e \<Rightarrow> True | Inr b' \<Rightarrow> all_placeable env blocks b'))"

fun receive_all :: "RouterEnv \<Rightarrow> I2NPMessage list \<Rightarrow> TunnelEndpoint \<Rightarrow> (TunnelEndpoint, action) steps" where
  "receive_all env [] ep = pure_step ep"
| "receive_all env (m # ms) ep = bind_step (HandleDecryptedTunnelDataMsg env m ep) (receive_all env ms)"

lemma put_blocks_ok:
  assumes env: "gateway_env_ok env"
  shows "gateway_ok env b sent ps \<Longrightarrow> list_all2 (\<lambda>block (i, d). block_ok block i d) blocks ids \<Longrightarrow>
    all_placeable env blocks b \<Longrightarrow>
    \<exists>b' sent' ps' qs. put_blocks env blocks b = Inr b' \<and> gateway_ok env b' (sent @ sent') ps' \<and>
      concat sent' @ ps' = ps @ qs \<and> feed_all None qs = Some (None, zip blocks (map snd ids)) \<and> (\<forall>p \<in> set qs. piece_ok p)"
proof (induction blocks arbitrary: ids b sent ps)
  case Nil
  then show ?case by (intro exI [of _ b] exI [of _ "[]"] exI [of _ ps] exI [of _ "[]"]) simp
next
  case (Cons block blocks)
  then obtain i d ids' where ids: "ids = (i, d) # ids'" "block_ok block i d"
      "list_all2 (\<lambda>block (i, d). block_ok block i d) blocks ids'" by (cases ids) auto
  from PutI2NPMsg_ok [OF env Cons.prems(1) ids(2)] Cons.prems(3) obtain b1 sent1 ps1 qs1 where
    b1: "PutI2NPMsg env block b = Inr b1" "gateway_ok env b1 (sent @ sent1) ps1" "concat sent1 @ ps1 = ps @ qs1"
      "splits block i d qs1" by auto
  note f = feed_splits [OF b1(4) ids(2)]
  have "all_placeable env blocks b1" using Cons.prems(3) b1(1) by simp
  from Cons.IH [OF b1(2) ids(3) this] obtain b2 sent2 ps2 qs2 where
    b2: "put_blocks env blocks b1 = Inr b2" "gateway_ok env b2 ((sent @ sent1) @ sent2) ps2" "concat sent2 @ ps2 = ps1 @ qs2"
      "feed_all None qs2 = Some (None, zip blocks (map snd ids'))" "\<forall>p \<in> set qs2. piece_ok p" by blast
  show ?case
    using b1(1,3) b2 f ids(1)
    by (intro exI [of _ b2] exI [of _ "sent1 @ sent2"] exI [of _ ps2] exI [of _ "qs1 @ qs2"])
      (auto simp: feed_all_append)
qed

text \<open>What a transit router may change of a data message: the tunnel identifier in front.\<close>

definition same_contents :: "I2NPMessage \<Rightarrow> I2NPMessage \<Rightarrow> bool" where
  "same_contents m r \<longleftrightarrow> received_ok r \<and> drop 4 (data_payload r) = drop 4 (data_payload m)"

lemma carries_pieces_same:
  assumes "carries_pieces sha256 d ps" and "length d' = 1028" and "drop 4 d' = drop 4 d"
  shows "carries_pieces sha256 d' ps"
proof -
  obtain tid iv pad where t: "length tid = 4" "length iv = 16" "0 \<notin> set pad" "length (sha256 (pieces_bytes ps @ iv)) = 32"
      "d = tid @ iv @ take 4 (sha256 (pieces_bytes ps @ iv)) @ pad @ [0] @ pieces_bytes ps"
    using assms(1) by (auto simp: carries_pieces_def)
  have "d' = take 4 d' @ iv @ take 4 (sha256 (pieces_bytes ps @ iv)) @ pad @ [0] @ pieces_bytes ps"
    using append_take_drop_id [of 4 d'] assms(3) t(1,5) by simp
  moreover have "length (take 4 d') = 4" using assms(2) by simp
  ultimately show ?thesis unfolding carries_pieces_def using t(2-4) assms(2) by blast
qed

lemma same_contents_carries:
  assumes "carries_pieces sha256 (data_payload m) ps" and "same_contents m r"
  shows "carries_pieces sha256 (data_payload r) ps"
  using assms by (intro carries_pieces_same [OF assms(1)]) (auto simp: same_contents_def received_ok_def data_payload_def)

lemma receive_all_feed:
  "list_all2 (\<lambda>r. carries_pieces (e_sha256 env) (data_payload r)) rs pss \<Longrightarrow> \<forall>r \<in> set rs. received_ok r \<Longrightarrow>
   \<forall>p \<in> set (concat pss). piece_ok p \<Longrightarrow> endpoint_rel ep st \<Longrightarrow> feed_all st (concat pss) = Some (st', outs) \<Longrightarrow>
   \<exists>ep' ms. receive_all env rs ep = handing env (ep_IsInbound ep) ms ep' \<and> list_all2 delivers outs ms \<and> endpoint_rel ep' st'"
proof (induction rs arbitrary: pss ep st outs)
  case Nil
  then show ?case by (intro exI [of _ ep] exI [of _ "[]"]) (auto simp: pure_step_def)
next
  case (Cons r rs)
  then obtain ps pss' where pss: "pss = ps # pss'" by (cases pss) auto
  obtain st1 outs1 outs2 where f: "feed_all st ps = Some (st1, outs1)" "feed_all st1 (concat pss') = Some (st', outs2)"
      "outs = outs1 @ outs2"
    using Cons.prems(5) pss by (auto simp: feed_all_append split: option.splits)
  have c: "received_ok r" "carries_pieces (e_sha256 env) (data_payload r) ps" "\<forall>p \<in> set ps. piece_ok p"
    using Cons.prems(1-3) pss by auto
  from HandleDecrypted_feed [OF c Cons.prems(4) f(1)] obtain ep1 ms1 where
    h: "HandleDecryptedTunnelDataMsg env r ep = handing env (ep_IsInbound ep) ms1 ep1" "list_all2 delivers outs1 ms1"
      "endpoint_rel ep1 st1" "ep_IsInbound ep1 = ep_IsInbound ep" by blast
  from Cons.IH [of pss' ep1 st1 outs2] Cons.prems(1-3) pss h(3) f(2) obtain ep2 ms2 where
    i: "receive_all env rs ep1 = handing env (ep_IsInbound ep) ms2 ep2" "list_all2 delivers outs2 ms2" "endpoint_rel ep2 st'"
    by (auto simp: h(4))
  have "receive_all env (r # rs) ep = handing env (ep_IsInbound ep) (ms1 @ ms2) ep2"
    unfolding receive_all.simps h(1) by (rule handing_bind) (rule i(1))
  then show ?case using h(2) i(2,3) f(3) by (intro exI [of _ ep2] exI [of _ "ms1 @ ms2"]) (auto intro: list_all2_appendI)
qed

lemma put_blocks_TunnelID: "put_blocks env blocks b = Inr b' \<Longrightarrow> g_TunnelID b' = g_TunnelID b"
  by (induction blocks arbitrary: b) (auto simp: bind_result_eq_Inr dest: PutI2NPMsg_TunnelID)

text \<open>The completed data messages and the pieces they carry.\<close>

lemma gateway_pieces:
  assumes env: "gateway_env_ok genv" and new: "gateway_ok genv b [] []"
    and blocks: "list_all2 (\<lambda>block (i, d). block_ok block i d) blocks ids" and place: "all_placeable genv blocks b"
  shows "\<exists>b' pss. bind_result (put_blocks genv blocks b) (CompleteCurrentTunnelDataMessage genv) = Inr b' \<and>
    list_all2 (\<lambda>m ps. data_msg_ok m \<and> carries_pieces (g_sha256 genv) (data_payload m) ps \<and>
      take 4 (data_payload m) = word_encode True (g_TunnelID b)) (g_TunnelDataMsgs b') pss \<and>
    feed_all None (concat pss) = Some (None, zip blocks (map snd ids)) \<and> (\<forall>p \<in> set (concat pss). piece_ok p)"
proof -
  obtain b1 sent ps qs where b1: "put_blocks genv blocks b = Inr b1" "gateway_ok genv b1 sent ps" "concat sent @ ps = qs"
      "feed_all None qs = Some (None, zip blocks (map snd ids))" "\<forall>p \<in> set qs. piece_ok p"
    using put_blocks_ok [OF env new blocks place] by auto
  obtain b' pss where b': "CompleteCurrentTunnelDataMessage genv b1 = Inr b'" "gateway_ok genv b' pss []" "concat pss = qs"
  proof (cases "g_CurrentTunnelDataMsg b1")
    case None
    then have "ps = []" "CompleteCurrentTunnelDataMessage genv b1 = Inr b1"
      using b1(2) by (simp_all add: gateway_ok_def CompleteCurrentTunnelDataMessage_def)
    then show ?thesis using that b1(2,3) by auto
  next
    case (Some m)
    from complete_ok [OF env _ Some, of "g_RemainingSize b1" sent ps] b1(2,3) that show ?thesis by auto
  qed
  have "g_TunnelID b' = g_TunnelID b"
    using CompleteCurrent_TunnelID [OF b'(1)] put_blocks_TunnelID [OF b1(1)] by simp
  then have "list_all2 (\<lambda>m ps. data_msg_ok m \<and> carries_pieces (g_sha256 genv) (data_payload m) ps \<and>
      take 4 (data_payload m) = word_encode True (g_TunnelID b)) (g_TunnelDataMsgs b') pss"
    using b'(2) by (simp add: gateway_ok_def)
  then show ?thesis using b1(1,4,5) b'(1,3) by (intro exI [of _ b'] exI [of _ pss]) simp
qed

lemma same_contents_pieces:
  assumes "list_all2 (\<lambda>m ps. data_msg_ok m \<and> carries_pieces sha (data_payload m) ps \<and> P m) ms pss" and "list_all2 same_contents ms rs"
  shows "list_all2 (\<lambda>r. carries_pieces sha (data_payload r)) rs pss" and "\<forall>r \<in> set rs. received_ok r"
  using assms same_contents_carries [of sha "ms ! k" "pss ! k" "rs ! k" for k]
  by (auto simp: list_all2_conv_all_nth same_contents_def in_set_conv_nth)

lemma tunnel_roundtrip_aux:
  assumes env: "gateway_env_ok genv" "e_sha256 env = g_sha256 genv" and new: "gateway_ok genv b [] []"
    and blocks: "list_all2 (\<lambda>block (i, d). block_ok block i d) blocks ids" and place: "all_placeable genv blocks b"
  shows "\<exists>b'. bind_result (put_blocks genv blocks b) (CompleteCurrentTunnelDataMessage genv) = Inr b' \<and>
    (\<forall>rs. list_all2 same_contents (g_TunnelDataMsgs b') rs \<longrightarrow>
      (\<exists>ms ep'. receive_all env rs (TunnelEndpoint_new inbound) = handing env inbound ms ep' \<and>
        list_all2 delivers (zip blocks (map snd ids)) ms \<and>
        ep_IncompleteMessages ep' = [] \<and> ep_OutOfSequenceFragments ep' = []))"
proof -
  obtain b' pss where b': "bind_result (put_blocks genv blocks b) (CompleteCurrentTunnelDataMessage genv) = Inr b'"
      "list_all2 (\<lambda>m ps. data_msg_ok m \<and> carries_pieces (g_sha256 genv) (data_payload m) ps \<and>
        take 4 (data_payload m) = word_encode True (g_TunnelID b)) (g_TunnelDataMsgs b') pss"
      "feed_all None (concat pss) = Some (None, zip blocks (map snd ids))" "\<forall>p \<in> set (concat pss). piece_ok p"
    using gateway_pieces [OF env(1) new blocks place] by blast
  have "\<exists>ms ep'. receive_all env rs (TunnelEndpoint_new inbound) = handing env inbound ms ep' \<and>
      list_all2 delivers (zip blocks (map snd ids)) ms \<and>
      ep_IncompleteMessages ep' = [] \<and> ep_OutOfSequenceFragments ep' = []"
    if rs: "list_all2 same_contents (g_TunnelDataMsgs b') rs" for rs
  proof -
    have "endpoint_rel (TunnelEndpoint_new inbound) None" by (simp add: endpoint_rel_def TunnelEndpoint_new_def)
    moreover have "ep_IsInbound (TunnelEndpoint_new inbound) = inbound" by (simp add: TunnelEndpoint_new_def)
    ultimately obtain ep' ms where "receive_all env rs (TunnelEndpoint_new inbound) = handing env inbound ms ep'"
        "list_all2 delivers (zip blocks (map snd ids)) ms" "endpoint_rel ep' None"
      using receive_all_feed [OF same_contents_pieces [OF b'(2) rs, folded env(2)] b'(4), of "TunnelEndpoint_new inbound" None] b'(3) by auto
    moreover from this(3) have "ep_IncompleteMessages ep' = []" "ep_OutOfSequenceFragments ep' = []"
      by (simp_all add: endpoint_rel_def)
    ultimately show ?thesis by blast
  qed
  then show ?thesis using b'(1) by blast
qed

text \<open>
  C5 (round trip). Messages put into a gateway buffer one after the other, each where it can
  be placed, come out of the endpoint: the completed data messages, with any tunnel
  identifier in front, make the endpoint hand on exactly these messages, in order, each with
  its delivery instructions and its bytes, and nothing is left behind.
\<close>

theorem tunnel_roundtrip:
  assumes "gateway_env_ok genv" and "e_sha256 env = g_sha256 genv" and "length random = 1003"
    and "list_all2 (\<lambda>block (i, d). block_ok block i d) blocks ids"
    and "all_placeable genv blocks (TunnelGatewayBuffer_new tunnel random)"
  shows "\<exists>b. bind_result (put_blocks genv blocks (TunnelGatewayBuffer_new tunnel random))
      (CompleteCurrentTunnelDataMessage genv) = Inr b \<and>
    (\<forall>rs. list_all2 same_contents (g_TunnelDataMsgs b) rs \<longrightarrow>
      (\<exists>ms ep. receive_all env rs (TunnelEndpoint_new inbound) = handing env inbound ms ep \<and>
        list_all2 delivers (zip blocks (map snd ids)) ms \<and>
        ep_IncompleteMessages ep = [] \<and> ep_OutOfSequenceFragments ep = []))"
  using tunnel_roundtrip_aux [OF assms(1,2) gateway_new_ok [OF assms(3)] assms(4,5)] by blast

lemma sample_blocks_ok:
  "list_all2 (\<lambda>block (i, d). block_ok block i d) [sample_block 600, sample_block 2000]
     [(7, slice 2 600 (msg_buf (sample_data 600))), (7, slice 2 2000 (msg_buf (sample_data 2000)))]"
  "all_placeable sample_gateway_env [sample_block 600, sample_block 2000] sample_gateway"
proof -
  let ?d = "\<lambda>n. slice 2 n (msg_buf (sample_data n))"
  have di: "delivery_instructions (sample_block n) = [0]" for n by (simp add: delivery_instructions_def sample_block_def)
  have bd: "block_data (sample_block n) = Some (sample_data n)" for n by (simp add: sample_block_def)
  have "length (?d 600) = 600" using sample_data_fields(1) [of 600] by simp
  then obtain b where "PutI2NPMsg sample_gateway_env (sample_block 600) sample_gateway = Inr b"
    using PutI2NPMsg_started [OF sample_gateway_ok sample_block_ok [of 600]] di by auto
  moreover have "placeable (sample_block 600) sample_gateway" using sample_gateway_ok(3) by (simp add: placeable_def)
  moreover have "placeable (sample_block 2000) x" for x using sample_data_fields(3) [of 2000] by (simp add: placeable_def bd di)
  ultimately show "all_placeable sample_gateway_env [sample_block 600, sample_block 2000] sample_gateway"
    by (auto split: sum.splits)
  show "list_all2 (\<lambda>block (i, d). block_ok block i d) [sample_block 600, sample_block 2000] [(7, ?d 600), (7, ?d 2000)]"
    using sample_block_ok [of 600] sample_block_ok [of 2000] by simp
qed

theorem tunnel_roundtrip_witness:
  "\<exists>b. bind_result (put_blocks sample_gateway_env [sample_block 600, sample_block 2000] sample_gateway)
      (CompleteCurrentTunnelDataMessage sample_gateway_env) = Inr b \<and>
    (\<forall>rs. list_all2 same_contents (g_TunnelDataMsgs b) rs \<longrightarrow>
      (\<exists>ms ep. receive_all sample_env rs (TunnelEndpoint_new True) = handing sample_env True ms ep \<and>
        list_all2 delivers [(sample_block 600, slice 2 600 (msg_buf (sample_data 600))),
          (sample_block 2000, slice 2 2000 (msg_buf (sample_data 2000)))] ms))"
proof -
  have "e_sha256 sample_env = g_sha256 sample_gateway_env" by (simp add: sample_env_def sample_gateway_env_def)
  from tunnel_roundtrip [OF sample_gateway_ok(1) this _ sample_blocks_ok(1) sample_blocks_ok(2) [unfolded sample_gateway_def], of True]
  show ?thesis unfolding sample_gateway_def by (simp del: replicate.simps put_blocks.simps receive_all.simps) blast
qed

end
