(* ===== verification/Tunnel_Config.thy ===== *)
theory Tunnel_Config
  imports I2NP AES_Modes
begin

unbundle bit_operations_syntax

text \<open>
  The configuration of a tunnel this router builds (\<open>tunnel/config.h\<close> and
  \<open>tunnel/config.cc\<close>): the chain of hops with the keys drawn for each of them, and the build
  request record of a hop.

  The chain is a list: \<open>m_FirstHop\<close> is its head, \<open>m_LastHop\<close> its last element, and the
  pointers to the next and the previous hop are the neighbours. Of a router description only
  the identity hash and the ElGamal encryption under its public key are used. Tunnel
  identifiers and keys are drawn at random; they are arguments.
\<close>

section \<open>Hops\<close>

record RouterDescription =
  r_IdentHash :: bytes
  r_Encrypt :: "bytes \<Rightarrow> bytes"

record TunnelAESRecordAttributes =
  aes_layer_key :: bytes
  aes_IV_key :: bytes
  aes_reply_key :: bytes
  aes_reply_IV :: bytes

text \<open>\<open>None\<close> in \<open>hc_Decryption\<close>: no keys have been set yet.\<close>

record TunnelHopConfig =
  hc_CurrentRouter :: RouterDescription
  hc_TunnelID :: u32
  hc_AESAttributes :: TunnelAESRecordAttributes
  hc_NextRouter :: "RouterDescription option"
  hc_NextTunnelID :: u32
  hc_IsGateway :: bool
  hc_IsEndpoint :: bool
  hc_RecordIndex :: int
  hc_Decryption :: "TunnelKeys option"

definition TunnelHopConfig_new ::
    "RouterDescription option \<Rightarrow> u32 \<Rightarrow> TunnelAESRecordAttributes \<Rightarrow> TunnelHopConfig result" where
  "TunnelHopConfig_new router tunnel_ID aes =
     (case router of
        None \<Rightarrow> Inl InvalidArgument
      | Some r \<Rightarrow>
          Inr \<lparr>hc_CurrentRouter = r, hc_TunnelID = tunnel_ID, hc_AESAttributes = aes, hc_NextRouter = None,
               hc_NextTunnelID = 0, hc_IsGateway = True, hc_IsEndpoint = True, hc_RecordIndex = 0,
               hc_Decryption = None\<rparr>)"

definition SetNextRouter ::
    "RouterDescription option \<Rightarrow> u32 \<Rightarrow> bool \<Rightarrow> TunnelHopConfig \<Rightarrow> TunnelHopConfig result" where
  "SetNextRouter router tunnel_id is_endpoint hop =
     (case router of
        None \<Rightarrow> Inl InvalidArgument
      | Some r \<Rightarrow>
          Inr (hop\<lparr>hc_NextRouter := Some r, hc_NextTunnelID := tunnel_id, hc_IsEndpoint := is_endpoint\<rparr>))"

definition SetReplyHop :: "TunnelHopConfig option \<Rightarrow> TunnelHopConfig \<Rightarrow> TunnelHopConfig result" where
  "SetReplyHop reply hop =
     (case reply of
        None \<Rightarrow> Inl InvalidArgument
      | Some h \<Rightarrow> SetNextRouter (Some (hc_CurrentRouter h)) (hc_TunnelID h) True hop)"

text \<open>
  \<open>SetNextHop\<close> changes this hop and the next one. The link itself is the order of the list.
\<close>

definition SetNextHop :: "TunnelHopConfig \<Rightarrow> TunnelHopConfig \<Rightarrow> (TunnelHopConfig \<times> TunnelHopConfig) result" where
  "SetNextHop next_hop hop =
     bind_result (SetNextRouter (Some (hc_CurrentRouter next_hop)) (hc_TunnelID next_hop) False hop) (\<lambda>hop'.
       Inr (hop', next_hop\<lparr>hc_IsGateway := False\<rparr>))"

text \<open>\<open>CreateBuildRequestRecord\<close>: the clear text goes through a stream of 222 bytes.\<close>

definition BUILD_REQUEST_RECORD_CLEAR_TEXT_SIZE :: nat where "BUILD_REQUEST_RECORD_CLEAR_TEXT_SIZE = 222"

definition hop_flag :: "TunnelHopConfig \<Rightarrow> u8" where
  "hop_flag hop = (if hc_IsGateway hop then 0x80 else 0) OR (if hc_IsEndpoint hop then 0x40 else 0)"

definition write_clear_text :: "TunnelHopConfig \<Rightarrow> bytes \<Rightarrow> u32 \<Rightarrow> bytes \<Rightarrow> u32 \<Rightarrow> stream_writer" where
  "write_clear_text hop next_ident hours padding reply_msg_ID =
     (let aes = hc_AESAttributes hop in
      wseq (Write True (hc_TunnelID hop))
     (wseq (WriteData (Some (r_IdentHash (hc_CurrentRouter hop))) 32 False)
     (wseq (Write True (hc_NextTunnelID hop))
     (wseq (WriteData (Some next_ident) 32 False)
     (wseq (WriteData (Some (aes_layer_key aes)) 32 False)
     (wseq (WriteData (Some (aes_IV_key aes)) 32 False)
     (wseq (WriteData (Some (aes_reply_key aes)) 32 False)
     (wseq (WriteData (Some (aes_reply_IV aes)) 16 False)
     (wseq (Write True (hop_flag hop))
     (wseq (Write True hours)
     (wseq (Write True reply_msg_ID)
           (WriteData (Some padding) 29 False))))))))))))"

definition CreateBuildRequestRecord ::
    "u32 \<Rightarrow> bytes \<Rightarrow> TunnelHopConfig \<Rightarrow> nat \<Rightarrow> u32 \<Rightarrow> bytes \<Rightarrow> bytes result" where
  "CreateBuildRequestRecord hours padding hop record reply_msg_ID mem =
     (case hc_NextRouter hop of
        None \<Rightarrow> Inl MemoryError
      | Some next_router \<Rightarrow>
          bind_result (ByteStream_external (Some (replicate 222 0)) BUILD_REQUEST_RECORD_CLEAR_TEXT_SIZE) (\<lambda>stream.
          bind_result (write_clear_text hop (r_IdentHash next_router) hours padding reply_msg_ID stream) (\<lambda>stream'.
          bind_result (mem_read (Data_ptr stream') (Size stream') (m_Buffer stream')) (\<lambda>clear_text.
          bind_result (mem_write (record + 16) (r_Encrypt (hc_CurrentRouter hop) clear_text) mem) (\<lambda>mem1.
          bind_result (mem_read 0 16 (r_IdentHash (hc_CurrentRouter hop))) (\<lambda>ident.
            mem_write record ident mem1))))))"

section \<open>The chain of hops\<close>

record TunnelConfig =
  tc_Hops :: "TunnelHopConfig list"

definition GetFirstHop :: "TunnelConfig \<Rightarrow> TunnelHopConfig option" where
  "GetFirstHop c = (case tc_Hops c of [] \<Rightarrow> None | h # _ \<Rightarrow> Some h)"

definition GetLastHop :: "TunnelConfig \<Rightarrow> TunnelHopConfig option" where
  "GetLastHop c = (if tc_Hops c = [] then None else Some (last (tc_Hops c)))"

definition GetNumHops :: "TunnelConfig \<Rightarrow> nat" where
  "GetNumHops c = length (tc_Hops c)"

definition IsInbound :: "TunnelConfig \<Rightarrow> bool result" where
  "IsInbound c = (case GetFirstHop c of None \<Rightarrow> Inl MemoryError | Some h \<Rightarrow> Inr (hc_IsGateway h))"

definition GetPeers :: "TunnelConfig \<Rightarrow> RouterDescription list" where
  "GetPeers c = map hc_CurrentRouter (tc_Hops c)"

type_synonym hop_draw = "u32 \<times> TunnelAESRecordAttributes"

text \<open>The loop of the constructor; \<open>prev\<close> is the hop created last.\<close>

fun append_hops ::
    "TunnelHopConfig option \<Rightarrow> (RouterDescription option \<times> hop_draw) list \<Rightarrow> TunnelHopConfig list result" where
  "append_hops None [] = Inr []"
| "append_hops (Some prev) [] = Inr [prev]"
| "append_hops None ((router, tunnel_ID, aes) # peers) =
     bind_result (TunnelHopConfig_new router tunnel_ID aes) (\<lambda>hop. append_hops (Some hop) peers)"
| "append_hops (Some prev) ((router, tunnel_ID, aes) # peers) =
     bind_result (TunnelHopConfig_new router tunnel_ID aes) (\<lambda>hop.
     bind_result (SetNextHop hop prev) (\<lambda>(prev', hop').
     bind_result (append_hops (Some hop') peers) (\<lambda>hops. Inr (prev' # hops))))"

definition map_first :: "('a \<Rightarrow> 'a) \<Rightarrow> 'a list \<Rightarrow> 'a list" where
  "map_first f xs = (case xs of [] \<Rightarrow> [] | x # ys \<Rightarrow> f x # ys)"

text \<open>
  The constructor. \<open>own\<close> is the router's own description and \<open>own_tunnel\<close> the identifier drawn
  for its side of an inbound tunnel.
\<close>

definition TunnelConfig_new ::
    "RouterDescription option \<Rightarrow> u32 \<Rightarrow> (RouterDescription option \<times> hop_draw) list \<Rightarrow> TunnelConfig option \<Rightarrow>
     TunnelConfig result" where
  "TunnelConfig_new own own_tunnel peers reply =
     bind_result (append_hops None peers) (\<lambda>hops.
       if hops = [] then Inr \<lparr>tc_Hops = []\<rparr>
       else
         (case reply of
            Some reply_config \<Rightarrow>
              (let hops1 = map_first (\<lambda>h. h\<lparr>hc_IsGateway := False\<rparr>) hops in
               bind_result (SetReplyHop (GetFirstHop reply_config) (last hops1)) (\<lambda>h.
                 Inr \<lparr>tc_Hops = butlast hops1 @ [h]\<rparr>))
          | None \<Rightarrow>
              bind_result (SetNextRouter own own_tunnel False (last hops)) (\<lambda>h.
                Inr \<lparr>tc_Hops = butlast hops @ [h]\<rparr>)))"

definition Invert ::
    "RouterDescription option \<Rightarrow> u32 \<Rightarrow> hop_draw list \<Rightarrow> TunnelConfig \<Rightarrow> TunnelConfig result" where
  "Invert own own_tunnel draws c =
     (let peers = zip (map Some (rev (GetPeers c))) draws in
      bind_result (IsInbound c) (\<lambda>inbound.
        if inbound then TunnelConfig_new own own_tunnel peers (Some c)
        else TunnelConfig_new own own_tunnel peers None))"

definition Clone ::
    "RouterDescription option \<Rightarrow> u32 \<Rightarrow> hop_draw list \<Rightarrow> TunnelConfig option \<Rightarrow> TunnelConfig \<Rightarrow> TunnelConfig result" where
  "Clone own own_tunnel draws reply c =
     TunnelConfig_new own own_tunnel (zip (map Some (GetPeers c)) draws) reply"

section \<open>The record of a hop\<close>

text \<open>What a hop has to carry: hashes and keys of their sizes, and a public key that encrypts.\<close>

definition router_wf :: "RouterDescription \<Rightarrow> bool" where
  "router_wf r \<longleftrightarrow> length (r_IdentHash r) = 32 \<and> (\<forall>bs. length bs = 222 \<longrightarrow> length (r_Encrypt r bs) = 512)"

definition aes_wf :: "TunnelAESRecordAttributes \<Rightarrow> bool" where
  "aes_wf a \<longleftrightarrow> length (aes_layer_key a) = 32 \<and> length (aes_IV_key a) = 32 \<and> length (aes_reply_key a) = 32 \<and>
     length (aes_reply_IV a) = 16"

definition hop_wf :: "TunnelHopConfig \<Rightarrow> bool" where
  "hop_wf h \<longleftrightarrow> router_wf (hc_CurrentRouter h) \<and> aes_wf (hc_AESAttributes h) \<and>
     (\<exists>r. hc_NextRouter h = Some r \<and> length (r_IdentHash r) = 32)"

definition next_ident :: "TunnelHopConfig \<Rightarrow> bytes" where
  "next_ident h = (case hc_NextRouter h of None \<Rightarrow> [] | Some r \<Rightarrow> r_IdentHash r)"

definition clear_text :: "TunnelHopConfig \<Rightarrow> u32 \<Rightarrow> bytes \<Rightarrow> u32 \<Rightarrow> bytes" where
  "clear_text h hours padding reply_msg_ID =
     word_encode True (hc_TunnelID h) @ r_IdentHash (hc_CurrentRouter h) @ word_encode True (hc_NextTunnelID h) @
     next_ident h @ aes_layer_key (hc_AESAttributes h) @ aes_IV_key (hc_AESAttributes h) @
     aes_reply_key (hc_AESAttributes h) @ aes_reply_IV (hc_AESAttributes h) @ [hop_flag h] @
     word_encode True hours @ word_encode True reply_msg_ID @ padding"

lemma hop_wfD:
  assumes "hop_wf h"
  shows "length (r_IdentHash (hc_CurrentRouter h)) = 32" "length (next_ident h) = 32"
    "length (aes_layer_key (hc_AESAttributes h)) = 32" "length (aes_IV_key (hc_AESAttributes h)) = 32"
    "length (aes_reply_key (hc_AESAttributes h)) = 32" "length (aes_reply_IV (hc_AESAttributes h)) = 16"
    "length bs = 222 \<Longrightarrow> length (r_Encrypt (hc_CurrentRouter h) bs) = 512"
    "\<exists>r. hc_NextRouter h = Some r \<and> next_ident h = r_IdentHash r"
  using assms by (auto simp: hop_wf_def router_wf_def aes_wf_def next_ident_def)

lemma length_clear_text: "hop_wf h \<Longrightarrow> length padding = 29 \<Longrightarrow> length (clear_text h hours padding i) = 222"
  by (simp add: clear_text_def hop_wfD)

lemma write_clear_text_writes:
  assumes "hop_wf h" and "length padding = 29"
  shows "writes (write_clear_text h (next_ident h) hours padding i) (clear_text h hours padding i)"
  unfolding write_clear_text_def clear_text_def Let_def append_assoc append_Cons append_Nil
  by (intro writes_intros) (simp_all add: hop_wfD [OF assms(1)] assms(2))

lemma CreateBuildRequestRecord_writes:
  assumes h: "hop_wf h" and p: "length padding = 29"
  shows "CreateBuildRequestRecord hours padding h record i mem =
    bind_result (mem_write (record + 16) (r_Encrypt (hc_CurrentRouter h) (clear_text h hours padding i)) mem)
      (mem_write record (take 16 (r_IdentHash (hc_CurrentRouter h))))"
proof -
  let ?s = "\<lparr>m_Buffer = replicate 222 0, m_DataPtr = 0, m_Length = 222, m_Counter = 0\<rparr>" let ?c = "clear_text h hours padding i"
  obtain r where r: "hc_NextRouter h = Some r" "next_ident h = r_IdentHash r" using hop_wfD(8) [OF h] by blast
  have c: "length ?c = 222" by (rule length_clear_text [OF h p])
  have "stream_inv ?s" by (simp add: stream_inv_def)
  then have "write_clear_text h (r_IdentHash r) hours padding i ?s = Inr (emit ?c ?s)"
    using writesD [OF write_clear_text_writes [OF h p]] c r(2) by simp
  moreover have "mem_read (Data_ptr (emit ?c ?s)) (Size (emit ?c ?s)) (m_Buffer (emit ?c ?s)) = Inr ?c"
    using c by (simp add: Data_ptr_def Size_def mem_read_def)
  moreover have "mem_read 0 16 (r_IdentHash (hc_CurrentRouter h)) = Inr (take 16 (r_IdentHash (hc_CurrentRouter h)))"
    using hop_wfD(1) [OF h] by (simp add: mem_read_def slice_def)
  moreover have "ByteStream_external (Some (replicate 222 0)) BUILD_REQUEST_RECORD_CLEAR_TEXT_SIZE = Inr ?s"
    by (simp add: ByteStream_external_def BUILD_REQUEST_RECORD_CLEAR_TEXT_SIZE_def)
  ultimately show ?thesis by (simp add: CreateBuildRequestRecord_def r(1))
qed

lemma CreateBuildRequestRecord_eq:
  assumes h: "hop_wf h" and p: "length padding = 29" and room: "record + 528 \<le> length mem"
  shows "CreateBuildRequestRecord hours padding h record i mem =
    Inr (poke record (take 16 (r_IdentHash (hc_CurrentRouter h)) @
      r_Encrypt (hc_CurrentRouter h) (clear_text h hours padding i)) mem)"
proof -
  let ?e = "r_Encrypt (hc_CurrentRouter h) (clear_text h hours padding i)" let ?i = "take 16 (r_IdentHash (hc_CurrentRouter h))"
  have e: "length ?e = 512" "length ?i = 16" using hop_wfD(1,7) [OF h] length_clear_text [OF h p] by simp_all
  then have "poke record ?i (poke (record + 16) ?e mem) = poke record (?i @ ?e) mem"
    using room by (intro nth_equalityI) (auto simp: nth_poke nth_append)
  then show ?thesis using room e by (simp add: CreateBuildRequestRecord_writes [OF h p] mem_write_def)
qed

lemma CreateBuildRequestRecord_overflow:
  assumes h: "hop_wf h" and p: "length padding = 29" and room: "length mem < record + 528"
  shows "CreateBuildRequestRecord hours padding h record i mem = Inl MemoryError"
  using room hop_wfD(7) [OF h length_clear_text [OF h p]]
  by (simp add: CreateBuildRequestRecord_writes [OF h p] mem_write_def)

lemma slice_segment: "length a = p \<Longrightarrow> length b = n \<Longrightarrow> slice p n (a @ b @ c) = b"
  by (simp add: slice_def)

lemma hop_flag_bits:
  "hop_flag h AND 0x80 \<noteq> 0 \<longleftrightarrow> hc_IsGateway h" "hop_flag h AND 0x40 \<noteq> 0 \<longleftrightarrow> hc_IsEndpoint h"
  by (simp_all add: hop_flag_def)

lemma clear_text_parts:
  assumes h: "hop_wf h" and p: "length padding = 29" and c_def: "c = clear_text h hours padding i"
  shows "slice 0 4 c = word_encode True (hc_TunnelID h)" "slice 36 4 c = word_encode True (hc_NextTunnelID h)"
    "slice 40 32 c = next_ident h" "slice 72 32 c = aes_layer_key (hc_AESAttributes h)"
    "slice 104 32 c = aes_IV_key (hc_AESAttributes h)" "slice 136 32 c = aes_reply_key (hc_AESAttributes h)"
    "slice 168 16 c = aes_reply_IV (hc_AESAttributes h)" "c ! 184 = hop_flag h" "slice 189 4 c = word_encode True i"
  using hop_wfD [OF h] p by (simp_all add: c_def clear_text_def slice_def nth_append)

lemma transit_request_clear_text:
  assumes h: "hop_wf h" and p: "length padding = 29"
  shows "transit_request (clear_text h hours padding i) =
    Inr \<lparr>tt_receive_tunnel = hc_TunnelID h, tt_next_ident = next_ident h, tt_next_tunnel = hc_NextTunnelID h,
         tt_layer_key = aes_layer_key (hc_AESAttributes h), tt_iv_key = aes_IV_key (hc_AESAttributes h),
         tt_is_gateway = hc_IsGateway h, tt_is_endpoint = hc_IsEndpoint h\<rparr>"
  using clear_text_parts [OF h p refl, of hours i] length_clear_text [OF h p, of hours i]
  by (simp add: transit_request_def Read_buf_slice mem_read_def peek_def hop_flag_bits)
section \<open>The chain\<close>

text \<open>
  Neighbours of a chain: a hop knows the router and the tunnel identifier of the next one, it
  is no endpoint, and the next one is no gateway.
\<close>

fun chained :: "TunnelHopConfig list \<Rightarrow> bool" where
  "chained (a # b # hops) \<longleftrightarrow>
     hc_NextRouter a = Some (hc_CurrentRouter b) \<and> hc_NextTunnelID a = hc_TunnelID b \<and>
     \<not> hc_IsEndpoint a \<and> \<not> hc_IsGateway b \<and> chained (b # hops)"
| "chained _ \<longleftrightarrow> True"

abbreviation draw_of :: "TunnelHopConfig \<Rightarrow> RouterDescription option \<times> hop_draw" where
  "draw_of h \<equiv> (Some (hc_CurrentRouter h), hc_TunnelID h, hc_AESAttributes h)"

lemma append_hops_Some:
  assumes "\<forall>p \<in> set peers. fst p \<noteq> None"
  shows "\<exists>h hops. append_hops (Some prev) peers = Inr (h # hops) \<and> chained (h # hops) \<and>
    map draw_of (h # hops) = draw_of prev # peers \<and> hc_IsGateway h = hc_IsGateway prev \<and>
    (peers = [] \<longrightarrow> h = prev)"
  using assms
proof (induction peers arbitrary: prev)
  case (Cons p peers)
  obtain r t a where p: "p = (Some r, t, a)" using Cons.prems by (cases p) auto
  define new where "new = \<lparr>hc_CurrentRouter = r, hc_TunnelID = t, hc_AESAttributes = a, hc_NextRouter = None,
    hc_NextTunnelID = 0, hc_IsGateway = False, hc_IsEndpoint = True, hc_RecordIndex = 0, hc_Decryption = None\<rparr>"
  let ?prev = "prev\<lparr>hc_NextRouter := Some r, hc_NextTunnelID := t, hc_IsEndpoint := False\<rparr>"
  obtain h hops where h: "append_hops (Some new) peers = Inr (h # hops)" "chained (h # hops)"
      "map draw_of (h # hops) = draw_of new # peers" "hc_IsGateway h = hc_IsGateway new"
    using Cons.IH [of new] Cons.prems by auto
  have "append_hops (Some prev) (p # peers) = Inr (?prev # h # hops)"
    using h(1) by (simp add: p TunnelHopConfig_new_def SetNextHop_def SetNextRouter_def new_def)
  then show ?case using h(2-4) by (intro exI [of _ ?prev] exI [of _ "h # hops"]) (auto simp: p new_def)
qed simp

lemma append_hops_chain:
  assumes "\<forall>p \<in> set peers. fst p \<noteq> None"
  shows "\<exists>hops. append_hops None peers = Inr hops \<and> chained hops \<and> map draw_of hops = peers \<and>
    (hops \<noteq> [] \<longrightarrow> hc_IsGateway (hd hops))"
proof (cases peers)
  case (Cons p ps)
  obtain r t a where p: "p = (Some r, t, a)" using assms Cons by (cases p) auto
  define new where "new = \<lparr>hc_CurrentRouter = r, hc_TunnelID = t, hc_AESAttributes = a, hc_NextRouter = None,
    hc_NextTunnelID = 0, hc_IsGateway = True, hc_IsEndpoint = True, hc_RecordIndex = 0, hc_Decryption = None\<rparr>"
  have "append_hops None peers = append_hops (Some new) ps" by (simp add: Cons p TunnelHopConfig_new_def new_def)
  moreover obtain h hops where "append_hops (Some new) ps = Inr (h # hops)" "chained (h # hops)"
      "map draw_of (h # hops) = draw_of new # ps" "hc_IsGateway h = hc_IsGateway new"
    using append_hops_Some [of ps new] assms Cons by auto
  ultimately show ?thesis by (intro exI [of _ "h # hops"]) (auto simp: Cons p new_def)
qed simp

lemma chained_change_last:
  "chained (hops @ [h]) \<Longrightarrow> hc_CurrentRouter h' = hc_CurrentRouter h \<Longrightarrow> hc_TunnelID h' = hc_TunnelID h \<Longrightarrow>
   hc_IsGateway h' = hc_IsGateway h \<Longrightarrow> chained (hops @ [h'])"
  by (induction hops rule: chained.induct) auto

lemma chained_change_first:
  "chained (h # hops) \<Longrightarrow> hc_NextRouter h' = hc_NextRouter h \<Longrightarrow> hc_NextTunnelID h' = hc_NextTunnelID h \<Longrightarrow>
   hc_IsEndpoint h' = hc_IsEndpoint h \<Longrightarrow> chained (h' # hops)"
  by (cases hops) auto

text \<open>
  C13 (type). The constructor of a configuration builds a chain over the given routers, with the
  identifiers and keys drawn for them: every hop knows the next one; the first hop is a gateway
  exactly in an inbound tunnel, whose last hop leads to this router; the last hop is an endpoint
  exactly in an outbound tunnel, where it leads to the first hop of the reply tunnel.
\<close>

theorem TunnelConfig_chain:
  assumes "\<forall>p \<in> set peers. fst p \<noteq> None" and "peers \<noteq> []" and "\<forall>rc. reply = Some rc \<longrightarrow> tc_Hops rc \<noteq> []"
  shows "\<exists>hops. TunnelConfig_new (Some own) own_tunnel peers reply = Inr \<lparr>tc_Hops = hops\<rparr> \<and>
    chained hops \<and> map draw_of hops = peers \<and>
    hc_IsGateway (hd hops) = (reply = None) \<and> hc_IsEndpoint (last hops) = (reply \<noteq> None) \<and>
    (case reply of
       None \<Rightarrow> hc_NextRouter (last hops) = Some own \<and> hc_NextTunnelID (last hops) = own_tunnel
     | Some rc \<Rightarrow> hc_NextRouter (last hops) = Some (hc_CurrentRouter (hd (tc_Hops rc))) \<and>
                 hc_NextTunnelID (last hops) = hc_TunnelID (hd (tc_Hops rc)))"
proof -
  obtain hops where hops: "append_hops None peers = Inr hops" "chained hops" "map draw_of hops = peers"
      "hops \<noteq> [] \<longrightarrow> hc_IsGateway (hd hops)"
    using append_hops_chain [OF assms(1)] by blast
  then have ne: "hops \<noteq> []" using assms(2) by auto
  show ?thesis
  proof (cases reply)
    case None
    let ?l = "(last hops)\<lparr>hc_NextRouter := Some own, hc_NextTunnelID := own_tunnel, hc_IsEndpoint := False\<rparr>"
    let ?hs = "butlast hops @ [?l]"
    have split: "hops = butlast hops @ [last hops]" using ne by simp
    have "TunnelConfig_new (Some own) own_tunnel peers reply = Inr \<lparr>tc_Hops = ?hs\<rparr>"
      using ne by (simp add: TunnelConfig_new_def hops(1) None SetNextRouter_def)
    moreover have "chained ?hs" using hops(2) by (subst (asm) split, elim chained_change_last) simp_all
    moreover have "map draw_of ?hs = peers" using hops(3) by (subst (asm) split) simp
    moreover have "hc_IsGateway (hd ?hs)" using hops(4) ne by (cases hops rule: rev_cases) (auto simp: hd_append)
    ultimately show ?thesis by (intro exI [of _ ?hs]) (simp add: None)
  next
    case (Some rc)
    obtain h0 rest where h0: "hops = h0 # rest" using ne by (cases hops) auto
    obtain g gs where g: "tc_Hops rc = g # gs" using assms(3) Some by (cases "tc_Hops rc") auto
    let ?h1 = "h0\<lparr>hc_IsGateway := False\<rparr>" let ?hs1 = "?h1 # rest"
    let ?l = "(last ?hs1)\<lparr>hc_NextRouter := Some (hc_CurrentRouter g), hc_NextTunnelID := hc_TunnelID g, hc_IsEndpoint := True\<rparr>"
    let ?hs = "butlast ?hs1 @ [?l]"
    have split: "?hs1 = butlast ?hs1 @ [last ?hs1]" by simp
    have c1: "chained ?hs1" using hops(2) h0 by (auto intro: chained_change_first)
    have m1: "map draw_of ?hs1 = peers" using hops(3) h0 by simp
    have "TunnelConfig_new (Some own) own_tunnel peers reply = Inr \<lparr>tc_Hops = ?hs\<rparr>"
      by (simp add: TunnelConfig_new_def hops(1) Some SetNextRouter_def SetReplyHop_def GetFirstHop_def g h0 map_first_def Let_def)
    moreover have "chained ?hs" using c1 by (subst (asm) split, elim chained_change_last) simp_all
    moreover have "map draw_of ?hs = peers" using m1 by (subst (asm) split) simp
    moreover have "\<not> hc_IsGateway (hd ?hs)" by (cases rest) simp_all
    ultimately show ?thesis by (intro exI [of _ ?hs]) (simp add: Some g)
  qed
qed
section \<open>A sample chain\<close>

definition sample_router :: "byte \<Rightarrow> RouterDescription" where
  "sample_router b = \<lparr>r_IdentHash = replicate 32 b, r_Encrypt = (\<lambda>bs. bs @ replicate 290 b)\<rparr>"

definition sample_aes :: "byte \<Rightarrow> TunnelAESRecordAttributes" where
  "sample_aes b = \<lparr>aes_layer_key = replicate 32 b, aes_IV_key = replicate 32 b, aes_reply_key = replicate 32 b,
     aes_reply_IV = replicate 16 b\<rparr>"

definition sample_peers :: "(RouterDescription option \<times> hop_draw) list" where
  "sample_peers = [(Some (sample_router 1), 11, sample_aes 1), (Some (sample_router 2), 12, sample_aes 2)]"

theorem TunnelConfig_chain_witness:
  "\<exists>hops. TunnelConfig_new (Some (sample_router 9)) 77 sample_peers None = Inr \<lparr>tc_Hops = hops\<rparr> \<and>
     chained hops \<and> map draw_of hops = sample_peers \<and> hc_IsGateway (hd hops) \<and> \<not> hc_IsEndpoint (last hops) \<and>
     hc_NextRouter (last hops) = Some (sample_router 9) \<and> hc_NextTunnelID (last hops) = 77"
proof -
  have "\<forall>p \<in> set sample_peers. fst p \<noteq> None" "sample_peers \<noteq> []" by (simp_all add: sample_peers_def)
  from TunnelConfig_chain [OF this, of None "sample_router 9" 77] show ?thesis by simp
qed

end
