(* ===== verification/Tunnel_Build.thy ===== *)
theory Tunnel_Build
  imports Tunnel_Config
begin

unbundle bit_operations_syntax

text \<open>
  A tunnel of this router (class \<open>Tunnel\<close> of \<open>tunnel/impl.h\<close> and \<open>tunnel/impl.cc\<close>): the build
  request, the handling of the reply, and the layered decryption of data messages.

  The block transformation, the digest, the shuffle, the random bytes and numbers and the clocks are
  parameters. The profiles of the routers are told the reply codes; these are the events of
  the reply handler.
\<close>

section \<open>Data\<close>

definition STANDARD_NUM_RECORDS :: nat where "STANDARD_NUM_RECORDS = 4"

datatype TunnelState =
    TunnelStatePending | TunnelStateBuildReplyReceived | TunnelStateBuildFailed | TunnelStateEstablished
  | TunnelStateTestFailed | TunnelStateFailed | TunnelStateExpiring

record Tunnel =
  tn_Config :: TunnelConfig
  tn_Pool :: "nat option"
  tn_State :: TunnelState
  tn_IsRecreated :: bool
  tn_CreationTime :: u64

definition Tunnel_new :: "u64 \<Rightarrow> TunnelConfig \<Rightarrow> Tunnel" where
  "Tunnel_new now config =
     \<lparr>tn_Config = config, tn_Pool = None, tn_State = TunnelStatePending, tn_IsRecreated = False, tn_CreationTime = now\<rparr>"

record BuildEnv =
  b_UsingAESNI :: bool
  b_decrypt :: block_fun
  b_sha256 :: "bytes \<Rightarrow> bytes"
  b_shuffle :: "nat list \<Rightarrow> nat list"
  b_hours :: u32
  b_now :: u64
  b_rnd :: u32
  b_reply_ids :: "nat \<Rightarrow> u32"
  b_padding :: "nat \<Rightarrow> bytes"
  b_fake :: "nat \<Rightarrow> bytes"

text \<open>How a build request leaves: to the first hop, or through an outbound tunnel.\<close>

datatype build_action =
    BuildDirect bytes I2NPMessage
  | BuildThrough nat bytes u32 I2NPMessage

section \<open>The build request\<close>

text \<open>The loop over the hops; \<open>records\<close> is where the records start, \<open>i\<close> the number of the hop.\<close>

fun create_records ::
    "BuildEnv \<Rightarrow> nat list \<Rightarrow> nat \<Rightarrow> u32 \<Rightarrow> nat \<Rightarrow> TunnelHopConfig list \<Rightarrow> bytes \<Rightarrow> (TunnelHopConfig list \<times> bytes) result" where
  "create_records env indices records reply_msg_ID i [] mem = Inr ([], mem)"
| "create_records env indices records reply_msg_ID i (hop # hops) mem =
     bind_result (peek i indices) (\<lambda>idx.
     bind_result (CreateBuildRequestRecord (b_hours env) (b_padding env i) hop (records + idx * TUNNEL_BUILD_RECORD_SIZE)
         (if hops \<noteq> [] then b_reply_ids env i else reply_msg_ID) mem) (\<lambda>mem1.
     bind_result (create_records env indices records reply_msg_ID (i + 1) hops mem1) (\<lambda>(hops', mem2).
       Inr (hop\<lparr>hc_RecordIndex := int idx\<rparr> # hops', mem2))))"

definition fake_record :: "BuildEnv \<Rightarrow> nat list \<Rightarrow> nat \<Rightarrow> bytes \<Rightarrow> nat \<Rightarrow> bytes result" where
  "fake_record env indices records mem i =
     bind_result (peek i indices) (\<lambda>idx.
       mem_write (records + idx * TUNNEL_BUILD_RECORD_SIZE) (b_fake env i) mem)"

text \<open>\<open>SetKey\<close>, \<open>SetIV\<close> and the decryption of one record in place.\<close>

definition decrypt_record :: "BuildEnv \<Rightarrow> TunnelHopConfig \<Rightarrow> nat \<Rightarrow> bytes \<Rightarrow> bytes result" where
  "decrypt_record env hop record mem =
     bind_result (CBC_Decrypt (b_UsingAESNI env) (b_decrypt env) record TUNNEL_BUILD_RECORD_SIZE record
         (CBCDecryption_SetIV (aes_reply_IV (hc_AESAttributes hop))
           (CBCDecryption_new (aes_reply_key (hc_AESAttributes hop)) (replicate 16 0))) mem) (\<lambda>(_, mem1). Inr mem1)"

definition decrypt_later :: "BuildEnv \<Rightarrow> nat \<Rightarrow> TunnelHopConfig \<Rightarrow> bytes \<Rightarrow> TunnelHopConfig \<Rightarrow> bytes result" where
  "decrypt_later env records hop mem hop1 =
     decrypt_record env hop (records + nat (hc_RecordIndex hop1) * TUNNEL_BUILD_RECORD_SIZE) mem"

text \<open>From the hop before the last one back to the first: the records of the hops behind it.\<close>

fun decrypt_records :: "BuildEnv \<Rightarrow> nat \<Rightarrow> TunnelHopConfig list \<Rightarrow> bytes \<Rightarrow> bytes result" where
  "decrypt_records env records [] mem = Inr mem"
| "decrypt_records env records (hop # hops) mem =
     bind_result (decrypt_records env records hops mem) (\<lambda>mem1.
       fold_result (decrypt_later env records hop) mem1 hops)"

definition GetNextIdentHash :: "Tunnel \<Rightarrow> bytes result" where
  "GetNextIdentHash t =
     (case GetFirstHop (tn_Config t) of None \<Rightarrow> Inl MemoryError | Some h \<Rightarrow> Inr (r_IdentHash (hc_CurrentRouter h)))"

definition GetNextTunnelID :: "Tunnel \<Rightarrow> u32 result" where
  "GetNextTunnelID t =
     (case GetFirstHop (tn_Config t) of None \<Rightarrow> Inl MemoryError | Some h \<Rightarrow> Inr (hc_TunnelID h))"

definition Build :: "BuildEnv \<Rightarrow> u32 \<Rightarrow> nat option \<Rightarrow> Tunnel \<Rightarrow> (Tunnel \<times> build_action) result" where
  "Build env reply_msg_ID outbound_tunnel t =
     (let num_hops = GetNumHops (tn_Config t);
          num_records = (if num_hops \<le> STANDARD_NUM_RECORDS then STANDARD_NUM_RECORDS else num_hops);
          msg = NewI2NPShortMessage in
      bind_result (put (GetPayload msg) [word_of_nat num_records] msg) (\<lambda>msg1.
      let msg2 = msg1\<lparr>msg_len := msg_len msg1 + num_records * TUNNEL_BUILD_RECORD_SIZE + 1\<rparr>;
          indices = b_shuffle env [0..<num_records];
          records = GetPayload msg2 + 1 in
      bind_result (create_records env indices records reply_msg_ID 0 (tc_Hops (tn_Config t)) (msg_buf msg2)) (\<lambda>(hops, mem1).
      bind_result (fold_result (fake_record env indices records) mem1 [num_hops..<num_records]) (\<lambda>mem2.
      throw_if (hops = []) MemoryError
     (bind_result (decrypt_records env records hops mem2) (\<lambda>mem3.
      bind_result (FillI2NPMessageHeader (b_sha256 env) (b_rnd env) (b_now env) I2NPVariableTunnelBuild 0
          (msg2\<lparr>msg_buf := mem3\<rparr>)) (\<lambda>msg3.
      bind_result (GetNextIdentHash t) (\<lambda>ident.
        Inr (t\<lparr>tn_Config := \<lparr>tc_Hops = hops\<rparr>\<rparr>,
             case outbound_tunnel of
               Some tunnel \<Rightarrow> BuildThrough tunnel ident 0 msg3
             | None \<Rightarrow> BuildDirect ident msg3)))))))))"

section \<open>The reply\<close>

definition decrypt_reply :: "BuildEnv \<Rightarrow> TunnelHopConfig \<Rightarrow> bytes \<Rightarrow> TunnelHopConfig \<Rightarrow> bytes result" where
  "decrypt_reply env hop mem hop1 =
     bind_result (peek 0 mem) (\<lambda>num.
       let idx = hc_RecordIndex hop1 in
       if 0 \<le> idx \<and> idx < uint num then decrypt_record env hop (1 + nat idx * TUNNEL_BUILD_RECORD_SIZE) mem
       else Inr mem)"

text \<open>The argument is the chain from the last hop to the first.\<close>

fun decrypt_replies :: "BuildEnv \<Rightarrow> TunnelHopConfig list \<Rightarrow> bytes \<Rightarrow> bytes result" where
  "decrypt_replies env [] mem = Inr mem"
| "decrypt_replies env (hop # before) mem =
     bind_result (fold_result (decrypt_reply env hop) mem (hop # before)) (decrypt_replies env before)"

text \<open>\<open>record[BUILD_RESPONSE_RECORD_RET_OFFSET]\<close>: the index is not compared with the number of records here.\<close>

definition reply_code :: "bytes \<Rightarrow> TunnelHopConfig \<Rightarrow> u8 result" where
  "reply_code mem hop =
     (if hc_RecordIndex hop < 0 then Inl MemoryError
      else peek (1 + nat (hc_RecordIndex hop) * TUNNEL_BUILD_RECORD_SIZE + 527) mem)"

fun reply_codes :: "bytes \<Rightarrow> bool \<Rightarrow> TunnelHopConfig list \<Rightarrow> (bool, RouterDescription \<times> u8) steps" where
  "reply_codes mem established [] = pure_step established"
| "reply_codes mem established (hop # hops) =
     bind_step (bind_result (reply_code mem hop) (\<lambda>ret. emit_step (hc_CurrentRouter hop, ret) ret)) (\<lambda>ret.
       reply_codes mem (if ret \<noteq> 0 then False else established) hops)"

definition set_layer_keys :: "TunnelHopConfig \<Rightarrow> TunnelHopConfig" where
  "set_layer_keys hop =
     hop\<lparr>hc_Decryption := Some \<lparr>layer_key = aes_layer_key (hc_AESAttributes hop), iv_key = aes_IV_key (hc_AESAttributes hop)\<rparr>\<rparr>"

definition HandleTunnelBuildResponse ::
    "BuildEnv \<Rightarrow> bytes \<Rightarrow> Tunnel \<Rightarrow> (bool \<times> bytes \<times> Tunnel, RouterDescription \<times> u8) steps" where
  "HandleTunnelBuildResponse env msg t =
     (let hops = tc_Hops (tn_Config t) in
      bind_result (peek 0 msg) (\<lambda>_.
      bind_result (decrypt_replies env (rev hops) msg) (\<lambda>msg1.
      bind_step (reply_codes msg1 True hops) (\<lambda>established.
        pure_step (established, msg1,
          if established then t\<lparr>tn_Config := \<lparr>tc_Hops = map set_layer_keys hops\<rparr>, tn_State := TunnelStateEstablished\<rparr>
          else t)))))"

section \<open>Data messages\<close>

text \<open>
  \<open>Encrypt\<close> and \<open>Decrypt\<close> of a tunnel layer between the payloads of two messages; \<open>None\<close> as the
  input is the call with the same message for both.
\<close>

definition crypt_payload ::
    "(nat \<Rightarrow> nat \<Rightarrow> bytes \<Rightarrow> bytes result) \<Rightarrow> I2NPMessage option \<Rightarrow> I2NPMessage \<Rightarrow> I2NPMessage result" where
  "crypt_payload crypt in_msg out_msg =
     (let dst = GetPayload out_msg + 4 in
      case in_msg of
        None \<Rightarrow> bind_result (crypt dst dst (msg_buf out_msg)) (\<lambda>b. Inr (out_msg\<lparr>msg_buf := b\<rparr>))
      | Some m \<Rightarrow>
          bind_result (mem_read (GetPayload m + 4) 1024 (msg_buf m)) (\<lambda>src.
          bind_result (crypt 0 (1024 + dst) (src @ msg_buf out_msg)) (\<lambda>b.
            Inr (out_msg\<lparr>msg_buf := drop 1024 b\<rparr>))))"

text \<open>Decryption under a key that was never set reads an uninitialised key schedule.\<close>

definition hop_decrypt :: "BuildEnv \<Rightarrow> TunnelHopConfig \<Rightarrow> nat \<Rightarrow> nat \<Rightarrow> bytes \<Rightarrow> bytes result" where
  "hop_decrypt env hop src dst mem =
     (case hc_Decryption hop of
        None \<Rightarrow> Inl MemoryError
      | Some keys \<Rightarrow> Tunnel_Decrypt (b_UsingAESNI env) (b_decrypt env) keys src dst mem)"

text \<open>The loop from the last hop to the first; after the first layer the output is the input.\<close>

fun decrypt_layers :: "BuildEnv \<Rightarrow> TunnelHopConfig list \<Rightarrow> I2NPMessage option \<Rightarrow> I2NPMessage \<Rightarrow> I2NPMessage result" where
  "decrypt_layers env [] in_msg out_msg = Inr out_msg"
| "decrypt_layers env (hop # before) in_msg out_msg =
     bind_result (crypt_payload (hop_decrypt env hop) in_msg out_msg) (decrypt_layers env before None)"

definition Tunnel_EncryptTunnelMsg ::
    "BuildEnv \<Rightarrow> Tunnel \<Rightarrow> I2NPMessage option \<Rightarrow> I2NPMessage \<Rightarrow> I2NPMessage result" where
  "Tunnel_EncryptTunnelMsg env t = decrypt_layers env (rev (tc_Hops (tn_Config t)))"

section \<open>Records in a buffer\<close>

text \<open>The records of a build message as a list of blocks inside the buffer.\<close>

abbreviation records_ok :: "bytes list \<Rightarrow> bool" where
  "records_ok rs \<equiv> \<forall>r \<in> set rs. length r = 528"

lemma length_records: "records_ok rs \<Longrightarrow> length (concat rs) = 528 * length rs"
  by (induction rs) simp_all

lemma records_split:
  assumes "j < length rs" and "records_ok rs"
  shows "concat rs = concat (take j rs) @ rs ! j @ concat (drop (Suc j) rs)" "length (concat (take j rs)) = j * 528"
proof -
  have "rs = take j rs @ rs ! j # drop (Suc j) rs" by (rule id_take_nth_drop [OF assms(1)])
  then show "concat rs = concat (take j rs) @ rs ! j @ concat (drop (Suc j) rs)"
    by (metis concat.simps(2) concat_append)
  have "records_ok (take j rs)" using assms(2) by (meson in_set_takeD)
  then show "length (concat (take j rs)) = j * 528" using assms(1) by (simp add: length_records)
qed

lemma slice_record:
  assumes "length pre = p" and "j < length rs" and "records_ok rs" and "k + n \<le> 528"
  shows "slice (p + j * 528 + k) n (pre @ concat rs @ post) = slice k n (rs ! j)"
    "p + j * 528 + k + n \<le> length (pre @ concat rs @ post)"
proof -
  note s = records_split [OF assms(2,3)]
  have l: "length (rs ! j) = 528" using assms(2,3) by simp
  have "slice (p + j * 528 + k) n (pre @ concat rs @ post) = slice k n (rs ! j @ concat (drop (Suc j) rs) @ post)"
    unfolding s(1) using assms(1) s(2) by (simp add: slice_def add.assoc)
  also have "\<dots> = slice k n (rs ! j)" using assms(4) l by (simp add: slice_def)
  finally show "slice (p + j * 528 + k) n (pre @ concat rs @ post) = slice k n (rs ! j)" .
  show "p + j * 528 + k + n \<le> length (pre @ concat rs @ post)"
    using assms(1,2,4) length_records [OF assms(3)] by simp
qed

lemma poke_record:
  assumes "length pre = p" and "j < length rs" and "records_ok rs" and "k + length bs \<le> 528"
  shows "poke (p + j * 528 + k) bs (pre @ concat rs @ post) = pre @ concat (rs[j := poke k bs (rs ! j)]) @ post"
proof -
  note s = records_split [OF assms(2,3)]
  have l: "length (rs ! j) = 528" using assms(2,3) by simp
  have u: "concat (rs[j := x]) = concat (take j rs) @ x @ concat (drop (Suc j) rs)" for x
    using assms(2) by (simp add: upd_conv_take_nth_drop)
  have "poke (p + j * 528 + k) bs (pre @ concat rs @ post) =
      (pre @ concat (take j rs)) @ poke k bs (rs ! j @ concat (drop (Suc j) rs) @ post)"
    unfolding s(1) using assms(1) s(2) by (simp add: poke_def add.assoc)
  also have "poke k bs (rs ! j @ concat (drop (Suc j) rs) @ post) = poke k bs (rs ! j) @ concat (drop (Suc j) rs) @ post"
    using assms(4) l by (simp add: poke_def)
  finally show ?thesis by (simp add: u)
qed

lemma records_ok_update: "records_ok rs \<Longrightarrow> length r = 528 \<Longrightarrow> records_ok (rs[j := r])"
  using set_update_subset_insert [of rs j r] by auto

lemma read_record:
  assumes "length pre = p" and "j < length rs" and "records_ok rs"
  shows "slice (p + j * 528) 528 (pre @ concat rs @ post) = rs ! j" "p + j * 528 + 528 \<le> length (pre @ concat rs @ post)"
  using slice_record [OF assms, of 0 528] assms(2,3) by (simp_all add: slice_def)

lemma write_record:
  assumes "length pre = p" and "j < length rs" and "records_ok rs" and "length r = 528"
  shows "poke (p + j * 528) r (pre @ concat rs @ post) = pre @ concat (rs[j := r]) @ post"
proof -
  have "poke 0 r (rs ! j) = r" using assms(2-4) by (simp add: poke_def)
  then show ?thesis using poke_record [OF assms(1-3), of 0 r] assms(4) by simp
qed

section \<open>Layers of records\<close>

text \<open>Changing the records at some places, and the two orders in which the layers come off.\<close>

definition apply_at :: "nat set \<Rightarrow> (bytes \<Rightarrow> bytes) \<Rightarrow> bytes list \<Rightarrow> bytes list" where
  "apply_at S f rs = map (\<lambda>j. if j \<in> S then f (rs ! j) else rs ! j) [0..<length rs]"

fun peel :: "('h \<Rightarrow> bytes \<Rightarrow> bytes) \<Rightarrow> ('h \<Rightarrow> nat) \<Rightarrow> 'h list \<Rightarrow> bytes list \<Rightarrow> bytes list" where
  "peel dec idx [] rs = rs"
| "peel dec idx (h # hs) rs = apply_at (idx ` set hs) (dec h) (peel dec idx hs rs)"

fun undo :: "('h \<Rightarrow> bytes \<Rightarrow> bytes) \<Rightarrow> ('h \<Rightarrow> nat) \<Rightarrow> 'h list \<Rightarrow> bytes list \<Rightarrow> bytes list" where
  "undo dec idx [] rs = rs"
| "undo dec idx (h # hs) rs = undo dec idx hs (apply_at (idx ` set (h # hs)) (dec h) rs)"

lemma length_apply_at [simp]: "length (apply_at S f rs) = length rs"
  by (simp add: apply_at_def)

lemma nth_apply_at [simp]: "j < length rs \<Longrightarrow> apply_at S f rs ! j = (if j \<in> S then f (rs ! j) else rs ! j)"
  by (simp add: apply_at_def)

lemma apply_at_empty [simp]: "apply_at {} f rs = rs"
  by (rule nth_equalityI) simp_all

lemma apply_at_insert:
  "j < length rs \<Longrightarrow> j \<notin> S \<Longrightarrow> apply_at (insert j S) f rs = apply_at S f (rs[j := f (rs ! j)])"
  by (rule nth_equalityI) (auto simp: nth_list_update)

lemma length_peel [simp]: "length (peel dec idx hs rs) = length rs"
  by (induction hs) simp_all

lemma length_undo [simp]: "length (undo dec idx hs rs) = length rs"
  by (induction hs arbitrary: rs) simp_all

lemma peel_other: "j < length rs \<Longrightarrow> j \<notin> idx ` set hs \<Longrightarrow> peel dec idx hs rs ! j = rs ! j"
  by (induction hs) auto

lemma undo_other: "j < length rs \<Longrightarrow> j \<notin> idx ` set hs \<Longrightarrow> undo dec idx hs rs ! j = rs ! j"
  by (induction hs arbitrary: rs) auto

lemma undo_pointwise:
  "j < length rs \<Longrightarrow> length rs' = length rs \<Longrightarrow> rs ! j = rs' ! j \<Longrightarrow> undo dec idx hs rs ! j = undo dec idx hs rs' ! j"
  by (induction hs arbitrary: rs rs') auto

text \<open>
  What a hop does to the records: it puts its reply in the place of its record and adds its
  layer to all of them. Under the laws of a cipher, the hops behind it find what was laid out
  for them, and the creator gets the replies back.
\<close>

locale record_layers =
  fixes good :: "'e \<Rightarrow> 'h \<Rightarrow> bool" and enc dec :: "'e \<Rightarrow> 'h \<Rightarrow> bytes \<Rightarrow> bytes" and idx :: "'h \<Rightarrow> nat"
  assumes dec_enc: "good e h \<Longrightarrow> length x = 528 \<Longrightarrow> dec e h (enc e h x) = x"
    and enc_dec: "good e h \<Longrightarrow> length x = 528 \<Longrightarrow> enc e h (dec e h x) = x"
    and length_dec: "good e h \<Longrightarrow> length x = 528 \<Longrightarrow> length (dec e h x) = 528"
    and length_enc: "good e h \<Longrightarrow> length x = 528 \<Longrightarrow> length (enc e h x) = 528"
begin

lemma records_ok_apply_at: "records_ok rs \<Longrightarrow> good e h \<Longrightarrow> records_ok (apply_at S (dec e h) rs)"
  by (auto simp: apply_at_def length_dec)

lemma records_ok_peel: "\<forall>h \<in> set hs. good e h \<Longrightarrow> records_ok rs \<Longrightarrow> records_ok (peel (dec e) idx hs rs)"
proof (induction hs)
  case (Cons a hs)
  then show ?case unfolding peel.simps by (intro records_ok_apply_at) auto
qed simp

lemma records_ok_undo: "\<forall>h \<in> set hs. good e h \<Longrightarrow> records_ok rs \<Longrightarrow> records_ok (undo (dec e) idx hs rs)"
proof (induction hs arbitrary: rs)
  case (Cons a hs)
  then show ?case unfolding undo.simps by (intro Cons.IH records_ok_apply_at) auto
qed simp

lemma records_ok_processed: "good e h \<Longrightarrow> records_ok rs \<Longrightarrow> length r = 528 \<Longrightarrow> records_ok (map (enc e h) (rs[j := r]))"
  using records_ok_update [of rs r j] by (auto simp: length_enc)

lemma arrives_next:
  assumes good: "\<forall>h \<in> set (h # hs). good e h" and ok: "records_ok rs" "records_ok raws" "length rs = length raws"
    and ix: "distinct (map idx (h # hs))" "\<forall>h \<in> set (h # hs). idx h < length raws"
    and arr: "\<forall>h' \<in> set (h # hs). rs ! idx h' = peel (dec e) idx (h # hs) raws ! idx h'"
  shows "\<forall>h' \<in> set hs. map (enc e h) (rs[idx h := r]) ! idx h' = peel (dec e) idx hs raws ! idx h'"
proof
  fix h' assume h': "h' \<in> set hs"
  then have n: "idx h' < length raws" "idx h' \<noteq> idx h" using ix by (force intro: rev_image_eqI)+
  have "peel (dec e) idx hs raws ! idx h' \<in> set (peel (dec e) idx hs raws)" using n(1) by simp
  then have len: "length (peel (dec e) idx hs raws ! idx h') = 528" using records_ok_peel [of hs e raws] good ok(2) by auto
  have "rs ! idx h' = dec e h (peel (dec e) idx hs raws ! idx h')" using arr h' n by simp
  then show "map (enc e h) (rs[idx h := r]) ! idx h' = peel (dec e) idx hs raws ! idx h'"
    using n ok(3) enc_dec [OF _ len] good by (simp add: nth_list_update)
qed

lemma replies_next:
  assumes good: "good e h" and ok: "records_ok rs" and len: "length r = 528" and ix: "idx h < length rs"
    "idx h \<notin> idx ` set ps" "\<forall>p \<in> set ps. idx p < length rs"
  shows "undo (dec e) idx (h # ps) (map (enc e h) (rs[idx h := r])) ! idx h = r"
    and "p \<in> set ps \<Longrightarrow> undo (dec e) idx (h # ps) (map (enc e h) (rs[idx h := r])) ! idx p = undo (dec e) idx ps rs ! idx p"
proof -
  let ?rs = "map (enc e h) (rs[idx h := r])"
  show "undo (dec e) idx (h # ps) ?rs ! idx h = r"
    using ix len good by (simp add: undo_other dec_enc)
  assume p: "p \<in> set ps"
  have "apply_at (idx ` set (h # ps)) (dec e h) ?rs ! idx p = rs ! idx p"
    using p ix ok good by (auto simp: dec_enc nth_list_update)
  then show "undo (dec e) idx (h # ps) ?rs ! idx p = undo (dec e) idx ps rs ! idx p"
    unfolding undo.simps using p ix by (intro undo_pointwise) simp_all
qed

end
section \<open>The ciphers of the records\<close>

definition hop_dec :: "block_fun \<times> block_fun \<Rightarrow> TunnelHopConfig \<Rightarrow> bytes \<Rightarrow> bytes" where
  "hop_dec c h r = cbc_dec (snd c) (aes_reply_key (hc_AESAttributes h)) (aes_reply_IV (hc_AESAttributes h)) 33 r"

definition hop_enc :: "block_fun \<times> block_fun \<Rightarrow> TunnelHopConfig \<Rightarrow> bytes \<Rightarrow> bytes" where
  "hop_enc c h r = cbc_enc (fst c) (aes_reply_key (hc_AESAttributes h)) (aes_reply_IV (hc_AESAttributes h)) 33 r"

definition cipher_ok :: "block_fun \<times> block_fun \<Rightarrow> TunnelHopConfig \<Rightarrow> bool" where
  "cipher_ok c h \<longleftrightarrow> block_cipher (fst c) (snd c) \<and> hop_wf h"

abbreviation record_index :: "TunnelHopConfig \<Rightarrow> nat" where
  "record_index h \<equiv> nat (hc_RecordIndex h)"

interpretation hop_layers: record_layers cipher_ok hop_enc hop_dec record_index
proof
  fix c h and x :: bytes assume *: "cipher_ok c h" "length x = 528"
  then have b: "block_cipher (fst c) (snd c)" and iv: "length (aes_reply_IV (hc_AESAttributes h)) = 16"
    by (simp_all add: cipher_ok_def hop_wfD)
  show "hop_dec c h (hop_enc c h x) = x" "hop_enc c h (hop_dec c h x) = x"
    "length (hop_dec c h x) = 528" "length (hop_enc c h x) = 528"
    using *(2) iv
    by (simp_all add: hop_dec_def hop_enc_def cbc_dec_enc [OF b] cbc_enc_dec [OF b] length_cbc_dec [OF b] length_cbc_enc [OF b])
qed

lemma decrypt_record_ok:
  assumes c: "cipher_ok (E, b_decrypt env) h" and room: "p + 528 \<le> length mem"
  shows "decrypt_record env h p mem = Inr (poke p (hop_dec (E, b_decrypt env) h (slice p 528 mem)) mem)"
proof -
  let ?c = "CBCDecryption_SetIV (aes_reply_IV (hc_AESAttributes h)) (CBCDecryption_new (aes_reply_key (hc_AESAttributes h)) (replicate 16 0))"
  have b: "block_cipher E (b_decrypt env)" and iv: "length (aes_reply_IV (hc_AESAttributes h)) = 16"
    using c by (simp_all add: cipher_ok_def hop_wfD)
  have f: "m_IV ?c = aes_reply_IV (hc_AESAttributes h)" "m_DecryptionKey ?c = aes_reply_key (hc_AESAttributes h)"
    using iv by (simp_all add: CBCDecryption_SetIV_def CBCDecryption_new_def)
  obtain c' where "CBC_Decrypt (b_UsingAESNI env) (b_decrypt env) p 528 p ?c mem =
      Inr (c', poke p (hop_dec (E, b_decrypt env) h (slice p 528 mem)) mem)"
    using CBC_Decrypt_spec [OF b, of ?c p 528 mem p "b_UsingAESNI env"] iv room by (auto simp: f hop_dec_def)
  then show ?thesis by (simp add: decrypt_record_def TUNNEL_BUILD_RECORD_SIZE_def)
qed

lemma decrypt_in_list:
  assumes c: "cipher_ok (E, b_decrypt env) h" and "length pre = p" "j < length rs" "records_ok rs"
  shows "decrypt_record env h (p + j * 528) (pre @ concat rs @ post) =
    Inr (pre @ concat (rs[j := hop_dec (E, b_decrypt env) h (rs ! j)]) @ post)"
proof -
  have "length (hop_dec (E, b_decrypt env) h (rs ! j)) = 528"
    using hop_layers.length_dec [OF c] assms(3,4) by simp
  then show ?thesis
    using decrypt_record_ok [OF c read_record(2) [OF assms(2-4), of post]] write_record [OF assms(2-4)]
      read_record(1) [OF assms(2-4), of post] by simp
qed

text \<open>One hop's layer taken off the records of some hops.\<close>

lemma fold_decrypt:
  assumes c: "cipher_ok (E, b_decrypt env) h"
    and step: "\<And>rs h1. h1 \<in> set hs \<Longrightarrow> records_ok rs \<Longrightarrow> length rs = n \<Longrightarrow>
      f (pre @ concat rs @ post) h1 = decrypt_record env h (length pre + record_index h1 * 528) (pre @ concat rs @ post)"
  shows "records_ok rs \<Longrightarrow> length rs = n \<Longrightarrow> distinct (map record_index hs) \<Longrightarrow> \<forall>h1 \<in> set hs. record_index h1 < n \<Longrightarrow>
    fold_result f (pre @ concat rs @ post) hs =
      Inr (pre @ concat (apply_at (record_index ` set hs) (hop_dec (E, b_decrypt env) h) rs) @ post)"
  using step
proof (induction hs arbitrary: rs)
  case (Cons h1 hs)
  let ?d = "hop_dec (E, b_decrypt env) h" let ?rs = "rs[record_index h1 := ?d (rs ! record_index h1)]"
  have j: "record_index h1 < length rs" "record_index h1 \<notin> record_index ` set hs" using Cons.prems by auto
  have len: "length (?d (rs ! record_index h1)) = 528" using hop_layers.length_dec [OF c] j(1) Cons.prems(1) by simp
  have s: "f (pre @ concat rs @ post) h1 = Inr (pre @ concat ?rs @ post)"
    using Cons.prems(5) [of h1 rs] decrypt_in_list [OF c refl j(1) Cons.prems(1)] Cons.prems(1,2) by simp
  have ok: "records_ok ?rs" by (rule records_ok_update [OF Cons.prems(1) len])
  have "fold_result f (pre @ concat ?rs @ post) hs = Inr (pre @ concat (apply_at (record_index ` set hs) ?d ?rs) @ post)"
    using Cons.prems ok by (intro Cons.IH) auto
  then show ?case using s apply_at_insert [OF j] by simp
qed simp

lemma decrypt_records_ok:
  assumes p: "length pre = p"
  shows "records_ok rs \<Longrightarrow> \<forall>h \<in> set hs. cipher_ok (E, b_decrypt env) h \<Longrightarrow> distinct (map record_index hs) \<Longrightarrow>
    \<forall>h \<in> set hs. record_index h < length rs \<Longrightarrow>
    decrypt_records env p hs (pre @ concat rs @ post) =
      Inr (pre @ concat (peel (hop_dec (E, b_decrypt env)) record_index hs rs) @ post)"
proof (induction hs)
  case (Cons h hs)
  let ?rs = "peel (hop_dec (E, b_decrypt env)) record_index hs rs"
  have ok: "records_ok ?rs" by (rule hop_layers.records_ok_peel) (use Cons.prems in auto)
  have "decrypt_records env p hs (pre @ concat rs @ post) = Inr (pre @ concat ?rs @ post)" using Cons by auto
  moreover have "fold_result (decrypt_later env p h) (pre @ concat ?rs @ post) hs =
      Inr (pre @ concat (apply_at (record_index ` set hs) (hop_dec (E, b_decrypt env) h) ?rs) @ post)"
    using Cons.prems ok
    by (intro fold_decrypt [where n = "length rs"]) (auto simp: decrypt_later_def p TUNNEL_BUILD_RECORD_SIZE_def)
  ultimately show ?case by simp
qed simp
section \<open>The build request\<close>

text \<open>The clear text of the \<open>i\<close>th hop and its record before any layer is taken off.\<close>

definition hop_text :: "BuildEnv \<Rightarrow> u32 \<Rightarrow> nat \<Rightarrow> TunnelHopConfig list \<Rightarrow> bytes" where
  "hop_text env reply i hops =
     clear_text (hops ! i) (b_hours env) (b_padding env i) (if Suc i < length hops then b_reply_ids env i else reply)"

definition hop_record :: "BuildEnv \<Rightarrow> u32 \<Rightarrow> nat \<Rightarrow> TunnelHopConfig list \<Rightarrow> bytes" where
  "hop_record env reply i hops =
     take 16 (r_IdentHash (hc_CurrentRouter (hops ! i))) @ r_Encrypt (hc_CurrentRouter (hops ! i)) (hop_text env reply i hops)"

definition at_index :: "TunnelHopConfig \<Rightarrow> nat \<Rightarrow> TunnelHopConfig" where
  "at_index h idx = h\<lparr>hc_RecordIndex := int idx\<rparr>"

lemma at_index_fields [simp]:
  "record_index (at_index h idx) = idx" "hc_RecordIndex (at_index h idx) = int idx" "hop_wf (at_index h idx) = hop_wf h"
  "cipher_ok c (at_index h idx) = cipher_ok c h" "hc_CurrentRouter (at_index h idx) = hc_CurrentRouter h"
  "clear_text (at_index h idx) = clear_text h" "hc_AESAttributes (at_index h idx) = hc_AESAttributes h"
  "hc_TunnelID (at_index h idx) = hc_TunnelID h" "hc_NextTunnelID (at_index h idx) = hc_NextTunnelID h"
  "next_ident (at_index h idx) = next_ident h" "hc_IsGateway (at_index h idx) = hc_IsGateway h"
  "hc_IsEndpoint (at_index h idx) = hc_IsEndpoint h"
  by (simp_all add: at_index_def cipher_ok_def hop_wf_def clear_text_def next_ident_def hop_flag_def fun_eq_iff)

lemma indexed_hops:
  assumes "distinct indices" "set indices = {..<N}" "length indices = N" "length hops \<le> N"
    and "\<forall>h \<in> set hops. cipher_ok c h" and hops': "hops' = map2 at_index hops indices"
  shows "length hops' = length hops" "k < length hops \<Longrightarrow> hops' ! k = at_index (hops ! k) (indices ! k)"
    "distinct (map record_index hops')" "\<forall>h \<in> set hops'. cipher_ok c h \<and> 0 \<le> hc_RecordIndex h \<and> record_index h < N"
proof -
  show l: "length hops' = length hops" and n: "k < length hops \<Longrightarrow> hops' ! k = at_index (hops ! k) (indices ! k)" for k
    using assms(3,4) by (simp_all add: hops')
  have ixs: "map record_index hops' = take (length hops) indices" using l assms(3,4) by (intro nth_equalityI) (simp_all add: n)
  show "distinct (map record_index hops')" unfolding ixs using assms(1) by simp
  have "set (map record_index hops') \<subseteq> {..<N}" unfolding ixs using assms(2) set_take_subset [of "length hops" indices] by simp
  then show "\<forall>h \<in> set hops'. cipher_ok c h \<and> 0 \<le> hc_RecordIndex h \<and> record_index h < N"
    using assms(5) by (auto simp: hops' dest: set_zip_leftD)
qed

definition build_env_ok :: "BuildEnv \<Rightarrow> bool" where
  "build_env_ok env \<longleftrightarrow> (\<forall>i. length (b_padding env i) = 29 \<and> length (b_fake env i) = 528) \<and>
     (\<forall>xs. distinct xs \<longrightarrow> distinct (b_shuffle env xs) \<and> set (b_shuffle env xs) = set xs)"

lemma length_hop_record:
  "build_env_ok env \<Longrightarrow> i < length hops \<Longrightarrow> hop_wf (hops ! i) \<Longrightarrow> length (hop_record env reply i hops) = 528"
  by (simp add: hop_record_def hop_text_def hop_wfD length_clear_text build_env_ok_def)

lemma create_records_ok:
  assumes env: "build_env_ok env" and p: "length pre = p" and all: "\<forall>h \<in> set hops. hop_wf h"
    and ix: "distinct indices" "set indices \<subseteq> {..<N}" "length hops \<le> length indices"
  shows "i + length rest = length hops \<Longrightarrow> rest = drop i hops \<Longrightarrow> records_ok rs \<Longrightarrow> length rs = N \<Longrightarrow>
    \<exists>rs'. create_records env indices p reply i rest (pre @ concat rs @ post) =
        Inr (map2 at_index rest (drop i indices), pre @ concat rs' @ post) \<and> records_ok rs' \<and> length rs' = N \<and>
      (\<forall>k < length hops. rs' ! (indices ! k) = (if k < i then rs ! (indices ! k) else hop_record env reply k hops))"
proof (induction rest arbitrary: i rs)
  case Nil
  then show ?case by (intro exI [of _ rs]) auto
next
  case (Cons h rest)
  have "i < length hops" using Cons.prems(1) by simp
  moreover from this have "h # rest = hops ! i # drop (i + 1) hops"
    unfolding Cons.prems(2) by (simp add: Cons_nth_drop_Suc)
  ultimately have i: "i < length hops" "h = hops ! i" "rest = drop (i + 1) hops" by simp_all
  let ?ix = "indices ! i" let ?r = "hop_record env reply i hops" let ?rs = "rs[?ix := ?r]"
  have wf: "hop_wf h" using all i by auto
  have ixi: "i < length indices" "?ix < length rs" using i(1) ix(2,3) Cons.prems(4) by (auto simp: subset_iff)
  have len: "length ?r = 528" using length_hop_record [OF env i(1)] wf i(2) by simp
  have last: "(if rest \<noteq> [] then b_reply_ids env i else reply) = (if Suc i < length hops then b_reply_ids env i else reply)"
    using i(1,3) by auto
  have "CreateBuildRequestRecord (b_hours env) (b_padding env i) h (p + ?ix * 528)
      (if rest \<noteq> [] then b_reply_ids env i else reply) (pre @ concat rs @ post) = Inr (pre @ concat ?rs @ post)"
    using CreateBuildRequestRecord_eq [OF wf _ read_record(2) [OF p ixi(2) Cons.prems(3), of post]]
      write_record [OF p ixi(2) Cons.prems(3) len] env last i(2)
    by (simp add: build_env_ok_def hop_record_def hop_text_def)
  moreover have ok: "records_ok ?rs" by (rule records_ok_update [OF Cons.prems(3) len])
  moreover obtain rs' where rs': "create_records env indices p reply (i + 1) rest (pre @ concat ?rs @ post) =
        Inr (map2 at_index rest (drop (i + 1) indices), pre @ concat rs' @ post)" "records_ok rs'" "length rs' = N"
      "\<forall>k < length hops. rs' ! (indices ! k) = (if k < i + 1 then ?rs ! (indices ! k) else hop_record env reply k hops)"
  proof -
    have "i + 1 + length rest = length hops" "length ?rs = N" using Cons.prems(1,4) by simp_all
    from Cons.IH [OF this(1) i(3) ok this(2)] that show ?thesis by blast
  qed
  moreover have "drop i indices = ?ix # drop (i + 1) indices" using ixi(1) by (simp add: Cons_nth_drop_Suc)
  moreover have "rs' ! (indices ! k) = (if k < i then rs ! (indices ! k) else hop_record env reply k hops)"
    if "k < length hops" for k
  proof -
    have "?rs ! (indices ! k) = (if k = i then ?r else rs ! (indices ! k))"
      using that ixi ix(1,3) by (simp add: nth_list_update nth_eq_iff_index_eq)
    then show ?thesis using rs'(4) that by (cases "k = i") (simp_all add: less_Suc_eq)
  qed
  ultimately show ?case
    using ixi(1) by (intro exI [of _ rs']) (simp add: peek_def TUNNEL_BUILD_RECORD_SIZE_def at_index_def)
qed

lemma fake_records_ok:
  assumes env: "build_env_ok env" and p: "length pre = p"
    and ix: "distinct indices" "set indices \<subseteq> {..<N}" "length indices = N"
  shows "records_ok rs \<Longrightarrow> length rs = N \<Longrightarrow> i \<le> N \<Longrightarrow>
    \<exists>rs'. fold_result (fake_record env indices p) (pre @ concat rs @ post) [i..<N] = Inr (pre @ concat rs' @ post) \<and>
      records_ok rs' \<and> length rs' = N \<and> (\<forall>k < i. rs' ! (indices ! k) = rs ! (indices ! k)) \<and>
      (\<forall>k. i \<le> k \<and> k < N \<longrightarrow> rs' ! (indices ! k) = b_fake env k)"
proof (induction "N - i" arbitrary: i rs)
  case 0
  then show ?case by (intro exI [of _ rs]) auto
next
  case (Suc m)
  let ?ix = "indices ! i" let ?rs = "rs[?ix := b_fake env i]"
  have i: "i < N" "?ix < length rs" using Suc.hyps(2) Suc.prems(2) ix(2,3) by (auto simp: subset_iff)
  have len: "length (b_fake env i) = 528" using env by (simp add: build_env_ok_def)
  have s: "fake_record env indices p (pre @ concat rs @ post) i = Inr (pre @ concat ?rs @ post)"
    using i ix(3) len write_record [OF p i(2) Suc.prems(1) len, of post] read_record(2) [OF p i(2) Suc.prems(1), of post]
    by (simp add: fake_record_def peek_def TUNNEL_BUILD_RECORD_SIZE_def mem_write_def)
  obtain rs' where rs': "fold_result (fake_record env indices p) (pre @ concat ?rs @ post) [i + 1..<N] = Inr (pre @ concat rs' @ post)"
      "records_ok rs'" "length rs' = N" "\<forall>k < i + 1. rs' ! (indices ! k) = ?rs ! (indices ! k)"
      "\<forall>k. i + 1 \<le> k \<and> k < N \<longrightarrow> rs' ! (indices ! k) = b_fake env k"
  proof -
    have "m = N - (i + 1)" "length ?rs = N" "i + 1 \<le> N" using Suc.hyps(2) Suc.prems i(1) by simp_all
    from Suc.hyps(1) [OF this(1) records_ok_update [OF Suc.prems(1) len] this(2,3)] that show ?thesis by blast
  qed
  have old: "?rs ! (indices ! k) = rs ! (indices ! k)" if "k < i" for k
    using that i(1) ix(1,3) by (subst nth_list_update_neq) (auto simp: nth_eq_iff_index_eq)
  have "\<forall>k < i. rs' ! (indices ! k) = rs ! (indices ! k)" using rs'(4) old by simp
  moreover have "rs' ! (indices ! k) = b_fake env k" if "i \<le> k" "k < N" for k
    using rs'(4,5) that i(2) by (cases "k = i") simp_all
  moreover have "[i..<N] = i # [i + 1..<N]" using i(1) by (simp add: upt_conv_Cons)
  ultimately show ?case using s rs'(1-3) by (intro exI [of _ rs']) simp
qed
definition build_msg_of :: "build_action \<Rightarrow> I2NPMessage" where
  "build_msg_of a = (case a of BuildDirect _ m \<Rightarrow> m | BuildThrough _ _ _ m \<Rightarrow> m)"

definition num_records :: "TunnelHopConfig list \<Rightarrow> nat" where
  "num_records hops = max 4 (length hops)"

lemma shuffled:
  assumes "build_env_ok env"
  shows "distinct (b_shuffle env [0..<N])" "set (b_shuffle env [0..<N]) = {..<N}" "length (b_shuffle env [0..<N]) = N"
proof -
  show d: "distinct (b_shuffle env [0..<N])" and s: "set (b_shuffle env [0..<N]) = {..<N}"
    using assms by (auto simp: build_env_ok_def)
  show "length (b_shuffle env [0..<N]) = N" using distinct_card [OF d] s by simp
qed

lemma new_short_message:
  "msg_offset NewI2NPShortMessage = 2" "msg_len NewI2NPShortMessage = 18" "msg_buf NewI2NPShortMessage = replicate 4112 0"
  by (simp_all add: NewI2NPShortMessage_def I2NPMessageBuffer_def i2np_sizes del: replicate.simps)

lemma zero_records:
  assumes "N \<le> 7"
  shows "poke 18 [b :: byte] (replicate 4112 0) =
    (replicate 18 0 @ [b]) @ concat (replicate N (replicate 528 0)) @ replicate (4093 - N * 528) 0"
proof -
  have c: "concat (replicate N (replicate 528 (0 :: byte))) = replicate (N * 528) 0"
    by (induction N) (simp_all add: replicate_add)
  have "replicate (N * 528) 0 @ replicate (4093 - N * 528) (0 :: byte) = replicate 4093 0"
    using assms by (simp add: replicate_add [symmetric] del: replicate.simps)
  then show ?thesis unfolding c by (simp add: poke_def take_replicate drop_replicate del: replicate.simps)
qed

lemma Build_ok:
  assumes env: "build_env_ok env" and hops: "tc_Hops (tn_Config t) = hops" "hops \<noteq> []" "length hops \<le> 7"
    and wf: "\<forall>h \<in> set hops. cipher_ok (E, b_decrypt env) h"
    and ix: "indices = b_shuffle env [0..<num_records hops]" and hops': "hops' = map2 at_index hops indices"
  shows "\<exists>act rs. Build env reply ob t = Inr (t\<lparr>tn_Config := \<lparr>tc_Hops = hops'\<rparr>\<rparr>, act) \<and>
    payload_bytes (build_msg_of act) =
      word_of_nat (num_records hops) # concat (peel (hop_dec (E, b_decrypt env)) record_index hops' rs) \<and>
    records_ok rs \<and> length rs = num_records hops \<and>
    (\<forall>k < length hops. rs ! (indices ! k) = hop_record env reply k hops) \<and>
    (\<forall>k. length hops \<le> k \<and> k < num_records hops \<longrightarrow> rs ! (indices ! k) = b_fake env k)"
proof -
  let ?N = "num_records hops" let ?n = "length hops" let ?b = "word_of_nat ?N :: byte"
  let ?pre = "replicate 18 0 @ [?b]" let ?post = "replicate (4093 - ?N * 528) (0 :: byte)"
  let ?peel = "peel (hop_dec (E, b_decrypt env)) record_index hops'"
  note sh = shuffled [OF env, of ?N, folded ix]
  have N: "?N \<le> 7" "?n \<le> ?N" using hops(3) by (simp_all add: num_records_def)
  have Nif: "(if ?n \<le> STANDARD_NUM_RECORDS then STANDARD_NUM_RECORDS else ?n) = ?N"
    by (simp add: STANDARD_NUM_RECORDS_def num_records_def)
  have pre: "length ?pre = 19" by simp
  have z: "records_ok (replicate ?N (replicate 528 0))" by (simp del: replicate.simps)
  have hwf: "\<forall>h \<in> set hops. hop_wf h" using wf by (simp add: cipher_ok_def)
  obtain rs1 where rs1: "create_records env indices 19 reply 0 hops (?pre @ concat (replicate ?N (replicate 528 0)) @ ?post) =
        Inr (hops', ?pre @ concat rs1 @ ?post)" "records_ok rs1" "length rs1 = ?N"
      "\<forall>k < ?n. rs1 ! (indices ! k) = hop_record env reply k hops"
    using create_records_ok [OF env pre hwf sh(1) _ _ _ _ z, where N = ?N and i = 0 and reply = reply and post = ?post] sh N(2)
    by (auto simp: hops' simp del: replicate.simps)
  obtain rs2 where rs2: "fold_result (fake_record env indices 19) (?pre @ concat rs1 @ ?post) [?n..<?N] = Inr (?pre @ concat rs2 @ ?post)"
      "records_ok rs2" "length rs2 = ?N" "\<forall>k < ?n. rs2 ! (indices ! k) = rs1 ! (indices ! k)"
      "\<forall>k. ?n \<le> k \<and> k < ?N \<longrightarrow> rs2 ! (indices ! k) = b_fake env k"
    using fake_records_ok [OF env pre sh(1) _ sh(3) rs1(2,3) N(2), of ?post] sh(2) by auto
  note ih = indexed_hops [OF sh N(2) wf hops']
  have h': "hops' \<noteq> []" "\<forall>h \<in> set hops'. cipher_ok (E, b_decrypt env) h" "\<forall>h \<in> set hops'. record_index h < length rs2"
    using ih(1,4) hops(2) rs2(3) by auto
  note dr = decrypt_records_ok [OF pre rs2(2) h'(2) ih(3) h'(3), of ?post]
  have pok: "records_ok (?peel rs2)" by (rule hop_layers.records_ok_peel [OF h'(2) rs2(2)])
  define m where "m = NewI2NPShortMessage\<lparr>msg_len := 18 + ?N * 528 + 1, msg_buf := ?pre @ concat (?peel rs2) @ ?post\<rparr>"
  have "528 * ?N + length ?post = 4093" using N(1) by simp
  then have ml: "length (msg_buf m) = 4112" using length_records [OF pok] rs2(3) by (simp add: m_def)
  have mok: "msg_ok m" using ml N(1) by (simp add: msg_ok_def i2np_sizes) (simp add: m_def new_short_message)
  obtain m3 where m3: "FillI2NPMessageHeader (b_sha256 env) (b_rnd env) (b_now env) I2NPVariableTunnelBuild 0 m = Inr m3"
    using FillI2NPMessageHeader_eq [OF mok] by blast
  obtain ident where id: "GetNextIdentHash t = Inr ident"
    using hops(1,2) by (cases hops) (auto simp: GetNextIdentHash_def GetFirstHop_def)
  let ?act = "case ob of Some tunnel \<Rightarrow> BuildThrough tunnel ident 0 m3 | None \<Rightarrow> BuildDirect ident m3"
  have "payload_bytes m = slice 18 (1 + ?N * 528) (?pre @ concat (?peel rs2) @ ?post)"
    by (simp add: payload_bytes_def msg_accessors m_def new_short_message size_sub_def)
  also have "\<dots> = ?b # concat (?peel rs2)" using length_records [OF pok] rs2(3) by (simp add: slice_def)
  finally have "payload_bytes m3 = ?b # concat (?peel rs2)" using FillI2NPMessageHeader_fields(5) [OF mok m3] by simp
  moreover have "build_msg_of ?act = m3" by (simp add: build_msg_of_def split: option.split)
  moreover have "Build env reply ob t = Inr (t\<lparr>tn_Config := \<lparr>tc_Hops = hops'\<rparr>\<rparr>, ?act)"
  proof -
    have "put 18 [?b] NewI2NPShortMessage =
        Inr (NewI2NPShortMessage\<lparr>msg_buf := ?pre @ concat (replicate ?N (replicate 528 0)) @ ?post\<rparr>)"
      unfolding zero_records [OF N(1), symmetric] by (subst put_eq) (simp_all add: new_short_message put_at_def)
    then show ?thesis
      using rs1(1) rs2(1) dr m3 id h'(1) ix hops(1)
      by (simp add: Build_def GetNumHops_def Nif msg_accessors new_short_message m_def TUNNEL_BUILD_RECORD_SIZE_def Let_def
          del: replicate.simps cong: if_cong)
  qed
  ultimately show ?thesis using rs2 rs1(4) by (intro exI [of _ ?act] exI [of _ rs2]) simp
qed
section \<open>A hop\<close>

text \<open>
  The router of a hop: it has the private key of its identity, encrypts records in CBC mode
  under the block transformation \<open>E\<close>, and its digest and padding have their sizes.
\<close>

definition serves :: "block_fun \<Rightarrow> RouterEnv \<Rightarrow> TunnelHopConfig \<Rightarrow> bool" where
  "serves E env h \<longleftrightarrow> e_own_ident env = r_IdentHash (hc_CurrentRouter h) \<and>
     (\<forall>c. length c = 222 \<longrightarrow> e_elgamal env (r_Encrypt (hc_CurrentRouter h) c) = c) \<and>
     (\<forall>k iv r. length iv = 16 \<longrightarrow> length r = 528 \<longrightarrow> e_cbc env k iv r = cbc_enc E k iv 33 r) \<and>
     length (e_padding env) = 495 \<and> (\<forall>b. length (e_sha256 env b) = 32)"

definition reply_status :: "RouterEnv \<Rightarrow> u8" where
  "reply_status env = (if accepts_transit env then 0 else 30)"

definition hop_reply :: "RouterEnv \<Rightarrow> bytes" where
  "hop_reply env = (let body = e_padding env @ [reply_status env] in e_sha256 env body @ body)"

definition hop_request :: "TunnelHopConfig \<Rightarrow> TransitTunnelRequest" where
  "hop_request h =
     \<lparr>tt_receive_tunnel = hc_TunnelID h, tt_next_ident = next_ident h, tt_next_tunnel = hc_NextTunnelID h,
      tt_layer_key = aes_layer_key (hc_AESAttributes h), tt_iv_key = aes_IV_key (hc_AESAttributes h),
      tt_is_gateway = hc_IsGateway h, tt_is_endpoint = hc_IsEndpoint h\<rparr>"

lemma reply_status_0: "reply_status env = 0 \<longleftrightarrow> accepts_transit env"
  by (simp add: reply_status_def)

lemma hop_reply_fields:
  assumes "serves E env h"
  shows "length (hop_reply env) = 528" "hop_reply env ! 527 = reply_status env"
  using assms by (simp_all add: hop_reply_def serves_def Let_def nth_append)

lemma encrypt_all:
  assumes "\<And>r. length r = 528 \<Longrightarrow> cbc key iv r = f r" and "\<And>r. length r = 528 \<Longrightarrow> length (f r) = 528" and "records_ok rs"
  shows "n \<le> length rs \<Longrightarrow>
    fold_result (encrypt_record cbc key iv) (concat rs @ post) [0..<n] = Inr (concat (map f (take n rs) @ drop n rs) @ post)"
proof (induction n)
  case (Suc n)
  let ?rs = "map f (take n rs) @ drop n rs"
  have n: "n < length rs" "length ?rs = length rs" "length (take n rs) = n" using Suc.prems by simp_all
  have ok: "records_ok ?rs" using assms(2,3) by (auto dest: in_set_takeD in_set_dropD)
  have rd: "?rs ! n = rs ! n" "length (rs ! n) = 528" using n assms(3) by (simp_all add: nth_append)
  have u: "?rs[n := f (rs ! n)] = map f (take (Suc n) rs) @ drop (Suc n) rs"
    using n by (simp add: list_update_append take_Suc_conv_app_nth Cons_nth_drop_Suc [symmetric])
  have "encrypt_record cbc key iv (concat ?rs @ post) n = Inr (concat (map f (take (Suc n) rs) @ drop (Suc n) rs) @ post)"
    unfolding u [symmetric]
    using read_record [of "[]" 0 n ?rs post] write_record [of "[]" 0 n ?rs "f (rs ! n)" post] n ok rd assms(1,2)
    by (simp add: encrypt_record_def TUNNEL_BUILD_RECORD_SIZE_def mem_read_def mem_write_def)
  then show ?case using Suc by (simp add: fold_result_append)
qed simp

lemma poke_reply:
  assumes "length r = 528" and "length p = 495" and "length s = 32"
  shows "poke 32 p (poke 527 [st] r) = take 32 r @ p @ [st]" "slice 32 496 (take 32 r @ p @ [st]) = p @ [st]"
    "poke 0 s (take 32 r @ p @ [st]) = s @ p @ [st]"
proof -
  show "poke 32 p (poke 527 [st] r) = take 32 r @ p @ [st]"
    using assms by (intro nth_equalityI) (auto simp: nth_poke nth_append)
qed (use assms in \<open>simp_all add: slice_def poke_def\<close>)

lemma own_record_list:
  assumes "records_ok rs" and "i < length rs" and "take 16 (rs ! i) = take 16 own"
    and "\<forall>j < length rs. j \<noteq> i \<longrightarrow> take 16 (rs ! j) \<noteq> take 16 own"
  shows "own_record own [0..<length rs] (concat rs @ post) = Inr (Some i)"
proof -
  have "length rs * TUNNEL_BUILD_RECORD_SIZE \<le> length (concat rs @ post)"
    using length_records [OF assms(1)] by (simp add: TUNNEL_BUILD_RECORD_SIZE_def)
  note f = own_record_found [OF this, of own]
  have s: "slice (j * TUNNEL_BUILD_RECORD_SIZE) 16 (concat rs @ post) = take 16 (rs ! j)" if "j < length rs" for j
    using slice_record(1) [of "[]" 0 j rs 0 16 post] that assms(1) by (simp add: TUNNEL_BUILD_RECORD_SIZE_def slice_def)
  have "find (\<lambda>j. slice (j * TUNNEL_BUILD_RECORD_SIZE) 16 (concat rs @ post) = take 16 own) [0..<length rs] = Some i"
    unfolding find_Some_iff using assms(2-4) s by (intro exI [of _ i]) auto
  then show ?thesis using f by simp
qed

lemma build_records_list:
  assumes c: "cipher_ok (E, D) h" and sv: "serves E env h" and p: "length padding = 29" and rs: "records_ok rs" "i < length rs"
    and own: "rs ! i = take 16 (r_IdentHash (hc_CurrentRouter h)) @ r_Encrypt (hc_CurrentRouter h) (clear_text h hours padding mid)"
    and clash: "\<forall>j < length rs. j \<noteq> i \<longrightarrow> take 16 (rs ! j) \<noteq> take 16 (e_own_ident env)"
  shows "build_records env (length rs) (concat rs @ post) =
    Inr (True, concat (map (hop_enc (E, D) h) (rs[i := hop_reply env])) @ post, clear_text h hours padding mid,
      if accepts_transit env then Some (hop_request h) else None)"
proof -
  let ?c = "clear_text h hours padding mid" let ?r = "rs ! i" let ?st = "reply_status env" let ?sha = "e_sha256 env"
  let ?pad = "e_padding env" let ?rs2 = "rs[i := take 32 ?r @ ?pad @ [?st]]"
  have h: "hop_wf h" using c by (simp add: cipher_ok_def)
  have s: "length (?sha b) = 32" "length ?pad = 495" for b using sv by (simp_all add: serves_def)
  have r: "length ?r = 528" using rs by simp
  have lc: "length ?c = 222" by (rule length_clear_text [OF h p])
  have "own_record (e_own_ident env) [0..<length rs] (concat rs @ post) = Inr (Some i)"
    using sv hop_wfD(1) [OF h] clash by (intro own_record_list [OF rs]) (simp_all add: own serves_def)
  moreover have "mem_read (i * 528 + 16) 512 (concat rs @ post) = Inr (r_Encrypt (hc_CurrentRouter h) ?c)"
    using slice_record [of "[]" 0 i rs 16 512 post] rs hop_wfD(1) [OF h] hop_wfD(7) [OF h lc]
    by (simp add: mem_read_def own slice_def)
  moreover have "e_elgamal env (r_Encrypt (hc_CurrentRouter h) ?c) = ?c" using sv lc by (simp add: serves_def)
  moreover have "mem_write (i * 528 + 527) [?st] (concat rs @ post) = Inr (concat (rs[i := poke 527 [?st] ?r]) @ post)"
    using slice_record(2) [of "[]" 0 i rs 527 1 post] poke_record [of "[]" 0 i rs 527 "[?st]" post] rs by (simp add: mem_write_def)
  moreover have "mem_write (i * 528 + 32) ?pad (concat (rs[i := poke 527 [?st] ?r]) @ post) = Inr (concat ?rs2 @ post)"
  proof -
    have "records_ok (rs[i := poke 527 [?st] ?r])" using r by (intro records_ok_update [OF rs(1)]) simp
    then show ?thesis
      using slice_record(2) [of "[]" 0 i "rs[i := poke 527 [?st] ?r]" 32 495 post] s(2) rs(2)
        poke_record [of "[]" 0 i "rs[i := poke 527 [?st] ?r]" 32 ?pad post] poke_reply(1) [OF r s(2) s(1)] by (simp add: mem_write_def)
  qed
  moreover have ok2: "records_ok ?rs2" using r s(2) by (intro records_ok_update [OF rs(1)]) simp
  moreover have "mem_read (i * 528 + 32) 496 (concat ?rs2 @ post) = Inr (?pad @ [?st])"
    using slice_record [of "[]" 0 i ?rs2 32 496 post] ok2 rs(2) poke_reply(2) [OF r s(2) s(1)] by (simp add: mem_read_def)
  moreover have "mem_write (i * 528) (?sha (?pad @ [?st])) (concat ?rs2 @ post) = Inr (concat (rs[i := hop_reply env]) @ post)"
    using slice_record(2) [of "[]" 0 i ?rs2 0 32 post] poke_record [of "[]" 0 i ?rs2 0 "?sha (?pad @ [?st])" post] ok2 rs(2) s(1)
      poke_reply(3) [OF r s(2) s(1)] by (simp add: mem_write_def hop_reply_def Let_def)
  moreover have "mem_read 136 32 ?c = Inr (aes_reply_key (hc_AESAttributes h))" "mem_read 168 16 ?c = Inr (aes_reply_IV (hc_AESAttributes h))"
    using clear_text_parts(6,7) [OF h p refl, of hours mid] lc by (simp_all add: mem_read_def)
  moreover have "fold_result (encrypt_record (e_cbc env) (aes_reply_key (hc_AESAttributes h)) (aes_reply_IV (hc_AESAttributes h)))
      (concat (rs[i := hop_reply env]) @ post) [0..<length rs] = Inr (concat (map (hop_enc (E, D) h) (rs[i := hop_reply env])) @ post)"
    using encrypt_all [of "e_cbc env" "aes_reply_key (hc_AESAttributes h)" "aes_reply_IV (hc_AESAttributes h)" "hop_enc (E, D) h"
        "rs[i := hop_reply env]" "length rs" post] sv hop_wfD(6) [OF h] hop_layers.length_enc [OF c]
      records_ok_update [OF rs(1) hop_reply_fields(1) [OF sv], of i]
    by (simp add: serves_def hop_enc_def)
  ultimately show ?thesis
    using transit_request_clear_text [OF h p, of hours mid]
    by (simp add: build_records_def HandleBuildRequestRecords_def TUNNEL_BUILD_RECORD_SIZE_def Let_def hop_request_def
        reply_status_def cong: if_cong)
qed
section \<open>The reply at the creator\<close>

lemma decrypt_replies_ok:
  assumes num: "unat num = N"
  shows "records_ok rs \<Longrightarrow> length rs = N \<Longrightarrow> \<forall>h \<in> set hs. cipher_ok (E, b_decrypt env) h \<and> 0 \<le> hc_RecordIndex h \<and> record_index h < N \<Longrightarrow>
    distinct (map record_index hs) \<Longrightarrow>
    decrypt_replies env hs (num # concat rs @ post) =
      Inr (num # concat (undo (hop_dec (E, b_decrypt env)) record_index hs rs) @ post)"
proof (induction hs arbitrary: rs)
  case (Cons h hs)
  let ?d = "hop_dec (E, b_decrypt env) h" let ?rs = "apply_at (record_index ` set (h # hs)) ?d rs"
  have c: "cipher_ok (E, b_decrypt env) h" using Cons.prems(3) by simp
  have "fold_result (decrypt_reply env h) ([num] @ concat rs @ post) (h # hs) = Inr ([num] @ concat ?rs @ post)"
  proof (rule fold_decrypt [OF c _ Cons.prems(1,2,4)])
    show "\<forall>h1 \<in> set (h # hs). record_index h1 < N" using Cons.prems(3) by simp
    fix rs :: "bytes list" and h1 assume "h1 \<in> set (h # hs)"
    then have h1: "0 \<le> hc_RecordIndex h1" "record_index h1 < N" using Cons.prems(3) by auto
    then have "hc_RecordIndex h1 < uint num" using num by (simp add: uint_nat nat_less_iff)
    then show "decrypt_reply env h ([num] @ concat rs @ post) h1 =
        decrypt_record env h (length [num] + record_index h1 * 528) ([num] @ concat rs @ post)"
      using h1 by (simp add: decrypt_reply_def peek_def TUNNEL_BUILD_RECORD_SIZE_def)
  qed
  moreover have "decrypt_replies env hs (num # concat ?rs @ post) = Inr (num # concat (undo (hop_dec (E, b_decrypt env)) record_index hs ?rs) @ post)"
    using Cons.prems hop_layers.records_ok_apply_at [OF Cons.prems(1) c] by (intro Cons.IH) auto
  ultimately show ?case by simp
qed simp

lemma reply_codes_ok:
  assumes "records_ok rs" and "\<forall>h \<in> set hops. 0 \<le> hc_RecordIndex h \<and> record_index h < length rs"
  shows "reply_codes (num # concat rs @ post) b hops =
    Inr (b \<and> (\<forall>h \<in> set hops. rs ! record_index h ! 527 = 0), map (\<lambda>h. (hc_CurrentRouter h, rs ! record_index h ! 527)) hops)"
  using assms(2)
proof (induction hops arbitrary: b)
  case (Cons h hops)
  let ?j = "record_index h"
  have j: "?j < length rs" "0 \<le> hc_RecordIndex h" using Cons.prems by simp_all
  have "slice (1 + ?j * 528 + 527) 1 ([num] @ concat rs @ post) = slice 527 1 (rs ! ?j)"
    and room: "1 + ?j * 528 + 527 + 1 \<le> length ([num] @ concat rs @ post)"
    using slice_record [of "[num]" 1 ?j rs 527 1 post] j(1) assms(1) by simp_all
  moreover have "length (rs ! ?j) = 528" using j(1) assms(1) by simp
  ultimately have "([num] @ concat rs @ post) ! (1 + ?j * 528 + 527) = rs ! ?j ! 527"
    using nth_slice [of 0 1 "1 + ?j * 528 + 527" "[num] @ concat rs @ post"] nth_slice [of 0 1 527 "rs ! ?j"] by simp
  then have "reply_code (num # concat rs @ post) h = Inr (rs ! ?j ! 527)"
    using room j(2) by (simp add: reply_code_def peek_def TUNNEL_BUILD_RECORD_SIZE_def)
  then show ?case using Cons by (auto simp: emit_step_def bind_step_def pure_step_def)
qed (simp add: pure_step_def)

lemma HandleTunnelBuildResponse_ok:
  assumes hops: "hops = tc_Hops (tn_Config t)" and rs: "records_ok rs" and num: "unat num = length rs"
    and all: "\<forall>h \<in> set hops. cipher_ok (E, b_decrypt env) h \<and> 0 \<le> hc_RecordIndex h \<and> record_index h < length rs"
      "distinct (map record_index hops)"
    and replies: "length codes = length hops"
      "\<forall>k < length hops. undo (hop_dec (E, b_decrypt env)) record_index (rev hops) rs ! record_index (hops ! k) ! 527 = codes ! k"
  shows "\<exists>msg. HandleTunnelBuildResponse env (num # concat rs) t =
    Inr ((\<forall>c \<in> set codes. c = 0, msg,
      if \<forall>c \<in> set codes. c = 0 then t\<lparr>tn_Config := \<lparr>tc_Hops = map set_layer_keys hops\<rparr>, tn_State := TunnelStateEstablished\<rparr> else t),
      zip (map hc_CurrentRouter hops) codes)"
proof -
  let ?u = "undo (hop_dec (E, b_decrypt env)) record_index (rev hops) rs"
  have d: "decrypt_replies env (rev hops) (num # concat rs @ []) = Inr (num # concat ?u @ [])"
    using all by (intro decrypt_replies_ok [OF num rs]) (auto simp: rev_map [symmetric])
  have uok: "records_ok ?u" by (rule hop_layers.records_ok_undo) (use all rs in auto)
  have events: "map (\<lambda>h. (hc_CurrentRouter h, ?u ! record_index h ! 527)) hops = zip (map hc_CurrentRouter hops) codes"
    using replies by (intro nth_equalityI) simp_all
  have "(\<forall>h \<in> set hops. ?u ! record_index h ! 527 = 0) = (\<forall>c \<in> set codes. c = 0)"
    using replies by (auto simp: all_set_conv_all_nth)
  then have "reply_codes (num # concat ?u @ []) True hops = Inr (\<forall>c \<in> set codes. c = 0, zip (map hc_CurrentRouter hops) codes)"
    using reply_codes_ok [OF uok, of hops num "[]" True] all events by simp
  then show ?thesis
    using d by (auto simp: HandleTunnelBuildResponse_def peek_def bind_step_def pure_step_def hops [symmetric])
qed

section \<open>The build protocol\<close>

text \<open>
  The records on their way: each hop handles the message it gets and passes it on. A hop that
  finds no record of its own drops the message.
\<close>

fun pass_hops :: "RouterEnv list \<Rightarrow> nat \<Rightarrow> bytes \<Rightarrow> (bytes \<times> TransitTunnelRequest option list) result" where
  "pass_hops [] num records = Inr (records, [])"
| "pass_hops (env # envs) num records =
     bind_result (build_records env num records) (\<lambda>(ours, records', _, transit).
     throw_if (\<not> ours) RuntimeError
       (bind_result (pass_hops envs num records') (\<lambda>(final, transits). Inr (final, transit # transits))))"

text \<open>No record but its own begins, in the message a hop gets, with the first half of its hash.\<close>

fun no_clash :: "(RouterEnv \<times> nat) list \<Rightarrow> nat \<Rightarrow> bytes \<Rightarrow> bool" where
  "no_clash [] num records \<longleftrightarrow> True"
| "no_clash ((env, i) # envs) num records \<longleftrightarrow>
     (\<forall>j < num. j \<noteq> i \<longrightarrow> slice (j * 528) 16 records \<noteq> take 16 (e_own_ident env)) \<and>
     (case build_records env num records of Inr (_, records', _, _) \<Rightarrow> no_clash envs num records' | Inl _ \<Rightarrow> True)"

lemma pass_hops_ok:
  assumes all: "\<forall>h \<in> set (ps @ hs). cipher_ok (E, D) h \<and> record_index h < N" and dist: "distinct (map record_index (ps @ hs))"
    and texts: "\<forall>k < length hs. length (pads k) = 29 \<and> raws ! record_index (hs ! k) =
      take 16 (r_IdentHash (hc_CurrentRouter (hs ! k))) @
      r_Encrypt (hc_CurrentRouter (hs ! k)) (clear_text (hs ! k) hours (pads k) (ids k))"
    and raws: "records_ok raws" "length raws = N"
  shows "list_all2 (serves E) envs hs \<Longrightarrow> records_ok rs \<Longrightarrow> length rs = N \<Longrightarrow>
    \<forall>h \<in> set hs. rs ! record_index h = peel (hop_dec (E, D)) record_index hs raws ! record_index h \<Longrightarrow>
    no_clash (zip envs (map record_index hs)) N (concat rs) \<Longrightarrow>
    \<exists>rs'. pass_hops envs N (concat rs) =
        Inr (concat rs', map2 (\<lambda>env h. if accepts_transit env then Some (hop_request h) else None) envs hs) \<and>
      records_ok rs' \<and> length rs' = N \<and>
      (\<forall>k < length hs. undo (hop_dec (E, D)) record_index (rev hs @ rev ps) rs' ! record_index (hs ! k) = hop_reply (envs ! k)) \<and>
      (\<forall>h \<in> set ps. undo (hop_dec (E, D)) record_index (rev hs @ rev ps) rs' ! record_index h =
         undo (hop_dec (E, D)) record_index (rev ps) rs ! record_index h)"
  using all dist texts
proof (induction hs arbitrary: ps envs rs pads ids)
  case Nil
  then show ?case by (intro exI [of _ rs]) auto
next
  case (Cons h hs)
  let ?dec = "hop_dec (E, D)" let ?j = "record_index h"
  obtain env envs' where envs: "envs = env # envs'" "serves E env h" "list_all2 (serves E) envs' hs"
    using Cons.prems(1) by (auto simp: list_all2_Cons2)
  let ?rs = "map (hop_enc (E, D) h) (rs[?j := hop_reply env])"
  have c: "cipher_ok (E, D) h" "?j < N" "?j \<notin> record_index ` set hs" "?j \<notin> record_index ` set ps"
    using Cons.prems(6,7) by auto
  have own: "rs ! ?j = take 16 (r_IdentHash (hc_CurrentRouter h)) @
      r_Encrypt (hc_CurrentRouter h) (clear_text h hours (pads 0) (ids 0))" and p0: "length (pads 0) = 29"
    using Cons.prems(4,8) raws(2) c(2,3) by (force simp: peel_other)+
  have clash: "\<forall>j < length rs. j \<noteq> ?j \<longrightarrow> take 16 (rs ! j) \<noteq> take 16 (e_own_ident env)"
    using Cons.prems(2,3,5) slice_record(1) [of "[]" 0 _ rs 0 16 "[]"] by (auto simp: envs(1) slice_def)
  have b: "build_records env N (concat rs) = Inr (True, concat ?rs, clear_text h hours (pads 0) (ids 0),
      if accepts_transit env then Some (hop_request h) else None)"
    using build_records_list [OF c(1) envs(2) p0 Cons.prems(2) _ own clash, of "[]"] c(2) Cons.prems(3) by simp
  have r: "length (hop_reply env) = 528" by (rule hop_reply_fields(1) [OF envs(2)])
  have ok: "records_ok ?rs" "length ?rs = N"
    using hop_layers.records_ok_processed [OF c(1) Cons.prems(2) r] Cons.prems(3) by simp_all
  have arr: "\<forall>h' \<in> set hs. ?rs ! record_index h' = peel ?dec record_index hs raws ! record_index h'"
    using Cons.prems raws by (intro hop_layers.arrives_next) auto
  have nc: "no_clash (zip envs' (map record_index hs)) N (concat ?rs)" using Cons.prems(5) b by (simp add: envs(1))
  have "\<exists>rs'. pass_hops envs' N (concat ?rs) =
        Inr (concat rs', map2 (\<lambda>env h. if accepts_transit env then Some (hop_request h) else None) envs' hs) \<and>
      records_ok rs' \<and> length rs' = N \<and>
      (\<forall>k < length hs. undo ?dec record_index (rev hs @ rev (ps @ [h])) rs' ! record_index (hs ! k) = hop_reply (envs' ! k)) \<and>
      (\<forall>p \<in> set (ps @ [h]). undo ?dec record_index (rev hs @ rev (ps @ [h])) rs' ! record_index p =
         undo ?dec record_index (rev (ps @ [h])) ?rs ! record_index p)"
    using Cons.prems(6-8)
    by (intro Cons.IH [where pads = "\<lambda>k. pads (Suc k)" and ids = "\<lambda>k. ids (Suc k)", OF envs(3) ok arr nc]) auto
  then obtain rs' where rs': "pass_hops envs' N (concat ?rs) =
        Inr (concat rs', map2 (\<lambda>env h. if accepts_transit env then Some (hop_request h) else None) envs' hs)"
      "records_ok rs'" "length rs' = N"
      "\<forall>k < length hs. undo ?dec record_index (rev (h # hs) @ rev ps) rs' ! record_index (hs ! k) = hop_reply (envs' ! k)"
      "\<forall>p \<in> set (ps @ [h]). undo ?dec record_index (rev (h # hs) @ rev ps) rs' ! record_index p =
         undo ?dec record_index (h # rev ps) ?rs ! record_index p"
    by auto
  have ixs: "?j < length rs" "?j \<notin> record_index ` set (rev ps)" "\<forall>p \<in> set (rev ps). record_index p < length rs"
    using c Cons.prems(3,6) by auto
  note rn = hop_layers.replies_next [OF c(1) Cons.prems(2) r ixs]
  have "undo ?dec record_index (rev (h # hs) @ rev ps) rs' ! record_index ((h # hs) ! k) = hop_reply (envs ! k)"
    if "k < length (h # hs)" for k
    using that rs'(4,5) rn(1) by (cases k) (simp_all add: envs(1))
  moreover have "\<forall>p \<in> set ps. undo ?dec record_index (rev (h # hs) @ rev ps) rs' ! record_index p =
      undo ?dec record_index (rev ps) rs ! record_index p"
    using rs'(5) rn(2) by simp
  moreover have "pass_hops envs N (concat rs) =
      Inr (concat rs', map2 (\<lambda>env h. if accepts_transit env then Some (hop_request h) else None) envs (h # hs))"
    using b rs'(1) by (simp add: envs(1))
  ultimately show ?case using rs'(2,3) by blast
qed
text \<open>
  C3 (functional). The build protocol from end to end. For a tunnel of one to seven hops the
  request is built; if no hash clashes by accident, every hop on the way finds and decrypts its
  own record, creates the transit tunnel that the configuration lays out for it exactly when it
  accepts, and the creator reads every hop's reply: the tunnel is established, with the layer
  keys of all hops set, exactly when every hop accepted, and the profiles get the reply codes.
\<close>

theorem build_protocol:
  assumes "block_cipher E (b_decrypt env)" and "build_env_ok env"
    and "tc_Hops (tn_Config t) = hops" and "hops \<noteq> []" and "length hops \<le> 7" and "\<forall>h \<in> set hops. hop_wf h"
    and "list_all2 (serves E) envs hops"
  shows "\<exists>t' act records. Build env reply ob t = Inr (t', act) \<and>
    payload_bytes (build_msg_of act) = word_of_nat (num_records hops) # records \<and>
    (no_clash (zip envs (map record_index (tc_Hops (tn_Config t')))) (num_records hops) records \<longrightarrow>
      (\<exists>final msg t''. pass_hops envs (num_records hops) records =
          Inr (final, map2 (\<lambda>env h. if accepts_transit env then Some (hop_request h) else None) envs hops) \<and>
        HandleTunnelBuildResponse env (word_of_nat (num_records hops) # final) t' =
          Inr ((\<forall>e \<in> set envs. accepts_transit e, msg, t''), zip (map hc_CurrentRouter hops) (map reply_status envs)) \<and>
        (if \<forall>e \<in> set envs. accepts_transit e then tn_State t'' = TunnelStateEstablished \<and>
           tc_Hops (tn_Config t'') = map set_layer_keys (tc_Hops (tn_Config t')) else t'' = t')))"
proof -
  let ?N = "num_records hops" let ?n = "length hops" let ?dec = "hop_dec (E, b_decrypt env)" let ?b = "word_of_nat ?N :: byte"
  define indices where "indices = b_shuffle env [0..<?N]"
  define hops' where "hops' = map2 at_index hops indices"
  note sh = shuffled [OF assms(2), of ?N, folded indices_def]
  have N: "?n \<le> ?N" "?N \<le> 7" using assms(5) by (simp_all add: num_records_def)
  have wf: "\<forall>h \<in> set hops. cipher_ok (E, b_decrypt env) h" using assms(1,6) by (simp add: cipher_ok_def)
  obtain act raws where B: "Build env reply ob t = Inr (t\<lparr>tn_Config := \<lparr>tc_Hops = hops'\<rparr>\<rparr>, act)"
      "payload_bytes (build_msg_of act) = ?b # concat (peel ?dec record_index hops' raws)" "records_ok raws" "length raws = ?N"
      "\<forall>k < ?n. raws ! (indices ! k) = hop_record env reply k hops"
    using Build_ok [OF assms(2-5) wf indices_def hops'_def, of reply ob] by blast
  let ?rs = "peel ?dec record_index hops' raws"
  note ih = indexed_hops [OF sh N(1) wf hops'_def]
  note l' = ih(1) and at = ih(2)
  have all': "\<forall>h \<in> set ([] @ hops'). cipher_ok (E, b_decrypt env) h \<and> record_index h < ?N" "distinct (map record_index ([] @ hops'))"
    using ih(3,4) by auto
  have serve: "list_all2 (serves E) envs hops'"
    using assms(7) l' by (auto simp: list_all2_conv_all_nth at serves_def)
  have le: "length envs = ?n" using assms(7) by (simp add: list_all2_lengthD)
  have texts: "\<forall>k < length hops'. length (b_padding env k) = 29 \<and> raws ! record_index (hops' ! k) =
      take 16 (r_IdentHash (hc_CurrentRouter (hops' ! k))) @ r_Encrypt (hc_CurrentRouter (hops' ! k))
        (clear_text (hops' ! k) (b_hours env) (b_padding env k) (if Suc k < ?n then b_reply_ids env k else reply))"
    using B(5) l' assms(2) by (auto simp: at hop_record_def hop_text_def build_env_ok_def)
  have ok: "records_ok ?rs" "length ?rs = ?N" using hop_layers.records_ok_peel [of hops' _ raws] ih(4) B(3,4) by auto
  have req: "map2 (\<lambda>env h. if accepts_transit env then Some (hop_request h) else None) envs hops' =
      map2 (\<lambda>env h. if accepts_transit env then Some (hop_request h) else None) envs hops"
    using le l' by (intro nth_equalityI) (simp_all add: at hop_request_def)
  let ?t = "t\<lparr>tn_Config := \<lparr>tc_Hops = hops'\<rparr>\<rparr>" let ?est = "\<forall>e \<in> set envs. accepts_transit e"
  have main: "\<exists>final msg t''. pass_hops envs ?N (concat ?rs) =
        Inr (final, map2 (\<lambda>env h. if accepts_transit env then Some (hop_request h) else None) envs hops) \<and>
      HandleTunnelBuildResponse env (?b # final) ?t =
        Inr ((?est, msg, t''), zip (map hc_CurrentRouter hops) (map reply_status envs)) \<and>
      (if ?est then tn_State t'' = TunnelStateEstablished \<and> tc_Hops (tn_Config t'') = map set_layer_keys hops' else t'' = ?t)"
    if nc: "no_clash (zip envs (map record_index hops')) ?N (concat ?rs)"
  proof -
    from pass_hops_ok [OF all' texts B(3,4) serve ok _ nc] obtain rs' where
      p: "pass_hops envs ?N (concat ?rs) = Inr (concat rs', map2 (\<lambda>env h. if accepts_transit env then Some (hop_request h) else None) envs hops)"
        "records_ok rs'" "length rs' = ?N"
        "\<forall>k < length hops'. undo ?dec record_index (rev hops') rs' ! record_index (hops' ! k) = hop_reply (envs ! k)"
      by (auto simp: req)
    have "unat ?b = length rs'" using N(2) p(3) by (simp add: unat_of_nat)
    moreover have "\<forall>k < length hops'. undo ?dec record_index (rev hops') rs' ! record_index (hops' ! k) ! 527 = map reply_status envs ! k"
      using p(4) l' le hop_reply_fields(2) assms(7) by (auto simp: list_all2_conv_all_nth)
    moreover have "(\<forall>c \<in> set (map reply_status envs). c = 0) = ?est" by (simp add: reply_status_0)
    moreover have "map hc_CurrentRouter hops' = map hc_CurrentRouter hops" using l' by (intro nth_equalityI) (simp_all add: at)
    ultimately obtain msg where "HandleTunnelBuildResponse env (?b # concat rs') ?t = Inr ((?est, msg,
        if ?est then ?t\<lparr>tn_Config := \<lparr>tc_Hops = map set_layer_keys hops'\<rparr>, tn_State := TunnelStateEstablished\<rparr> else ?t),
        zip (map hc_CurrentRouter hops) (map reply_status envs))"
      using HandleTunnelBuildResponse_ok [of hops' ?t rs' ?b E env "map reply_status envs"] p(2,3) ih(3,4) l' le by auto
    then show ?thesis
      by (intro exI [of _ "concat rs'"] exI [of _ msg] exI conjI p(1)) (assumption, simp)
  qed
  have conf: "tc_Hops (tn_Config ?t) = hops'" by simp
  show ?thesis
    by (rule exI [of _ ?t], rule exI [of _ act], rule exI [of _ "concat ?rs"])
      (unfold conf, intro conjI B(1,2), rule impI, erule main)
qed
section \<open>A sample tunnel\<close>

definition sample_build_env :: BuildEnv where
  "sample_build_env = \<lparr>b_UsingAESNI = False, b_decrypt = (\<lambda>k b. b), b_sha256 = (\<lambda>_. replicate 32 0), b_shuffle = (\<lambda>xs. xs),
     b_hours = 1, b_now = 0, b_rnd = 3, b_reply_ids = (\<lambda>_. 4), b_padding = (\<lambda>_. replicate 29 0), b_fake = (\<lambda>_. replicate 528 0)\<rparr>"

definition sample_hop :: "byte \<Rightarrow> TunnelHopConfig" where
  "sample_hop b = \<lparr>hc_CurrentRouter = sample_router b, hc_TunnelID = 11, hc_AESAttributes = sample_aes b,
     hc_NextRouter = Some (sample_router 9), hc_NextTunnelID = 77, hc_IsGateway = True, hc_IsEndpoint = False,
     hc_RecordIndex = 0, hc_Decryption = None\<rparr>"

definition sample_tunnel :: Tunnel where
  "sample_tunnel = Tunnel_new 0 \<lparr>tc_Hops = [sample_hop 1]\<rparr>"

definition sample_hop_env :: RouterEnv where
  "sample_hop_env = sample_env\<lparr>e_sha256 := (\<lambda>_. replicate 32 0), e_elgamal := take 222,
     e_cbc := (\<lambda>k iv r. cbc_enc (\<lambda>k b. b) k iv 33 r), e_own_ident := replicate 32 1, e_padding := replicate 495 0,
     e_AcceptsTunnels := True, e_transit_tunnels := 0, e_bandwidth_exceeded := False\<rparr>"

lemma sample_build_ok:
  "block_cipher (\<lambda>k b. b) (b_decrypt sample_build_env)" "build_env_ok sample_build_env" "hop_wf (sample_hop b)"
  "serves (\<lambda>k b. b) sample_hop_env (sample_hop 1)" "accepts_transit sample_hop_env" "tc_Hops (tn_Config sample_tunnel) = [sample_hop 1]"
  by (simp_all add: block_cipher_def sample_build_env_def build_env_ok_def hop_wf_def router_wf_def aes_wf_def sample_hop_def
      sample_router_def sample_aes_def serves_def sample_hop_env_def accepts_transit_def sample_tunnel_def Tunnel_new_def
      del: replicate.simps cbc_enc.simps)

theorem build_protocol_witness:
  "\<exists>t' act records final msg t''. Build sample_build_env 5 None sample_tunnel = Inr (t', act) \<and>
     payload_bytes (build_msg_of act) = 4 # records \<and>
     pass_hops [sample_hop_env] 4 records = Inr (final, [Some (hop_request (sample_hop 1))]) \<and>
     HandleTunnelBuildResponse sample_build_env (4 # final) t' = Inr ((True, msg, t''), [(sample_router 1, 0)]) \<and>
     tn_State t'' = TunnelStateEstablished"
proof -
  let ?env = sample_build_env let ?h = "sample_hop 1" let ?E = "\<lambda>k b. b"
  have N: "num_records [?h] = 4" by (simp add: num_records_def)
  have ix: "[0..<4] = b_shuffle ?env [0..<num_records [?h]]" by (simp add: N sample_build_env_def)
  have c: "\<forall>h \<in> set [?h]. cipher_ok (?E, b_decrypt ?env) h" using sample_build_ok(1,3) by (simp add: cipher_ok_def)
  have hops': "[at_index ?h 0] = map2 at_index [?h] [0..<4]" by (simp add: upt_rec)
  from Build_ok [OF sample_build_ok(2,6) _ _ c ix hops', of 5 None] obtain act raws where
    B: "Build ?env 5 None sample_tunnel = Inr (sample_tunnel\<lparr>tn_Config := \<lparr>tc_Hops = [at_index ?h 0]\<rparr>\<rparr>, act)"
      "payload_bytes (build_msg_of act) = 4 # concat raws" "records_ok raws" "length raws = 4"
      "\<forall>k. 1 \<le> k \<and> k < 4 \<longrightarrow> raws ! ([0..<4] ! k) = b_fake ?env k"
    by (auto simp: N)
  have hyps: "[?h] \<noteq> []" "length [?h] \<le> 7" "\<forall>h \<in> set [?h]. hop_wf h" "list_all2 (serves ?E) [sample_hop_env] [?h]"
    using sample_build_ok(3,4) by simp_all
  have results: "word_of_nat 4 = (4 :: byte)" "(\<forall>e \<in> set [sample_hop_env]. accepts_transit e) = True"
    "map2 (\<lambda>env h. if accepts_transit env then Some (hop_request h) else None) [sample_hop_env] [?h] = [Some (hop_request ?h)]"
    "zip (map hc_CurrentRouter [?h]) (map reply_status [sample_hop_env]) = [(sample_router 1, 0)]"
    using sample_build_ok(5) by (simp_all add: reply_status_def, simp add: sample_hop_def)
  from build_protocol [OF sample_build_ok(1,2,6) hyps, where reply = 5 and ob = None, unfolded N results if_True]
  obtain t' act' records where P: "Build ?env 5 None sample_tunnel = Inr (t', act')" "payload_bytes (build_msg_of act') = 4 # records"
      "no_clash (zip [sample_hop_env] (map record_index (tc_Hops (tn_Config t')))) 4 records \<longrightarrow>
        (\<exists>final msg t''. pass_hops [sample_hop_env] 4 records = Inr (final, [Some (hop_request ?h)]) \<and>
          HandleTunnelBuildResponse ?env (4 # final) t' = Inr ((True, msg, t''), [(sample_router 1, 0)]) \<and>
          tn_State t'' = TunnelStateEstablished)"
    by blast
  have eq: "t' = sample_tunnel\<lparr>tn_Config := \<lparr>tc_Hops = [at_index ?h 0]\<rparr>\<rparr>" "records = concat raws" using B(1,2) P(1,2) by auto
  have "slice (j * 528) 16 (concat raws) = replicate 16 0" if "j < 4" "j \<noteq> 0" for j
    using slice_record(1) [of "[]" 0 j raws 0 16 "[]"] B(3-5) that by (auto simp: sample_build_env_def slice_def)
  moreover have "replicate 16 (0 :: byte) \<noteq> replicate 16 1" by simp
  ultimately have "no_clash (zip [sample_hop_env] (map record_index (tc_Hops (tn_Config t')))) 4 records"
    using eq by (auto simp: sample_hop_env_def split: sum.split)
  with P show ?thesis by blast
qed
section \<open>Too many hops\<close>

lemma create_records_overflow:
  assumes env: "build_env_ok env"
  shows "\<forall>h \<in> set hops. hop_wf h \<Longrightarrow> i + length hops \<le> length indices \<Longrightarrow> k < length hops \<Longrightarrow>
    length mem < p + indices ! (i + k) * 528 + 528 \<Longrightarrow> create_records env indices p reply i hops mem = Inl MemoryError"
proof (induction hops arbitrary: i k mem)
  case (Cons h hops)
  let ?p = "p + indices ! i * 528" let ?id = "if hops \<noteq> [] then b_reply_ids env i else reply"
  have pad: "length (b_padding env i) = 29" and wf: "hop_wf h" using env Cons.prems(1) by (simp_all add: build_env_ok_def)
  show ?case
  proof (cases "?p + 528 \<le> length mem")
    case True
    obtain k' where k: "k = Suc k'" using Cons.prems(4) True by (cases k) auto
    let ?mem = "poke ?p (take 16 (r_IdentHash (hc_CurrentRouter h)) @
      r_Encrypt (hc_CurrentRouter h) (clear_text h (b_hours env) (b_padding env i) ?id)) mem"
    have "length ?mem = length mem"
      using True hop_wfD(1) [OF wf] hop_wfD(7) [OF wf length_clear_text [OF wf pad]] by simp
    then have "create_records env indices p reply (i + 1) hops ?mem = Inl MemoryError"
      using Cons.prems k by (intro Cons.IH [of _ k']) auto
    then show ?thesis
      using CreateBuildRequestRecord_eq [OF wf pad True] Cons.prems(2) by (simp add: peek_def TUNNEL_BUILD_RECORD_SIZE_def)
  next
    case False
    then show ?thesis
      using CreateBuildRequestRecord_overflow [OF wf pad, of mem ?p] Cons.prems(2)
      by (simp add: peek_def TUNNEL_BUILD_RECORD_SIZE_def)
  qed
qed simp

lemma Build_overflow:
  assumes env: "build_env_ok env" and hops: "tc_Hops (tn_Config t) = hops" "7 < length hops" and wf: "\<forall>h \<in> set hops. hop_wf h"
  shows "Build env reply ob t = Inl MemoryError"
proof -
  let ?n = "length hops" let ?ix = "b_shuffle env [0..<?n]"
  note sh = shuffled [OF env, of ?n]
  have "7 \<in> set ?ix" using sh(2) hops(2) by simp
  then obtain k where k: "k < ?n" "?ix ! k = 7" using sh(3) by (auto simp: in_set_conv_nth)
  have "create_records env ?ix 19 reply 0 hops mem = Inl MemoryError" if "length mem = 4112" for mem
    using create_records_overflow [OF env wf, of 0 ?ix k mem 19] k sh(3) that by simp
  then have cr: "create_records env ?ix 19 reply 0 hops (poke 18 [b] (replicate 4112 0)) = Inl MemoryError" for b
    by (simp del: replicate.simps)
  have "put 18 [b] NewI2NPShortMessage = Inr (NewI2NPShortMessage\<lparr>msg_buf := poke 18 [b] (replicate 4112 0)\<rparr>)" for b
    by (subst put_eq) (simp_all add: new_short_message put_at_def del: replicate.simps)
  then show ?thesis
    using hops(2) cr
    by (simp add: Build_def GetNumHops_def hops(1) STANDARD_NUM_RECORDS_def msg_accessors new_short_message Let_def del: replicate.simps)
qed

text \<open>
  C21 (bounds). The build request is laid out in a buffer for short messages: it has room for the
  records of seven hops, and the records of a tunnel with more hops are written past its end.
\<close>

theorem Build_exact:
  assumes "block_cipher E (b_decrypt env)" and "build_env_ok env"
    and "tc_Hops (tn_Config t) = hops" and "hops \<noteq> []" and "\<forall>h \<in> set hops. hop_wf h"
  shows "if length hops \<le> 7 then \<exists>r. Build env reply ob t = Inr r else Build env reply ob t = Inl MemoryError"
proof (cases "length hops \<le> 7")
  case True
  have "\<forall>h \<in> set hops. cipher_ok (E, b_decrypt env) h" using assms(1,5) by (simp add: cipher_ok_def)
  from Build_ok [OF assms(2-4) True this refl refl, of reply ob] True show ?thesis by auto
qed (use Build_overflow [OF assms(2,3) _ assms(5)] in simp)

theorem Build_exact_witness:
  "Build sample_build_env 5 None (Tunnel_new 0 \<lparr>tc_Hops = replicate 8 (sample_hop 1)\<rparr>) = Inl MemoryError"
proof -
  have "tc_Hops (tn_Config (Tunnel_new 0 \<lparr>tc_Hops = replicate 8 (sample_hop 1)\<rparr>)) = replicate 8 (sample_hop 1)"
    "replicate 8 (sample_hop 1) \<noteq> []" "\<forall>h \<in> set (replicate 8 (sample_hop 1)). hop_wf h" "\<not> length (replicate 8 (sample_hop 1)) \<le> 7"
    using sample_build_ok(3) [of 1] by (simp_all add: Tunnel_new_def del: replicate.simps)
  from Build_exact [OF sample_build_ok(1,2) this(1-3), where reply = 5 and ob = None] this(4) show ?thesis by (simp only: if_False)
qed

end
