(* ===== verification/Tunnel_Transit.thy ===== *)
theory Tunnel_Transit
  imports Tunnel_Endpoint Tunnel_Build
begin

unbundle bit_operations_syntax

text \<open>
  The tunnels a data message runs through: the transit tunnels of other routers
  (\<open>tunnel/transit.h\<close> and \<open>tunnel/transit.cc\<close>) and the inbound and outbound tunnels of this one
  (\<open>tunnel/impl.h\<close> and \<open>tunnel/impl.cc\<close>). An outbound tunnel takes off the layer of every hop
  before a message leaves, each transit router adds its own, and the endpoint finds the
  fragments. \<open>Tunnel_Network\<close> follows a message through the routers of a tunnel.

  A base class is a field of the record. The pointer \<open>m_Tunnel\<close> of a gateway back to its tunnel
  is resolved when the gateway is used: it encrypts with the keys the tunnel has then.
\<close>

section \<open>Transit tunnels\<close>

record TransitEnv =
  x_UsingAESNI :: bool
  x_encrypt :: block_fun
  x_router :: RouterEnv
  x_gateway :: GatewayEnv
  x_rnd :: u32
  x_seal_rnd :: "nat \<Rightarrow> u32"
  x_now :: u64

record TransitTunnel =
  x_TunnelID :: u32
  x_NextTunnelID :: u32
  x_NextIdent :: bytes
  x_Encryption :: TunnelKeys
  x_CreationTime :: u64

definition TransitTunnel_new :: "u64 \<Rightarrow> u32 \<Rightarrow> bytes \<Rightarrow> u32 \<Rightarrow> bytes \<Rightarrow> bytes \<Rightarrow> TransitTunnel" where
  "TransitTunnel_new now receive_tunnel_ID ident next_tunnel_ID layer iv =
     \<lparr>x_TunnelID = receive_tunnel_ID, x_NextTunnelID = next_tunnel_ID, x_NextIdent = ident,
      x_Encryption = \<lparr>layer_key = layer, iv_key = iv\<rparr>, x_CreationTime = now\<rparr>"

definition TransitTunnel_EncryptTunnelMsg ::
    "TransitEnv \<Rightarrow> TransitTunnel \<Rightarrow> I2NPMessage option \<Rightarrow> I2NPMessage \<Rightarrow> I2NPMessage result" where
  "TransitTunnel_EncryptTunnelMsg env t =
     crypt_payload (Tunnel_Encrypt (x_UsingAESNI env) (x_encrypt env) (x_Encryption t))"

record TransitTunnelParticipant =
  p_Base :: TransitTunnel
  p_NumTransmittedBytes :: nat
  p_TunnelDataMsgs :: "I2NPMessage list"

record TransitTunnelGateway =
  w_Base :: TransitTunnel
  w_Gateway :: TunnelGateway

record TransitTunnelEndpoint =
  n_Base :: TransitTunnel
  n_Endpoint :: TunnelEndpoint

definition Participant_HandleTunnelDataMsg ::
    "TransitEnv \<Rightarrow> I2NPMessage \<Rightarrow> TransitTunnelParticipant \<Rightarrow> TransitTunnelParticipant result" where
  "Participant_HandleTunnelDataMsg env tunnel_msg t =
     bind_result (TransitTunnel_EncryptTunnelMsg env (p_Base t) (Some tunnel_msg) CreateEmptyTunnelDataMsg) (\<lambda>m1.
     bind_result (put (GetPayload m1) (word_encode True (x_NextTunnelID (p_Base t))) m1) (\<lambda>m2.
     bind_result (FillI2NPMessageHeader (e_sha256 (x_router env)) (x_rnd env) (x_now env) I2NPTunnelData 0 m2) (\<lambda>m3.
       Inr (t\<lparr>p_NumTransmittedBytes := p_NumTransmittedBytes t + GetLength tunnel_msg,
              p_TunnelDataMsgs := p_TunnelDataMsgs t @ [m3]\<rparr>))))"

definition Participant_FlushTunnelDataMsgs :: "TransitTunnelParticipant \<Rightarrow> TransitTunnelParticipant \<times> action list" where
  "Participant_FlushTunnelDataMsgs t =
     (if p_TunnelDataMsgs t \<noteq> [] then
        (t\<lparr>p_TunnelDataMsgs := []\<rparr>, [SendMessages (x_NextIdent (p_Base t)) (p_TunnelDataMsgs t)])
      else (t, []))"

text \<open>The gateway of a transit tunnel, with the pointer back to the tunnel resolved.\<close>

definition transit_gateway :: "TransitEnv \<Rightarrow> TransitTunnelGateway \<Rightarrow> TunnelGateway" where
  "transit_gateway env t =
     (w_Gateway t)\<lparr>tg_NextIdent := x_NextIdent (w_Base t),
       tg_EncryptTunnelMsg := (\<lambda>_ m. TransitTunnel_EncryptTunnelMsg env (w_Base t) None m)\<rparr>"

text \<open>The hash and the tunnel identifier of the block are not set and, for local delivery, not read.\<close>

definition local_block :: "I2NPMessage \<Rightarrow> TunnelMessageBlock" where
  "local_block msg = \<lparr>delivery_type = DeliveryTypeLocal, block_hash = replicate 32 0, tunnel_ID = 0, block_data = Some msg\<rparr>"

definition Gateway_SendTunnelDataMsg ::
    "TransitEnv \<Rightarrow> I2NPMessage \<Rightarrow> TransitTunnelGateway \<Rightarrow> TransitTunnelGateway result" where
  "Gateway_SendTunnelDataMsg env msg t =
     bind_result (PutTunnelDataMsg (x_gateway env) (local_block msg) (transit_gateway env t)) (\<lambda>g. Inr (t\<lparr>w_Gateway := g\<rparr>))"

definition Gateway_FlushTunnelDataMsgs :: "TransitEnv \<Rightarrow> TransitTunnelGateway \<Rightarrow> (TransitTunnelGateway, action) steps" where
  "Gateway_FlushTunnelDataMsgs env t =
     bind_result (SendBuffer (x_gateway env) (x_seal_rnd env) (x_now env) (transit_gateway env t)) (\<lambda>(g, ident, ms).
       emit_step (SendMessages ident ms) (t\<lparr>w_Gateway := g\<rparr>))"

definition Endpoint_HandleTunnelDataMsg ::
    "TransitEnv \<Rightarrow> I2NPMessage \<Rightarrow> TransitTunnelEndpoint \<Rightarrow> (TransitTunnelEndpoint, action) steps" where
  "Endpoint_HandleTunnelDataMsg env tunnel_msg t =
     bind_result (TransitTunnel_EncryptTunnelMsg env (n_Base t) (Some tunnel_msg) CreateEmptyTunnelDataMsg) (\<lambda>m.
     bind_step (HandleDecryptedTunnelDataMsg (x_router env) m (n_Endpoint t)) (\<lambda>ep. pure_step (t\<lparr>n_Endpoint := ep\<rparr>)))"

text \<open>The three classes, and the virtual calls of \<open>TunnelBase\<close>; a call a class does not support only logs.\<close>

datatype AnyTransitTunnel =
    AParticipant TransitTunnelParticipant
  | AGateway TransitTunnelGateway
  | AnEndpoint TransitTunnelEndpoint

definition CreateTransitTunnel ::
    "bytes \<Rightarrow> u64 \<Rightarrow> u32 \<Rightarrow> bytes \<Rightarrow> u32 \<Rightarrow> bytes \<Rightarrow> bytes \<Rightarrow> bool \<Rightarrow> bool \<Rightarrow> AnyTransitTunnel" where
  "CreateTransitTunnel random now receive_tunnel_ID ident next_tunnel_ID layer iv is_gateway is_endpoint =
     (let base = TransitTunnel_new now receive_tunnel_ID ident next_tunnel_ID layer iv in
      if is_endpoint then AnEndpoint \<lparr>n_Base = base, n_Endpoint = TunnelEndpoint_new False\<rparr>
      else if is_gateway then
        AGateway \<lparr>w_Base = base,
          w_Gateway = \<lparr>tg_NextIdent = ident, tg_EncryptTunnelMsg = (\<lambda>_ m. Inr m),
            tg_Buffer = TunnelGatewayBuffer_new next_tunnel_ID random, tg_NumSentBytes = 0\<rparr>\<rparr>
      else AParticipant \<lparr>p_Base = base, p_NumTransmittedBytes = 0, p_TunnelDataMsgs = []\<rparr>)"

fun transit_base :: "AnyTransitTunnel \<Rightarrow> TransitTunnel" where
  "transit_base (AParticipant t) = p_Base t"
| "transit_base (AGateway t) = w_Base t"
| "transit_base (AnEndpoint t) = n_Base t"

fun GetNumTransmittedBytes :: "AnyTransitTunnel \<Rightarrow> nat" where
  "GetNumTransmittedBytes (AParticipant t) = p_NumTransmittedBytes t"
| "GetNumTransmittedBytes (AGateway t) = tg_NumSentBytes (w_Gateway t)"
| "GetNumTransmittedBytes (AnEndpoint t) = ep_NumReceivedBytes (n_Endpoint t)"

fun Transit_HandleTunnelDataMsg :: "TransitEnv \<Rightarrow> I2NPMessage \<Rightarrow> AnyTransitTunnel \<Rightarrow> (AnyTransitTunnel, action) steps" where
  "Transit_HandleTunnelDataMsg env m (AParticipant t) =
     bind_result (Participant_HandleTunnelDataMsg env m t) (\<lambda>t'. pure_step (AParticipant t'))"
| "Transit_HandleTunnelDataMsg env m (AGateway t) = pure_step (AGateway t)"
| "Transit_HandleTunnelDataMsg env m (AnEndpoint t) =
     bind_step (Endpoint_HandleTunnelDataMsg env m t) (\<lambda>t'. pure_step (AnEndpoint t'))"

fun Transit_SendTunnelDataMsg :: "TransitEnv \<Rightarrow> I2NPMessage \<Rightarrow> AnyTransitTunnel \<Rightarrow> AnyTransitTunnel result" where
  "Transit_SendTunnelDataMsg env m (AGateway t) = bind_result (Gateway_SendTunnelDataMsg env m t) (\<lambda>t'. Inr (AGateway t'))"
| "Transit_SendTunnelDataMsg env m t = Inr t"

fun Transit_FlushTunnelDataMsgs :: "TransitEnv \<Rightarrow> AnyTransitTunnel \<Rightarrow> (AnyTransitTunnel, action) steps" where
  "Transit_FlushTunnelDataMsgs env (AParticipant t) = (let (t', acts) = Participant_FlushTunnelDataMsgs t in Inr (AParticipant t', acts))"
| "Transit_FlushTunnelDataMsgs env (AGateway t) = bind_step (Gateway_FlushTunnelDataMsgs env t) (\<lambda>t'. pure_step (AGateway t'))"
| "Transit_FlushTunnelDataMsgs env (AnEndpoint t) = pure_step (AnEndpoint t)"

section \<open>Outbound and inbound tunnels\<close>

record OutboundTunnel =
  ot_Tunnel :: Tunnel
  ot_Gateway :: TunnelGateway

record InboundTunnel =
  it_Tunnel :: Tunnel
  it_Endpoint :: TunnelEndpoint

record OutboundEnv =
  o_build :: BuildEnv
  o_gateway :: GatewayEnv
  o_seal_rnd :: "nat \<Rightarrow> u32"
  o_now :: u64

definition OutboundTunnel_new :: "bytes \<Rightarrow> u64 \<Rightarrow> TunnelConfig \<Rightarrow> OutboundTunnel result" where
  "OutboundTunnel_new random now config =
     (let t = Tunnel_new now config in
      bind_result (GetNextTunnelID t) (\<lambda>tunnel.
      bind_result (GetNextIdentHash t) (\<lambda>ident.
        Inr \<lparr>ot_Tunnel = t,
             ot_Gateway = \<lparr>tg_NextIdent = ident, tg_EncryptTunnelMsg = (\<lambda>_ m. Inr m),
               tg_Buffer = TunnelGatewayBuffer_new tunnel random, tg_NumSentBytes = 0\<rparr>\<rparr>)))"

definition InboundTunnel_new :: "u64 \<Rightarrow> TunnelConfig \<Rightarrow> InboundTunnel" where
  "InboundTunnel_new now config = \<lparr>it_Tunnel = Tunnel_new now config, it_Endpoint = TunnelEndpoint_new True\<rparr>"

definition outbound_gateway :: "OutboundEnv \<Rightarrow> OutboundTunnel \<Rightarrow> TunnelGateway result" where
  "outbound_gateway env t =
     bind_result (GetNextIdentHash (ot_Tunnel t)) (\<lambda>ident.
       Inr ((ot_Gateway t)\<lparr>tg_NextIdent := ident,
              tg_EncryptTunnelMsg := (\<lambda>_ m. Tunnel_EncryptTunnelMsg (o_build env) (ot_Tunnel t) None m)\<rparr>))"

definition outbound_block :: "bytes option \<Rightarrow> u32 \<Rightarrow> I2NPMessage option \<Rightarrow> TunnelMessageBlock" where
  "outbound_block gw_hash gw_tunnel msg =
     (case gw_hash of
        Some h \<Rightarrow>
          if gw_tunnel \<noteq> 0 then
            \<lparr>delivery_type = DeliveryTypeTunnel, block_hash = h, tunnel_ID = gw_tunnel, block_data = msg\<rparr>
          else \<lparr>delivery_type = DeliveryTypeRouter, block_hash = h, tunnel_ID = 0, block_data = msg\<rparr>
      | None \<Rightarrow> \<lparr>delivery_type = DeliveryTypeLocal, block_hash = replicate 32 0, tunnel_ID = 0, block_data = msg\<rparr>)"

definition OutboundTunnel_SendTunnelDataMsg ::
    "OutboundEnv \<Rightarrow> bytes option \<Rightarrow> u32 \<Rightarrow> I2NPMessage option \<Rightarrow> OutboundTunnel \<Rightarrow> (OutboundTunnel, action) steps" where
  "OutboundTunnel_SendTunnelDataMsg env gw_hash gw_tunnel msg t =
     bind_result (outbound_gateway env t) (\<lambda>g.
     bind_result (SendTunnelDataMsg (o_gateway env) (o_seal_rnd env) (o_now env) (outbound_block gw_hash gw_tunnel msg) g)
       (\<lambda>(g', sent). Inr (t\<lparr>ot_Gateway := g'\<rparr>, case sent of None \<Rightarrow> [] | Some (ident, ms) \<Rightarrow> [SendMessages ident ms])))"

definition OutboundTunnel_SendTunnelDataMsgs ::
    "OutboundEnv \<Rightarrow> TunnelMessageBlock list \<Rightarrow> OutboundTunnel \<Rightarrow> (OutboundTunnel, action) steps" where
  "OutboundTunnel_SendTunnelDataMsgs env msgs t =
     bind_result (outbound_gateway env t) (\<lambda>g.
     bind_result (fold_result (\<lambda>g block. PutTunnelDataMsg (o_gateway env) block g) g msgs) (\<lambda>g1.
     bind_result (SendBuffer (o_gateway env) (o_seal_rnd env) (o_now env) g1) (\<lambda>(g2, ident, ms).
       emit_step (SendMessages ident ms) (t\<lparr>ot_Gateway := g2\<rparr>))))"

definition OutboundTunnel_HandleTunnelDataMsg :: "I2NPMessage \<Rightarrow> OutboundTunnel \<Rightarrow> OutboundTunnel" where
  "OutboundTunnel_HandleTunnelDataMsg tunnel_msg t = t"

text \<open>\<open>this_tunnel\<close> is the handle of the tunnel, which the messages it hands on carry.\<close>

definition InboundTunnel_HandleTunnelDataMsg ::
    "BuildEnv \<Rightarrow> RouterEnv \<Rightarrow> nat \<Rightarrow> I2NPMessage \<Rightarrow> InboundTunnel \<Rightarrow> (InboundTunnel, action) steps" where
  "InboundTunnel_HandleTunnelDataMsg benv env this_tunnel msg t =
     (let tunnel = (if tn_State (it_Tunnel t) = TunnelStateFailed then (it_Tunnel t)\<lparr>tn_State := TunnelStateEstablished\<rparr>
                    else it_Tunnel t) in
      bind_result (Tunnel_EncryptTunnelMsg benv tunnel (Some msg) CreateEmptyTunnelDataMsg) (\<lambda>m.
      bind_step (HandleDecryptedTunnelDataMsg env (m\<lparr>msg_from := Some this_tunnel\<rparr>) (it_Endpoint t)) (\<lambda>ep.
        pure_step (t\<lparr>it_Tunnel := tunnel, it_Endpoint := ep\<rparr>))))"

definition InboundTunnel_GetTunnelID :: "InboundTunnel \<Rightarrow> u32 result" where
  "InboundTunnel_GetTunnelID t =
     (case GetLastHop (tn_Config (it_Tunnel t)) of None \<Rightarrow> Inl MemoryError | Some h \<Rightarrow> Inr (hc_NextTunnelID h))"

section \<open>Layers of data messages\<close>

text \<open>The 1024 bytes of a data message behind the tunnel identifier.\<close>

definition data_body :: "I2NPMessage \<Rightarrow> bytes" where
  "data_body m = slice (GetPayload m + 4) 1024 (msg_buf m)"

definition readable :: "I2NPMessage \<Rightarrow> bool" where
  "readable m \<longleftrightarrow> GetPayload m + 1028 \<le> length (msg_buf m)"

lemma length_data_body: "readable m \<Longrightarrow> length (data_body m) = 1024"
  by (simp add: data_body_def readable_def)

lemma data_body_payload: "data_body m = drop 4 (data_payload m)"
  by (simp add: data_body_def data_payload_def slice_def drop_take add.commute)

definition set_body :: "bytes \<Rightarrow> I2NPMessage \<Rightarrow> I2NPMessage" where
  "set_body bs m = m\<lparr>msg_buf := poke (GetPayload m + 4) bs (msg_buf m)\<rparr>"

lemma set_body_fields [simp]:
  "msg_offset (set_body bs m) = msg_offset m" "msg_len (set_body bs m) = msg_len m" "msg_max_len (set_body bs m) = msg_max_len m"
  "GetPayload (set_body bs m) = GetPayload m"
  by (simp_all add: set_body_def msg_accessors)

lemma set_body_body:
  assumes "readable m" and "length bs = 1024"
  shows "length (msg_buf (set_body bs m)) = length (msg_buf m)" "data_body (set_body bs m) = bs" "readable (set_body bs m)"
    "take 4 (data_payload (set_body bs m)) = take 4 (data_payload m)"
  using assms by (simp_all add: set_body_def data_body_def readable_def msg_accessors data_payload_def slice_def poke_def take_drop)

text \<open>A layer that computes \<open>F\<close> on the bytes, whether in place or into another message.\<close>

definition computes :: "(nat \<Rightarrow> nat \<Rightarrow> bytes \<Rightarrow> bytes result) \<Rightarrow> (bytes \<Rightarrow> bytes) \<Rightarrow> bool" where
  "computes crypt F \<longleftrightarrow> (\<forall>bs. length bs = 1024 \<longrightarrow> length (F bs) = 1024) \<and>
     (\<forall>src dst mem. src + 1024 \<le> length mem \<longrightarrow> dst + 1024 \<le> length mem \<longrightarrow> dst \<le> src \<or> src + 1024 \<le> dst \<longrightarrow>
        crypt src dst mem = Inr (poke dst (F (slice src 1024 mem)) mem))"

lemma computes_layers:
  assumes "block_cipher E D"
  shows "computes (Tunnel_Encrypt b E keys) (tunnel_enc E keys)" "computes (Tunnel_Decrypt b D keys) (tunnel_dec D keys)"
  using Tunnel_Encrypt_spec [OF assms] Tunnel_Decrypt_spec [OF assms] length_tunnel_layer [OF assms]
  by (simp_all add: computes_def)

lemma crypt_payload_eq:
  assumes c: "computes crypt F" and out: "readable m"
  shows "crypt_payload crypt None m = Inr (set_body (F (data_body m)) m)"
    and "readable r \<Longrightarrow> crypt_payload crypt (Some r) m = Inr (set_body (F (data_body r)) m)"
proof -
  let ?p = "GetPayload m + 4"
  have p: "?p + 1024 \<le> length (msg_buf m)" using out by (simp add: readable_def)
  then show "crypt_payload crypt None m = Inr (set_body (F (data_body m)) m)"
    using c by (simp add: crypt_payload_def Let_def computes_def data_body_def set_body_def)
  assume r: "readable r"
  let ?src = "slice (GetPayload r + 4) 1024 (msg_buf r)"
  have l: "length ?src = 1024" "length (F ?src) = 1024" using r c by (simp_all add: readable_def computes_def)
  have "crypt 0 (1024 + ?p) (?src @ msg_buf m) = Inr (poke (1024 + ?p) (F (slice 0 1024 (?src @ msg_buf m))) (?src @ msg_buf m))"
    using c p l(1) by (simp add: computes_def)
  moreover have "slice 0 1024 (?src @ msg_buf m) = ?src" using l(1) by (simp add: slice_def)
  moreover have "drop 1024 (poke (1024 + ?p) (F ?src) (?src @ msg_buf m)) = poke ?p (F ?src) (msg_buf m)"
    using l(1) by (simp add: poke_def ac_simps)
  moreover have "mem_read (GetPayload r + 4) 1024 (msg_buf r) = Inr ?src" using r by (simp add: mem_read_def readable_def)
  ultimately show "crypt_payload crypt (Some r) m = Inr (set_body (F (data_body r)) m)"
    by (simp add: crypt_payload_def Let_def set_body_def data_body_def)
qed

text \<open>The keys of a hop, and the layers of a chain of hops on and off.\<close>

definition layer_keys :: "TunnelHopConfig \<Rightarrow> TunnelKeys" where
  "layer_keys h = \<lparr>layer_key = aes_layer_key (hc_AESAttributes h), iv_key = aes_IV_key (hc_AESAttributes h)\<rparr>"

lemma fold_layers:
  assumes "block_cipher E D"
  shows "length bs = 1024 \<Longrightarrow> length (fold (tunnel_dec D) ks bs) = 1024"
    and "length bs = 1024 \<Longrightarrow> fold (tunnel_enc E) ks (fold (tunnel_dec D) (rev ks) bs) = bs"
proof -
  show l: "length bs = 1024 \<Longrightarrow> length (fold (tunnel_dec D) ks bs) = 1024" for ks bs
    by (induction ks arbitrary: bs) (simp_all add: length_tunnel_layer [OF assms])
  show "length bs = 1024 \<Longrightarrow> fold (tunnel_enc E) ks (fold (tunnel_dec D) (rev ks) bs) = bs"
    by (induction ks arbitrary: bs) (simp_all add: tunnel_layer_inverse [OF assms] l)
qed

lemma set_body_twice:
  "length bs = 1024 \<Longrightarrow> length cs = 1024 \<Longrightarrow> readable m \<Longrightarrow> set_body cs (set_body bs m) = set_body cs m"
  by (simp add: set_body_def readable_def msg_accessors poke_over)

lemma decrypt_layers_ok:
  assumes c: "block_cipher E (b_decrypt env)"
  shows "\<forall>h \<in> set hops. hc_Decryption h = Some (layer_keys h) \<Longrightarrow> readable m \<Longrightarrow>
    decrypt_layers env hops None m = Inr (if hops = [] then m else set_body (fold (tunnel_dec (b_decrypt env)) (map layer_keys hops) (data_body m)) m)"
proof (induction hops arbitrary: m)
  case (Cons h hops)
  let ?F = "tunnel_dec (b_decrypt env) (layer_keys h)" let ?m = "set_body (?F (data_body m)) m"
  have l: "length (data_body m) = 1024" "length (?F (data_body m)) = 1024"
    using length_data_body [OF Cons.prems(2)] length_tunnel_layer(2) [OF c] by simp_all
  note b = set_body_body [OF Cons.prems(2) l(2)]
  have "computes (hop_decrypt env h) ?F"
    using computes_layers(2) [OF c, of "b_UsingAESNI env" "layer_keys h"] Cons.prems(1) by (simp add: computes_def hop_decrypt_def)
  from crypt_payload_eq(1) [OF this Cons.prems(2)] Cons.IH [of ?m] Cons.prems(1) b
  show ?case using set_body_twice [OF l(2) _ Cons.prems(2)] fold_layers(1) [OF c l(2)] by simp
qed simp
section \<open>A message on its way\<close>

text \<open>
  A data message is addressed by the tunnel identifier in front of its body. \<open>tr\<close> is what the
  transports make of a message: it has to keep the type and the 1028 bytes of the payload.
\<close>

definition addressed :: "u32 \<Rightarrow> I2NPMessage \<Rightarrow> bool" where
  "addressed tid m \<longleftrightarrow> GetTypeID m = Inr (type_code I2NPTunnelData) \<and> take 4 (data_payload m) = word_encode True tid"

lemma addressed_read:
  assumes "addressed tid m" and "readable m"
  shows "Read_buf True (GetPayload m) (msg_buf m) = Inr tid"
proof -
  have "slice (GetPayload m) 4 (msg_buf m) = word_encode True tid"
    using assms(1) by (simp add: addressed_def data_payload_def slice_def)
  then show ?thesis using assms(2) by (simp add: Read_buf_def mem_read_def readable_def)
qed

definition transport_ok :: "(I2NPMessage \<Rightarrow> I2NPMessage) \<Rightarrow> bool" where
  "transport_ok tr \<longleftrightarrow> (\<forall>m. readable m \<longrightarrow>
     readable (tr m) \<and> data_payload (tr m) = data_payload m \<and> GetTypeID (tr m) = GetTypeID m)"

text \<open>Messages whose bodies are those of \<open>gs\<close> under \<open>F\<close>.\<close>

definition bodies :: "(bytes \<Rightarrow> bytes) \<Rightarrow> I2NPMessage list \<Rightarrow> I2NPMessage list \<Rightarrow> bool" where
  "bodies F gs ms \<longleftrightarrow> list_all2 (\<lambda>g m. readable m \<and> data_body m = F (data_body g)) gs ms"

lemma bodies_transport: "transport_ok tr \<Longrightarrow> bodies F gs ms \<Longrightarrow> bodies F gs (map tr ms)"
  by (auto simp: bodies_def transport_ok_def list_all2_conv_all_nth data_body_payload)

lemma addressed_transport: "transport_ok tr \<Longrightarrow> readable m \<Longrightarrow> addressed tid m \<Longrightarrow> addressed tid (tr m)"
  by (simp add: transport_ok_def addressed_def)

lemma bodies_readable: "bodies F gs ms \<Longrightarrow> \<forall>m \<in> set ms. readable m"
  by (auto simp: bodies_def list_all2_conv_all_nth in_set_conv_nth)

lemma bodies_comp:
  assumes "bodies F gs ms" and "bodies G ms ms'" and "\<And>g. g \<in> set gs \<Longrightarrow> G (F (data_body g)) = H (data_body g)"
  shows "bodies H gs ms'"
  using assms by (auto simp: bodies_def list_all2_conv_all_nth)

lemma data_msg_readable: "data_msg_ok m \<Longrightarrow> readable m"
  by (simp add: data_msg_ok_def readable_def msg_accessors)

lemma header_body:
  assumes "msg_ok m" and "readable m" and "msg_len m = msg_offset m + 1044"
    and "FillI2NPMessageHeader sha rnd now t r m = Inr m'"
  shows "readable m'" "data_body m' = data_body m" "GetTypeID m' = Inr (type_code t)" "data_payload m' = data_payload m"
proof -
  note f = FillI2NPMessageHeader_fields [OF assms(1,4)]
  show "readable m'" using assms(2) f(7,9) by (simp add: readable_def msg_accessors)
  have "payload_bytes x = data_payload x" if "msg_len x = msg_offset x + 1044" for x
    using that by (simp add: payload_bytes_def data_payload_def msg_accessors size_sub_def)
  then show p: "data_payload m' = data_payload m" using f(5,7,8) assms(3) by simp
  then show "data_body m' = data_body m" by (simp add: data_body_payload)
  show "GetTypeID m' = Inr (type_code t)" by (rule f(1))
qed

lemma seal_messages_ok:
  assumes enc: "\<And>m. readable m \<Longrightarrow> enc m m = Inr (set_body (F (data_body m)) m)" and F: "\<And>b. length b = 1024 \<Longrightarrow> length (F b) = 1024"
  shows "\<forall>m \<in> set ms. data_msg_ok m \<and> take 4 (data_payload m) = word_encode True tid \<Longrightarrow>
    \<exists>ms'. seal_messages env rnd now enc ms = Inr ms' \<and> bodies F ms ms' \<and> (\<forall>m \<in> set ms'. addressed tid m)"
proof (induction ms)
  case (Cons m ms)
  then obtain ms' where ms': "seal_messages env rnd now enc ms = Inr ms'" "bodies F ms ms'" "\<forall>m \<in> set ms'. addressed tid m" by auto
  have d: "data_msg_ok m" "readable m" using Cons.prems data_msg_readable by auto
  let ?m = "set_body (F (data_body m)) m"
  note b = set_body_body [OF d(2) F [OF length_data_body [OF d(2)]]]
  have ok: "msg_ok ?m" "msg_len ?m = msg_offset ?m + 1044" using d(1) b(1) by (simp_all add: msg_ok_def data_msg_ok_def i2np_sizes)
  obtain m' where m': "FillI2NPMessageHeader (g_sha256 env) (rnd (length ms)) now I2NPTunnelData 0 ?m = Inr m'"
    using FillI2NPMessageHeader_eq [OF ok(1)] by blast
  from header_body [OF ok(1) b(3) ok(2) m'] show ?case
    using enc [OF d(2)] m' ms' b(2,4) Cons.prems by (simp add: bodies_def addressed_def)
qed (simp add: bodies_def)

section \<open>Transit routers\<close>

lemma empty_data_msg:
  "readable CreateEmptyTunnelDataMsg" "length (msg_buf CreateEmptyTunnelDataMsg) = 4112" "msg_offset CreateEmptyTunnelDataMsg = 2"
  "msg_len CreateEmptyTunnelDataMsg = 1046" "msg_max_len CreateEmptyTunnelDataMsg = 4096"
  by (simp_all add: CreateEmptyTunnelDataMsg_def readable_def msg_accessors NewI2NPShortMessage_def I2NPMessageBuffer_def
      i2np_sizes del: replicate.simps)

lemma Participant_HandleTunnelDataMsg_ok:
  assumes c: "block_cipher (x_encrypt env) D" and r: "readable m"
  shows "\<exists>p' m'. Participant_HandleTunnelDataMsg env m p = Inr p' \<and> p_Base p' = p_Base p \<and>
    p_TunnelDataMsgs p' = p_TunnelDataMsgs p @ [m'] \<and> readable m' \<and> addressed (x_NextTunnelID (p_Base p)) m' \<and>
    data_body m' = tunnel_enc (x_encrypt env) (x_Encryption (p_Base p)) (data_body m)"
proof -
  let ?bs = "tunnel_enc (x_encrypt env) (x_Encryption (p_Base p)) (data_body m)" let ?m1 = "set_body ?bs CreateEmptyTunnelDataMsg"
  let ?tid = "word_encode True (x_NextTunnelID (p_Base p))" let ?m2 = "put_at 18 ?tid ?m1"
  have l: "length ?bs = 1024" using length_tunnel_layer(1) [OF c length_data_body [OF r]] .
  note b = set_body_body [OF empty_data_msg(1) l]
  have e: "TransitTunnel_EncryptTunnelMsg env (p_Base p) (Some m) CreateEmptyTunnelDataMsg = Inr ?m1"
    unfolding TransitTunnel_EncryptTunnelMsg_def by (rule crypt_payload_eq(2) [OF computes_layers(1) [OF c] empty_data_msg(1) r])
  have lb: "length (msg_buf ?m1) = 4112" using b(1) empty_data_msg(2) by simp
  have w: "put (GetPayload ?m1) ?tid ?m1 = Inr ?m2" using lb by (subst put_eq) (simp_all add: msg_accessors empty_data_msg(3))
  have ok: "msg_ok ?m2" "readable ?m2" "msg_len ?m2 = msg_offset ?m2 + 1044"
    using lb empty_data_msg(3,4) by (simp_all add: msg_ok_def i2np_sizes readable_def msg_accessors)
  have body: "data_body ?m2 = ?bs"
    using b(2) lb by (simp add: data_body_def msg_accessors empty_data_msg(3) slice_poke_after)
  have front: "take 4 (data_payload ?m2) = ?tid"
    using lb by (simp add: data_payload_def msg_accessors empty_data_msg(3) slice_def poke_def)
  obtain m3 where m3: "FillI2NPMessageHeader (e_sha256 (x_router env)) (x_rnd env) (x_now env) I2NPTunnelData 0 ?m2 = Inr m3"
    using FillI2NPMessageHeader_eq [OF ok(1)] by blast
  from header_body [OF ok m3] show ?thesis
    using e w m3 body front by (simp add: Participant_HandleTunnelDataMsg_def addressed_def)
qed

text \<open>What the endpoint sees of a message: the body under the last layer, in a new message.\<close>

definition opened :: "block_fun \<Rightarrow> TunnelKeys \<Rightarrow> I2NPMessage \<Rightarrow> I2NPMessage" where
  "opened E keys m = set_body (tunnel_enc E keys (data_body m)) CreateEmptyTunnelDataMsg"

lemma Endpoint_HandleTunnelDataMsg_opened:
  assumes "block_cipher (x_encrypt env) D" and "readable m"
  shows "Endpoint_HandleTunnelDataMsg env m t =
    bind_step (HandleDecryptedTunnelDataMsg (x_router env) (opened (x_encrypt env) (x_Encryption (n_Base t)) m) (n_Endpoint t))
      (\<lambda>ep. pure_step (t\<lparr>n_Endpoint := ep\<rparr>))"
proof -
  have "TransitTunnel_EncryptTunnelMsg env (n_Base t) (Some m) CreateEmptyTunnelDataMsg =
      Inr (opened (x_encrypt env) (x_Encryption (n_Base t)) m)"
    unfolding TransitTunnel_EncryptTunnelMsg_def opened_def
    using crypt_payload_eq(2) [OF computes_layers(1) [OF assms(1)] empty_data_msg(1) assms(2)] by simp
  then show ?thesis by (simp add: Endpoint_HandleTunnelDataMsg_def)
qed

lemma opened_same:
  assumes "block_cipher E D" and "readable m" and "tunnel_enc E keys (data_body m) = data_body g"
  shows "same_contents g (opened E keys m)"
proof -
  have "length (tunnel_enc E keys (data_body m)) = 1024" using length_tunnel_layer(1) [OF assms(1) length_data_body [OF assms(2)]] .
  note b = set_body_body [OF empty_data_msg(1) this]
  show ?thesis using b empty_data_msg assms(3)
    by (simp add: same_contents_def received_ok_def opened_def data_body_payload [symmetric] msg_accessors)
qed

section \<open>The tunnels of a configuration\<close>

text \<open>The transit tunnel a router creates for the build request of a hop.\<close>

definition created_from :: "AnyTransitTunnel \<Rightarrow> TunnelHopConfig \<Rightarrow> bool" where
  "created_from x h \<longleftrightarrow> (\<exists>random now. let r = hop_request h in
     x = CreateTransitTunnel random now (tt_receive_tunnel r) (tt_next_ident r) (tt_next_tunnel r) (tt_layer_key r) (tt_iv_key r)
       (tt_is_gateway r) (tt_is_endpoint r))"

lemma created_participant:
  assumes "created_from x h" and "\<not> hc_IsGateway h" "\<not> hc_IsEndpoint h"
  shows "\<exists>p. x = AParticipant p \<and> p_TunnelDataMsgs p = [] \<and> x_Encryption (p_Base p) = layer_keys h \<and>
    x_NextIdent (p_Base p) = next_ident h \<and> x_NextTunnelID (p_Base p) = hc_NextTunnelID h"
  using assms by (auto simp: created_from_def CreateTransitTunnel_def hop_request_def TransitTunnel_new_def layer_keys_def Let_def)

lemma created_endpoint:
  assumes "created_from x h" and "hc_IsEndpoint h"
  shows "\<exists>t. x = AnEndpoint t \<and> n_Endpoint t = TunnelEndpoint_new False \<and> x_Encryption (n_Base t) = layer_keys h"
  using assms by (auto simp: created_from_def CreateTransitTunnel_def hop_request_def TransitTunnel_new_def layer_keys_def Let_def)

lemma fold_put_blocks:
  "\<forall>block \<in> set blocks. block_data block \<noteq> None \<Longrightarrow>
   fold_result (\<lambda>g block. PutTunnelDataMsg genv block g) g blocks =
     bind_result (put_blocks genv blocks (tg_Buffer g)) (\<lambda>b. Inr (g\<lparr>tg_Buffer := b\<rparr>))"
proof (induction blocks arbitrary: g)
  case (Cons block blocks)
  then show ?case by (cases "PutI2NPMsg genv block (tg_Buffer g)") (auto simp: PutTunnelDataMsg_def)
qed simp

lemma chained_flags:
  "chained hops \<Longrightarrow> (\<forall>h \<in> set (butlast hops). \<not> hc_IsEndpoint h) \<and> (\<forall>h \<in> set (tl hops). \<not> hc_IsGateway h)"
  by (induction hops rule: chained.induct) auto

lemma SendTunnelDataMsgs_ok:
  assumes c: "block_cipher E (b_decrypt (o_build env))" and hops: "tc_Hops (tn_Config (ot_Tunnel t)) = hops" "hops \<noteq> []"
    "\<forall>h \<in> set hops. hc_Decryption h = Some (layer_keys h)" and data: "\<forall>block \<in> set blocks. block_data block \<noteq> None"
    and put: "bind_result (put_blocks (o_gateway env) blocks (tg_Buffer (ot_Gateway t))) (CompleteCurrentTunnelDataMessage (o_gateway env)) = Inr b"
      "\<forall>m \<in> set (g_TunnelDataMsgs b). data_msg_ok m \<and> take 4 (data_payload m) = word_encode True tid"
  shows "\<exists>t' ms. OutboundTunnel_SendTunnelDataMsgs env blocks t = Inr (t', [SendMessages (r_IdentHash (hc_CurrentRouter (hd hops))) ms]) \<and>
    bodies (fold (tunnel_dec (b_decrypt (o_build env))) (rev (map layer_keys hops))) (g_TunnelDataMsgs b) ms \<and>
    (\<forall>m \<in> set ms. addressed tid m)"
proof -
  let ?D = "b_decrypt (o_build env)" let ?F = "fold (tunnel_dec ?D) (rev (map layer_keys hops))"
  let ?enc = "\<lambda>_ m. Tunnel_EncryptTunnelMsg (o_build env) (ot_Tunnel t) None m"
  have enc: "?enc m m = Inr (set_body (?F (data_body m)) m)" if "readable m" for m
    using decrypt_layers_ok [OF c, of "rev hops" m] that hops by (simp add: Tunnel_EncryptTunnelMsg_def rev_map)
  have "\<exists>ms'. seal_messages (o_gateway env) (o_seal_rnd env) (o_now env) ?enc (g_TunnelDataMsgs b) = Inr ms' \<and>
      bodies ?F (g_TunnelDataMsgs b) ms' \<and> (\<forall>m \<in> set ms'. addressed tid m)"
    using enc fold_layers(1) [OF c] put(2) by (intro seal_messages_ok) auto
  then obtain ms where ms: "seal_messages (o_gateway env) (o_seal_rnd env) (o_now env) ?enc (g_TunnelDataMsgs b) = Inr ms"
    "bodies ?F (g_TunnelDataMsgs b) ms" "\<forall>m \<in> set ms. addressed tid m" by blast
  obtain h rest where h: "hops = h # rest" using hops(2) by (cases hops) auto
  let ?ident = "r_IdentHash (hc_CurrentRouter h)"
  have g: "outbound_gateway env t = Inr ((ot_Gateway t)\<lparr>tg_NextIdent := ?ident, tg_EncryptTunnelMsg := ?enc\<rparr>)"
    using hops(1) h by (simp add: outbound_gateway_def GetNextIdentHash_def GetFirstHop_def)
  obtain b1 where b1: "put_blocks (o_gateway env) blocks (tg_Buffer (ot_Gateway t)) = Inr b1"
      "CompleteCurrentTunnelDataMessage (o_gateway env) b1 = Inr b"
    using put(1) by (auto simp: bind_result_eq_Inr)
  let ?g = "(ot_Gateway t)\<lparr>tg_NextIdent := ?ident, tg_EncryptTunnelMsg := ?enc, tg_Buffer := b1\<rparr>"
  have "fold_result (\<lambda>g block. PutTunnelDataMsg (o_gateway env) block g)
      ((ot_Gateway t)\<lparr>tg_NextIdent := ?ident, tg_EncryptTunnelMsg := ?enc\<rparr>) blocks = Inr ?g"
    using b1(1) by (simp add: fold_put_blocks [OF data])
  moreover have "SendBuffer (o_gateway env) (o_seal_rnd env) (o_now env) ?g =
      Inr (?g\<lparr>tg_Buffer := ClearTunnelDataMsgs b, tg_NumSentBytes := tg_NumSentBytes ?g + length ms * TUNNEL_DATA_MSG_SIZE\<rparr>, ?ident, ms)"
    using b1(2) ms(1) by (simp add: SendBuffer_def)
  ultimately show ?thesis
    using g ms(2,3) h by (simp add: OutboundTunnel_SendTunnelDataMsgs_def emit_step_def)
qed

end
