(* ===== verification/Tunnel_Store.thy ===== *)
theory Tunnel_Store
  imports Tunnel_Transit "HOL-Library.Product_Lexorder"
begin

text \<open>
  The tunnels this router owns and the objects they share (class \<open>Tunnels\<close> of \<open>tunnel/impl.h\<close>
  and \<open>tunnel/impl.cc\<close>, with the state of \<open>TunnelPool\<close> of \<open>tunnel/pool.h\<close>). A tunnel is held
  by several owners at once: by the list of pending tunnels, by the lists of the manager, by its
  pool and by the tests of the pool. Tunnels and pools are therefore objects in a store, and a
  shared pointer is a handle into it; the handle also stands for the address, by which sets of
  tunnels break ties.

  An operation can throw in the middle, and the loop of the manager catches what it throws and
  goes on with the state it finds. So an operation is a function from the state to a result
  \<^emph>\<open>and\<close> the state, and what it sends is written to a log in the state.

  Random numbers, the network database, the transports and the profiles are parameters; every
  draw takes the next number of a counter, so that no two draws are tied to each other.
\<close>

section \<open>State\<close>

datatype AnyTunnel = AnInboundTunnel InboundTunnel | AnOutboundTunnel OutboundTunnel

fun base_tunnel :: "AnyTunnel \<Rightarrow> Tunnel" where
  "base_tunnel (AnInboundTunnel t) = it_Tunnel t"
| "base_tunnel (AnOutboundTunnel t) = ot_Tunnel t"

fun map_base :: "(Tunnel \<Rightarrow> Tunnel) \<Rightarrow> AnyTunnel \<Rightarrow> AnyTunnel" where
  "map_base f (AnInboundTunnel t) = AnInboundTunnel (t\<lparr>it_Tunnel := f (it_Tunnel t)\<rparr>)"
| "map_base f (AnOutboundTunnel t) = AnOutboundTunnel (t\<lparr>ot_Tunnel := f (ot_Tunnel t)\<rparr>)"

fun is_inbound :: "AnyTunnel \<Rightarrow> bool" where
  "is_inbound (AnInboundTunnel t) = True"
| "is_inbound (AnOutboundTunnel t) = False"

text \<open>
  \<open>std::set\<close> under \<open>TunnelCreationTimeCmp\<close>: the later creation time first, then the address.
\<close>

type_synonym tunnel_set = "(int \<times> nat, nat) std_map"

definition TunnelCreationTimeCmp :: "Tunnel \<Rightarrow> nat \<Rightarrow> int \<times> nat" where
  "TunnelCreationTimeCmp t h = (- uint (tn_CreationTime t), h)"

record TunnelPool =
  tp_LocalDestination :: "nat option"
  tp_NumInboundHops :: int
  tp_NumOutboundHops :: int
  tp_NumInboundTunnels :: int
  tp_NumOutboundTunnels :: int
  tp_ExplicitPeers :: "bytes list option"
  tp_InboundTunnels :: tunnel_set
  tp_OutboundTunnels :: tunnel_set
  tp_Tests :: "(u32, nat option \<times> nat option) std_map"
  tp_IsActive :: bool

text \<open>What the manager and the pools do to the rest of the router.\<close>

datatype manager_event =
    RouterAction action
  | SetLeaseSetUpdated nat
  | DestinationGarlic nat I2NPMessage
  | DestinationDeliveryStatus nat I2NPMessage
  | TunnelNonReplied RouterDescription
  | TunnelBuildResponse RouterDescription u8
  | RequestDestination bytes

record Tunnels =
  ts_Heap :: "nat \<Rightarrow> AnyTunnel option"
  ts_PoolHeap :: "nat \<Rightarrow> TunnelPool option"
  ts_Next :: nat
  ts_Draws :: nat
  ts_Log :: "manager_event list"
  m_PendingInboundTunnels :: "(u32, nat) std_map"
  m_PendingOutboundTunnels :: "(u32, nat) std_map"
  m_InboundTunnels :: "(u32, nat) std_map"
  m_OutboundTunnels :: "nat list"
  m_TransitTunnels :: "(u32, AnyTransitTunnel) std_map"
  m_Pools :: "nat list"
  m_ExploratoryPool :: "nat option"
  m_Queue :: "I2NPMessage list"
  m_NumSuccesiveTunnelCreations :: int
  m_NumFailedTunnelCreations :: int

definition Tunnels_new :: Tunnels where
  "Tunnels_new =
     \<lparr>ts_Heap = (\<lambda>_. None), ts_PoolHeap = (\<lambda>_. None), ts_Next = 0, ts_Draws = 0, ts_Log = [],
      m_PendingInboundTunnels = [], m_PendingOutboundTunnels = [], m_InboundTunnels = [], m_OutboundTunnels = [],
      m_TransitTunnels = [], m_Pools = [], m_ExploratoryPool = None, m_Queue = [],
      m_NumSuccesiveTunnelCreations = 0, m_NumFailedTunnelCreations = 0\<rparr>"

text \<open>
  What the manager reads of the rest of the router. The first argument of most fields is the
  number of the draw; \<open>v_hops\<close> are the identifiers and keys of the hops of a configuration.
\<close>

record ManagerEnv =
  v_now :: u64
  v_build :: "nat \<Rightarrow> BuildEnv"
  v_outbound :: "nat \<Rightarrow> OutboundEnv"
  v_transit :: "nat \<Rightarrow> TransitEnv"
  v_router :: "nat \<Rightarrow> RouterEnv"
  v_random :: "nat \<Rightarrow> bytes"
  v_rand32 :: "nat \<Rightarrow> u32"
  v_range32 :: "nat \<Rightarrow> u32 \<Rightarrow> u32 \<Rightarrow> u32"
  v_shuffle :: "nat \<Rightarrow> nat list \<Rightarrow> nat list"
  v_hops :: "nat \<Rightarrow> nat \<Rightarrow> hop_draw"
  v_own_router :: "RouterDescription option"
  v_GetRandomRouter :: "nat \<Rightarrow> RouterDescription option \<Rightarrow> RouterDescription option"
  v_GetHighBandwidthRandomRouter :: "nat \<Rightarrow> RouterDescription option \<Rightarrow> RouterDescription option"
  v_FindRouter :: "bytes \<Rightarrow> RouterDescription option"
  v_IsBad :: "RouterDescription \<Rightarrow> bool"
  v_NumPeers :: nat
  v_GetRandomPeer :: "nat \<Rightarrow> RouterDescription option"
  v_context :: nat
  v_network_ID :: u64

section \<open>Operations that can throw\<close>

type_synonym 'a mop = "Tunnels \<Rightarrow> 'a result \<times> Tunnels"

definition mret :: "'a \<Rightarrow> 'a mop" where
  "mret x s = (Inr x, s)"

definition mthrow :: "error \<Rightarrow> 'a mop" where
  "mthrow e s = (Inl e, s)"

definition mbind :: "'a mop \<Rightarrow> ('a \<Rightarrow> 'b mop) \<Rightarrow> 'b mop" where
  "mbind m f s = (case m s of (r, s') \<Rightarrow> (case r of Inl e \<Rightarrow> (Inl e, s') | Inr x \<Rightarrow> f x s'))"

definition mseq :: "'a mop \<Rightarrow> 'b mop \<Rightarrow> 'b mop" where
  "mseq m n = mbind m (\<lambda>_. n)"

definition mlift :: "'a result \<Rightarrow> 'a mop" where
  "mlift r s = (r, s)"

definition mget :: "(Tunnels \<Rightarrow> 'a) \<Rightarrow> 'a mop" where
  "mget f s = (Inr (f s), s)"

definition mmodify :: "(Tunnels \<Rightarrow> Tunnels) \<Rightarrow> unit mop" where
  "mmodify f s = (Inr (), f s)"

definition mwhen :: "bool \<Rightarrow> unit mop \<Rightarrow> unit mop" where
  "mwhen b m = (if b then m else mret ())"

fun mfor :: "('a \<Rightarrow> unit mop) \<Rightarrow> 'a list \<Rightarrow> unit mop" where
  "mfor f [] = mret ()"
| "mfor f (x # xs) = mseq (f x) (mfor f xs)"

definition mlog :: "manager_event \<Rightarrow> unit mop" where
  "mlog e = mmodify (\<lambda>s. s\<lparr>ts_Log := ts_Log s @ [e]\<rparr>)"

text \<open>The number of the next draw.\<close>

definition mdraw :: "nat mop" where
  "mdraw s = (Inr (ts_Draws s), s\<lparr>ts_Draws := Suc (ts_Draws s)\<rparr>)"

text \<open>A null or dangling pointer is a memory error.\<close>

definition get_tunnel :: "nat \<Rightarrow> AnyTunnel mop" where
  "get_tunnel h s = (case ts_Heap s h of None \<Rightarrow> (Inl MemoryError, s) | Some x \<Rightarrow> (Inr x, s))"

definition put_tunnel :: "nat \<Rightarrow> AnyTunnel \<Rightarrow> unit mop" where
  "put_tunnel h x = mmodify (\<lambda>s. s\<lparr>ts_Heap := (ts_Heap s)(h \<mapsto> x)\<rparr>)"

definition update_base :: "nat \<Rightarrow> (Tunnel \<Rightarrow> Tunnel) \<Rightarrow> unit mop" where
  "update_base h f = mbind (get_tunnel h) (\<lambda>x. put_tunnel h (map_base f x))"

definition get_pool :: "nat \<Rightarrow> TunnelPool mop" where
  "get_pool p s = (case ts_PoolHeap s p of None \<Rightarrow> (Inl MemoryError, s) | Some pool \<Rightarrow> (Inr pool, s))"

definition update_pool :: "nat \<Rightarrow> (TunnelPool \<Rightarrow> TunnelPool) \<Rightarrow> unit mop" where
  "update_pool p f = mbind (get_pool p) (\<lambda>pool. mmodify (\<lambda>s. s\<lparr>ts_PoolHeap := (ts_PoolHeap s)(p \<mapsto> f pool)\<rparr>))"

definition SetState :: "nat \<Rightarrow> TunnelState \<Rightarrow> unit mop" where
  "SetState h state = update_base h (\<lambda>t. t\<lparr>tn_State := state\<rparr>)"

definition SetTunnelPool :: "nat \<Rightarrow> nat option \<Rightarrow> unit mop" where
  "SetTunnelPool h pool = update_base h (\<lambda>t. t\<lparr>tn_Pool := pool\<rparr>)"

definition SetIsRecreated :: "nat \<Rightarrow> unit mop" where
  "SetIsRecreated h = update_base h (\<lambda>t. t\<lparr>tn_IsRecreated := True\<rparr>)"

text \<open>What a loop asks of a tunnel.\<close>

definition tunnel_state :: "Tunnels \<Rightarrow> nat \<Rightarrow> TunnelState option" where
  "tunnel_state s h = map_option (\<lambda>x. tn_State (base_tunnel x)) (ts_Heap s h)"

definition IsEstablished :: "Tunnels \<Rightarrow> nat \<Rightarrow> bool" where
  "IsEstablished s h \<longleftrightarrow> tunnel_state s h = Some TunnelStateEstablished"

definition GetNumReceivedBytes :: "Tunnels \<Rightarrow> nat \<Rightarrow> nat" where
  "GetNumReceivedBytes s h = (case ts_Heap s h of Some (AnInboundTunnel t) \<Rightarrow> ep_NumReceivedBytes (it_Endpoint t) | _ \<Rightarrow> 0)"

section \<open>Lookup\<close>

definition GetInboundTunnel :: "u32 \<Rightarrow> Tunnels \<Rightarrow> nat option" where
  "GetInboundTunnel tid s = std_find tid (m_InboundTunnels s)"

definition GetTransitTunnel :: "u32 \<Rightarrow> Tunnels \<Rightarrow> AnyTransitTunnel option" where
  "GetTransitTunnel tid s = std_find tid (m_TransitTunnels s)"

definition pending :: "bool \<Rightarrow> Tunnels \<Rightarrow> (u32, nat) std_map" where
  "pending inbound s = (if inbound then m_PendingInboundTunnels s else m_PendingOutboundTunnels s)"

definition set_pending :: "bool \<Rightarrow> (u32, nat) std_map \<Rightarrow> Tunnels \<Rightarrow> Tunnels" where
  "set_pending inbound m s =
     (if inbound then s\<lparr>m_PendingInboundTunnels := m\<rparr> else s\<lparr>m_PendingOutboundTunnels := m\<rparr>)"

definition GetPendingTunnel :: "bool \<Rightarrow> u32 \<Rightarrow> nat option mop" where
  "GetPendingTunnel inbound reply_msg_ID =
     mbind (mget (\<lambda>s. std_find reply_msg_ID (pending inbound s))) (\<lambda>found.
     case found of
       None \<Rightarrow> mret None
     | Some h \<Rightarrow>
         mbind (get_tunnel h) (\<lambda>x.
           if tn_State (base_tunnel x) = TunnelStatePending then
             mseq (SetState h TunnelStateBuildReplyReceived) (mret (Some h))
           else mret None))"

fun next_inbound :: "Tunnels \<Rightarrow> (nat \<times> nat) option \<Rightarrow> (u32 \<times> nat) list \<Rightarrow> nat option" where
  "next_inbound s best [] = map_option fst best"
| "next_inbound s best ((k, h) # m) =
     (if \<not> IsEstablished s h then next_inbound s best m
      else
        (case best of
           None \<Rightarrow> next_inbound s (Some (h, GetNumReceivedBytes s h)) m
         | Some (tunnel, min_received) \<Rightarrow>
             if GetNumReceivedBytes s h < min_received then next_inbound s (Some (h, GetNumReceivedBytes s h)) m
             else next_inbound s best m))"

definition Tunnels_GetNextInboundTunnel :: "Tunnels \<Rightarrow> nat option" where
  "Tunnels_GetNextInboundTunnel s = next_inbound s None (m_InboundTunnels s)"

text \<open>
  The loop that takes the tunnel number \<open>ind\<close> of those that are \<open>ok\<close>, or the last one if there
  are fewer.
\<close>

fun pick_tunnel :: "(nat \<Rightarrow> bool) \<Rightarrow> u32 \<Rightarrow> u32 \<Rightarrow> nat option \<Rightarrow> nat list \<Rightarrow> nat option" where
  "pick_tunnel ok ind i tunnel [] = tunnel"
| "pick_tunnel ok ind i tunnel (h # hs) =
     (let tunnel' = (if ok h then Some h else tunnel); i' = (if ok h then i + 1 else i) in
      if ind < i' \<and> tunnel' \<noteq> None then tunnel' else pick_tunnel ok ind i' tunnel' hs)"

definition Tunnels_GetNextOutboundTunnel :: "ManagerEnv \<Rightarrow> nat option mop" where
  "Tunnels_GetNextOutboundTunnel env =
     mbind mdraw (\<lambda>n.
     mget (\<lambda>s.
       let ind = v_range32 env n 0 (word_of_nat (length (m_OutboundTunnels s)) - 1) in
       pick_tunnel (IsEstablished s) ind 0 None (m_OutboundTunnels s)))"

section \<open>Creating a tunnel\<close>

definition send_through ::
    "ManagerEnv \<Rightarrow> nat \<Rightarrow> bytes \<Rightarrow> u32 \<Rightarrow> I2NPMessage \<Rightarrow> unit mop" where
  "send_through env h gw_hash gw_tunnel msg =
     mbind (get_tunnel h) (\<lambda>x.
     case x of
       AnInboundTunnel t \<Rightarrow> mthrow MemoryError
     | AnOutboundTunnel t \<Rightarrow>
         mbind mdraw (\<lambda>n.
         mbind (mlift (OutboundTunnel_SendTunnelDataMsg (v_outbound env n) (Some gw_hash) gw_tunnel (Some msg) t)) (\<lambda>(t', acts).
           mseq (put_tunnel h (AnOutboundTunnel t')) (mfor (\<lambda>a. mlog (RouterAction a)) acts))))"

definition perform_build :: "ManagerEnv \<Rightarrow> build_action \<Rightarrow> unit mop" where
  "perform_build env act =
     (case act of
        BuildDirect ident msg \<Rightarrow> mlog (RouterAction (SendMessage ident msg))
      | BuildThrough h ident tunnel msg \<Rightarrow> send_through env h ident tunnel msg)"

definition AddPendingTunnel :: "bool \<Rightarrow> u32 \<Rightarrow> nat \<Rightarrow> unit mop" where
  "AddPendingTunnel inbound reply_msg_ID h =
     mmodify (\<lambda>s. set_pending inbound (std_assign reply_msg_ID h (pending inbound s)) s)"

definition new_tunnel :: "ManagerEnv \<Rightarrow> bool \<Rightarrow> TunnelConfig \<Rightarrow> nat mop" where
  "new_tunnel env inbound config =
     mbind mdraw (\<lambda>n.
     mbind (if inbound then mret (AnInboundTunnel (InboundTunnel_new (v_now env) config))
            else mlift (bind_result (OutboundTunnel_new (v_random env n) (v_now env) config) (\<lambda>t. Inr (AnOutboundTunnel t)))) (\<lambda>x.
     mbind (mget ts_Next) (\<lambda>h.
     mseq (mmodify (\<lambda>s. s\<lparr>ts_Heap := (ts_Heap s)(h \<mapsto> x), ts_Next := Suc h\<rparr>)) (mret h))))"

definition Tunnel_Build_at :: "ManagerEnv \<Rightarrow> u32 \<Rightarrow> nat option \<Rightarrow> nat \<Rightarrow> unit mop" where
  "Tunnel_Build_at env reply_msg_ID outbound_tunnel h =
     mbind (get_tunnel h) (\<lambda>x.
     mbind mdraw (\<lambda>n.
     mbind (mlift (Build (v_build env n) reply_msg_ID outbound_tunnel (base_tunnel x))) (\<lambda>(t', act).
     mseq (update_base h (\<lambda>_. t')) (perform_build env act))))"

definition CreateTunnel :: "ManagerEnv \<Rightarrow> bool \<Rightarrow> TunnelConfig \<Rightarrow> nat option \<Rightarrow> nat mop" where
  "CreateTunnel env inbound config outbound_tunnel =
     mbind (new_tunnel env inbound config) (\<lambda>h.
     mbind mdraw (\<lambda>n.
     mseq (AddPendingTunnel inbound (v_rand32 env n) h)
     (mseq (Tunnel_Build_at env (v_rand32 env n) outbound_tunnel h)
     (mret h))))"

text \<open>
  The configurations a tunnel is created from: over given routers, and those of another tunnel
  turned round or with new keys.
\<close>

definition new_config :: "ManagerEnv \<Rightarrow> RouterDescription option list \<Rightarrow> TunnelConfig option \<Rightarrow> TunnelConfig mop" where
  "new_config env routers reply =
     mbind mdraw (\<lambda>n.
       mlift (TunnelConfig_new (v_own_router env) (v_rand32 env n)
         (zip routers (map (v_hops env n) [0..<length routers])) reply))"

definition invert_config :: "ManagerEnv \<Rightarrow> TunnelConfig \<Rightarrow> TunnelConfig mop" where
  "invert_config env c =
     mbind mdraw (\<lambda>n. mlift (Invert (v_own_router env) (v_rand32 env n) (map (v_hops env n) [0..<GetNumHops c]) c))"

definition clone_config :: "ManagerEnv \<Rightarrow> TunnelConfig option \<Rightarrow> TunnelConfig \<Rightarrow> TunnelConfig mop" where
  "clone_config env reply c =
     mbind mdraw (\<lambda>n. mlift (Clone (v_own_router env) (v_rand32 env n) (map (v_hops env n) [0..<GetNumHops c]) reply c))"

definition config_of :: "nat \<Rightarrow> TunnelConfig mop" where
  "config_of h = mbind (get_tunnel h) (\<lambda>x. mret (tn_Config (base_tunnel x)))"

section \<open>What operations keep\<close>

text \<open>
  \<open>keeps_at R m s\<close>: the operation \<open>m\<close>, started in \<open>s\<close>, leads to a state in relation \<open>R\<close> with
  \<open>s\<close>, whether it returns or throws. With \<open>R s s' = (I s \<longrightarrow> I s')\<close> this says that \<open>m\<close> keeps the
  invariant \<open>I\<close>; other relations say which parts of the state \<open>m\<close> leaves alone. The locale
  collects what follows for composed operations when \<open>R\<close> is a preorder that does not see the
  counter of draws and the log.
\<close>

definition keeps_at :: "(Tunnels \<Rightarrow> Tunnels \<Rightarrow> bool) \<Rightarrow> 'a mop \<Rightarrow> Tunnels \<Rightarrow> bool" where
  "keeps_at R m s \<longleftrightarrow> R s (snd (m s))"

named_theorems mop_simps \<open>evaluation of operations\<close>

lemmas mop_defs = mret_def mthrow_def mlift_def mget_def mmodify_def mdraw_def

lemma mbind_cases:
  "mbind m f s = (case m s of (Inl e, s') \<Rightarrow> (Inl e, s') | (Inr x, s') \<Rightarrow> f x s')"
  by (simp add: mbind_def split: prod.splits sum.splits)

lemma mbind_eq_Inr [mop_simps]:
  "mbind m f s = (Inr y, s'') \<longleftrightarrow> (\<exists>x s'. m s = (Inr x, s') \<and> f x s' = (Inr y, s''))"
  by (auto simp: mbind_def split: prod.splits sum.splits)

lemma mseq_eq_Inr [mop_simps]:
  "mseq m n s = (Inr y, s'') \<longleftrightarrow> (\<exists>x s'. m s = (Inr x, s') \<and> n s' = (Inr y, s''))"
  by (simp add: mseq_def mbind_eq_Inr)

lemma mop_eq_Inr [mop_simps]:
  "mret x s = (Inr y, s') \<longleftrightarrow> y = x \<and> s' = s" "mthrow e s = (Inr z, s') \<longleftrightarrow> False"
  "mlift r s = (Inr u, s') \<longleftrightarrow> r = Inr u \<and> s' = s" "mget g s = (Inr v, s') \<longleftrightarrow> v = g s \<and> s' = s"
  "mmodify f s = (Inr w, s') \<longleftrightarrow> s' = f s" "mdraw s = (Inr n, s') \<longleftrightarrow> n = ts_Draws s \<and> s' = s\<lparr>ts_Draws := Suc n\<rparr>"
  by (auto simp: mop_defs)

lemma get_eq_Inr [mop_simps]:
  "get_tunnel h s = (Inr x, s') \<longleftrightarrow> ts_Heap s h = Some x \<and> s' = s"
  "get_pool p s = (Inr pool, s') \<longleftrightarrow> ts_PoolHeap s p = Some pool \<and> s' = s"
  by (auto simp: get_tunnel_def get_pool_def split: option.splits)

lemma snd_get [simp]: "snd (get_tunnel h s) = s" "snd (get_pool p s) = s"
  by (simp_all add: get_tunnel_def get_pool_def split: option.splits)

lemma mwhen_eq_Inr [mop_simps]: "mwhen b m s = (Inr x, s') \<longleftrightarrow> (if b then m s = (Inr x, s') else s' = s)"
  by (simp add: mwhen_def mop_defs) auto

locale state_relation =
  fixes R :: "Tunnels \<Rightarrow> Tunnels \<Rightarrow> bool"
  assumes R_refl: "R s s"
    and R_trans: "R s1 s2 \<Longrightarrow> R s2 s3 \<Longrightarrow> R s1 s3"
    and R_draws: "R s (s\<lparr>ts_Draws := n\<rparr>)"
    and R_log: "R s (s\<lparr>ts_Log := l\<rparr>)"
begin

lemma keeps_basic:
  "keeps_at R (mret x) s" "keeps_at R (mthrow e) s" "keeps_at R (mlift r) s" "keeps_at R (mget g) s" "keeps_at R mdraw s"
  "keeps_at R (mlog ev) s" "keeps_at R (get_tunnel h) s" "keeps_at R (get_pool p) s"
  by (simp_all add: keeps_at_def mop_defs mlog_def R_refl R_draws R_log)

lemma keeps_modify: "R s (f s) \<Longrightarrow> keeps_at R (mmodify f) s"
  by (simp add: keeps_at_def mmodify_def)

lemma keeps_bind:
  assumes "keeps_at R m s" and "\<And>x s'. m s = (Inr x, s') \<Longrightarrow> keeps_at R (f x) s'"
  shows "keeps_at R (mbind m f) s"
proof (cases "m s")
  case (Pair r s')
  then show ?thesis
    using assms R_trans [of s s'] by (cases r) (auto simp: keeps_at_def mbind_def)
qed

lemma keeps_seq:
  "keeps_at R m s \<Longrightarrow> (\<And>x s'. m s = (Inr x, s') \<Longrightarrow> keeps_at R n s') \<Longrightarrow> keeps_at R (mseq m n) s"
  unfolding mseq_def by (rule keeps_bind)

lemma keeps_when: "(b \<Longrightarrow> keeps_at R m s) \<Longrightarrow> keeps_at R (mwhen b m) s"
  by (simp add: mwhen_def keeps_basic)

lemma keeps_if: "(b \<Longrightarrow> keeps_at R m s) \<Longrightarrow> (\<not> b \<Longrightarrow> keeps_at R n s) \<Longrightarrow> keeps_at R (if b then m else n) s"
  by simp

lemma keeps_option:
  "(x = None \<Longrightarrow> keeps_at R m s) \<Longrightarrow> (\<And>y. x = Some y \<Longrightarrow> keeps_at R (f y) s) \<Longrightarrow>
   keeps_at R (case x of None \<Rightarrow> m | Some y \<Rightarrow> f y) s"
  by (cases x) simp_all

lemma keeps_prod: "(\<And>a b. x = (a, b) \<Longrightarrow> keeps_at R (f a b) s) \<Longrightarrow> keeps_at R (case x of (a, b) \<Rightarrow> f a b) s"
  by (cases x) simp

lemma keeps_tunnel:
  "(\<And>t. x = AnInboundTunnel t \<Longrightarrow> keeps_at R (f t) s) \<Longrightarrow> (\<And>t. x = AnOutboundTunnel t \<Longrightarrow> keeps_at R (g t) s) \<Longrightarrow>
   keeps_at R (case x of AnInboundTunnel t \<Rightarrow> f t | AnOutboundTunnel t \<Rightarrow> g t) s"
  by (cases x) simp_all

lemma keeps_let: "keeps_at R (f x) s \<Longrightarrow> keeps_at R (let y = x in f y) s"
  by simp

lemmas keeps_intros = keeps_basic keeps_bind keeps_seq keeps_when keeps_if keeps_option keeps_prod keeps_tunnel keeps_let

text \<open>A loop, with a condition \<open>J\<close> on the state that every round keeps.\<close>

lemma keeps_for:
  assumes "\<And>x s'. x \<in> set xs \<Longrightarrow> J s' \<Longrightarrow> keeps_at R (f x) s'"
    and "\<And>x s' s'' u. x \<in> set xs \<Longrightarrow> J s' \<Longrightarrow> f x s' = (Inr u, s'') \<Longrightarrow> J s''"
  shows "J s \<Longrightarrow> keeps_at R (mfor f xs) s"
  using assms
proof (induction xs arbitrary: s)
  case (Cons x xs)
  have "keeps_at R (mfor f xs) s'" if "f x s = (Inr u, s')" for u s'
    using Cons.IH [of s'] Cons.prems that by (meson list.set_intros)
  then show ?case using Cons.prems by (auto intro!: keeps_seq)
qed (simp add: keeps_basic)

lemma keeps_all: "(\<And>x s'. x \<in> set xs \<Longrightarrow> keeps_at R (f x) s') \<Longrightarrow> keeps_at R (mfor f xs) s"
  by (rule keeps_for [where J = "\<lambda>_. True"]) simp_all

end

end
