(* ===== verification/Tunnel_Pool.thy ===== *)
theory Tunnel_Pool
  imports Tunnel_Store
begin

text \<open>
  The pool of tunnels of a local destination (\<open>tunnel/pool.h\<close> and \<open>tunnel/pool.cc\<close>): it keeps a
  number of inbound and outbound tunnels alive, chooses the routers of new ones, tests pairs of
  tunnels with messages that come back, and takes the tunnels out that fail twice.
\<close>

section \<open>Membership\<close>

definition TunnelPool_new :: "nat option \<Rightarrow> int \<Rightarrow> int \<Rightarrow> int \<Rightarrow> int \<Rightarrow> TunnelPool" where
  "TunnelPool_new dest in_hops out_hops in_tunnels out_tunnels =
     \<lparr>tp_LocalDestination = dest, tp_NumInboundHops = in_hops, tp_NumOutboundHops = out_hops,
      tp_NumInboundTunnels = in_tunnels, tp_NumOutboundTunnels = out_tunnels, tp_ExplicitPeers = None,
      tp_InboundTunnels = [], tp_OutboundTunnels = [], tp_Tests = [], tp_IsActive = True\<rparr>"

definition SetExplicitPeers :: "nat \<Rightarrow> bytes list option \<Rightarrow> unit mop" where
  "SetExplicitPeers p peers =
     update_pool p (\<lambda>pool.
       case peers of
         None \<Rightarrow> pool\<lparr>tp_ExplicitPeers := None\<rparr>
       | Some ps \<Rightarrow>
           pool\<lparr>tp_ExplicitPeers := Some ps,
             tp_NumInboundHops := min (tp_NumInboundHops pool) (int (length ps)),
             tp_NumOutboundHops := min (tp_NumOutboundHops pool) (int (length ps)),
             tp_NumInboundTunnels := 1, tp_NumOutboundTunnels := 1\<rparr>)"

definition pool_set :: "bool \<Rightarrow> TunnelPool \<Rightarrow> tunnel_set" where
  "pool_set inbound pool = (if inbound then tp_InboundTunnels pool else tp_OutboundTunnels pool)"

definition with_pool_set :: "bool \<Rightarrow> (tunnel_set \<Rightarrow> tunnel_set) \<Rightarrow> TunnelPool \<Rightarrow> TunnelPool" where
  "with_pool_set inbound f pool =
     (if inbound then pool\<lparr>tp_InboundTunnels := f (tp_InboundTunnels pool)\<rparr>
      else pool\<lparr>tp_OutboundTunnels := f (tp_OutboundTunnels pool)\<rparr>)"

definition detach_set :: "bool \<Rightarrow> nat \<Rightarrow> unit mop" where
  "detach_set inbound p =
     mbind (get_pool p) (\<lambda>pool.
     mseq (mfor (\<lambda>(k, h). SetTunnelPool h None) (pool_set inbound pool))
          (update_pool p (with_pool_set inbound (\<lambda>_. []))))"

definition DetachTunnels :: "nat \<Rightarrow> unit mop" where
  "DetachTunnels p =
     mseq (detach_set True p) (mseq (detach_set False p) (update_pool p (\<lambda>pool. pool\<lparr>tp_Tests := []\<rparr>)))"

definition lease_set_updated :: "nat \<Rightarrow> unit mop" where
  "lease_set_updated p =
     mbind (get_pool p) (\<lambda>pool.
       case tp_LocalDestination pool of None \<Rightarrow> mret () | Some d \<Rightarrow> mlog (SetLeaseSetUpdated d))"

definition TunnelCreated :: "bool \<Rightarrow> nat \<Rightarrow> nat \<Rightarrow> unit mop" where
  "TunnelCreated inbound p h =
     mbind (get_pool p) (\<lambda>pool.
     mwhen (tp_IsActive pool)
      (mbind (get_tunnel h) (\<lambda>x.
       mseq (update_pool p (with_pool_set inbound (std_insert (TunnelCreationTimeCmp (base_tunnel x) h) h)))
            (mwhen inbound (lease_set_updated p)))))"

definition erase_from_pool :: "bool \<Rightarrow> nat \<Rightarrow> nat \<Rightarrow> unit mop" where
  "erase_from_pool inbound p h =
     mbind (get_tunnel h) (\<lambda>x.
       update_pool p (with_pool_set inbound (std_erase (TunnelCreationTimeCmp (base_tunnel x) h))))"

text \<open>
  The loop over \<open>m_Tests\<close> in \<open>TunnelExpired\<close> changes copies of the entries only, so it leaves the
  tests as they are.
\<close>

definition TunnelExpired :: "bool \<Rightarrow> nat \<Rightarrow> nat \<Rightarrow> unit mop" where
  "TunnelExpired inbound p h = mseq (SetTunnelPool h None) (erase_from_pool inbound p h)"

section \<open>Choice of a tunnel\<close>

fun GetInboundTunnels_loop :: "Tunnels \<Rightarrow> int \<Rightarrow> int \<Rightarrow> tunnel_set \<Rightarrow> nat list" where
  "GetInboundTunnels_loop s num i [] = []"
| "GetInboundTunnels_loop s num i ((k, h) # m) =
     (if num \<le> i then []
      else if IsEstablished s h then h # GetInboundTunnels_loop s num (i + 1) m
      else GetInboundTunnels_loop s num i m)"

definition GetInboundTunnels :: "int \<Rightarrow> nat \<Rightarrow> nat list mop" where
  "GetInboundTunnels num p =
     mbind (get_pool p) (\<lambda>pool. mget (\<lambda>s. GetInboundTunnels_loop s num 0 (tp_InboundTunnels pool)))"

definition GetNextTunnel :: "ManagerEnv \<Rightarrow> bool \<Rightarrow> nat \<Rightarrow> nat option \<Rightarrow> nat option mop" where
  "GetNextTunnel env inbound p excluded =
     mbind (get_pool p) (\<lambda>pool.
     let tunnels = pool_set inbound pool in
     if tunnels = [] then mret None
     else
       mbind mdraw (\<lambda>n.
       mget (\<lambda>s.
         let ind = v_range32 env n 0 (word_of_nat (length tunnels div 2));
             tunnel = pick_tunnel (\<lambda>h. IsEstablished s h \<and> Some h \<noteq> excluded) ind 0 None (map snd tunnels) in
         case (tunnel, excluded) of
           (None, Some h) \<Rightarrow> if IsEstablished s h then Some h else None
         | _ \<Rightarrow> tunnel)))"

text \<open>The hash of the last router of a tunnel; a configuration without hops has a null pointer there.\<close>

definition GetEndpointRouter :: "nat \<Rightarrow> bytes mop" where
  "GetEndpointRouter h =
     mbind (get_tunnel h) (\<lambda>x.
     case GetLastHop (tn_Config (base_tunnel x)) of
       None \<Rightarrow> mthrow MemoryError
     | Some hop \<Rightarrow> mret (r_IdentHash (hc_CurrentRouter hop)))"

fun same_endpoint :: "nat \<Rightarrow> nat list \<Rightarrow> nat option mop" where
  "same_endpoint h [] = mret None"
| "same_endpoint h (h' # hs) =
     mbind (mget (\<lambda>s. IsEstablished s h')) (\<lambda>established.
     if established then
       mbind (GetEndpointRouter h) (\<lambda>ident.
       mbind (GetEndpointRouter h') (\<lambda>ident'.
       if ident = ident' then mret (Some h') else same_endpoint h hs))
     else same_endpoint h hs)"

definition GetNewOutboundTunnel :: "ManagerEnv \<Rightarrow> nat \<Rightarrow> nat option \<Rightarrow> nat option mop" where
  "GetNewOutboundTunnel env p old_tunnel =
     mbind (case old_tunnel of
        None \<Rightarrow> mret None
      | Some h \<Rightarrow>
          mbind (mget (\<lambda>s. IsEstablished s h)) (\<lambda>established.
          if established then mret (Some h)
          else mbind (get_pool p) (\<lambda>pool. same_endpoint h (map snd (tp_OutboundTunnels pool))))) (\<lambda>tunnel.
     case tunnel of Some h \<Rightarrow> mret (Some h) | None \<Rightarrow> GetNextTunnel env False p None)"

section \<open>Choice of routers\<close>

definition SelectNextHop :: "ManagerEnv \<Rightarrow> nat \<Rightarrow> RouterDescription option \<Rightarrow> RouterDescription option mop" where
  "SelectNextHop env p prev_hop =
     mbind (get_pool p) (\<lambda>pool.
     mbind mdraw (\<lambda>n.
     let hop = (if tp_LocalDestination pool = Some (v_context env) then v_GetRandomRouter env n prev_hop
                else v_GetHighBandwidthRandomRouter env n prev_hop) in
     case hop of
       Some r \<Rightarrow> if v_IsBad env r then mbind mdraw (\<lambda>n'. mret (v_GetRandomRouter env n' None)) else mret (Some r)
     | None \<Rightarrow> mbind mdraw (\<lambda>n'. mret (v_GetRandomRouter env n' None))))"

fun select_hops ::
    "ManagerEnv \<Rightarrow> nat \<Rightarrow> RouterDescription option \<Rightarrow> RouterDescription list \<Rightarrow> nat \<Rightarrow> RouterDescription list option mop" where
  "select_hops env p prev_hop hops 0 = mret (Some hops)"
| "select_hops env p prev_hop hops (Suc k) =
     mbind (SelectNextHop env p prev_hop) (\<lambda>hop.
     case hop of
       None \<Rightarrow> mret None
     | Some r \<Rightarrow> select_hops env p (Some r) (hops @ [r]) k)"

text \<open>The loop over the hops; with more hops than peers it reads behind the shuffled indices.\<close>

fun explicit_hops ::
    "ManagerEnv \<Rightarrow> bytes list \<Rightarrow> RouterDescription list \<Rightarrow> nat \<Rightarrow> nat list \<Rightarrow> RouterDescription list option mop" where
  "explicit_hops env peers hops 0 indices = mret (Some hops)"
| "explicit_hops env peers hops (Suc k) [] = mthrow MemoryError"
| "explicit_hops env peers hops (Suc k) (i # indices) =
     mbind (mlift (peek i peers)) (\<lambda>ident.
     case v_FindRouter env ident of
       Some r \<Rightarrow> explicit_hops env peers (hops @ [r]) k indices
     | None \<Rightarrow> mseq (mlog (RequestDestination ident)) (mret None))"

definition num_hops :: "bool \<Rightarrow> TunnelPool \<Rightarrow> int" where
  "num_hops inbound pool = (if inbound then tp_NumInboundHops pool else tp_NumOutboundHops pool)"

definition SelectExplicitPeers :: "ManagerEnv \<Rightarrow> bytes list \<Rightarrow> int \<Rightarrow> RouterDescription list option mop" where
  "SelectExplicitPeers env peers n_hops =
     mbind mdraw (\<lambda>n. explicit_hops env peers [] (nat n_hops) (v_shuffle env n [0..<length peers]))"

definition SelectPeers :: "ManagerEnv \<Rightarrow> nat \<Rightarrow> bool \<Rightarrow> RouterDescription list option mop" where
  "SelectPeers env p inbound =
     mbind (get_pool p) (\<lambda>pool.
     case tp_ExplicitPeers pool of
       Some peers \<Rightarrow> SelectExplicitPeers env peers (num_hops inbound pool)
     | None \<Rightarrow>
         let k = num_hops inbound pool in
         if 25 < v_NumPeers env then
           mbind mdraw (\<lambda>n.
           case v_GetRandomPeer env n of
             Some r \<Rightarrow>
               if v_IsBad env r then select_hops env p (v_own_router env) [] (nat k)
               else select_hops env p (Some r) [r] (nat (k - 1))
           | None \<Rightarrow> select_hops env p (v_own_router env) [] (nat k))
         else select_hops env p (v_own_router env) [] (nat k))"

section \<open>Creating tunnels\<close>

definition reply_outbound :: "ManagerEnv \<Rightarrow> nat \<Rightarrow> nat option mop" where
  "reply_outbound env p =
     mbind (GetNextTunnel env False p None) (\<lambda>o1.
     case o1 of Some h \<Rightarrow> mret (Some h) | None \<Rightarrow> Tunnels_GetNextOutboundTunnel env)"

definition reply_inbound :: "ManagerEnv \<Rightarrow> nat \<Rightarrow> nat option mop" where
  "reply_inbound env p =
     mbind (GetNextTunnel env True p None) (\<lambda>i.
     case i of Some h \<Rightarrow> mret (Some h) | None \<Rightarrow> mget Tunnels_GetNextInboundTunnel)"

definition create_in_pool :: "ManagerEnv \<Rightarrow> bool \<Rightarrow> nat \<Rightarrow> TunnelConfig \<Rightarrow> nat option \<Rightarrow> unit mop" where
  "create_in_pool env inbound p config outbound_tunnel =
     mbind (CreateTunnel env inbound config outbound_tunnel) (\<lambda>h. SetTunnelPool h (Some p))"

definition CreateInboundTunnel :: "ManagerEnv \<Rightarrow> nat \<Rightarrow> unit mop" where
  "CreateInboundTunnel env p =
     mbind (reply_outbound env p) (\<lambda>outbound_tunnel.
     mbind (SelectPeers env p True) (\<lambda>hops.
     case hops of
       None \<Rightarrow> mret ()
     | Some rs \<Rightarrow>
         mbind (new_config env (map Some (rev rs)) None) (\<lambda>config.
           create_in_pool env True p config outbound_tunnel)))"

definition RecreateInboundTunnel :: "ManagerEnv \<Rightarrow> nat \<Rightarrow> nat \<Rightarrow> unit mop" where
  "RecreateInboundTunnel env p h =
     mbind (reply_outbound env p) (\<lambda>outbound_tunnel.
     mbind (config_of h) (\<lambda>c.
     mbind (clone_config env None c) (\<lambda>config.
       create_in_pool env True p config outbound_tunnel)))"

definition CreateOutboundTunnel :: "ManagerEnv \<Rightarrow> nat \<Rightarrow> unit mop" where
  "CreateOutboundTunnel env p =
     mbind (reply_inbound env p) (\<lambda>inbound_tunnel.
     case inbound_tunnel of
       None \<Rightarrow> mret ()
     | Some i \<Rightarrow>
         mbind (SelectPeers env p False) (\<lambda>hops.
         case hops of
           None \<Rightarrow> mret ()
         | Some rs \<Rightarrow>
             mbind (config_of i) (\<lambda>reply.
             mbind (new_config env (map Some rs) (Some reply)) (\<lambda>config.
               create_in_pool env False p config None))))"

definition RecreateOutboundTunnel :: "ManagerEnv \<Rightarrow> nat \<Rightarrow> nat \<Rightarrow> unit mop" where
  "RecreateOutboundTunnel env p h =
     mbind (reply_inbound env p) (\<lambda>inbound_tunnel.
     case inbound_tunnel of
       None \<Rightarrow> mret ()
     | Some i \<Rightarrow>
         mbind (config_of i) (\<lambda>reply.
         mbind (config_of h) (\<lambda>c.
         mbind (clone_config env (Some reply) c) (\<lambda>config.
           create_in_pool env False p config None))))"

definition CreatePairedInboundTunnel :: "ManagerEnv \<Rightarrow> nat \<Rightarrow> nat \<Rightarrow> unit mop" where
  "CreatePairedInboundTunnel env p h =
     mbind (config_of h) (\<lambda>c.
     mbind (invert_config env c) (\<lambda>config.
       create_in_pool env True p config (Some h)))"

definition count_established :: "Tunnels \<Rightarrow> tunnel_set \<Rightarrow> int" where
  "count_established s m = int (length (filter (\<lambda>(k, h). IsEstablished s h) m))"

definition missing_tunnels :: "bool \<Rightarrow> nat \<Rightarrow> nat mop" where
  "missing_tunnels inbound p =
     mbind (get_pool p) (\<lambda>pool.
     mget (\<lambda>s. nat ((if inbound then tp_NumInboundTunnels pool else tp_NumOutboundTunnels pool) -
                 count_established s (pool_set inbound pool))))"

definition CreateTunnels :: "ManagerEnv \<Rightarrow> nat \<Rightarrow> unit mop" where
  "CreateTunnels env p =
     mbind (missing_tunnels True p) (\<lambda>k.
     mseq (mfor (\<lambda>_. CreateInboundTunnel env p) [0..<k])
     (mbind (missing_tunnels False p) (\<lambda>k'.
       mfor (\<lambda>_. CreateOutboundTunnel env p) [0..<k'])))"

section \<open>Tests\<close>

text \<open>A tunnel that fails a test a second time leaves the pool.\<close>

definition fail_tunnel :: "bool \<Rightarrow> nat \<Rightarrow> nat option \<Rightarrow> unit mop" where
  "fail_tunnel inbound p tunnel =
     (case tunnel of
        None \<Rightarrow> mret ()
      | Some h \<Rightarrow>
          mbind (get_tunnel h) (\<lambda>x.
          if tn_State (base_tunnel x) = TunnelStateTestFailed then
            mseq (SetState h TunnelStateFailed)
            (mseq (erase_from_pool inbound p h)
            (mwhen inbound (lease_set_updated p)))
          else SetState h TunnelStateTestFailed))"

definition test_failed :: "nat \<Rightarrow> u32 \<times> nat option \<times> nat option \<Rightarrow> unit mop" where
  "test_failed p test = (case test of (msg_ID, o1, i1) \<Rightarrow> mseq (fail_tunnel False p o1) (fail_tunnel True p i1))"

definition start_test :: "ManagerEnv \<Rightarrow> nat \<Rightarrow> nat \<Rightarrow> nat \<Rightarrow> unit mop" where
  "start_test env p out_tunnel in_tunnel =
     mbind mdraw (\<lambda>n.
     mseq (update_pool p (\<lambda>pool. pool\<lparr>tp_Tests := std_assign (v_rand32 env n) (Some out_tunnel, Some in_tunnel) (tp_Tests pool)\<rparr>))
     (mbind (get_tunnel in_tunnel) (\<lambda>x.
      mbind (mlift (GetNextIdentHash (base_tunnel x))) (\<lambda>ident.
      mbind (mlift (GetNextTunnelID (base_tunnel x))) (\<lambda>tunnel.
      mbind mdraw (\<lambda>n'.
      mbind (mlift (CreateDeliveryStatusMsg (e_sha256 (v_router env n')) (e_rnd1 (v_router env n')) (e_rnd2 (v_router env n'))
          (e_now (v_router env n')) (v_network_ID env) (v_rand32 env n))) (\<lambda>msg.
        send_through env out_tunnel ident tunnel msg)))))))"

definition IsFailed :: "Tunnels \<Rightarrow> nat \<Rightarrow> bool" where
  "IsFailed s h \<longleftrightarrow> tunnel_state s h = Some TunnelStateFailed"

text \<open>The two iterators: past a failed tunnel each moves alone, else both move together.\<close>

function new_tests :: "ManagerEnv \<Rightarrow> nat \<Rightarrow> nat list \<Rightarrow> nat list \<Rightarrow> unit mop" where
  "new_tests env p [] ins = mret ()"
| "new_tests env p (out_tunnel # outs) [] = mret ()"
| "new_tests env p (out_tunnel # outs) (in_tunnel # ins) =
     mbind (mget (\<lambda>s. (IsFailed s out_tunnel, IsFailed s in_tunnel))) (\<lambda>(f1, f2).
     if f1 \<or> f2 then
       new_tests env p (if f1 then outs else out_tunnel # outs) (if f2 then ins else in_tunnel # ins)
     else mseq (start_test env p out_tunnel in_tunnel) (new_tests env p outs ins))"
  by pat_completeness auto
termination
  by (relation "measure (\<lambda>(env, p, outs, ins). length outs + length ins)") auto

definition TestTunnels :: "ManagerEnv \<Rightarrow> nat \<Rightarrow> unit mop" where
  "TestTunnels env p =
     mbind (get_pool p) (\<lambda>pool.
     mseq (mfor (test_failed p) (tp_Tests pool))
     (mseq (update_pool p (\<lambda>pool. pool\<lparr>tp_Tests := []\<rparr>))
     (mbind (get_pool p) (\<lambda>pool1.
       new_tests env p (map snd (tp_OutboundTunnels pool1)) (map snd (tp_InboundTunnels pool1))))))"

section \<open>Messages from the tunnels\<close>

definition ProcessGarlicMessage :: "nat \<Rightarrow> I2NPMessage \<Rightarrow> unit mop" where
  "ProcessGarlicMessage p msg =
     mbind (get_pool p) (\<lambda>pool.
       case tp_LocalDestination pool of None \<Rightarrow> mret () | Some d \<Rightarrow> mlog (DestinationGarlic d msg))"

text \<open>A tunnel that had failed a test is good again; a null pointer would be dereferenced.\<close>

definition restore_tunnel :: "nat option \<Rightarrow> unit mop" where
  "restore_tunnel tunnel =
     (case tunnel of
        None \<Rightarrow> mthrow MemoryError
      | Some h \<Rightarrow>
          mbind (get_tunnel h) (\<lambda>x.
            mwhen (tn_State (base_tunnel x) = TunnelStateTestFailed) (SetState h TunnelStateEstablished)))"

definition ProcessDeliveryStatus :: "nat \<Rightarrow> I2NPMessage \<Rightarrow> unit mop" where
  "ProcessDeliveryStatus p msg =
     mbind (mlift (Read_buf True (GetPayload msg) (msg_buf msg))) (\<lambda>msg_ID.
     mbind (mlift (Read_buf True (GetPayload msg + 4) (msg_buf msg))) (\<lambda>timestamp :: u64.
     mbind (get_pool p) (\<lambda>pool.
     case std_find msg_ID (tp_Tests pool) of
       Some (o1, i1) \<Rightarrow>
         mseq (restore_tunnel o1)
         (mseq (restore_tunnel i1)
         (update_pool p (\<lambda>pool. pool\<lparr>tp_Tests := std_erase msg_ID (tp_Tests pool)\<rparr>)))
     | None \<Rightarrow>
         (case tp_LocalDestination pool of
            None \<Rightarrow> mret ()
          | Some d \<Rightarrow> mlog (DestinationDeliveryStatus d msg)))))"

end
