(* ===== verification/Tunnel_Manager.thy ===== *)
theory Tunnel_Manager
  imports Tunnel_Pool
begin

text \<open>
  The manager of all tunnels (class \<open>Tunnels\<close> of \<open>tunnel/impl.cc\<close>): the messages it takes from its
  queue, the replies to build requests, and the work it does every 15 seconds.
\<close>

section \<open>Adding and removing\<close>

definition CreateTunnelPool :: "nat option \<Rightarrow> int \<Rightarrow> int \<Rightarrow> int \<Rightarrow> int \<Rightarrow> nat mop" where
  "CreateTunnelPool dest in_hops out_hops in_tunnels out_tunnels =
     mbind (mget ts_Next) (\<lambda>p.
     mseq (mmodify (\<lambda>s. s\<lparr>ts_PoolHeap := (ts_PoolHeap s)(p \<mapsto> TunnelPool_new dest in_hops out_hops in_tunnels out_tunnels),
                          ts_Next := Suc p, m_Pools := m_Pools s @ [p]\<rparr>))
          (mret p))"

definition StopTunnelPool :: "nat option \<Rightarrow> unit mop" where
  "StopTunnelPool pool =
     (case pool of
        None \<Rightarrow> mret ()
      | Some p \<Rightarrow> mseq (update_pool p (\<lambda>pool. pool\<lparr>tp_IsActive := False\<rparr>)) (DetachTunnels p))"

definition DeleteTunnelPool :: "nat option \<Rightarrow> unit mop" where
  "DeleteTunnelPool pool =
     (case pool of
        None \<Rightarrow> mret ()
      | Some p \<Rightarrow> mseq (StopTunnelPool (Some p)) (mmodify (\<lambda>s. s\<lparr>m_Pools := filter (\<lambda>q. q \<noteq> p) (m_Pools s)\<rparr>)))"

text \<open>A second tunnel with an identifier in use is deleted again.\<close>

definition Tunnels_AddTransitTunnel :: "AnyTransitTunnel \<Rightarrow> unit mop" where
  "Tunnels_AddTransitTunnel x =
     mmodify (\<lambda>s. s\<lparr>m_TransitTunnels := std_insert (x_TunnelID (transit_base x)) x (m_TransitTunnels s)\<rparr>)"

definition Tunnels_PostTunnelData :: "I2NPMessage list \<Rightarrow> unit mop" where
  "Tunnels_PostTunnelData msgs = mmodify (\<lambda>s. s\<lparr>m_Queue := m_Queue s @ msgs\<rparr>)"

text \<open>A tunnel whose pool is active joins it; the pool of an inactive one is forgotten.\<close>

definition join_pool :: "bool \<Rightarrow> nat \<Rightarrow> nat \<Rightarrow> unit mop" where
  "join_pool inbound p h =
     mbind (get_pool p) (\<lambda>pool.
       if tp_IsActive pool then TunnelCreated inbound p h else SetTunnelPool h None)"

definition Tunnels_AddOutboundTunnel :: "nat \<Rightarrow> unit mop" where
  "Tunnels_AddOutboundTunnel h =
     mseq (mmodify (\<lambda>s. s\<lparr>m_OutboundTunnels := m_OutboundTunnels s @ [h]\<rparr>))
     (mbind (get_tunnel h) (\<lambda>x.
      case tn_Pool (base_tunnel x) of
        None \<Rightarrow> SetTunnelPool h None
      | Some p \<Rightarrow> join_pool False p h))"

definition Tunnels_AddInboundTunnel :: "ManagerEnv \<Rightarrow> nat \<Rightarrow> unit mop" where
  "Tunnels_AddInboundTunnel env h =
     mbind (get_tunnel h) (\<lambda>x.
     case x of
       AnOutboundTunnel t \<Rightarrow> mthrow MemoryError
     | AnInboundTunnel t \<Rightarrow>
         mbind (mlift (InboundTunnel_GetTunnelID t)) (\<lambda>tid.
         mseq (mmodify (\<lambda>s. s\<lparr>m_InboundTunnels := std_assign tid h (m_InboundTunnels s)\<rparr>))
         (case tn_Pool (it_Tunnel t) of
            None \<Rightarrow>
              mbind (invert_config env (tn_Config (it_Tunnel t))) (\<lambda>config.
              mbind (Tunnels_GetNextOutboundTunnel env) (\<lambda>outbound_tunnel.
              mseq (CreateTunnel env False config outbound_tunnel) (mret ())))
          | Some p \<Rightarrow> join_pool True p h)))"

definition CreateZeroHopsInboundTunnel :: "ManagerEnv \<Rightarrow> unit mop" where
  "CreateZeroHopsInboundTunnel env =
     mbind (new_config env [v_own_router env] None) (\<lambda>config.
     mseq (CreateTunnel env True config None) (mret ()))"

section \<open>Calls of the message handlers\<close>

definition perform_action :: "ManagerEnv \<Rightarrow> action \<Rightarrow> unit mop" where
  "perform_action env act =
     (case act of
        AddTransitTunnel req \<Rightarrow>
          mbind mdraw (\<lambda>n.
            Tunnels_AddTransitTunnel (CreateTransitTunnel (v_random env n) (v_now env) (tt_receive_tunnel req) (tt_next_ident req)
              (tt_next_tunnel req) (tt_layer_key req) (tt_iv_key req) (tt_is_gateway req) (tt_is_endpoint req)))
      | SetTunnelEstablished h \<Rightarrow> SetState h TunnelStateEstablished
      | SetTunnelBuildFailed h \<Rightarrow> SetState h TunnelStateBuildFailed
      | AddInboundTunnel h \<Rightarrow> Tunnels_AddInboundTunnel env h
      | AddOutboundTunnel h \<Rightarrow> Tunnels_AddOutboundTunnel h
      | PostTunnelData msgs \<Rightarrow> Tunnels_PostTunnelData msgs
      | PoolGarlic p msg \<Rightarrow> ProcessGarlicMessage p msg
      | PoolDeliveryStatus p msg \<Rightarrow> ProcessDeliveryStatus p msg
      | _ \<Rightarrow> mlog (RouterAction act))"

text \<open>What the handlers ask the manager.\<close>

definition router_env :: "ManagerEnv \<Rightarrow> nat \<Rightarrow> nat option \<Rightarrow> bool \<Rightarrow> Tunnels \<Rightarrow> RouterEnv" where
  "router_env env n found established s =
     (v_router env n)\<lparr>e_pending_inbound := (\<lambda>_. found), e_pending_outbound := (\<lambda>_. found),
       e_build_response := (\<lambda>_ _ _. established), e_transit_tunnels := length (m_TransitTunnels s),
       e_pool_of := (\<lambda>h. Option.bind (ts_Heap s h) (\<lambda>x. tn_Pool (base_tunnel x)))\<rparr>"

definition HandleTunnelBuildResponse_at :: "ManagerEnv \<Rightarrow> nat \<Rightarrow> bytes \<Rightarrow> bool mop" where
  "HandleTunnelBuildResponse_at env h buf =
     mbind (get_tunnel h) (\<lambda>x.
     mbind mdraw (\<lambda>n.
     mbind (mlift (HandleTunnelBuildResponse (v_build env n) buf (base_tunnel x))) (\<lambda>((established, buf', t'), codes).
     mseq (update_base h (\<lambda>_. t'))
     (mseq (mfor (\<lambda>(r, ret). mlog (TunnelBuildResponse r ret)) codes)
     (mret established)))))"

text \<open>
  The pending tunnel a build message belongs to: a request that comes back to its creator for an
  inbound tunnel, a reply for an outbound one.
\<close>

definition pending_for :: "u8 \<Rightarrow> u32 \<Rightarrow> nat option mop" where
  "pending_for type_ID msg_ID =
     (if type_ID = type_code I2NPVariableTunnelBuild then GetPendingTunnel True msg_ID
      else if type_ID = type_code I2NPVariableTunnelBuildReply then GetPendingTunnel False msg_ID
      else mret None)"

text \<open>What is read before the tunnel is looked up: the length, and in a request the number of records.\<close>

definition build_bytes :: "u8 \<Rightarrow> bytes \<Rightarrow> unit result" where
  "build_bytes type_ID buf =
     bind_result (Read_buf True 13 buf) (\<lambda>sz :: u16.
       if type_ID = type_code I2NPVariableTunnelBuild then bind_result (peek I2NP_HEADER_SIZE buf) (\<lambda>num. Inr ())
       else Inr ())"

definition handle_build_message :: "ManagerEnv \<Rightarrow> I2NPMessage \<Rightarrow> unit mop" where
  "handle_build_message env msg =
     (let buf = drop (GetBuffer msg) (msg_buf msg) in
      mbind (mlift (peek 0 buf)) (\<lambda>type_ID.
      mbind (mlift (Read_buf True 1 buf)) (\<lambda>msg_ID.
      mbind (mlift (build_bytes type_ID buf)) (\<lambda>_.
      mbind (pending_for type_ID msg_ID) (\<lambda>found.
      mbind (case found of None \<Rightarrow> mret False | Some h \<Rightarrow> HandleTunnelBuildResponse_at env h (drop I2NP_HEADER_SIZE buf)) (\<lambda>established.
      mbind mdraw (\<lambda>n.
      mbind (mget (router_env env n found established)) (\<lambda>renv.
      mbind (mlift (HandleI2NPMessage_raw renv buf)) (\<lambda>acts.
        mfor (perform_action env) acts)))))))))"

section \<open>The loop\<close>

text \<open>\<open>TunnelBase*\<close>: an inbound tunnel or a transit tunnel.\<close>

datatype TunnelRef = RefInbound nat | RefTransit u32

definition get_transit :: "u32 \<Rightarrow> AnyTransitTunnel mop" where
  "get_transit tid s = (case GetTransitTunnel tid s of None \<Rightarrow> (Inl MemoryError, s) | Some x \<Rightarrow> (Inr x, s))"

definition put_transit :: "u32 \<Rightarrow> AnyTransitTunnel \<Rightarrow> unit mop" where
  "put_transit tid x = mmodify (\<lambda>s. s\<lparr>m_TransitTunnels := std_assign tid x (m_TransitTunnels s)\<rparr>)"

definition FlushTunnelDataMsgs :: "ManagerEnv \<Rightarrow> TunnelRef \<Rightarrow> unit mop" where
  "FlushTunnelDataMsgs env tunnel =
     (case tunnel of
        RefInbound h \<Rightarrow> mret ()
      | RefTransit tid \<Rightarrow>
          mbind (get_transit tid) (\<lambda>x.
          mbind mdraw (\<lambda>n.
          mbind (mlift (Transit_FlushTunnelDataMsgs (v_transit env n) x)) (\<lambda>(x', acts).
            mseq (put_transit tid x') (mfor (perform_action env) acts)))))"

definition HandleTunnelDataMsg :: "ManagerEnv \<Rightarrow> TunnelRef \<Rightarrow> I2NPMessage \<Rightarrow> unit mop" where
  "HandleTunnelDataMsg env tunnel msg =
     (case tunnel of
        RefInbound h \<Rightarrow>
          mbind (get_tunnel h) (\<lambda>x.
          case x of
            AnOutboundTunnel t \<Rightarrow> mret ()
          | AnInboundTunnel t \<Rightarrow>
              mbind mdraw (\<lambda>n.
              mbind (mget (router_env env n None False)) (\<lambda>renv.
              mbind (mlift (InboundTunnel_HandleTunnelDataMsg (v_build env n) renv h msg t)) (\<lambda>(t', acts).
                mseq (put_tunnel h (AnInboundTunnel t')) (mfor (perform_action env) acts)))))
      | RefTransit tid \<Rightarrow>
          mbind (get_transit tid) (\<lambda>x.
          mbind mdraw (\<lambda>n.
          mbind (mget (router_env env n None False)) (\<lambda>renv.
          mbind (mlift (Transit_HandleTunnelDataMsg ((v_transit env n)\<lparr>x_router := renv\<rparr>) msg x)) (\<lambda>(x', acts).
            mseq (put_transit tid x') (mfor (perform_action env) acts))))))"

text \<open>\<open>SendTunnelDataMsg\<close> of a tunnel of this router only writes a log line.\<close>

definition HandleTunnelGatewayMsg :: "ManagerEnv \<Rightarrow> TunnelRef option \<Rightarrow> I2NPMessage \<Rightarrow> unit mop" where
  "HandleTunnelGatewayMsg env tunnel msg =
     (case tunnel of
        None \<Rightarrow> mret ()
      | Some ref \<Rightarrow>
          mbind (mlift (Read_buf True (GetPayload msg + 4) (msg_buf msg))) (\<lambda>len :: u16.
          let offset' = msg_offset msg + I2NP_HEADER_SIZE + TUNNEL_GATEWAY_HEADER_SIZE;
              msg' = msg\<lparr>msg_offset := offset', msg_len := offset' + unat len\<rparr> in
          mbind (mlift (GetTypeID msg')) (\<lambda>type_ID.
          mseq (mwhen (type_ID = type_code I2NPDatabaseStore \<or> type_ID = type_code I2NPDatabaseSearchReply)
                  (mlog (RouterAction (PostNetDb msg'))))
          (case ref of
             RefInbound h \<Rightarrow> mret ()
           | RefTransit tid \<Rightarrow>
               mbind (get_transit tid) (\<lambda>x.
               mbind mdraw (\<lambda>n.
               mbind (mlift (Transit_SendTunnelDataMsg (v_transit env n) msg' x)) (put_transit tid)))))))"

definition find_tunnel :: "bool \<Rightarrow> u32 \<Rightarrow> Tunnels \<Rightarrow> TunnelRef option" where
  "find_tunnel is_data tid s =
     (case (if is_data then GetInboundTunnel tid s else None) of
        Some h \<Rightarrow> Some (RefInbound h)
      | None \<Rightarrow> map_option (\<lambda>_. RefTransit tid) (GetTransitTunnel tid s))"

text \<open>
  One message. The identifier of the last tunnel message and its tunnel (\<open>prev_tunnel_ID\<close> and
  \<open>prev_tunnel\<close>) save a lookup; a change of tunnel flushes the last one. The result is the
  identifier and the tunnel of this message; a message of another kind leaves the identifier.
\<close>

definition Run_message ::
    "ManagerEnv \<Rightarrow> I2NPMessage \<Rightarrow> u32 \<Rightarrow> TunnelRef option \<Rightarrow> (u32 \<times> TunnelRef option) mop" where
  "Run_message env msg prev_tid prev_tunnel =
     mbind (mlift (GetTypeID msg)) (\<lambda>type_ID.
     if type_ID = type_code I2NPTunnelData \<or> type_ID = type_code I2NPTunnelGateway then
       mbind (mlift (Read_buf True (GetPayload msg) (msg_buf msg))) (\<lambda>tid'.
       mseq (if tid' = prev_tid then mret ()
             else case prev_tunnel of None \<Rightarrow> mret () | Some ref \<Rightarrow> FlushTunnelDataMsgs env ref)
       (mbind (mget (\<lambda>s.
          case (if tid' = prev_tid then prev_tunnel else None) of
            Some ref \<Rightarrow> Some ref
          | None \<Rightarrow> find_tunnel (type_ID = type_code I2NPTunnelData) tid' s)) (\<lambda>tunnel.
        mseq (case tunnel of
                None \<Rightarrow> mret ()
              | Some ref \<Rightarrow>
                  if type_ID = type_code I2NPTunnelData then HandleTunnelDataMsg env ref msg
                  else HandleTunnelGatewayMsg env tunnel msg)
             (mret (tid', tunnel)))))
     else if type_ID = type_code I2NPVariableTunnelBuild \<or> type_ID = type_code I2NPVariableTunnelBuildReply \<or>
             type_ID = type_code I2NPTunnelBuild \<or> type_ID = type_code I2NPTunnelBuildReply then
       mseq (handle_build_message env msg) (mret (prev_tid, None))
     else mret (prev_tid, None))"

definition Queue_Get :: "I2NPMessage option mop" where
  "Queue_Get s = (case m_Queue s of [] \<Rightarrow> (Inr None, s) | m # ms \<Rightarrow> (Inr (Some m), s\<lparr>m_Queue := ms\<rparr>))"

text \<open>
  The loop until the queue is empty. Handling a message can put further ones into the queue, so
  the number of rounds is bounded by the fuel.
\<close>

fun Run_messages :: "nat \<Rightarrow> ManagerEnv \<Rightarrow> I2NPMessage \<Rightarrow> u32 \<Rightarrow> TunnelRef option \<Rightarrow> unit mop" where
  "Run_messages 0 env msg prev_tid prev_tunnel = mthrow OutOfFuel"
| "Run_messages (Suc fuel) env msg prev_tid prev_tunnel =
     mbind (Run_message env msg prev_tid prev_tunnel) (\<lambda>(tid', tunnel).
     mbind Queue_Get (\<lambda>next_msg.
     case next_msg of
       Some msg' \<Rightarrow> Run_messages fuel env msg' tid' tunnel
     | None \<Rightarrow> (case tunnel of None \<Rightarrow> mret () | Some ref \<Rightarrow> FlushTunnelDataMsgs env ref)))"

section \<open>Maintenance\<close>

definition TUNNEL_EXPIRATION_TIMEOUT :: u64 where "TUNNEL_EXPIRATION_TIMEOUT = 660"
definition TUNNEL_EXPIRATION_THRESHOLD :: u64 where "TUNNEL_EXPIRATION_THRESHOLD = 60"
definition TUNNEL_RECREATION_THRESHOLD :: u64 where "TUNNEL_RECREATION_THRESHOLD = 90"
definition TUNNEL_CREATION_TIMEOUT :: u64 where "TUNNEL_CREATION_TIMEOUT = 30"

definition erase_pending :: "bool \<Rightarrow> u32 \<Rightarrow> unit mop" where
  "erase_pending inbound k = mmodify (\<lambda>s. set_pending inbound (std_erase k (pending inbound s)) s)"

definition count_failed :: "unit mop" where
  "count_failed = mmodify (\<lambda>s. s\<lparr>m_NumFailedTunnelCreations := m_NumFailedTunnelCreations s + 1\<rparr>)"

definition count_successive :: "unit mop" where
  "count_successive = mmodify (\<lambda>s. s\<lparr>m_NumSuccesiveTunnelCreations := m_NumSuccesiveTunnelCreations s + 1\<rparr>)"

definition manage_pending :: "ManagerEnv \<Rightarrow> bool \<Rightarrow> u32 \<times> nat \<Rightarrow> unit mop" where
  "manage_pending env inbound entry =
     (case entry of (k, h) \<Rightarrow>
      mbind (get_tunnel h) (\<lambda>x.
      case tn_State (base_tunnel x) of
        TunnelStatePending \<Rightarrow>
          mwhen (tn_CreationTime (base_tunnel x) + TUNNEL_CREATION_TIMEOUT < v_now env)
           (mseq (mfor (\<lambda>hop. mlog (TunnelNonReplied (hc_CurrentRouter hop))) (tc_Hops (tn_Config (base_tunnel x))))
           (mseq (erase_pending inbound k) count_failed))
      | TunnelStateBuildFailed \<Rightarrow> mseq (erase_pending inbound k) count_failed
      | TunnelStateBuildReplyReceived \<Rightarrow> mret ()
      | _ \<Rightarrow> mseq (erase_pending inbound k) count_successive))"

definition ManagePendingTunnels_of :: "ManagerEnv \<Rightarrow> bool \<Rightarrow> unit mop" where
  "ManagePendingTunnels_of env inbound = mbind (mget (pending inbound)) (mfor (manage_pending env inbound))"

definition ManagePendingTunnels :: "ManagerEnv \<Rightarrow> unit mop" where
  "ManagePendingTunnels env = mseq (ManagePendingTunnels_of env True) (ManagePendingTunnels_of env False)"

definition expired :: "ManagerEnv \<Rightarrow> u64 \<Rightarrow> bool" where
  "expired env creation \<longleftrightarrow> creation + TUNNEL_EXPIRATION_TIMEOUT < v_now env"

definition expires_within :: "ManagerEnv \<Rightarrow> u64 \<Rightarrow> u64 \<Rightarrow> bool" where
  "expires_within env threshold creation \<longleftrightarrow> creation + TUNNEL_EXPIRATION_TIMEOUT < v_now env + threshold"

definition remove_tunnel :: "bool \<Rightarrow> u32 \<Rightarrow> nat \<Rightarrow> unit mop" where
  "remove_tunnel inbound k h =
     mmodify (\<lambda>s. if inbound then s\<lparr>m_InboundTunnels := std_erase k (m_InboundTunnels s)\<rparr>
                  else s\<lparr>m_OutboundTunnels := remove1 h (m_OutboundTunnels s)\<rparr>)"

text \<open>The body of the loops over the tunnels; \<open>k\<close> is the key of an inbound tunnel.\<close>

definition manage_tunnel :: "ManagerEnv \<Rightarrow> bool \<Rightarrow> u32 \<times> nat \<Rightarrow> unit mop" where
  "manage_tunnel env inbound entry =
     (case entry of (k, h) \<Rightarrow>
      mbind (get_tunnel h) (\<lambda>x.
      let t = base_tunnel x in
      if expired env (tn_CreationTime t) then
        mseq (case tn_Pool t of None \<Rightarrow> mret () | Some p \<Rightarrow> TunnelExpired inbound p h) (remove_tunnel inbound k h)
      else
        mwhen (tn_State t = TunnelStateEstablished)
         (mseq (mwhen (\<not> tn_IsRecreated t \<and> expires_within env TUNNEL_RECREATION_THRESHOLD (tn_CreationTime t))
                 (mseq (SetIsRecreated h)
                  (case tn_Pool t of
                     None \<Rightarrow> mret ()
                   | Some p \<Rightarrow> if inbound then RecreateInboundTunnel env p h else RecreateOutboundTunnel env p h)))
               (mwhen (expires_within env TUNNEL_EXPIRATION_THRESHOLD (tn_CreationTime t)) (SetState h TunnelStateExpiring)))))"

text \<open>One more outbound tunnel while there are fewer than five.\<close>

definition replenish_outbound :: "ManagerEnv \<Rightarrow> unit mop" where
  "replenish_outbound env =
     mbind (mget (\<lambda>s. length (m_OutboundTunnels s))) (\<lambda>size.
     mwhen (size < 5)
      (mbind (mget Tunnels_GetNextInboundTunnel) (\<lambda>inbound_tunnel.
       mbind mdraw (\<lambda>n.
       case (inbound_tunnel, v_GetRandomRouter env n None) of
         (Some i, Some router) \<Rightarrow>
           mbind (config_of i) (\<lambda>reply.
           mbind (new_config env [Some router] (Some reply)) (\<lambda>config.
           mseq (CreateTunnel env False config None) (mret ())))
       | _ \<Rightarrow> mret ()))))"

definition ManageOutboundTunnels :: "ManagerEnv \<Rightarrow> unit mop" where
  "ManageOutboundTunnels env =
     mseq (mbind (mget m_OutboundTunnels) (\<lambda>hs. mfor (manage_tunnel env False) (map (\<lambda>h. (0, h)) hs)))
          (replenish_outbound env)"

text \<open>
  Without an inbound tunnel, one of no hops and the exploratory pool; else one more inbound
  tunnel while there are fewer than five. The router it leads through may be missing.
\<close>

definition replenish_inbound :: "ManagerEnv \<Rightarrow> unit mop" where
  "replenish_inbound env =
     mbind (mget (\<lambda>s. (m_InboundTunnels s, m_OutboundTunnels s, m_ExploratoryPool s))) (\<lambda>(ins, outs, exploratory).
     if ins = [] then
       mseq (CreateZeroHopsInboundTunnel env)
        (mwhen (exploratory = None)
          (mbind (CreateTunnelPool (Some (v_context env)) 2 2 5 5) (\<lambda>p.
            mmodify (\<lambda>s. s\<lparr>m_ExploratoryPool := Some p\<rparr>))))
     else
       mwhen (outs = [] \<or> length ins < 5)
        (mbind mdraw (\<lambda>n.
         mbind (new_config env [v_GetRandomRouter env n None] None) (\<lambda>config.
         mseq (CreateTunnel env True config None) (mret ())))))"

definition ManageInboundTunnels :: "ManagerEnv \<Rightarrow> unit mop" where
  "ManageInboundTunnels env =
     mseq (mbind (mget m_InboundTunnels) (mfor (manage_tunnel env True))) (replenish_inbound env)"

definition ManageTransitTunnels :: "ManagerEnv \<Rightarrow> unit mop" where
  "ManageTransitTunnels env =
     mmodify (\<lambda>s. s\<lparr>m_TransitTunnels :=
       filter (\<lambda>(k, x). \<not> expired env (x_CreationTime (transit_base x))) (m_TransitTunnels s)\<rparr>)"

definition manage_pool :: "ManagerEnv \<Rightarrow> nat \<Rightarrow> unit mop" where
  "manage_pool env p =
     mbind (get_pool p) (\<lambda>pool. mwhen (tp_IsActive pool) (mseq (CreateTunnels env p) (TestTunnels env p)))"

definition ManageTunnelPools :: "ManagerEnv \<Rightarrow> unit mop" where
  "ManageTunnelPools env = mbind (mget m_Pools) (mfor (manage_pool env))"

definition ManageTunnels :: "ManagerEnv \<Rightarrow> unit mop" where
  "ManageTunnels env =
     mseq (ManagePendingTunnels env)
     (mseq (ManageInboundTunnels env)
     (mseq (ManageOutboundTunnels env)
     (mseq (ManageTransitTunnels env)
     (ManageTunnelPools env))))"

text \<open>
  A round of \<open>Run\<close>: the messages in the queue, then the maintenance when 15 seconds have
  passed. What is thrown ends the round, and \<open>last_ts\<close> is set only when it was not.
\<close>

definition Run_round :: "nat \<Rightarrow> ManagerEnv \<Rightarrow> u64 \<Rightarrow> u64 mop" where
  "Run_round fuel env last_ts =
     mbind Queue_Get (\<lambda>first_msg.
     mseq (case first_msg of None \<Rightarrow> mret () | Some msg \<Rightarrow> Run_messages fuel env msg 0 None)
     (if 15 \<le> v_now env - last_ts then mseq (ManageTunnels env) (mret (v_now env)) else mret last_ts))"

definition GetTransitTunnelsExpirationTimeout :: "u64 \<Rightarrow> Tunnels \<Rightarrow> u64" where
  "GetTransitTunnelsExpirationTimeout timestamp s =
     fold (\<lambda>(k, x) timeout.
       let time = x_CreationTime (transit_base x) + TUNNEL_EXPIRATION_TIMEOUT - timestamp in
       if timeout < time then time else timeout) (m_TransitTunnels s) 0"

end
