(* ===== verification/Tunnel_Invariant.thy ===== *)
theory Tunnel_Invariant
  imports Tunnel_Manager
begin

text \<open>
  The invariant of the tunnels and pools, and that the operations of the store and of the pools
  keep it. It is the conjunction of what each owner of a tunnel relies on; a change of the store
  has to respect the owners that hold the tunnel, and the lemmas on changes of the store say
  which changes do. The relation \<open>kept\<close> between the states before and after an operation makes
  preservation an instance of the composition rules of \<open>state_relation\<close>.
\<close>

section \<open>The invariant\<close>

definition live :: "TunnelState \<Rightarrow> bool" where
  "live st \<longleftrightarrow> st \<in> {TunnelStateEstablished, TunnelStateTestFailed, TunnelStateFailed, TunnelStateExpiring}"

definition tunnel_id :: "AnyTunnel \<Rightarrow> u32 result" where
  "tunnel_id x = (case x of AnInboundTunnel t \<Rightarrow> InboundTunnel_GetTunnelID t | AnOutboundTunnel t \<Rightarrow> GetNextTunnelID (ot_Tunnel t))"

text \<open>
  What the owners of a tunnel rely on: the list of pending tunnels, the lists of established
  tunnels and the tests, the map of inbound tunnels, and a pool.
\<close>

definition pending_ok :: "Tunnels \<Rightarrow> bool \<Rightarrow> nat \<Rightarrow> bool" where
  "pending_ok s inbound h \<longleftrightarrow> (\<exists>x. ts_Heap s h = Some x \<and> is_inbound x = inbound)"

definition member_ok :: "Tunnels \<Rightarrow> bool \<Rightarrow> nat \<Rightarrow> bool" where
  "member_ok s inbound h \<longleftrightarrow> (\<exists>x. ts_Heap s h = Some x \<and> is_inbound x = inbound \<and> live (tn_State (base_tunnel x)))"

definition inbound_ok :: "Tunnels \<Rightarrow> u32 \<Rightarrow> nat \<Rightarrow> bool" where
  "inbound_ok s k h \<longleftrightarrow>
     (\<exists>x. ts_Heap s h = Some x \<and> is_inbound x \<and> live (tn_State (base_tunnel x)) \<and> tunnel_id x = Inr k)"

definition pooled_ok :: "Tunnels \<Rightarrow> bool \<Rightarrow> nat \<Rightarrow> int \<times> nat \<Rightarrow> nat \<Rightarrow> bool" where
  "pooled_ok s inbound p k h \<longleftrightarrow>
     (\<exists>x. ts_Heap s h = Some x \<and> is_inbound x = inbound \<and> live (tn_State (base_tunnel x)) \<and>
        k = TunnelCreationTimeCmp (base_tunnel x) h \<and> tn_Pool (base_tunnel x) = Some p)"

definition test_ok :: "Tunnels \<Rightarrow> nat option \<Rightarrow> nat option \<Rightarrow> bool" where
  "test_ok s o1 i1 \<longleftrightarrow> (\<exists>h h'. o1 = Some h \<and> i1 = Some h' \<and> member_ok s False h \<and> member_ok s True h')"

text \<open>The parts of the invariant.\<close>

definition pending_inv :: "Tunnels \<Rightarrow> bool \<Rightarrow> bool" where
  "pending_inv s inbound \<longleftrightarrow> std_inv (pending inbound s) \<and> (\<forall>(k, h) \<in> set (pending inbound s). pending_ok s inbound h)"

definition lists_inv :: "Tunnels \<Rightarrow> bool" where
  "lists_inv s \<longleftrightarrow>
     std_inv (m_InboundTunnels s) \<and> (\<forall>(k, h) \<in> set (m_InboundTunnels s). inbound_ok s k h) \<and>
     distinct (m_OutboundTunnels s) \<and> (\<forall>h \<in> set (m_OutboundTunnels s). member_ok s False h)"

definition transit_inv :: "Tunnels \<Rightarrow> bool" where
  "transit_inv s \<longleftrightarrow>
     std_inv (m_TransitTunnels s) \<and> (\<forall>(k, x) \<in> set (m_TransitTunnels s). x_TunnelID (transit_base x) = k)"

definition set_inv :: "Tunnels \<Rightarrow> nat \<Rightarrow> bool \<Rightarrow> tunnel_set \<Rightarrow> bool" where
  "set_inv s p inbound m \<longleftrightarrow> std_inv m \<and> (\<forall>(k, h) \<in> set m. pooled_ok s inbound p k h)"

definition tests_inv :: "Tunnels \<Rightarrow> (u32, nat option \<times> nat option) std_map \<Rightarrow> bool" where
  "tests_inv s m \<longleftrightarrow> std_inv m \<and> (\<forall>(k, o1, i1) \<in> set m. test_ok s o1 i1)"

definition pool_inv :: "Tunnels \<Rightarrow> nat \<Rightarrow> TunnelPool \<Rightarrow> bool" where
  "pool_inv s p pool \<longleftrightarrow>
     set_inv s p True (tp_InboundTunnels pool) \<and> set_inv s p False (tp_OutboundTunnels pool) \<and> tests_inv s (tp_Tests pool)"

definition pools_inv :: "Tunnels \<Rightarrow> bool" where
  "pools_inv s \<longleftrightarrow>
     (\<forall>p \<in> set (m_Pools s) \<union> set_option (m_ExploratoryPool s). ts_PoolHeap s p \<noteq> None) \<and>
     (\<forall>p pool. ts_PoolHeap s p = Some pool \<longrightarrow> pool_inv s p pool)"

definition store_inv :: "Tunnels \<Rightarrow> bool" where
  "store_inv s \<longleftrightarrow>
     (\<forall>h \<ge> ts_Next s. ts_Heap s h = None \<and> ts_PoolHeap s h = None) \<and>
     (\<forall>h x p. ts_Heap s h = Some x \<longrightarrow> tn_Pool (base_tunnel x) = Some p \<longrightarrow> ts_PoolHeap s p \<noteq> None)"

definition tunnels_inv :: "Tunnels \<Rightarrow> bool" where
  "tunnels_inv s \<longleftrightarrow>
     store_inv s \<and> pending_inv s True \<and> pending_inv s False \<and> lists_inv s \<and> transit_inv s \<and> pools_inv s"

lemmas ok_defs = pending_ok_def member_ok_def inbound_ok_def pooled_ok_def test_ok_def
lemmas part_defs = pending_inv_def lists_inv_def transit_inv_def set_inv_def tests_inv_def pool_inv_def pools_inv_def store_inv_def
  pending_def set_pending_def

lemma base_map_base [simp]: "base_tunnel (map_base f x) = f (base_tunnel x)" "is_inbound (map_base f x) = is_inbound x"
  by (cases x; simp)+

section \<open>Changes of the store\<close>

text \<open>What every owner relies on is kept when tunnels only change in ways no owner has to notice.\<close>

definition similar :: "AnyTunnel \<Rightarrow> AnyTunnel \<Rightarrow> bool" where
  "similar x x' \<longleftrightarrow> is_inbound x' = is_inbound x \<and> tn_CreationTime (base_tunnel x') = tn_CreationTime (base_tunnel x) \<and>
     tn_Pool (base_tunnel x') = tn_Pool (base_tunnel x) \<and>
     (live (tn_State (base_tunnel x)) \<longrightarrow> live (tn_State (base_tunnel x')) \<and> tunnel_id x' = tunnel_id x)"

lemma similar_refl [simp]: "similar x x"
  by (simp add: similar_def)

definition grown :: "Tunnels \<Rightarrow> Tunnels \<Rightarrow> bool" where
  "grown s s' \<longleftrightarrow> (\<forall>h x. ts_Heap s h = Some x \<longrightarrow> (\<exists>x'. ts_Heap s' h = Some x' \<and> similar x x'))"

lemma grown_ok:
  assumes "grown s s'"
  shows "pending_ok s b h \<Longrightarrow> pending_ok s' b h" "member_ok s b h \<Longrightarrow> member_ok s' b h"
    "inbound_ok s k h \<Longrightarrow> inbound_ok s' k h" "pooled_ok s b p j h \<Longrightarrow> pooled_ok s' b p j h" "test_ok s o1 i1 \<Longrightarrow> test_ok s' o1 i1"
proof -
  show "pending_ok s b h \<Longrightarrow> pending_ok s' b h" "inbound_ok s k h \<Longrightarrow> inbound_ok s' k h" "pooled_ok s b p j h \<Longrightarrow> pooled_ok s' b p j h"
    using assms by (fastforce simp: ok_defs grown_def similar_def TunnelCreationTimeCmp_def)+
  show m: "member_ok s b h \<Longrightarrow> member_ok s' b h" for b h
    using assms by (fastforce simp: ok_defs grown_def similar_def)
  show "test_ok s o1 i1 \<Longrightarrow> test_ok s' o1 i1"
    using m by (fastforce simp: test_ok_def)
qed

lemma grown_pool: "grown s s' \<Longrightarrow> pool_inv s p pool \<Longrightarrow> pool_inv s' p pool"
  using grown_ok by (fastforce simp: pool_inv_def set_inv_def tests_inv_def)

definition kept :: "Tunnels \<Rightarrow> Tunnels \<Rightarrow> bool" where
  "kept s s' \<longleftrightarrow> (tunnels_inv s \<longrightarrow> tunnels_inv s')"

lemma inv_fields:
  assumes "ts_Heap s' = ts_Heap s" "ts_PoolHeap s' = ts_PoolHeap s" "ts_Next s' = ts_Next s"
    "m_PendingInboundTunnels s' = m_PendingInboundTunnels s" "m_PendingOutboundTunnels s' = m_PendingOutboundTunnels s"
    "m_InboundTunnels s' = m_InboundTunnels s" "m_OutboundTunnels s' = m_OutboundTunnels s"
    "m_TransitTunnels s' = m_TransitTunnels s" "m_Pools s' = m_Pools s" "m_ExploratoryPool s' = m_ExploratoryPool s"
  shows "kept s s'"
  using assms by (simp add: kept_def tunnels_inv_def part_defs ok_defs)

interpretation kp: state_relation kept
proof (unfold_locales, goal_cases)
  case (2 s1 s2 s3) then show ?case by (simp add: kept_def)
qed (rule inv_fields; simp)+

lemma inv_put:
  assumes "ts_Heap s h = Some x" and "similar x x'"
  shows "kept s (s\<lparr>ts_Heap := (ts_Heap s)(h \<mapsto> x')\<rparr>)"
proof -
  let ?s = "s\<lparr>ts_Heap := (ts_Heap s)(h \<mapsto> x')\<rparr>"
  have g: "grown s ?s" using assms by (simp add: grown_def)
  have "store_inv s \<Longrightarrow> store_inv ?s" using assms by (auto simp: store_inv_def similar_def)
  moreover have "pending_inv s b \<Longrightarrow> pending_inv ?s b" for b using grown_ok [OF g] by (fastforce simp: pending_inv_def pending_def)
  moreover have "lists_inv s \<Longrightarrow> lists_inv ?s" using grown_ok [OF g] by (fastforce simp: lists_inv_def)
  moreover have "transit_inv s \<Longrightarrow> transit_inv ?s" by (simp add: transit_inv_def)
  moreover have "pools_inv s \<Longrightarrow> pools_inv ?s" using grown_pool [OF g] by (simp add: pools_inv_def)
  ultimately show ?thesis by (simp add: kept_def tunnels_inv_def)
qed

text \<open>A tunnel that is not established is in no list.\<close>

definition unlisted :: "Tunnels \<Rightarrow> nat \<Rightarrow> bool" where
  "unlisted s h \<longleftrightarrow> h \<notin> set (m_OutboundTunnels s) \<and>
     (\<forall>p pool inbound k. ts_PoolHeap s p = Some pool \<longrightarrow> (k, h) \<notin> set (pool_set inbound pool))"

lemma not_live_unlisted:
  assumes "tunnels_inv s" and "ts_Heap s h = Some x" and "\<not> live (tn_State (base_tunnel x))"
  shows "unlisted s h"
proof -
  have "h \<notin> set (m_OutboundTunnels s)" using assms by (auto simp: tunnels_inv_def lists_inv_def member_ok_def)
  moreover have False if "ts_PoolHeap s p = Some pool" "(k, h) \<in> set (pool_set inbound pool)" for p pool inbound k
  proof -
    have "pool_inv s p pool" using assms(1) that(1) by (simp add: tunnels_inv_def pools_inv_def)
    then have "pooled_ok s inbound p k h" using that(2) by (auto simp: pool_inv_def set_inv_def pool_set_def split: if_splits)
    then show False using assms(2,3) by (auto simp: pooled_ok_def)
  qed
  ultimately show ?thesis by (auto simp: unlisted_def)
qed

text \<open>Forgetting the pool of the tunnels in \<open>H\<close>, which have to leave the pools.\<close>

definition forget_pool :: "AnyTunnel \<Rightarrow> AnyTunnel" where
  "forget_pool x = map_base (\<lambda>t. t\<lparr>tn_Pool := None\<rparr>) x"

definition cleared :: "nat set \<Rightarrow> Tunnels \<Rightarrow> Tunnels" where
  "cleared H s = s\<lparr>ts_Heap := (\<lambda>h. if h \<in> H then map_option forget_pool (ts_Heap s h) else ts_Heap s h)\<rparr>"

lemma cleared_fields:
  "pending b (cleared H s) = pending b s" "m_InboundTunnels (cleared H s) = m_InboundTunnels s"
  "m_OutboundTunnels (cleared H s) = m_OutboundTunnels s" "m_TransitTunnels (cleared H s) = m_TransitTunnels s"
  "m_Pools (cleared H s) = m_Pools s" "m_ExploratoryPool (cleared H s) = m_ExploratoryPool s"
  "m_PendingInboundTunnels (cleared H s) = m_PendingInboundTunnels s" "m_PendingOutboundTunnels (cleared H s) = m_PendingOutboundTunnels s"
  by (simp_all add: cleared_def pending_def)

lemma tunnel_id_map_base: "(\<And>t. tn_Config (f t) = tn_Config t) \<Longrightarrow> tunnel_id (map_base f x) = tunnel_id x"
  by (cases x) (simp_all add: tunnel_id_def InboundTunnel_GetTunnelID_def GetNextTunnelID_def)

lemma forget_pool_fields [simp]:
  "is_inbound (forget_pool x) = is_inbound x" "tunnel_id (forget_pool x) = tunnel_id x"
  "tn_State (base_tunnel (forget_pool x)) = tn_State (base_tunnel x)" "tn_Pool (base_tunnel (forget_pool x)) = None"
  by (simp_all add: forget_pool_def tunnel_id_map_base)

lemma cleared_ok:
  "pending_ok s b h \<Longrightarrow> pending_ok (cleared H s) b h" "member_ok s b h \<Longrightarrow> member_ok (cleared H s) b h"
  "inbound_ok s k h \<Longrightarrow> inbound_ok (cleared H s) k h" "h \<notin> H \<Longrightarrow> pooled_ok s b p j h \<Longrightarrow> pooled_ok (cleared H s) b p j h"
  "test_ok s o1 i1 \<Longrightarrow> test_ok (cleared H s) o1 i1"
proof -
  show "pending_ok s b h \<Longrightarrow> pending_ok (cleared H s) b h" "inbound_ok s k h \<Longrightarrow> inbound_ok (cleared H s) k h"
    "h \<notin> H \<Longrightarrow> pooled_ok s b p j h \<Longrightarrow> pooled_ok (cleared H s) b p j h"
    by (auto simp: ok_defs cleared_def)
  show m: "member_ok s b h \<Longrightarrow> member_ok (cleared H s) b h" for b h
    by (auto simp: member_ok_def cleared_def)
  show "test_ok s o1 i1 \<Longrightarrow> test_ok (cleared H s) o1 i1"
    using m by (auto simp: test_ok_def)
qed

lemma inv_cleared:
  assumes inv: "tunnels_inv s" and dom: "dom ph = dom (ts_PoolHeap s)"
    and pools: "\<And>p pool. ph p = Some pool \<Longrightarrow>
      pool_inv s p pool \<and> (\<forall>b k h. (k, h) \<in> set (pool_set b pool) \<longrightarrow> h \<notin> H)"
  shows "tunnels_inv ((cleared H s)\<lparr>ts_PoolHeap := ph\<rparr>)"
proof -
  let ?s = "(cleared H s)\<lparr>ts_PoolHeap := ph\<rparr>"
  have d: "ph p = None \<longleftrightarrow> ts_PoolHeap s p = None" for p using dom by (metis domIff)
  have same: "pending_ok ?s b h = pending_ok (cleared H s) b h" "member_ok ?s b h = member_ok (cleared H s) b h"
    "inbound_ok ?s k h = inbound_ok (cleared H s) k h" "pooled_ok ?s b p j h = pooled_ok (cleared H s) b p j h"
    "test_ok ?s o1 i1 = test_ok (cleared H s) o1 i1" for b h k p j o1 i1
    by (simp_all add: ok_defs)
  have parts: "store_inv s" "pending_inv s b" "lists_inv s" "transit_inv s" "pools_inv s" for b
    using inv by (cases b; simp add: tunnels_inv_def)+
  have "store_inv ?s" using parts(1) d by (auto simp: store_inv_def cleared_def forget_pool_def split: if_splits)
  moreover have "pending_inv ?s b" for b
    using parts(2) [of b] cleared_ok(1) [where s = s and H = H] unfolding pending_inv_def same
    by (auto simp: pending_def cleared_fields split: if_splits)
  moreover have "lists_inv ?s"
    using parts(3) cleared_ok(2,3) [where s = s and H = H] unfolding lists_inv_def same by (auto simp: cleared_fields)
  moreover have "transit_inv ?s" using parts(4) by (simp add: transit_inv_def cleared_fields)
  moreover have "pool_inv ?s p pool" if "ph p = Some pool" for p pool
  proof -
    have "h \<notin> H" if "(k, h) \<in> set (pool_set b pool)" for b k h using pools [OF \<open>ph p = Some pool\<close>] that by blast
    from this [where b = True] this [where b = False] show ?thesis
      using pools [OF that] cleared_ok(4,5) [where s = s and H = H] unfolding pool_inv_def set_inv_def tests_inv_def same pool_set_def
      by (simp add: split_beta) (metis prod.collapse)
  qed
  then have "pools_inv ?s" using parts(5) d by (auto simp: pools_inv_def cleared_fields)
  ultimately show ?thesis by (simp add: tunnels_inv_def)
qed

lemma inv_pool:
  assumes "ts_PoolHeap s p = Some pool" and "pool_inv s p pool'"
  shows "kept s (s\<lparr>ts_PoolHeap := (ts_PoolHeap s)(p \<mapsto> pool')\<rparr>)"
  unfolding kept_def
proof
  assume inv: "tunnels_inv s"
  have "tunnels_inv ((cleared {} s)\<lparr>ts_PoolHeap := (ts_PoolHeap s)(p \<mapsto> pool')\<rparr>)"
    using inv assms by (intro inv_cleared) (auto simp: tunnels_inv_def pools_inv_def split: if_splits)
  then show "tunnels_inv (s\<lparr>ts_PoolHeap := (ts_PoolHeap s)(p \<mapsto> pool')\<rparr>)" by (simp add: cleared_def)
qed

lemma inv_join:
  assumes "ts_Heap s h = Some x" and "unlisted s h" and "ts_PoolHeap s p \<noteq> None"
  shows "kept s (s\<lparr>ts_Heap := (ts_Heap s)(h \<mapsto> map_base (\<lambda>t. t\<lparr>tn_Pool := Some p\<rparr>) x)\<rparr>)"
proof -
  let ?x = "map_base (\<lambda>t. t\<lparr>tn_Pool := Some p\<rparr>) x" let ?s = "s\<lparr>ts_Heap := (ts_Heap s)(h \<mapsto> ?x)\<rparr>"
  have id: "tunnel_id ?x = tunnel_id x" by (simp add: tunnel_id_map_base)
  have ok: "pending_ok s b g \<Longrightarrow> pending_ok ?s b g" "member_ok s b g \<Longrightarrow> member_ok ?s b g" "inbound_ok s k g \<Longrightarrow> inbound_ok ?s k g"
    "g \<noteq> h \<Longrightarrow> pooled_ok s b q j g \<Longrightarrow> pooled_ok ?s b q j g" for b g k q j
    using assms(1) id by (auto simp: ok_defs)
  then have t: "test_ok s o1 i1 \<Longrightarrow> test_ok ?s o1 i1" for o1 i1 by (auto simp: test_ok_def)
  have "store_inv s \<Longrightarrow> store_inv ?s" using assms by (auto simp: store_inv_def split: if_splits)
  moreover have "pending_inv s b \<Longrightarrow> pending_inv ?s b" for b using ok(1) by (fastforce simp: pending_inv_def pending_def)
  moreover have "lists_inv s \<Longrightarrow> lists_inv ?s" using ok(2,3) by (fastforce simp: lists_inv_def)
  moreover have "transit_inv s \<Longrightarrow> transit_inv ?s" by (simp add: transit_inv_def)
  moreover have "pool_inv ?s q pool" if "pool_inv s q pool" "ts_PoolHeap s q = Some pool" for q pool
  proof -
    have "h \<noteq> g" if "(j, g) \<in> set (pool_set b pool)" for j g b
      using assms(2) that \<open>ts_PoolHeap s q = Some pool\<close> unfolding unlisted_def by blast
    from this [where b = True] this [where b = False] that(1) ok(4) t show ?thesis
      unfolding pool_inv_def set_inv_def tests_inv_def pool_set_def by fastforce
  qed
  then have "pools_inv s \<Longrightarrow> pools_inv ?s" by (simp add: pools_inv_def)
  ultimately show ?thesis by (simp add: kept_def tunnels_inv_def)
qed

text \<open>A new object.\<close>

lemma inv_new_tunnel:
  assumes "tn_Pool (base_tunnel x) = None"
  shows "kept s (s\<lparr>ts_Heap := (ts_Heap s)(ts_Next s \<mapsto> x), ts_Next := Suc (ts_Next s)\<rparr>)"
  unfolding kept_def
proof
  assume inv: "tunnels_inv s"
  let ?s = "s\<lparr>ts_Heap := (ts_Heap s)(ts_Next s \<mapsto> x), ts_Next := Suc (ts_Next s)\<rparr>"
  have n: "ts_Heap s (ts_Next s) = None" using inv by (simp add: tunnels_inv_def store_inv_def)
  have g: "grown s ?s" using n by (auto simp: grown_def)
  have "store_inv ?s" using inv assms by (auto simp: tunnels_inv_def store_inv_def split: if_splits)
  moreover have "pending_inv ?s b" for b
    using inv grown_ok(1) [OF g] by (cases b) (fastforce simp: tunnels_inv_def pending_inv_def pending_def)+
  moreover have "lists_inv ?s" using inv grown_ok(2,3) [OF g] by (fastforce simp: tunnels_inv_def lists_inv_def)
  moreover have "transit_inv ?s" using inv by (simp add: tunnels_inv_def transit_inv_def)
  moreover have "pools_inv ?s" using inv grown_pool [OF g] by (simp add: tunnels_inv_def pools_inv_def)
  ultimately show "tunnels_inv ?s" by (simp add: tunnels_inv_def)
qed

section \<open>The operations of the store\<close>

lemma kept_modify_fields:
  "kept s (s\<lparr>m_Queue := q\<rparr>)" "kept s (s\<lparr>m_NumFailedTunnelCreations := i\<rparr>)" "kept s (s\<lparr>m_NumSuccesiveTunnelCreations := i\<rparr>)"
  by (rule inv_fields; simp)+

lemma keeps_put:
  "ts_Heap s h = Some x \<Longrightarrow> similar x x' \<Longrightarrow> keeps_at kept (put_tunnel h x') s"
  by (simp add: put_tunnel_def kp.keeps_modify inv_put)

lemma keeps_update_base:
  "(\<And>x. ts_Heap s h = Some x \<Longrightarrow> similar x (map_base f x)) \<Longrightarrow> keeps_at kept (update_base h f) s"
  unfolding update_base_def by (intro kp.keeps_intros keeps_put) (auto simp: mop_simps)

lemma similar_state:
  "live st \<or> \<not> live (tn_State (base_tunnel x)) \<Longrightarrow> similar x (map_base (\<lambda>t. t\<lparr>tn_State := st\<rparr>) x)"
  by (auto simp: similar_def tunnel_id_map_base)

lemma keeps_SetState:
  "live st \<Longrightarrow> keeps_at kept (SetState h st) s"
  "ts_Heap s h = Some x \<Longrightarrow> \<not> live (tn_State (base_tunnel x)) \<Longrightarrow> keeps_at kept (SetState h st) s"
  unfolding SetState_def by (intro keeps_update_base similar_state; simp)+

lemma live_states [simp]:
  "live TunnelStateEstablished" "live TunnelStateTestFailed" "live TunnelStateFailed" "live TunnelStateExpiring"
  "\<not> live TunnelStatePending" "\<not> live TunnelStateBuildReplyReceived" "\<not> live TunnelStateBuildFailed"
  by (simp_all add: live_def)

lemma keeps_SetIsRecreated: "keeps_at kept (SetIsRecreated h) s"
  unfolding SetIsRecreated_def by (intro keeps_update_base) (simp add: similar_def tunnel_id_map_base)

lemma Outbound_send_base: "OutboundTunnel_SendTunnelDataMsg env gh gt msg t = Inr (t', acts) \<Longrightarrow> ot_Tunnel t' = ot_Tunnel t"
  by (auto simp: OutboundTunnel_SendTunnelDataMsg_def result_simps)

lemma keeps_log_all: "keeps_at kept (mfor (\<lambda>a. mlog (g a)) as) s"
  by (intro kp.keeps_all kp.keeps_basic)

lemma keeps_send_through: "keeps_at kept (send_through env h gh gt msg) s"
  unfolding send_through_def
  by (intro kp.keeps_intros keeps_log_all keeps_put)
    (auto simp: mop_simps similar_def tunnel_id_def dest: Outbound_send_base)

lemma keeps_perform_build: "keeps_at kept (perform_build env act) s"
  unfolding perform_build_def by (cases act) (simp_all add: kp.keeps_basic keeps_send_through)

text \<open>Sending leaves the base of every tunnel as it is.\<close>

definition stable :: "Tunnels \<Rightarrow> Tunnels \<Rightarrow> bool" where
  "stable s s' \<longleftrightarrow> (\<forall>h x. ts_Heap s h = Some x \<longrightarrow>
     (\<exists>x'. ts_Heap s' h = Some x' \<and> base_tunnel x' = base_tunnel x \<and> is_inbound x' = is_inbound x))"

interpretation stb: state_relation stable
  by unfold_locales (force simp: stable_def)+

lemma stable_put:
  "ts_Heap s h = Some x \<Longrightarrow> base_tunnel x' = base_tunnel x \<Longrightarrow> is_inbound x' = is_inbound x \<Longrightarrow> keeps_at stable (put_tunnel h x') s"
  by (auto simp: put_tunnel_def keeps_at_def mmodify_def stable_def)

lemma stable_send_through: "keeps_at stable (send_through env h gh gt msg) s"
  unfolding send_through_def
  by (intro stb.keeps_intros stb.keeps_all stable_put) (auto simp: mop_simps dest: Outbound_send_base)

lemma stable_perform_build: "keeps_at stable (perform_build env act) s"
  unfolding perform_build_def by (cases act) (simp_all add: stb.keeps_basic stable_send_through)

lemma inv_pending:
  assumes "tunnels_inv s \<Longrightarrow> std_inv m \<and> (\<forall>(k, h) \<in> set m. pending_ok s inbound h)"
  shows "kept s (set_pending inbound m s)"
  unfolding kept_def
proof
  assume inv: "tunnels_inv s"
  let ?s = "set_pending inbound m s"
  have "pending_ok ?s = pending_ok s" by (auto simp: pending_ok_def set_pending_def fun_eq_iff)
  moreover have "pending b ?s = (if b = inbound then m else pending b s)" for b by (simp add: set_pending_def pending_def)
  ultimately have "pending_inv ?s b" for b
    using assms [OF inv] inv by (cases b; cases inbound) (simp_all add: tunnels_inv_def pending_inv_def)
  moreover have "store_inv ?s = store_inv s" "lists_inv ?s = lists_inv s" "transit_inv ?s = transit_inv s" "pools_inv ?s = pools_inv s"
    by (cases inbound; simp add: set_pending_def store_inv_def lists_inv_def transit_inv_def pools_inv_def pool_inv_def set_inv_def tests_inv_def ok_defs)+
  ultimately show "tunnels_inv ?s" using inv by (simp add: tunnels_inv_def)
qed

lemma keeps_AddPendingTunnel:
  assumes "pending_ok s inbound h"
  shows "keeps_at kept (AddPendingTunnel inbound k h) s"
  unfolding AddPendingTunnel_def
proof (intro kp.keeps_modify inv_pending conjI)
  assume "tunnels_inv s"
  then have p: "pending_inv s inbound" by (cases inbound) (simp_all add: tunnels_inv_def)
  then show "std_inv (std_assign k h (pending inbound s))" by (simp add: pending_inv_def)
  show "\<forall>(k, h) \<in> set (std_assign k h (pending inbound s)). pending_ok s inbound h"
    using p assms set_std_assign [of k h "pending inbound s"] by (auto simp: pending_inv_def)
qed

lemma new_tunnel_post:
  assumes "new_tunnel env inbound config s = (Inr h, s')"
  shows "\<exists>x. ts_Heap s' h = Some x \<and> is_inbound x = inbound \<and> tn_State (base_tunnel x) = TunnelStatePending \<and> tn_Pool (base_tunnel x) = None \<and>
    tn_CreationTime (base_tunnel x) = v_now env"
  using assms unfolding new_tunnel_def
  by (cases inbound) (auto simp: mop_simps InboundTunnel_new_def OutboundTunnel_new_def Tunnel_new_def Let_def result_simps)

lemma keeps_new_tunnel: "keeps_at kept (new_tunnel env inbound config) s"
proof -
  have "tn_Pool (base_tunnel x) = None"
    if "(if inbound then mret (AnInboundTunnel (InboundTunnel_new (v_now env) config))
         else mlift (bind_result (OutboundTunnel_new (v_random env n) (v_now env) config) (\<lambda>t. Inr (AnOutboundTunnel t)))) s1 = (Inr x, s2)"
    for n x s1 s2
    using that by (cases inbound) (auto simp: mop_simps InboundTunnel_new_def OutboundTunnel_new_def Tunnel_new_def Let_def result_simps)
  then show ?thesis unfolding new_tunnel_def
    by (intro kp.keeps_intros kp.keeps_modify) (auto simp: mop_simps inv_new_tunnel)
qed

lemma Build_base:
  "Build env k o1 t = Inr (t', act) \<Longrightarrow> tn_State t' = tn_State t \<and> tn_Pool t' = tn_Pool t \<and> tn_CreationTime t' = tn_CreationTime t"
  by (auto simp: Build_def Let_def result_simps split: prod.splits option.splits)

lemma update_base_eq_Inr [mop_simps]:
  "update_base h f s = (Inr u, s') \<longleftrightarrow> (\<exists>x. ts_Heap s h = Some x \<and> s' = s\<lparr>ts_Heap := (ts_Heap s)(h \<mapsto> map_base f x)\<rparr>)"
  by (auto simp: update_base_def put_tunnel_def mop_simps)

lemma keeps_Tunnel_Build_at:
  assumes "ts_Heap s h = Some x" and "\<not> live (tn_State (base_tunnel x))"
  shows "keeps_at kept (Tunnel_Build_at env k o1 h) s"
  unfolding Tunnel_Build_at_def using assms
  by (intro kp.keeps_intros keeps_perform_build keeps_update_base) (auto simp: mop_simps similar_def dest: Build_base)

lemma Tunnel_Build_at_post:
  assumes "Tunnel_Build_at env k o1 h s = (Inr u, s')" and "ts_Heap s h = Some x"
  shows "\<exists>x'. ts_Heap s' h = Some x' \<and> is_inbound x' = is_inbound x \<and> tn_State (base_tunnel x') = tn_State (base_tunnel x) \<and>
    tn_Pool (base_tunnel x') = tn_Pool (base_tunnel x)"
proof -
  obtain n t' act s1 where b: "Build (v_build env n) k o1 (base_tunnel x) = Inr (t', act)"
    and h: "ts_Heap s1 h = Some (map_base (\<lambda>_. t') x)" and p: "perform_build env act s1 = (Inr u, s')"
  proof -
    obtain t' act where "Build (v_build env (ts_Draws s)) k o1 (base_tunnel x) = Inr (t', act)"
      "perform_build env act (s\<lparr>ts_Draws := Suc (ts_Draws s), ts_Heap := (ts_Heap s)(h \<mapsto> map_base (\<lambda>_. t') x)\<rparr>) = (Inr u, s')"
      using assms by (auto simp: Tunnel_Build_at_def mop_simps)
    then show ?thesis by (intro that) auto
  qed
  have "stable s1 s'" using stable_perform_build [of env act s1] p by (simp add: keeps_at_def)
  then show ?thesis using h Build_base [OF b] by (force simp: stable_def)
qed

lemma CreateTunnel_post:
  assumes "CreateTunnel env inbound config o1 s = (Inr h, s')"
  shows "\<exists>x. ts_Heap s' h = Some x \<and> is_inbound x = inbound \<and> tn_State (base_tunnel x) = TunnelStatePending \<and> tn_Pool (base_tunnel x) = None"
proof -
  obtain n s1 s2 where 1: "new_tunnel env inbound config s = (Inr h, s1)"
    and 2: "ts_Heap s2 = ts_Heap s1" "Tunnel_Build_at env (v_rand32 env n) o1 h s2 = (Inr (), s')"
  proof -
    obtain s1 where 1: "new_tunnel env inbound config s = (Inr h, s1)"
      and 2: "Tunnel_Build_at env (v_rand32 env (ts_Draws s1)) o1 h
        (set_pending inbound (std_assign (v_rand32 env (ts_Draws s1)) h (pending inbound (s1\<lparr>ts_Draws := Suc (ts_Draws s1)\<rparr>)))
          (s1\<lparr>ts_Draws := Suc (ts_Draws s1)\<rparr>)) = (Inr (), s')"
      using assms by (auto simp: CreateTunnel_def AddPendingTunnel_def mop_simps)
    have "ts_Heap (set_pending inbound m (s1\<lparr>ts_Draws := d\<rparr>)) = ts_Heap s1" for m d by (simp add: set_pending_def)
    with that [OF 1] 2 show ?thesis by blast
  qed
  from new_tunnel_post [OF 1] obtain x where "ts_Heap s2 h = Some x" "is_inbound x = inbound"
    "tn_State (base_tunnel x) = TunnelStatePending" "tn_Pool (base_tunnel x) = None" using 2(1) by auto
  with Tunnel_Build_at_post [OF 2(2)] show ?thesis by force
qed

lemma keeps_CreateTunnel: "keeps_at kept (CreateTunnel env inbound config o1) s"
  unfolding CreateTunnel_def
proof (intro kp.keeps_intros keeps_new_tunnel)
  fix h s1 n s2 assume 1: "new_tunnel env inbound config s = (Inr h, s1)" and 2: "mdraw s1 = (Inr n, s2)"
  from new_tunnel_post [OF 1] obtain x where x: "ts_Heap s2 h = Some x" "is_inbound x = inbound" "tn_State (base_tunnel x) = TunnelStatePending"
    using 2 by (auto simp: mop_simps)
  then show "keeps_at kept (AddPendingTunnel inbound (v_rand32 env n) h) s2"
    by (intro keeps_AddPendingTunnel) (simp add: pending_ok_def)
  fix s3 u assume "AddPendingTunnel inbound (v_rand32 env n) h s2 = (Inr u, s3)"
  then have "ts_Heap s3 h = Some x" using x by (auto simp: AddPendingTunnel_def mop_simps set_pending_def)
  then show "keeps_at kept (Tunnel_Build_at env (v_rand32 env n) o1 h) s3" by (rule keeps_Tunnel_Build_at) (simp add: x(3))
qed

lemma keeps_configs:
  "keeps_at kept (new_config env rs reply) s" "keeps_at kept (invert_config env c) s" "keeps_at kept (clone_config env reply c) s"
  "keeps_at kept (config_of h) s"
  unfolding new_config_def invert_config_def clone_config_def config_of_def by (intro kp.keeps_intros)+

lemma keeps_GetNextOutbound: "keeps_at kept (Tunnels_GetNextOutboundTunnel env) s"
  unfolding Tunnels_GetNextOutboundTunnel_def by (intro kp.keeps_intros)

lemma GetPendingTunnel_post:
  assumes "GetPendingTunnel inbound k s = (Inr (Some h), s')" and "tunnels_inv s"
  shows "tunnels_inv s' \<and> (\<exists>x. ts_Heap s' h = Some x \<and> is_inbound x = inbound \<and> tn_State (base_tunnel x) = TunnelStateBuildReplyReceived)"
proof -
  obtain x where f: "std_find k (pending inbound s) = Some h" and x: "ts_Heap s h = Some x" "tn_State (base_tunnel x) = TunnelStatePending"
    and s': "SetState h TunnelStateBuildReplyReceived s = (Inr (), s')"
    using assms(1) by (auto simp: GetPendingTunnel_def mop_simps split: option.splits if_splits)
  have "pending_inv s inbound" using assms(2) by (cases inbound) (simp_all add: tunnels_inv_def)
  then have "pending_ok s inbound h" using f std_find_mem [of "pending inbound s" k h] by (auto simp: pending_inv_def)
  then have i: "is_inbound x = inbound" using x by (simp add: pending_ok_def)
  have "tunnels_inv s'" using keeps_SetState(2) [OF x(1), of TunnelStateBuildReplyReceived] x(2) s' assms(2) by (simp add: keeps_at_def kept_def)
  then show ?thesis using x i s' by (auto simp: SetState_def mop_simps)
qed

lemma keeps_GetPendingTunnel: "keeps_at kept (GetPendingTunnel inbound k) s"
  unfolding GetPendingTunnel_def by (intro kp.keeps_intros) (auto simp: mop_simps intro: keeps_SetState(2))

section \<open>The operations of the pools\<close>

text \<open>Creating a tunnel and choosing its routers leave the pools alone.\<close>

definition same_pools :: "Tunnels \<Rightarrow> Tunnels \<Rightarrow> bool" where
  "same_pools s s' \<longleftrightarrow> ts_PoolHeap s' = ts_PoolHeap s"

interpretation spl: state_relation same_pools
  by unfold_locales (auto simp: same_pools_def)

lemma same_pools_store:
  "keeps_at same_pools (put_tunnel h x) s" "keeps_at same_pools (AddPendingTunnel inbound k h) s"
  by (auto simp: put_tunnel_def AddPendingTunnel_def keeps_at_def mmodify_def same_pools_def set_pending_def)

lemma same_pools_update: "keeps_at same_pools (update_base h f) s"
  unfolding update_base_def by (intro spl.keeps_intros same_pools_store)

lemma same_pools_send: "keeps_at same_pools (send_through env h gh gt msg) s"
  unfolding send_through_def by (intro spl.keeps_intros spl.keeps_all same_pools_store)

lemma same_pools_CreateTunnel: "keeps_at same_pools (CreateTunnel env inbound config o1) s"
proof -
  have "keeps_at same_pools (perform_build env act) s" for act s
    unfolding perform_build_def by (cases act) (simp_all add: spl.keeps_basic same_pools_send)
  then have "keeps_at same_pools (Tunnel_Build_at env k o1 h) s" for k h s
    unfolding Tunnel_Build_at_def by (intro spl.keeps_intros same_pools_update)
  moreover have "keeps_at same_pools (new_tunnel env inbound config) s" for s
    unfolding new_tunnel_def by (intro spl.keeps_intros spl.keeps_modify) (simp_all add: same_pools_def)
  ultimately show ?thesis unfolding CreateTunnel_def by (intro spl.keeps_intros same_pools_store)
qed

lemma same_pools_choice:
  "keeps_at same_pools (reply_outbound env p) s" "keeps_at same_pools (reply_inbound env p) s"
  "keeps_at same_pools (new_config env rs reply) s" "keeps_at same_pools (invert_config env c) s"
  "keeps_at same_pools (clone_config env reply c) s" "keeps_at same_pools (config_of h) s"
  unfolding reply_outbound_def reply_inbound_def GetNextTunnel_def Tunnels_GetNextOutboundTunnel_def
    new_config_def invert_config_def clone_config_def config_of_def
  by (intro spl.keeps_intros)+

text \<open>Choosing routers only draws and asks.\<close>

locale choice_relation = state_relation
begin

lemma keeps_SelectNextHop: "keeps_at R (SelectNextHop env p prev) s"
  unfolding SelectNextHop_def by (intro keeps_intros)

lemma keeps_select_hops: "keeps_at R (select_hops env p prev hops k) s"
  by (induction env p prev hops k arbitrary: s rule: select_hops.induct)
    (auto intro!: keeps_intros keeps_SelectNextHop)

lemma keeps_explicit_hops: "keeps_at R (explicit_hops env peers hops k indices) s"
  by (induction env peers hops k indices arbitrary: s rule: explicit_hops.induct)
    (auto intro!: keeps_intros)

lemma keeps_SelectPeers: "keeps_at R (SelectPeers env p inbound) s"
  unfolding SelectPeers_def SelectExplicitPeers_def by (intro keeps_intros keeps_explicit_hops keeps_select_hops)

lemma keeps_replies: "keeps_at R (reply_outbound env p) s" "keeps_at R (reply_inbound env p) s"
  unfolding reply_outbound_def reply_inbound_def GetNextTunnel_def Tunnels_GetNextOutboundTunnel_def by (intro keeps_intros)+

end

interpretation kpc: choice_relation kept ..
interpretation splc: choice_relation same_pools ..

lemma keeps_given: "(tunnels_inv s \<Longrightarrow> keeps_at kept m s) \<Longrightarrow> keeps_at kept m s"
  by (auto simp: keeps_at_def kept_def)

lemma keeps_update_pool:
  "(\<And>pool. ts_PoolHeap s p = Some pool \<Longrightarrow> tunnels_inv s \<Longrightarrow> pool_inv s p pool \<Longrightarrow> pool_inv s p (f pool)) \<Longrightarrow>
   keeps_at kept (update_pool p f) s"
proof (rule keeps_given)
  assume f: "\<And>pool. ts_PoolHeap s p = Some pool \<Longrightarrow> tunnels_inv s \<Longrightarrow> pool_inv s p pool \<Longrightarrow> pool_inv s p (f pool)"
    and inv: "tunnels_inv s"
  have "pool_inv s p pool" if "ts_PoolHeap s p = Some pool" for pool using inv that by (simp add: tunnels_inv_def pools_inv_def)
  then show "keeps_at kept (update_pool p f) s" using f inv
    unfolding update_pool_def by (intro kp.keeps_intros kp.keeps_modify) (auto simp: mop_simps intro: inv_pool)
qed

lemma pool_inv_fields:
  "tp_InboundTunnels q = tp_InboundTunnels pool \<Longrightarrow> tp_OutboundTunnels q = tp_OutboundTunnels pool \<Longrightarrow> tp_Tests q = tp_Tests pool \<Longrightarrow>
   pool_inv s p q = pool_inv s p pool"
  by (simp add: pool_inv_def)

lemma keeps_SetExplicitPeers: "keeps_at kept (SetExplicitPeers p peers) s"
  unfolding SetExplicitPeers_def
proof (rule keeps_update_pool)
  fix pool assume "pool_inv s p pool"
  then show "pool_inv s p (case peers of None \<Rightarrow> pool\<lparr>tp_ExplicitPeers := None\<rparr>
      | Some ps \<Rightarrow> pool\<lparr>tp_ExplicitPeers := Some ps, tp_NumInboundHops := min (tp_NumInboundHops pool) (int (length ps)),
          tp_NumOutboundHops := min (tp_NumOutboundHops pool) (int (length ps)), tp_NumInboundTunnels := 1, tp_NumOutboundTunnels := 1\<rparr>)"
    by (cases peers) (simp_all add: pool_inv_def)
qed

lemma keeps_lease_set_updated: "keeps_at kept (lease_set_updated p) s"
  unfolding lease_set_updated_def by (intro kp.keeps_intros)

lemma pool_inv_set:
  "pool_inv s p pool \<Longrightarrow> set_inv s p inbound (f (pool_set inbound pool)) \<Longrightarrow> pool_inv s p (with_pool_set inbound f pool)"
  by (auto simp: pool_inv_def with_pool_set_def pool_set_def)

lemma pool_inv_get: "pool_inv s p pool \<Longrightarrow> set_inv s p inbound (pool_set inbound pool)"
  by (simp add: pool_inv_def pool_set_def)

lemma keeps_TunnelCreated:
  assumes "ts_Heap s h = Some x" and "is_inbound x = inbound" and "live (tn_State (base_tunnel x))" and "tn_Pool (base_tunnel x) = Some p"
  shows "keeps_at kept (TunnelCreated inbound p h) s"
proof -
  have "pool_inv s p (with_pool_set inbound (std_insert (TunnelCreationTimeCmp (base_tunnel x) h) h) pool)"
    if "pool_inv s p pool" for pool
    using pool_inv_get [OF that, of inbound] assms set_std_insert [of "TunnelCreationTimeCmp (base_tunnel x) h" h "pool_set inbound pool"]
    by (intro pool_inv_set [OF that]) (auto simp: set_inv_def pooled_ok_def)
  then show ?thesis using assms(1) unfolding TunnelCreated_def
    by (intro kp.keeps_intros keeps_update_pool keeps_lease_set_updated) (auto simp: mop_simps)
qed

lemma keeps_erase_from_pool: "keeps_at kept (erase_from_pool inbound p h) s"
proof -
  have "pool_inv s p (with_pool_set inbound (std_erase k) pool)" if "pool_inv s p pool" for pool k s
    using pool_inv_get [OF that, of inbound] set_std_erase [of k "pool_set inbound pool"]
    by (intro pool_inv_set [OF that]) (auto simp: set_inv_def)
  then show ?thesis unfolding erase_from_pool_def by (intro kp.keeps_intros keeps_update_pool) auto
qed

text \<open>Leaving a pool: the pointer to the pool and the entry in its set go together.\<close>

lemma forget_pool_idem [simp]: "forget_pool (forget_pool x) = forget_pool x"
  by (cases x) (simp_all add: forget_pool_def)

lemma cleared_insert: "cleared H (cleared {h} s) = cleared (insert h H) s"
proof -
  have "ts_Heap (cleared H (cleared {h} s)) g = ts_Heap (cleared (insert h H) s) g" for g
    by (cases "g = h"; cases "ts_Heap s g") (auto simp: cleared_def)
  then show ?thesis by (simp add: cleared_def fun_eq_iff)
qed

lemma SetTunnelPool_None: "ts_Heap s h \<noteq> None \<Longrightarrow> SetTunnelPool h None s = (Inr (), cleared {h} s)"
proof -
  assume "ts_Heap s h \<noteq> None"
  then obtain x where x: "ts_Heap s h = Some x" by blast
  then have "(\<lambda>g. if g \<in> {h} then map_option forget_pool (ts_Heap s g) else ts_Heap s g) = (ts_Heap s)(h \<mapsto> forget_pool x)" by auto
  then show ?thesis using x
    by (simp add: SetTunnelPool_def update_base_def mbind_def get_tunnel_def put_tunnel_def mmodify_def cleared_def forget_pool_def)
qed

lemma clear_all: "\<forall>(k, h) \<in> set xs. ts_Heap s h \<noteq> None \<Longrightarrow> mfor (\<lambda>(k, h). SetTunnelPool h None) xs s = (Inr (), cleared (snd ` set xs) s)"
proof (induction xs arbitrary: s)
  case Nil
  then show ?case by (simp add: mret_def cleared_def)
next
  case (Cons e xs)
  obtain k h where e: "e = (k, h)" by (cases e)
  have "\<forall>(k, h') \<in> set xs. ts_Heap (cleared {h} s) h' \<noteq> None" using Cons.prems by (auto simp: cleared_def)
  from Cons.IH [OF this] show ?case using Cons.prems e
    by (simp add: mseq_def mbind_def SetTunnelPool_None cleared_insert)
qed

lemma pool_member:
  assumes "tunnels_inv s" and "ts_PoolHeap s q = Some pool" and "(k, g) \<in> set (pool_set b pool)"
  shows "pooled_ok s b q k g"
  using assms pool_inv_get [of s q pool b] by (auto simp: tunnels_inv_def pools_inv_def set_inv_def)

lemma pool_get_inv: "tunnels_inv s \<Longrightarrow> ts_PoolHeap s p = Some pool \<Longrightarrow> pool_inv s p pool"
  by (simp add: tunnels_inv_def pools_inv_def)

lemma pool_set_with: "pool_set b (with_pool_set inbound f pool) = (if b = inbound then f (pool_set b pool) else pool_set b pool)"
  by (simp add: pool_set_def with_pool_set_def)

lemma inv_leave:
  assumes inv: "tunnels_inv s" and p: "ts_PoolHeap s p = Some pool"
    and H: "\<And>h. h \<in> H \<Longrightarrow> \<exists>x. ts_Heap s h = Some x \<and> is_inbound x = inbound \<and> tn_Pool (base_tunnel x) = Some p"
    and f: "std_inv (f (pool_set inbound pool))" "set (f (pool_set inbound pool)) \<subseteq> set (pool_set inbound pool)"
    and out: "\<And>k h. (k, h) \<in> set (f (pool_set inbound pool)) \<Longrightarrow> h \<notin> H"
  shows "tunnels_inv ((cleared H s)\<lparr>ts_PoolHeap := (ts_PoolHeap s)(p \<mapsto> with_pool_set inbound f pool)\<rparr>)"
proof (rule inv_cleared [OF inv])
  show "dom ((ts_PoolHeap s)(p \<mapsto> with_pool_set inbound f pool)) = dom (ts_PoolHeap s)" using p by auto
  fix q pool' assume q: "((ts_PoolHeap s)(p \<mapsto> with_pool_set inbound f pool)) q = Some pool'"
  have inv': "pool_inv s p (with_pool_set inbound f pool)"
    using pool_get_inv [OF inv p] pool_inv_get [OF pool_get_inv [OF inv p], of inbound] f
    by (intro pool_inv_set) (auto simp: set_inv_def)
  have "h \<notin> H" if m: "(k, h) \<in> set (pool_set b pool')" for b k h
  proof
    assume "h \<in> H"
    then obtain x where x: "ts_Heap s h = Some x" "is_inbound x = inbound" "tn_Pool (base_tunnel x) = Some p" using H by blast
    have "pooled_ok s b q k h"
      using q m inv' pool_member [OF inv _ m] pool_inv_get [OF inv', of b] by (auto simp: set_inv_def split: if_splits)
    then have "q = p" "b = inbound" using x by (auto simp: pooled_ok_def)
    then have "(k, h) \<in> set (f (pool_set inbound pool))" using q m by (auto simp: pool_set_with)
    then show False using out \<open>h \<in> H\<close> by blast
  qed
  then show "pool_inv s q pool' \<and> (\<forall>b k h. (k, h) \<in> set (pool_set b pool') \<longrightarrow> h \<notin> H)"
    using q inv' pool_get_inv [OF inv, of q] by (auto split: if_splits)
qed

lemma keeps_TunnelExpired:
  assumes x: "ts_Heap s h = Some x" "is_inbound x = inbound" "tn_Pool (base_tunnel x) = Some p"
  shows "keeps_at kept (TunnelExpired inbound p h) s"
proof (rule keeps_given)
  assume inv: "tunnels_inv s"
  then obtain pool where p: "ts_PoolHeap s p = Some pool" using x by (fastforce simp: tunnels_inv_def store_inv_def)
  let ?k = "TunnelCreationTimeCmp (base_tunnel x) h"
  have k: "TunnelCreationTimeCmp (base_tunnel (forget_pool x)) h = ?k" by (simp add: TunnelCreationTimeCmp_def forget_pool_def)
  have "TunnelExpired inbound p h s =
      (Inr (), (cleared {h} s)\<lparr>ts_PoolHeap := (ts_PoolHeap s)(p \<mapsto> with_pool_set inbound (std_erase ?k) pool)\<rparr>)"
    using x p by (simp add: TunnelExpired_def mseq_def mbind_def SetTunnelPool_None erase_from_pool_def get_tunnel_def update_pool_def get_pool_def
        mmodify_def cleared_def k)
  moreover have "h' \<notin> {h}" if "(k', h') \<in> set (std_erase ?k (pool_set inbound pool))" for k' h'
  proof -
    have m: "(k', h') \<in> set (pool_set inbound pool)" "k' \<noteq> ?k" using that by (auto simp: std_erase_def)
    then show ?thesis using pool_member [OF inv p m(1)] x by (auto simp: pooled_ok_def)
  qed
  ultimately show "keeps_at kept (TunnelExpired inbound p h) s"
    using inv_leave [OF inv p, of "{h}" inbound "std_erase ?k"] x pool_inv_get [OF pool_get_inv [OF inv p], of inbound]
      set_std_erase [of ?k "pool_set inbound pool"] by (auto simp: keeps_at_def kept_def set_inv_def)
qed

lemma keeps_detach_set: "keeps_at kept (detach_set inbound p) s"
proof (rule keeps_given)
  assume inv: "tunnels_inv s"
  show "keeps_at kept (detach_set inbound p) s"
  proof (cases "ts_PoolHeap s p")
    case None
    then show ?thesis by (simp add: detach_set_def keeps_at_def mbind_def get_pool_def kp.R_refl)
  next
    case (Some pool)
    let ?H = "snd ` set (pool_set inbound pool)"
    have H: "\<exists>x. ts_Heap s h = Some x \<and> is_inbound x = inbound \<and> tn_Pool (base_tunnel x) = Some p" if "h \<in> ?H" for h
      using that pool_member [OF inv Some] by (force simp: pooled_ok_def)
    then have v: "\<forall>(k, h) \<in> set (pool_set inbound pool). ts_Heap s h \<noteq> None" by force
    have "detach_set inbound p s =
        (Inr (), (cleared ?H s)\<lparr>ts_PoolHeap := (ts_PoolHeap s)(p \<mapsto> with_pool_set inbound (\<lambda>_. []) pool)\<rparr>)"
      using clear_all [OF v] Some by (simp add: detach_set_def mbind_def mseq_def get_pool_def update_pool_def mmodify_def cleared_def)
    then show ?thesis using inv_leave [OF inv Some H, where f = "\<lambda>_. []"] by (simp add: keeps_at_def kept_def)
  qed
qed

lemma keeps_DetachTunnels: "keeps_at kept (DetachTunnels p) s"
  unfolding DetachTunnels_def
  by (intro kp.keeps_intros keeps_detach_set keeps_update_pool) (simp add: pool_inv_def tests_inv_def)

lemma keeps_create_in_pool:
  assumes "ts_PoolHeap s p \<noteq> None"
  shows "keeps_at kept (create_in_pool env inbound p config o1) s"
proof (rule keeps_given)
  assume inv: "tunnels_inv s"
  show ?thesis unfolding create_in_pool_def SetTunnelPool_def update_base_def
  proof (intro kp.keeps_intros keeps_CreateTunnel)
    fix h s1 x s2 assume c: "CreateTunnel env inbound config o1 s = (Inr h, s1)" and "get_tunnel h s1 = (Inr x, s2)"
    then have x: "ts_Heap s1 h = Some x" "s2 = s1" by (simp_all add: mop_simps)
    have i: "tunnels_inv s1" using keeps_CreateTunnel [of env inbound config o1 s] c inv by (simp add: keeps_at_def kept_def)
    have "ts_PoolHeap s1 p \<noteq> None" using same_pools_CreateTunnel [of env inbound config o1 s] c assms by (simp add: keeps_at_def same_pools_def)
    moreover have "unlisted s1 h" using not_live_unlisted [OF i x(1)] CreateTunnel_post [OF c] x(1) by auto
    ultimately show "keeps_at kept (put_tunnel h (map_base (\<lambda>t. t\<lparr>tn_Pool := Some p\<rparr>) x)) s2"
      using inv_join [OF x(1)] x(2) by (simp add: put_tunnel_def kp.keeps_modify)
  qed
qed

lemma same_pools_create:
  "keeps_at same_pools (CreateInboundTunnel env p) s" "keeps_at same_pools (CreateOutboundTunnel env p) s"
  unfolding CreateInboundTunnel_def CreateOutboundTunnel_def create_in_pool_def SetTunnelPool_def
  by (intro spl.keeps_intros splc.keeps_replies splc.keeps_SelectPeers same_pools_choice same_pools_CreateTunnel same_pools_update)+

text \<open>The state after a sequence of operations that leave the pools alone.\<close>

lemma same_poolsD: "keeps_at same_pools m s \<Longrightarrow> m s = (r, s') \<Longrightarrow> ts_PoolHeap s' = ts_PoolHeap s"
  by (simp add: keeps_at_def same_pools_def)

lemmas choice_keeps = kpc.keeps_replies kpc.keeps_SelectPeers keeps_configs
lemmas choice_pools = splc.keeps_replies splc.keeps_SelectPeers same_pools_choice

lemma keeps_create:
  assumes "ts_PoolHeap s p \<noteq> None"
  shows "keeps_at kept (CreateInboundTunnel env p) s" "keeps_at kept (CreateOutboundTunnel env p) s"
    "keeps_at kept (RecreateInboundTunnel env p h) s" "keeps_at kept (RecreateOutboundTunnel env p h) s"
    "keeps_at kept (CreatePairedInboundTunnel env p h) s"
  unfolding CreateInboundTunnel_def CreateOutboundTunnel_def RecreateInboundTunnel_def RecreateOutboundTunnel_def CreatePairedInboundTunnel_def
  by (intro kp.keeps_intros choice_keeps keeps_create_in_pool; use assms in \<open>auto dest!: choice_pools [THEN same_poolsD]\<close>)+

lemma keeps_CreateTunnels:
  assumes "ts_PoolHeap s p \<noteq> None"
  shows "keeps_at kept (CreateTunnels env p) s"
proof -
  have step: "ts_PoolHeap s'' p \<noteq> None"
    if "ts_PoolHeap s' p \<noteq> None" "CreateInboundTunnel env p s' = (Inr u, s'') \<or> CreateOutboundTunnel env p s' = (Inr u, s'')" for s' s'' u
    using that same_pools_create [of env p s'] by (auto dest: same_poolsD)
  have loops: "ts_PoolHeap s' p \<noteq> None \<Longrightarrow> keeps_at kept (mfor (\<lambda>_. CreateInboundTunnel env p) xs) s'"
    "ts_PoolHeap s' p \<noteq> None \<Longrightarrow> keeps_at kept (mfor (\<lambda>_. CreateOutboundTunnel env p) xs) s'" for s' and xs :: "nat list"
    using step by (intro kp.keeps_for [where J = "\<lambda>s. ts_PoolHeap s p \<noteq> None"] keeps_create; blast)+
  have m: "keeps_at kept (missing_tunnels b p) s'" "keeps_at same_pools (missing_tunnels b p) s'" for b s'
    unfolding missing_tunnels_def by (intro kp.keeps_intros, intro spl.keeps_intros)
  have l: "keeps_at same_pools (mfor (\<lambda>_. CreateInboundTunnel env p) xs) s'" for s' and xs :: "nat list"
    by (intro spl.keeps_all same_pools_create)
  show ?thesis unfolding CreateTunnels_def using assms
    by (intro kp.keeps_intros loops m; auto dest!: m(2) [THEN same_poolsD] l [THEN same_poolsD])
qed

section \<open>Tests\<close>

lemma keeps_fail_tunnel: "keeps_at kept (fail_tunnel inbound p tunnel) s"
  unfolding fail_tunnel_def by (intro kp.keeps_intros keeps_SetState(1) keeps_erase_from_pool keeps_lease_set_updated) simp_all

lemma stable_update_pool: "keeps_at stable (update_pool p f) s"
  unfolding update_pool_def by (intro stb.keeps_intros stb.keeps_modify) (simp add: stable_def)

lemma stable_start_test: "keeps_at stable (start_test env p o1 i1) s"
  unfolding start_test_def by (intro stb.keeps_intros stable_update_pool stable_send_through)

lemma stable_member: "stable s s' \<Longrightarrow> member_ok s b h \<Longrightarrow> member_ok s' b h"
  by (force simp: stable_def member_ok_def)

lemma keeps_start_test:
  assumes "member_ok s False o1" and "member_ok s True i1"
  shows "keeps_at kept (start_test env p o1 i1) s"
proof -
  have "pool_inv s' p (pool\<lparr>tp_Tests := std_assign k (Some o1, Some i1) (tp_Tests pool)\<rparr>)"
    if "pool_inv s' p pool" "mdraw s = (Inr n, s')" for pool k n s'
    using that assms set_std_assign [of k "(Some o1, Some i1)" "tp_Tests pool"]
    by (auto simp: pool_inv_def tests_inv_def test_ok_def member_ok_def mop_simps)
  then show ?thesis unfolding start_test_def
    by (intro kp.keeps_intros keeps_send_through keeps_update_pool) auto
qed

lemma keeps_new_tests:
  "\<forall>h \<in> set outs. member_ok s False h \<Longrightarrow> \<forall>h \<in> set ins. member_ok s True h \<Longrightarrow> keeps_at kept (new_tests env p outs ins) s"
proof (induction env p outs ins arbitrary: s rule: new_tests.induct)
  case (3 env p o1 outs i1 ins)
  let ?f1 = "IsFailed s o1" let ?f2 = "IsFailed s i1"
  have "keeps_at kept (new_tests env p (if ?f1 then outs else o1 # outs) (if ?f2 then ins else i1 # ins)) s" if "?f1 \<or> ?f2"
    by (rule "3.IH"(1)) (use "3.prems" that in \<open>auto split: if_splits\<close>)
  moreover have "keeps_at kept (mseq (start_test env p o1 i1) (new_tests env p outs ins)) s" if "\<not> (?f1 \<or> ?f2)"
  proof (rule kp.keeps_seq)
    show "keeps_at kept (start_test env p o1 i1) s" using "3.prems" by (intro keeps_start_test) simp_all
    fix x s' assume "start_test env p o1 i1 s = (Inr x, s')"
    then have "stable s s'" using stable_start_test [of env p o1 i1 s] by (simp add: keeps_at_def)
    then show "keeps_at kept (new_tests env p outs ins) s'"
      using "3.prems" stable_member by (intro "3.IH"(2) [OF that]) auto
  qed
  ultimately show ?case by (simp, intro kp.keeps_bind kp.keeps_basic) (auto simp: mop_simps)
qed (simp_all add: kp.keeps_basic)

lemma keeps_TestTunnels: "keeps_at kept (TestTunnels env p) s"
proof -
  have tf: "keeps_at kept (mfor (test_failed p) xs) s'" for xs s'
    unfolding test_failed_def by (intro kp.keeps_all kp.keeps_prod kp.keeps_seq keeps_fail_tunnel)
  have nt: "keeps_at kept (new_tests env p (map snd (tp_OutboundTunnels pool)) (map snd (tp_InboundTunnels pool))) s'"
    if "ts_PoolHeap s' p = Some pool" for pool s'
  proof (rule keeps_given)
    assume inv: "tunnels_inv s'"
    have "member_ok s' b h" if "(k, h) \<in> set (pool_set b pool)" for b k h
      using pool_member [OF inv \<open>ts_PoolHeap s' p = Some pool\<close> that] by (auto simp: pooled_ok_def member_ok_def)
    from this [where b = True] this [where b = False] show ?thesis
      by (intro keeps_new_tests) (force simp: pool_set_def)+
  qed
  show ?thesis unfolding TestTunnels_def
    by (intro kp.keeps_intros tf nt keeps_update_pool) (auto simp: pool_inv_def tests_inv_def mop_simps)
qed

section \<open>Messages from the tunnels\<close>

lemma keeps_ProcessDeliveryStatus: "keeps_at kept (ProcessDeliveryStatus p msg) s"
proof -
  have r: "keeps_at kept (restore_tunnel t) s'" for t s'
    unfolding restore_tunnel_def by (intro kp.keeps_intros keeps_SetState(1)) simp_all
  have "pool_inv s' p (pool\<lparr>tp_Tests := std_erase k (tp_Tests pool)\<rparr>)" if "pool_inv s' p pool" for s' pool k
    using that set_std_erase [of k "tp_Tests pool"] by (auto simp: pool_inv_def tests_inv_def)
  then show ?thesis unfolding ProcessDeliveryStatus_def by (intro kp.keeps_intros r keeps_update_pool) auto
qed

lemma keeps_ProcessGarlicMessage: "keeps_at kept (ProcessGarlicMessage p msg) s"
  unfolding ProcessGarlicMessage_def by (intro kp.keeps_intros)

end
