(* ===== verification/Tunnel_Reachable.thy ===== *)
theory Tunnel_Reachable
  imports Tunnel_Invariant
begin

text \<open>
  The states the manager of the tunnels can reach. The message handlers ask the manager to act;
  only the reply to a build request decides about a pending tunnel. With this every round of
  the loop keeps the invariant, and the maintenance removes what has expired, unless the
  network database has no router to offer.
\<close>

section \<open>What the handlers may ask for\<close>

text \<open>
  All actions but those that decide about a pending tunnel; only the reply to its build request
  leads to those.
\<close>

definition plain_action :: "action \<Rightarrow> bool" where
  "plain_action a \<longleftrightarrow>
     (case a of SetTunnelEstablished _ \<Rightarrow> False | SetTunnelBuildFailed _ \<Rightarrow> False | AddInboundTunnel _ \<Rightarrow> False
      | AddOutboundTunnel _ \<Rightarrow> False | _ \<Rightarrow> True)"

definition plain :: "('a, action) steps \<Rightarrow> bool" where
  "plain m \<longleftrightarrow> (\<forall>x acts. m = Inr (x, acts) \<longrightarrow> (\<forall>a \<in> set acts. plain_action a))"

lemma plain_intros:
  "plain (pure_step x)" "plain (Inl e)" "plain (Inr (x, []))" "plain_action a \<Longrightarrow> plain (Inr (x, [a]))" "plain_action a \<Longrightarrow> plain (emit_step a x)"
  "(\<And>y. r = Inr y \<Longrightarrow> plain (f y)) \<Longrightarrow> plain (bind_result r f)"
  "plain m \<Longrightarrow> (\<And>y. plain (g y)) \<Longrightarrow> plain (bind_step m g)"
  by (auto simp: plain_def result_simps)

lemma plain_splits:
  "(b \<Longrightarrow> plain m) \<Longrightarrow> (\<not> b \<Longrightarrow> plain n) \<Longrightarrow> plain (if b then m else n)"
  "(x = None \<Longrightarrow> plain m) \<Longrightarrow> (\<And>y. x = Some y \<Longrightarrow> plain (h y)) \<Longrightarrow> plain (case x of None \<Rightarrow> m | Some y \<Rightarrow> h y)"
  "(\<And>a c. z = (a, c) \<Longrightarrow> plain (k a c)) \<Longrightarrow> plain (case z of (a, c) \<Rightarrow> k a c)"
  "plain (l w) \<Longrightarrow> plain (let v = w in l v)"
  by (auto split: option.splits prod.splits)

text \<open>A router without pending tunnels, as far as the handlers are told.\<close>

definition no_pending :: "RouterEnv \<Rightarrow> bool" where
  "no_pending env \<longleftrightarrow> (\<forall>k. e_pending_inbound env k = None \<and> e_pending_outbound env k = None)"

lemma forward_build_plain: "forward_build env rt ft buf len text transit = Inr acts \<Longrightarrow> \<forall>a \<in> set acts. plain_action a"
  by (auto simp: forward_build_def result_simps plain_action_def split: option.splits)

lemma raw_plain:
  assumes "no_pending env" and "HandleI2NPMessage_raw env msg = Inr acts"
  shows "\<forall>a \<in> set acts. plain_action a"
proof -
  have "HandleVariableTunnelBuildReplyMsg env k buf len = []" for k buf len
    using assms(1) by (simp add: HandleVariableTunnelBuildReplyMsg_def no_pending_def)
  moreover have "\<forall>a \<in> set as. plain_action a" if "HandleVariableTunnelBuildMsg env k buf len = Inr as" for k buf len as
    using assms(1) that forward_build_plain
    by (fastforce simp: HandleVariableTunnelBuildMsg_def no_pending_def result_simps split: if_splits)
  moreover have "\<forall>a \<in> set as. plain_action a" if "HandleTunnelBuildMsg env buf len = Inr as" for buf len as
    using that forward_build_plain by (fastforce simp: HandleTunnelBuildMsg_def result_simps split: if_splits)
  ultimately show ?thesis
    using assms(2) by (auto simp: HandleI2NPMessage_raw_def result_simps Let_def simp del: type_code.simps split: if_splits)
qed

lemma HandleI2NPMessage_plain:
  assumes "no_pending env" and "HandleI2NPMessage env msg = Inr acts"
  shows "\<forall>a \<in> set acts. plain_action a"
proof (cases msg)
  case None
  then show ?thesis using assms(2) by (simp add: HandleI2NPMessage_def)
next
  case (Some m)
  then show ?thesis using assms(2) raw_plain [OF assms(1)]
    by (auto simp: HandleI2NPMessage_def result_simps plain_action_def simp del: type_code.simps split: option.splits if_splits)
qed

lemma HandleNextMessage_plain: "no_pending env \<Longrightarrow> plain (HandleNextMessage env m ep)"
  by (cases "delivery_type m")
    (auto simp: HandleNextMessage_def result_simps plain_def plain_action_def dest: HandleI2NPMessage_plain split: if_splits)

lemma HandleOutOfSequenceFragment_plain: "no_pending env \<Longrightarrow> plain (HandleOutOfSequenceFragment env i m ep)"
  unfolding HandleOutOfSequenceFragment_def by (intro plain_intros plain_splits HandleNextMessage_plain)

lemma HandleFollowOnFragment_plain: "no_pending env \<Longrightarrow> plain (HandleFollowOnFragment env i l m ep)"
  unfolding HandleFollowOnFragment_def
  by (intro plain_intros plain_splits HandleNextMessage_plain HandleOutOfSequenceFragment_plain)

lemma handle_block_plain: "no_pending env \<Longrightarrow> plain (handle_block env m i l n f ep)"
  unfolding handle_block_def
  by (intro plain_intros plain_splits HandleNextMessage_plain HandleOutOfSequenceFragment_plain HandleFollowOnFragment_plain)

lemma handle_fragments_plain: "no_pending env \<Longrightarrow> plain (handle_fragments env e p msg ep)"
proof (induction env e p msg ep rule: handle_fragments.induct)
  case (1 env e p msg ep)
  show ?case by (subst handle_fragments.simps, intro plain_intros plain_splits handle_block_plain 1) auto
qed

lemma HandleDecrypted_plain: "no_pending env \<Longrightarrow> plain (HandleDecryptedTunnelDataMsg env msg ep)"
  unfolding HandleDecryptedTunnelDataMsg_def by (intro plain_intros plain_splits handle_fragments_plain)

lemma data_plain:
  "no_pending env \<Longrightarrow> plain (InboundTunnel_HandleTunnelDataMsg benv env h msg t)"
  "no_pending (x_router tenv) \<Longrightarrow> plain (Transit_HandleTunnelDataMsg tenv msg x)"
  "plain (Transit_FlushTunnelDataMsgs tenv x)"
proof -
  show "no_pending env \<Longrightarrow> plain (InboundTunnel_HandleTunnelDataMsg benv env h msg t)"
    unfolding InboundTunnel_HandleTunnelDataMsg_def by (intro plain_intros plain_splits HandleDecrypted_plain)
  show "no_pending (x_router tenv) \<Longrightarrow> plain (Transit_HandleTunnelDataMsg tenv msg x)"
    by (cases x) (auto simp: Endpoint_HandleTunnelDataMsg_def intro!: plain_intros HandleDecrypted_plain)
  show "plain (Transit_FlushTunnelDataMsgs tenv x)"
    by (cases x) (auto simp: Participant_FlushTunnelDataMsgs_def Gateway_FlushTunnelDataMsgs_def plain_action_def Let_def
        intro!: plain_intros split: prod.splits)
qed

section \<open>The operations of the manager\<close>

lemma inv_transit:
  assumes "tunnels_inv s \<Longrightarrow> std_inv m \<and> (\<forall>(k, x) \<in> set m. x_TunnelID (transit_base x) = k)"
  shows "kept s (s\<lparr>m_TransitTunnels := m\<rparr>)"
  using assms by (auto simp: kept_def tunnels_inv_def part_defs ok_defs)

lemma inv_inbound:
  assumes "tunnels_inv s \<Longrightarrow> std_inv m \<and> (\<forall>(k, h) \<in> set m. inbound_ok s k h)"
  shows "kept s (s\<lparr>m_InboundTunnels := m\<rparr>)"
  unfolding kept_def
proof
  assume inv: "tunnels_inv s"
  have "inbound_ok (s\<lparr>m_InboundTunnels := m\<rparr>) = inbound_ok s" by (simp add: inbound_ok_def fun_eq_iff)
  then have "lists_inv (s\<lparr>m_InboundTunnels := m\<rparr>)" using assms [OF inv] inv by (simp add: tunnels_inv_def lists_inv_def member_ok_def)
  then show "tunnels_inv (s\<lparr>m_InboundTunnels := m\<rparr>)" using inv
    by (simp add: tunnels_inv_def store_inv_def pending_inv_def pending_def transit_inv_def pools_inv_def pool_inv_def set_inv_def tests_inv_def ok_defs)
qed

lemma transit_parts: "tunnels_inv s \<Longrightarrow> std_inv (m_TransitTunnels s) \<and> (\<forall>(k, x) \<in> set (m_TransitTunnels s). x_TunnelID (transit_base x) = k)"
  by (simp add: tunnels_inv_def transit_inv_def)

lemma keeps_AddTransitTunnel: "keeps_at kept (Tunnels_AddTransitTunnel x) s"
  unfolding Tunnels_AddTransitTunnel_def
proof (intro kp.keeps_modify inv_transit)
  assume "tunnels_inv s"
  then show "std_inv (std_insert (x_TunnelID (transit_base x)) x (m_TransitTunnels s)) \<and>
      (\<forall>(k, y) \<in> set (std_insert (x_TunnelID (transit_base x)) x (m_TransitTunnels s)). x_TunnelID (transit_base y) = k)"
    using transit_parts [of s] set_std_insert [of "x_TunnelID (transit_base x)" x "m_TransitTunnels s"] by auto
qed

lemma keeps_put_transit: "x_TunnelID (transit_base x) = tid \<Longrightarrow> keeps_at kept (put_transit tid x) s"
  unfolding put_transit_def
proof (intro kp.keeps_modify inv_transit)
  assume "x_TunnelID (transit_base x) = tid" "tunnels_inv s"
  then show "std_inv (std_assign tid x (m_TransitTunnels s)) \<and> (\<forall>(k, y) \<in> set (std_assign tid x (m_TransitTunnels s)). x_TunnelID (transit_base y) = k)"
    using transit_parts [of s] set_std_assign [of tid x "m_TransitTunnels s"] by auto
qed

lemma get_transit_eq [mop_simps]: "get_transit tid s = (Inr x, s') \<longleftrightarrow> std_find tid (m_TransitTunnels s) = Some x \<and> s' = s"
  by (auto simp: get_transit_def GetTransitTunnel_def split: option.splits)

lemma keeps_get_transit: "keeps_at kept (get_transit tid) s"
  by (simp add: keeps_at_def get_transit_def kp.R_refl split: option.splits)

lemma transit_found: "tunnels_inv s \<Longrightarrow> std_find tid (m_TransitTunnels s) = Some x \<Longrightarrow> x_TunnelID (transit_base x) = tid"
  using transit_parts [of s] std_find_mem [of "m_TransitTunnels s" tid x] by auto

lemma transit_bases:
  "Transit_HandleTunnelDataMsg env msg x = Inr (x', acts) \<Longrightarrow> transit_base x' = transit_base x"
  "Transit_FlushTunnelDataMsgs env x = Inr (x', acts) \<Longrightarrow> transit_base x' = transit_base x"
  "Transit_SendTunnelDataMsg env msg x = Inr x' \<Longrightarrow> transit_base x' = transit_base x"
  by (cases x; auto simp: result_simps Participant_HandleTunnelDataMsg_def Endpoint_HandleTunnelDataMsg_def Participant_FlushTunnelDataMsgs_def
      Gateway_FlushTunnelDataMsgs_def Gateway_SendTunnelDataMsg_def Let_def split: if_splits prod.splits)+

lemma inv_new_pool:
  assumes "m = m_Pools s @ [ts_Next s]"
  shows "kept s (s\<lparr>ts_PoolHeap := (ts_PoolHeap s)(ts_Next s \<mapsto> TunnelPool_new d a b c e), ts_Next := Suc (ts_Next s), m_Pools := m\<rparr>)"
  unfolding kept_def
proof
  assume inv: "tunnels_inv s"
  let ?s = "s\<lparr>ts_PoolHeap := (ts_PoolHeap s)(ts_Next s \<mapsto> TunnelPool_new d a b c e), ts_Next := Suc (ts_Next s), m_Pools := m\<rparr>"
  have "grown s ?s" by (auto simp: grown_def)
  note g = grown_pool [OF this]
  have "pool_inv ?s (ts_Next s) (TunnelPool_new d a b c e)" by (simp add: pool_inv_def set_inv_def tests_inv_def TunnelPool_new_def)
  then have "pools_inv ?s" using inv g assms by (auto simp: tunnels_inv_def pools_inv_def)
  moreover have "store_inv ?s" using inv by (auto simp: tunnels_inv_def store_inv_def)
  moreover have "pending_inv ?s b" for b using inv by (cases b) (simp_all add: tunnels_inv_def pending_inv_def pending_ok_def pending_def)
  moreover have "lists_inv ?s" using inv by (simp add: tunnels_inv_def lists_inv_def ok_defs)
  moreover have "transit_inv ?s" using inv by (simp add: tunnels_inv_def transit_inv_def)
  ultimately show "tunnels_inv ?s" by (simp add: tunnels_inv_def)
qed

lemma keeps_CreateTunnelPool: "keeps_at kept (CreateTunnelPool d a b c e) s"
  unfolding CreateTunnelPool_def by (intro kp.keeps_intros kp.keeps_modify) (auto simp: mop_simps inv_new_pool)

lemma CreateTunnelPool_post: "CreateTunnelPool d a b c e s = (Inr p, s') \<Longrightarrow> ts_PoolHeap s' p \<noteq> None"
  by (auto simp: CreateTunnelPool_def mop_simps)

lemma keeps_StopTunnelPool: "keeps_at kept (StopTunnelPool p) s"
  unfolding StopTunnelPool_def
  by (intro kp.keeps_intros keeps_DetachTunnels keeps_update_pool) (simp add: pool_inv_def)

lemma keeps_DeleteTunnelPool: "keeps_at kept (DeleteTunnelPool p) s"
proof -
  have "kept s' (s'\<lparr>m_Pools := filter q (m_Pools s')\<rparr>)" for s' q
    by (auto simp: kept_def tunnels_inv_def part_defs ok_defs)
  then show ?thesis unfolding DeleteTunnelPool_def by (intro kp.keeps_intros keeps_StopTunnelPool kp.keeps_modify)
qed

text \<open>A tunnel that has just been established: it is in no pool yet.\<close>

definition unpooled :: "Tunnels \<Rightarrow> nat \<Rightarrow> bool" where
  "unpooled s h \<longleftrightarrow> (\<forall>p pool inbound k. ts_PoolHeap s p = Some pool \<longrightarrow> (k, h) \<notin> set (pool_set inbound pool))"

lemma keeps_forget_pool:
  assumes "unpooled s h"
  shows "keeps_at kept (SetTunnelPool h None) s"
proof (rule keeps_given)
  assume inv: "tunnels_inv s"
  show ?thesis
  proof (cases "ts_Heap s h")
    case None
    then show ?thesis by (simp add: SetTunnelPool_def update_base_def keeps_at_def mbind_def get_tunnel_def kp.R_refl)
  next
    case (Some x)
    have "tunnels_inv ((cleared {h} s)\<lparr>ts_PoolHeap := ts_PoolHeap s\<rparr>)"
      by (rule inv_cleared [OF inv refl]) (use assms pool_get_inv [OF inv] in \<open>auto simp: unpooled_def\<close>)
    then show ?thesis using Some by (simp add: SetTunnelPool_None keeps_at_def kept_def cleared_def)
  qed
qed

lemma keeps_join_pool:
  assumes "ts_Heap s h = Some x" and "is_inbound x = inbound" and "live (tn_State (base_tunnel x))" and "tn_Pool (base_tunnel x) = Some p"
    and "unpooled s h"
  shows "keeps_at kept (join_pool inbound p h) s"
  unfolding join_pool_def using assms
  by (intro kp.keeps_intros keeps_TunnelCreated keeps_forget_pool) (auto simp: mop_simps)

lemma keeps_AddOutboundTunnel:
  assumes "ts_Heap s h = Some x" and "\<not> is_inbound x" and "live (tn_State (base_tunnel x))" and "unlisted s h"
  shows "keeps_at kept (Tunnels_AddOutboundTunnel h) s"
proof -
  have "kept s (s\<lparr>m_OutboundTunnels := m_OutboundTunnels s @ [h]\<rparr>)"
    using assms by (auto simp: kept_def tunnels_inv_def part_defs ok_defs unlisted_def)
  moreover have "unpooled (s\<lparr>m_OutboundTunnels := m_OutboundTunnels s @ [h]\<rparr>) h"
    using assms(4) unfolding unlisted_def unpooled_def by simp
  ultimately show ?thesis unfolding Tunnels_AddOutboundTunnel_def using assms(1,2,3)
    by (intro kp.keeps_intros kp.keeps_modify keeps_forget_pool keeps_join_pool) (auto simp: mop_simps)
qed

lemma keeps_AddInboundTunnel:
  assumes "ts_Heap s h = Some x" and "is_inbound x" and "live (tn_State (base_tunnel x))" and "unlisted s h"
  shows "keeps_at kept (Tunnels_AddInboundTunnel env h) s"
proof -
  let ?s = "\<lambda>tid. s\<lparr>m_InboundTunnels := std_assign tid h (m_InboundTunnels s)\<rparr>"
  have k: "kept s (?s tid)" if "tunnel_id x = Inr tid" for tid
  proof (rule inv_inbound)
    assume inv: "tunnels_inv s"
    have "inbound_ok s tid h" using assms that by (simp add: inbound_ok_def)
    then show "std_inv (std_assign tid h (m_InboundTunnels s)) \<and> (\<forall>(k, g) \<in> set (std_assign tid h (m_InboundTunnels s)). inbound_ok s k g)"
      using inv set_std_assign [of tid h "m_InboundTunnels s"] by (auto simp: tunnels_inv_def lists_inv_def)
  qed
  have u: "unpooled (?s tid) h" for tid using assms(4) unfolding unlisted_def unpooled_def by simp
  show ?thesis unfolding Tunnels_AddInboundTunnel_def using assms
    by (intro kp.keeps_intros kp.keeps_modify keeps_configs keeps_GetNextOutbound keeps_CreateTunnel keeps_join_pool)
      (auto simp: mop_simps tunnel_id_def intro: k u)
qed

lemma keeps_perform_plain: "plain_action a \<Longrightarrow> keeps_at kept (perform_action env a) s"
  unfolding perform_action_def Tunnels_PostTunnelData_def
  by (cases a) (auto simp: plain_action_def intro!: kp.keeps_intros kp.keeps_modify keeps_AddTransitTunnel keeps_ProcessGarlicMessage
      keeps_ProcessDeliveryStatus kept_modify_fields)

lemma keeps_perform_all: "\<forall>a \<in> set acts. plain_action a \<Longrightarrow> keeps_at kept (mfor (perform_action env) acts) s"
  by (rule kp.keeps_all) (simp add: keeps_perform_plain)

section \<open>Replies to build requests\<close>

lemma Response_base:
  assumes "HandleTunnelBuildResponse env buf t = Inr ((est, buf', t'), codes)"
  shows "tn_Pool t' = tn_Pool t" "tn_CreationTime t' = tn_CreationTime t" "tn_State t' = (if est then TunnelStateEstablished else tn_State t)"
  using assms by (auto simp: HandleTunnelBuildResponse_def Let_def result_simps split: if_splits)

lemma log_all_state: "mfor (\<lambda>e. mlog (g e)) es s = (Inr u, s') \<Longrightarrow> \<exists>l. s' = s\<lparr>ts_Log := l\<rparr>"
proof (induction es arbitrary: s)
  case Nil
  then show ?case by (auto simp: mop_simps intro: exI [of _ "ts_Log s"])
next
  case (Cons e es)
  from Cons.prems obtain s1 where "mlog (g e) s = (Inr (), s1)" "mfor (\<lambda>e. mlog (g e)) es s1 = (Inr u, s')" by (auto simp: mop_simps)
  with Cons.IH [of s1] show ?case by (auto simp: mlog_def mop_simps)
qed

lemma Response_at:
  assumes x: "ts_Heap s h = Some x" "\<not> live (tn_State (base_tunnel x))"
  shows "keeps_at kept (HandleTunnelBuildResponse_at env h buf) s"
    and "tunnels_inv s \<Longrightarrow> HandleTunnelBuildResponse_at env h buf s = (Inr est, s') \<Longrightarrow>
      unlisted s' h \<and> (\<exists>x'. ts_Heap s' h = Some x' \<and> is_inbound x' = is_inbound x \<and> (\<not> est \<longrightarrow> \<not> live (tn_State (base_tunnel x'))))"
proof -
  show "keeps_at kept (HandleTunnelBuildResponse_at env h buf) s"
    unfolding HandleTunnelBuildResponse_at_def using x
    by (intro kp.keeps_intros) (auto simp: mop_simps similar_def Response_base intro!: kp.keeps_intros keeps_update_base kp.keeps_all)
  assume inv: "tunnels_inv s" and "HandleTunnelBuildResponse_at env h buf s = (Inr est, s')"
  then obtain n buf' t' codes s1 where r: "HandleTunnelBuildResponse (v_build env n) buf (base_tunnel x) = Inr ((est, buf', t'), codes)"
    and l: "mfor (\<lambda>(r, ret). mlog (TunnelBuildResponse r ret)) codes
        (s\<lparr>ts_Draws := Suc n, ts_Heap := (ts_Heap s)(h \<mapsto> map_base (\<lambda>_. t') x)\<rparr>) = (Inr (), s')"
    using x(1) by (auto simp: HandleTunnelBuildResponse_at_def mop_simps)
  from l obtain l' where "s' = s\<lparr>ts_Draws := Suc n, ts_Heap := (ts_Heap s)(h \<mapsto> map_base (\<lambda>_. t') x), ts_Log := l'\<rparr>"
    unfolding split_beta using log_all_state [of "\<lambda>e. TunnelBuildResponse (fst e) (snd e)" codes] by blast
  then show "unlisted s' h \<and> (\<exists>x'. ts_Heap s' h = Some x' \<and> is_inbound x' = is_inbound x \<and> (\<not> est \<longrightarrow> \<not> live (tn_State (base_tunnel x'))))"
    using not_live_unlisted [OF inv x] x(2) Response_base(3) [OF r] by (simp add: unlisted_def)
qed

lemma unlisted_SetState: "SetState h st s = (Inr u, s') \<Longrightarrow> unlisted s g \<Longrightarrow> unlisted s' g"
  by (auto simp: SetState_def mop_simps unlisted_def)

text \<open>What the handlers ask for when the message is the reply to the request of \<open>h\<close>.\<close>

definition decision :: "bool \<Rightarrow> bool \<Rightarrow> nat \<Rightarrow> action list" where
  "decision inbound est h =
     (if est then [SetTunnelEstablished h, if inbound then AddInboundTunnel h else AddOutboundTunnel h] else [SetTunnelBuildFailed h])"

lemma keeps_decision:
  assumes x: "ts_Heap s h = Some x" "is_inbound x = inbound" and "\<not> est \<Longrightarrow> \<not> live (tn_State (base_tunnel x))" and "unlisted s h"
  shows "keeps_at kept (mfor (perform_action env) (decision inbound est h)) s"
proof (cases est)
  case False
  then show ?thesis using assms by (auto simp: decision_def perform_action_def intro!: kp.keeps_intros keeps_SetState(2))
next
  case True
  have "keeps_at kept (perform_action env (if inbound then AddInboundTunnel h else AddOutboundTunnel h)) s'"
    if s': "SetState h TunnelStateEstablished s = (Inr u, s')" for u s'
  proof -
    have "ts_Heap s' h = Some (map_base (\<lambda>t. t\<lparr>tn_State := TunnelStateEstablished\<rparr>) x)"
      using s' x by (auto simp: SetState_def mop_simps)
    then show ?thesis using unlisted_SetState [OF s' assms(4)] x(2)
      by (cases inbound) (auto simp: perform_action_def intro: keeps_AddInboundTunnel keeps_AddOutboundTunnel)
  qed
  then show ?thesis using True
    by (auto simp: decision_def perform_action_def intro!: kp.keeps_intros keeps_SetState(1))
qed

lemma raw_decision:
  assumes "HandleI2NPMessage_raw (router_env env n (Some h) est s) buf = Inr acts" and "peek 0 buf = Inr type_ID"
  shows "type_ID = type_code I2NPVariableTunnelBuild \<Longrightarrow> acts = decision True est h"
    and "type_ID = type_code I2NPVariableTunnelBuildReply \<Longrightarrow> acts = decision False est h"
  using assms
  by (auto simp: HandleI2NPMessage_raw_def HandleVariableTunnelBuildMsg_def HandleVariableTunnelBuildReplyMsg_def router_env_def result_simps
      decision_def Let_def split: if_splits)

lemma keeps_pending_for: "keeps_at kept (pending_for t k) s"
  unfolding pending_for_def by (intro kp.keeps_intros keeps_GetPendingTunnel)

lemma pending_for_post:
  assumes "pending_for type_ID k s = (Inr (Some h), s')" and "tunnels_inv s"
  obtains inbound x where "type_ID = type_code (if inbound then I2NPVariableTunnelBuild else I2NPVariableTunnelBuildReply)"
    and "tunnels_inv s'" and "ts_Heap s' h = Some x" and "is_inbound x = inbound" and "\<not> live (tn_State (base_tunnel x))"
proof -
  define inbound where "inbound = (type_ID = type_code I2NPVariableTunnelBuild)"
  have "type_ID = type_code (if inbound then I2NPVariableTunnelBuild else I2NPVariableTunnelBuildReply)"
    "GetPendingTunnel inbound k s = (Inr (Some h), s')"
    using assms(1) by (auto simp: inbound_def pending_for_def mop_simps split: if_splits)
  with GetPendingTunnel_post [OF _ assms(2)] that show ?thesis by force
qed

lemma no_pending_router_env: "no_pending (router_env env n None est s)"
  by (simp add: no_pending_def router_env_def)

lemma keeps_handle_build_message: "keeps_at kept (handle_build_message env msg) s"
proof (rule keeps_given)
  assume inv: "tunnels_inv s"
  let ?buf = "drop (GetBuffer msg) (msg_buf msg)"
  show ?thesis unfolding handle_build_message_def Let_def
  proof (rule kp.keeps_bind [OF kp.keeps_basic(3)], rule kp.keeps_bind [OF kp.keeps_basic(3)], rule kp.keeps_bind [OF kp.keeps_basic(3)],
      rule kp.keeps_bind [OF keeps_pending_for], goal_cases)
    case (1 type_ID s0 msg_ID s1 u s1' found s2)
    then have t: "peek 0 ?buf = Inr type_ID" and f: "pending_for type_ID msg_ID s = (Inr found, s2)" by (auto simp: mop_simps)
    show ?case
    proof (cases found)
      case None
      then show ?thesis
        by (simp, intro kp.keeps_intros keeps_perform_all) (auto simp: mop_simps dest!: raw_plain [OF no_pending_router_env])
    next
      case (Some h)
      from pending_for_post [OF f [unfolded Some] inv] obtain inbound x
        where ty: "type_ID = type_code (if inbound then I2NPVariableTunnelBuild else I2NPVariableTunnelBuildReply)"
          and x: "tunnels_inv s2" "ts_Heap s2 h = Some x" "is_inbound x = inbound" "\<not> live (tn_State (base_tunnel x))" .
      note r = Response_at [OF x(2,4)]
      show ?thesis unfolding Some option.case
      proof (rule kp.keeps_bind [OF r(1)], rule kp.keeps_bind [OF kp.keeps_basic(5)], rule kp.keeps_bind [OF kp.keeps_basic(4)],
          rule kp.keeps_bind [OF kp.keeps_basic(3)], goal_cases)
        case (1 est s3 n s4 renv s5 acts s6)
        then have "acts = decision inbound est h" using raw_decision [OF _ t, of env n h est s4] ty by (cases inbound) (auto simp: mop_simps)
        moreover have "unlisted s6 h \<and> (\<exists>x'. ts_Heap s6 h = Some x' \<and> is_inbound x' = inbound \<and> (\<not> est \<longrightarrow> \<not> live (tn_State (base_tunnel x'))))"
          using r(2) [OF x(1)] 1 x(3) by (auto simp: mop_simps unlisted_def)
        ultimately show ?case using keeps_decision by blast
      qed
    qed
  qed
qed

section \<open>The loop\<close>

lemma plainD: "plain m \<Longrightarrow> m = Inr (x, acts) \<Longrightarrow> \<forall>a \<in> set acts. plain_action a"
  by (simp add: plain_def)


lemma keeps_FlushTunnelDataMsgs: "keeps_at kept (FlushTunnelDataMsgs env ref) s"
proof (rule keeps_given)
  assume inv: "tunnels_inv s"
  show ?thesis
  proof (cases ref)
    case (RefTransit tid)
    show ?thesis unfolding FlushTunnelDataMsgs_def RefTransit TunnelRef.case
      by (intro kp.keeps_intros keeps_get_transit keeps_put_transit keeps_perform_all)
        (auto simp: mop_simps transit_found [OF inv] transit_bases(2) dest: plainD [OF data_plain(3)])
  qed (simp add: FlushTunnelDataMsgs_def kp.keeps_basic)
qed

lemma keeps_HandleTunnelDataMsg: "keeps_at kept (HandleTunnelDataMsg env ref msg) s"
proof (rule keeps_given)
  assume inv: "tunnels_inv s"
  show ?thesis
  proof (cases ref)
    case (RefInbound h)
    have "similar (AnInboundTunnel t) (AnInboundTunnel t')" if "InboundTunnel_HandleTunnelDataMsg benv renv h msg t = Inr (t', acts)" for benv renv t t' acts
      using that by (auto simp: InboundTunnel_HandleTunnelDataMsg_def result_simps Let_def similar_def tunnel_id_def InboundTunnel_GetTunnelID_def)
    then show ?thesis unfolding HandleTunnelDataMsg_def RefInbound TunnelRef.case
      by (intro kp.keeps_intros keeps_put keeps_perform_all)
        (auto simp: mop_simps dest: plainD [OF data_plain(1) [OF no_pending_router_env]])
  next
    case (RefTransit tid)
    show ?thesis unfolding HandleTunnelDataMsg_def RefTransit TunnelRef.case
      by (intro kp.keeps_intros keeps_get_transit keeps_put_transit keeps_perform_all)
        (auto simp: mop_simps transit_found [OF inv] transit_bases(1) no_pending_router_env dest: plainD [OF data_plain(2), rotated])
  qed
qed

lemma keeps_HandleTunnelGatewayMsg: "keeps_at kept (HandleTunnelGatewayMsg env ref msg) s"
proof (rule keeps_given)
  assume inv: "tunnels_inv s"
  have "keeps_at kept (case ref' of RefInbound h \<Rightarrow> mret () | RefTransit tid \<Rightarrow>
      mbind (get_transit tid) (\<lambda>x. mbind mdraw (\<lambda>n. mbind (mlift (Transit_SendTunnelDataMsg (v_transit env n) m x)) (put_transit tid)))) s'"
    if "tunnels_inv s'" for ref' m s'
    by (cases ref'; simp; intro kp.keeps_intros keeps_get_transit keeps_put_transit)
      (auto simp: mop_simps transit_found [OF that] transit_bases(3))
  moreover have "tunnels_inv s'" if "mwhen b (mlog e) s = (Inr u, s')" for b e u s'
    using that kp.keeps_when [of b "mlog e" s, OF kp.keeps_basic(6)] inv by (simp add: keeps_at_def kept_def)
  ultimately show ?thesis unfolding HandleTunnelGatewayMsg_def
    by (intro kp.keeps_intros) (auto simp: mop_simps)
qed

lemma keeps_Run_message: "keeps_at kept (Run_message env msg tid prev) s"
  unfolding Run_message_def
  by (intro kp.keeps_intros keeps_FlushTunnelDataMsgs keeps_HandleTunnelDataMsg keeps_HandleTunnelGatewayMsg keeps_handle_build_message)

lemma keeps_Queue_Get: "keeps_at kept Queue_Get s"
  by (simp add: keeps_at_def Queue_Get_def kp.R_refl kept_modify_fields split: list.splits)

lemma keeps_Run_messages: "keeps_at kept (Run_messages fuel env msg tid prev) s"
  by (induction fuel arbitrary: msg tid prev s)
    (auto intro!: kp.keeps_intros keeps_Run_message keeps_Queue_Get keeps_FlushTunnelDataMsgs split: prod.splits)

section \<open>Maintenance\<close>

lemma keeps_erase_pending: "keeps_at kept (erase_pending inbound k) s"
  unfolding erase_pending_def
proof (intro kp.keeps_modify inv_pending)
  assume "tunnels_inv s"
  then have "pending_inv s inbound" by (cases inbound) (simp_all add: tunnels_inv_def)
  then show "std_inv (std_erase k (pending inbound s)) \<and> (\<forall>(k, h) \<in> set (std_erase k (pending inbound s)). pending_ok s inbound h)"
    using set_std_erase [of k "pending inbound s"] by (auto simp: pending_inv_def)
qed

lemma keeps_counters: "keeps_at kept count_failed s" "keeps_at kept count_successive s"
  unfolding count_failed_def count_successive_def by (intro kp.keeps_modify kept_modify_fields)+

lemma keeps_manage_pending: "keeps_at kept (manage_pending env inbound entry) s"
proof -
  have "keeps_at kept (case st of
        TunnelStatePending \<Rightarrow> mwhen b (mseq (mfor (\<lambda>hop. mlog (g hop)) hops) (mseq (erase_pending inbound k) count_failed))
      | TunnelStateBuildFailed \<Rightarrow> mseq (erase_pending inbound k) count_failed | TunnelStateBuildReplyReceived \<Rightarrow> mret ()
      | _ \<Rightarrow> mseq (erase_pending inbound k) count_successive) s'" for st b g k s' and hops :: "TunnelHopConfig list"
    by (cases st; simp; intro kp.keeps_intros kp.keeps_all keeps_erase_pending keeps_counters)
  then show ?thesis unfolding manage_pending_def by (intro kp.keeps_intros)
qed

lemma keeps_ManagePendingTunnels: "keeps_at kept (ManagePendingTunnels env) s"
  unfolding ManagePendingTunnels_def ManagePendingTunnels_of_def by (intro kp.keeps_intros kp.keeps_all keeps_manage_pending)

lemma keeps_remove_tunnel: "keeps_at kept (remove_tunnel inbound k h) s"
proof -
  have "kept s (s\<lparr>m_InboundTunnels := std_erase k (m_InboundTunnels s)\<rparr>)"
    using set_std_erase [of k "m_InboundTunnels s"] by (intro inv_inbound) (auto simp: tunnels_inv_def lists_inv_def)
  moreover have "kept s (s\<lparr>m_OutboundTunnels := remove1 h (m_OutboundTunnels s)\<rparr>)"
    by (auto simp: kept_def tunnels_inv_def part_defs ok_defs dest: notin_set_remove1 in_set_remove1 set_remove1_subset [THEN subsetD])
  ultimately show ?thesis unfolding remove_tunnel_def by (intro kp.keeps_modify) simp
qed

text \<open>The pool of a tunnel exists, also after the tunnel has been marked.\<close>

lemma pool_exists: "tunnels_inv s \<Longrightarrow> ts_Heap s h = Some x \<Longrightarrow> tn_Pool (base_tunnel x) = Some p \<Longrightarrow> ts_PoolHeap s p \<noteq> None"
  by (fastforce simp: tunnels_inv_def store_inv_def)

lemma keeps_manage_tunnel:
  assumes "pending_ok s inbound h"
  shows "keeps_at kept (manage_tunnel env inbound (k, h)) s"
proof (rule keeps_given)
  assume inv: "tunnels_inv s"
  obtain x where x: "ts_Heap s h = Some x" "is_inbound x = inbound" using assms by (auto simp: pending_ok_def)
  have re: "keeps_at kept (if inbound then RecreateInboundTunnel env p h else RecreateOutboundTunnel env p h) s'"
    if "tn_Pool (base_tunnel x) = Some p" "SetIsRecreated h s = (Inr u, s')" for p u s'
  proof -
    have "ts_PoolHeap s' = ts_PoolHeap s" using that(2) by (auto simp: SetIsRecreated_def mop_simps)
    then show ?thesis using pool_exists [OF inv x(1) that(1)] keeps_create by simp
  qed
  show ?thesis unfolding manage_tunnel_def
    by (simp, intro kp.keeps_intros keeps_remove_tunnel keeps_SetIsRecreated keeps_SetState(1) live_states keeps_TunnelExpired [OF x]
        keeps_TunnelExpired)
      (use x re in \<open>auto simp: mop_simps intro: keeps_TunnelExpired\<close>)
qed

section \<open>What maintenance leaves alone\<close>

text \<open>
  A relation that holds when tunnels change but stay, when pools change, when pending tunnels
  change, and when objects are added. All operations of the store and the pools keep it.
\<close>

definition fresh :: "Tunnels \<Rightarrow> bool" where
  "fresh s \<longleftrightarrow> (\<forall>h \<ge> ts_Next s. ts_Heap s h = None \<and> ts_PoolHeap s h = None)"

definition same_kind :: "AnyTunnel \<Rightarrow> AnyTunnel \<Rightarrow> bool" where
  "same_kind x x' \<longleftrightarrow> is_inbound x' = is_inbound x \<and> tn_CreationTime (base_tunnel x') = tn_CreationTime (base_tunnel x)"

locale store_relation = choice_relation +
  assumes R_put: "ts_Heap s h = Some x \<Longrightarrow> same_kind x x' \<Longrightarrow> R s (s\<lparr>ts_Heap := (ts_Heap s)(h \<mapsto> x')\<rparr>)"
    and R_pool: "ts_PoolHeap s p = Some pool \<Longrightarrow> R s (s\<lparr>ts_PoolHeap := (ts_PoolHeap s)(p \<mapsto> pool')\<rparr>)"
    and R_pending: "R s (set_pending inbound m s)"
    and R_new: "R s (s\<lparr>ts_Heap := (ts_Heap s)(ts_Next s \<mapsto> x), ts_Next := Suc (ts_Next s)\<rparr>)"
begin

lemma R_put_tunnel: "ts_Heap s h = Some x \<Longrightarrow> same_kind x x' \<Longrightarrow> keeps_at R (put_tunnel h x') s"
  by (simp add: put_tunnel_def keeps_modify R_put)

lemma R_update_base:
  "(\<And>x. ts_Heap s h = Some x \<Longrightarrow> tn_CreationTime (f (base_tunnel x)) = tn_CreationTime (base_tunnel x)) \<Longrightarrow> keeps_at R (update_base h f) s"
  unfolding update_base_def by (intro keeps_intros R_put_tunnel) (auto simp: mop_simps same_kind_def)

lemma R_setters: "keeps_at R (SetState h st) s" "keeps_at R (SetTunnelPool h p) s" "keeps_at R (SetIsRecreated h) s"
  unfolding SetState_def SetTunnelPool_def SetIsRecreated_def by (intro R_update_base; simp)+

lemma R_update_pool: "keeps_at R (update_pool p f) s"
  unfolding update_pool_def by (intro keeps_intros keeps_modify) (auto simp: mop_simps intro: R_pool)

lemma R_send_through: "keeps_at R (send_through env h gh gt msg) s"
  unfolding send_through_def
  by (intro keeps_intros keeps_all R_put_tunnel) (auto simp: mop_simps same_kind_def dest: Outbound_send_base)

lemma R_CreateTunnel: "keeps_at R (CreateTunnel env inbound config o1) s"
proof -
  have p: "keeps_at R (perform_build env act) s" for act s
    unfolding perform_build_def by (cases act) (simp_all add: keeps_basic R_send_through)
  have "keeps_at R (Tunnel_Build_at env k o1 h) s" for k h s
    unfolding Tunnel_Build_at_def by (intro keeps_intros p R_update_base) (auto simp: mop_simps dest: Build_base)
  moreover have "keeps_at R (new_tunnel env inbound config) s" for s
    unfolding new_tunnel_def by (intro keeps_intros keeps_modify) (auto simp: mop_simps R_new)
  ultimately show ?thesis unfolding CreateTunnel_def AddPendingTunnel_def by (intro keeps_intros keeps_modify R_pending)
qed

lemma R_configs:
  "keeps_at R (new_config env rs reply) s" "keeps_at R (invert_config env c) s" "keeps_at R (clone_config env reply c) s" "keeps_at R (config_of h) s"
  unfolding new_config_def invert_config_def clone_config_def config_of_def by (intro keeps_intros)+

lemma R_create:
  "keeps_at R (CreateInboundTunnel env p) s" "keeps_at R (CreateOutboundTunnel env p) s"
  "keeps_at R (RecreateInboundTunnel env p h) s" "keeps_at R (RecreateOutboundTunnel env p h) s"
  unfolding CreateInboundTunnel_def CreateOutboundTunnel_def RecreateInboundTunnel_def RecreateOutboundTunnel_def create_in_pool_def
  by (intro keeps_intros keeps_replies keeps_SelectPeers R_configs R_CreateTunnel R_setters)+

lemma R_erase: "keeps_at R (erase_from_pool inbound p h) s" "keeps_at R (TunnelExpired inbound p h) s"
  unfolding TunnelExpired_def erase_from_pool_def by (intro keeps_intros R_setters R_update_pool)+

lemma R_lease: "keeps_at R (lease_set_updated p) s"
  unfolding lease_set_updated_def by (intro keeps_intros)

lemma R_new_tests: "keeps_at R (new_tests env p outs ins) s"
proof (induction env p outs ins arbitrary: s rule: new_tests.induct)
  case (3 env p o1 outs i1 ins)
  have "keeps_at R (start_test env p o1 i1) s" for s
    unfolding start_test_def by (intro keeps_intros R_update_pool R_send_through)
  then show ?case by (simp only: new_tests.simps, intro keeps_intros 3)
qed (simp_all add: keeps_basic)

lemma R_manage_pool: "keeps_at R (manage_pool env p) s"
proof -
  have "keeps_at R (CreateTunnels env p) s" for s
    unfolding CreateTunnels_def missing_tunnels_def by (intro keeps_intros keeps_all R_create)
  moreover have "keeps_at R (fail_tunnel b p t) s" for b t s
    unfolding fail_tunnel_def by (intro keeps_intros R_setters R_erase R_lease)
  then have "keeps_at R (TestTunnels env p) s" for s
    unfolding TestTunnels_def test_failed_def by (intro keeps_intros keeps_all R_update_pool R_new_tests)
  ultimately show ?thesis unfolding manage_pool_def by (intro keeps_intros)
qed

lemma R_manage_pools: "keeps_at R (ManageTunnelPools env) s"
  unfolding ManageTunnelPools_def by (intro keeps_intros keeps_all R_manage_pool)

end

text \<open>The lists only shrink, and tunnels stay what they are.\<close>

definition shrinks :: "Tunnels \<Rightarrow> Tunnels \<Rightarrow> bool" where
  "shrinks s s' \<longleftrightarrow> (fresh s \<longrightarrow>
     fresh s' \<and> (\<forall>h x. ts_Heap s h = Some x \<longrightarrow> (\<exists>x'. ts_Heap s' h = Some x' \<and> same_kind x x')) \<and>
     set (m_InboundTunnels s') \<subseteq> set (m_InboundTunnels s) \<and> set (m_OutboundTunnels s') \<subseteq> set (m_OutboundTunnels s) \<and>
     set (m_TransitTunnels s') \<subseteq> set (m_TransitTunnels s))"

lemma shrinks_trans: "shrinks s1 s2 \<Longrightarrow> shrinks s2 s3 \<Longrightarrow> shrinks s1 s3"
  unfolding shrinks_def same_kind_def by (smt (verit) subset_trans)

interpretation sh: store_relation shrinks
proof (unfold_locales, goal_cases)
  case (2 s1 s2 s3) then show ?case by (rule shrinks_trans)
qed (auto simp: shrinks_def fresh_def same_kind_def set_pending_def)

lemma shrinks_remove: "keeps_at shrinks (remove_tunnel inbound k h) s"
  by (auto simp: remove_tunnel_def keeps_at_def mmodify_def shrinks_def fresh_def same_kind_def std_erase_def dest: set_remove1_subset [THEN subsetD])

lemma shrinks_manage_tunnel: "keeps_at shrinks (manage_tunnel env inbound entry) s"
  unfolding manage_tunnel_def by (intro sh.keeps_intros sh.R_erase sh.R_setters sh.R_create shrinks_remove)

lemma shrinks_pending: "shrinks s s' \<Longrightarrow> fresh s \<Longrightarrow> pending_ok s inbound h \<Longrightarrow> pending_ok s' inbound h"
  by (force simp: shrinks_def pending_ok_def same_kind_def)

text \<open>The tunnels of a list, in the form the loops go through them.\<close>

definition entries :: "bool \<Rightarrow> Tunnels \<Rightarrow> (u32 \<times> nat) list" where
  "entries inbound s = (if inbound then m_InboundTunnels s else map (\<lambda>h. (0, h)) (m_OutboundTunnels s))"

lemma entries_ok: "tunnels_inv s \<Longrightarrow> \<forall>(k, h) \<in> set (entries inbound s). pending_ok s inbound h"
  by (auto simp: tunnels_inv_def lists_inv_def entries_def ok_defs)

lemma inv_fresh: "tunnels_inv s \<Longrightarrow> fresh s"
  by (simp add: tunnels_inv_def store_inv_def fresh_def)

lemma keeps_manage_list: "keeps_at kept (mfor (manage_tunnel env inbound) (entries inbound s)) s"
proof (rule keeps_given)
  assume inv: "tunnels_inv s"
  let ?J = "\<lambda>s'. fresh s' \<and> (\<forall>(k, h) \<in> set (entries inbound s). pending_ok s' inbound h)"
  show ?thesis
  proof (rule kp.keeps_for [where J = ?J])
    show "?J s" using inv entries_ok inv_fresh by blast
    show "keeps_at kept (manage_tunnel env inbound e) s'" if "e \<in> set (entries inbound s)" "?J s'" for e s'
    proof -
      obtain k h where "e = (k, h)" by (cases e)
      then show ?thesis using that by (auto intro: keeps_manage_tunnel)
    qed
    fix e s' s'' u assume e: "e \<in> set (entries inbound s)" and J: "?J s'" and m: "manage_tunnel env inbound e s' = (Inr u, s'')"
    have sh: "shrinks s' s''" using shrinks_manage_tunnel [of env inbound e s'] m by (simp add: keeps_at_def)
    then have "fresh s''" using J by (simp add: shrinks_def)
    then show "?J s''" using J shrinks_pending [OF sh] by fastforce
  qed
qed

lemma keeps_manage_outbound_loop:
  "keeps_at kept (mbind (mget m_OutboundTunnels) (\<lambda>hs. mfor (manage_tunnel env False) (map (\<lambda>h. (0, h)) hs))) s"
  "keeps_at kept (mbind (mget m_InboundTunnels) (mfor (manage_tunnel env True))) s"
  using keeps_manage_list [of env False s] keeps_manage_list [of env True s]
  by (simp_all add: keeps_at_def mbind_def mget_def entries_def)

lemma keeps_ManageOutboundTunnels: "keeps_at kept (ManageOutboundTunnels env) s"
  unfolding ManageOutboundTunnels_def replenish_outbound_def
  by (intro kp.keeps_intros keeps_manage_outbound_loop keeps_configs keeps_CreateTunnel)

lemma keeps_CreateZeroHops: "keeps_at kept (CreateZeroHopsInboundTunnel env) s"
  unfolding CreateZeroHopsInboundTunnel_def by (intro kp.keeps_intros keeps_configs keeps_CreateTunnel)

lemma keeps_ManageInboundTunnels: "keeps_at kept (ManageInboundTunnels env) s"
proof -
  have "kept s' (s'\<lparr>m_ExploratoryPool := Some p\<rparr>)" if "ts_PoolHeap s' p \<noteq> None" for s' p
    using that by (auto simp: kept_def tunnels_inv_def part_defs ok_defs)
  then show ?thesis unfolding ManageInboundTunnels_def replenish_inbound_def
    by (intro kp.keeps_intros keeps_manage_outbound_loop keeps_configs keeps_CreateTunnel keeps_CreateZeroHops keeps_CreateTunnelPool kp.keeps_modify)
      (auto dest: CreateTunnelPool_post)
qed

lemma keeps_ManageTransitTunnels: "keeps_at kept (ManageTransitTunnels env) s"
  unfolding ManageTransitTunnels_def
proof (intro kp.keeps_modify inv_transit)
  assume "tunnels_inv s"
  then show "std_inv (filter (\<lambda>(k, x). \<not> expired env (x_CreationTime (transit_base x))) (m_TransitTunnels s)) \<and>
      (\<forall>(k, x) \<in> set (filter (\<lambda>(k, x). \<not> expired env (x_CreationTime (transit_base x))) (m_TransitTunnels s)). x_TunnelID (transit_base x) = k)"
    using transit_parts [of s] by (auto simp: std_inv_def sorted_wrt_filter sorted_wrt_map)
qed

lemma keeps_ManageTunnelPools: "keeps_at kept (ManageTunnelPools env) s"
proof -
  have "keeps_at kept (manage_pool env p) s'" for p s'
    unfolding manage_pool_def by (intro kp.keeps_intros keeps_CreateTunnels keeps_TestTunnels) (auto simp: mop_simps)
  then show ?thesis unfolding ManageTunnelPools_def by (intro kp.keeps_intros kp.keeps_all)
qed

lemma keeps_ManageTunnels: "keeps_at kept (ManageTunnels env) s"
  unfolding ManageTunnels_def
  by (intro kp.keeps_intros keeps_ManagePendingTunnels keeps_ManageInboundTunnels keeps_ManageOutboundTunnels
      keeps_ManageTransitTunnels keeps_ManageTunnelPools)

lemma keeps_Run_round: "keeps_at kept (Run_round fuel env last_ts) s"
  unfolding Run_round_def by (intro kp.keeps_intros keeps_Queue_Get keeps_Run_messages keeps_ManageTunnels)

section \<open>Reachable states\<close>

text \<open>
  The state changes by a round of the loop, whether it returns or throws, by messages that other
  threads put into the queue, and by clients that create, stop and delete pools and set
  their peers.
\<close>

inductive manager_reachable :: "Tunnels \<Rightarrow> bool" where
  start: "manager_reachable Tunnels_new"
| round: "manager_reachable s \<Longrightarrow> manager_reachable (snd (Run_round fuel env last_ts s))"
| post: "manager_reachable s \<Longrightarrow> manager_reachable (snd (Tunnels_PostTunnelData msgs s))"
| create_pool: "manager_reachable s \<Longrightarrow> manager_reachable (snd (CreateTunnelPool dest a b c d s))"
| stop_pool: "manager_reachable s \<Longrightarrow> manager_reachable (snd (StopTunnelPool p s))"
| delete_pool: "manager_reachable s \<Longrightarrow> manager_reachable (snd (DeleteTunnelPool p s))"
| set_peers: "manager_reachable s \<Longrightarrow> manager_reachable (snd (SetExplicitPeers q peers s))"

lemma kept_inv: "keeps_at kept m s \<Longrightarrow> tunnels_inv s \<Longrightarrow> tunnels_inv (snd (m s))"
  by (simp add: keeps_at_def kept_def)

lemma manager_reachable_inv: "manager_reachable s \<Longrightarrow> tunnels_inv s"
proof (induction rule: manager_reachable.induct)
  case start
  show ?case by (simp add: Tunnels_new_def tunnels_inv_def part_defs)
next
  case (post s msgs)
  then show ?case
    by (intro kept_inv) (simp_all add: Tunnels_PostTunnelData_def kp.keeps_modify kept_modify_fields)
qed (blast intro: kept_inv keeps_Run_round keeps_CreateTunnelPool keeps_StopTunnelPool keeps_DeleteTunnelPool keeps_SetExplicitPeers)+

section \<open>Expiry\<close>

definition unexpired :: "ManagerEnv \<Rightarrow> Tunnels \<Rightarrow> nat \<Rightarrow> bool" where
  "unexpired env s h \<longleftrightarrow> (\<exists>x. ts_Heap s h = Some x \<and> \<not> expired env (tn_CreationTime (base_tunnel x)))"

lemma shrinks_unexpired: "shrinks s s' \<Longrightarrow> fresh s \<Longrightarrow> unexpired env s h \<Longrightarrow> unexpired env s' h"
  by (force simp: shrinks_def unexpired_def same_kind_def)

lemma shrinks_entries: "shrinks s s' \<Longrightarrow> fresh s \<Longrightarrow> set (entries b s') \<subseteq> set (entries b s)"
  by (auto simp: shrinks_def entries_def)

text \<open>A tunnel that has been looked at is not expired or no longer in the list.\<close>

lemma manage_tunnel_post:
  assumes m: "manage_tunnel env inbound (k, h) s = (Inr u, s')" and inv: "tunnels_inv s"
  shows "unexpired env s' h \<or> (k, h) \<notin> set (entries inbound s')"
proof -
  obtain x where x: "ts_Heap s h = Some x" using m by (auto simp: manage_tunnel_def mop_simps)
  have sh: "shrinks s s'" using shrinks_manage_tunnel [of env inbound "(k, h)" s] m by (simp add: keeps_at_def)
  note sub = shrinks_entries [OF sh inv_fresh [OF inv], of inbound]
  show ?thesis
  proof (cases "expired env (tn_CreationTime (base_tunnel x)) \<and> (k, h) \<in> set (entries inbound s)")
    case False
    then show ?thesis using shrinks_unexpired [OF sh inv_fresh [OF inv]] x sub by (auto simp: unexpired_def)
  next
    case True
    let ?m = "case tn_Pool (base_tunnel x) of None \<Rightarrow> mret () | Some p \<Rightarrow> TunnelExpired inbound p h"
    obtain s1 where 1: "?m s = (Inr (), s1)" and 2: "remove_tunnel inbound k h s1 = (Inr (), s')"
      using m True x by (auto simp: manage_tunnel_def mop_simps Let_def)
    have "is_inbound x = inbound" using True entries_ok [OF inv, of inbound] x by (auto simp: pending_ok_def)
    then have "keeps_at kept ?m s" by (intro kp.keeps_intros keeps_TunnelExpired [OF x])
    then have "distinct (m_OutboundTunnels s1)" using 1 inv by (simp add: keeps_at_def kept_def tunnels_inv_def lists_inv_def)
    then show ?thesis using 2 by (auto simp: remove_tunnel_def mop_simps entries_def std_erase_def split: if_splits)
  qed
qed

lemma manage_list_post:
  assumes "mfor (manage_tunnel env inbound) xs s = (Inr u, s')" and "tunnels_inv s"
    and "\<forall>(k, h) \<in> set xs. pending_ok s inbound h"
    and "\<forall>(k, h) \<in> set (entries inbound s). (k, h) \<in> set xs \<or> unexpired env s h"
  shows "\<forall>(k, h) \<in> set (entries inbound s'). unexpired env s' h"
  using assms
proof (induction xs arbitrary: s)
  case (Cons e xs)
  obtain k h where e: "e = (k, h)" by (cases e)
  obtain s1 where 1: "manage_tunnel env inbound (k, h) s = (Inr (), s1)" and 2: "mfor (manage_tunnel env inbound) xs s1 = (Inr u, s')"
    using Cons.prems(1) by (auto simp: e mop_simps)
  have sh: "shrinks s s1" using shrinks_manage_tunnel [of env inbound "(k, h)" s] 1 by (simp add: keeps_at_def)
  note f = inv_fresh [OF Cons.prems(2)]
  have "tunnels_inv s1"
    using keeps_manage_tunnel [of s inbound h env k] Cons.prems(2,3) 1 by (simp add: e keeps_at_def kept_def)
  moreover have "\<forall>(k, h) \<in> set xs. pending_ok s1 inbound h" using Cons.prems(3) shrinks_pending [OF sh f] by (auto simp: e)
  moreover have "\<forall>(k, h) \<in> set (entries inbound s1). (k, h) \<in> set xs \<or> unexpired env s1 h"
    using Cons.prems(4) manage_tunnel_post [OF 1 Cons.prems(2)] shrinks_unexpired [OF sh f] shrinks_entries [OF sh f, of inbound]
    by (fastforce simp: e)
  ultimately show ?case using Cons.IH [OF 2] by blast
qed (auto simp: mop_simps)

lemma manage_entries:
  assumes "mfor (manage_tunnel env inbound) (entries inbound s) s = (Inr u, s')" and "tunnels_inv s"
  shows "\<forall>(k, h) \<in> set (entries inbound s'). unexpired env s' h"
  using manage_list_post [OF assms entries_ok [OF assms(2)]] by blast

lemma shrinks_CreateTunnelPool: "keeps_at shrinks (CreateTunnelPool d a b c e) s"
  unfolding CreateTunnelPool_def
  by (intro sh.keeps_intros sh.keeps_modify) (auto simp: mop_simps shrinks_def fresh_def same_kind_def)

lemma shrinks_manage_tails:
  "keeps_at shrinks (CreateZeroHopsInboundTunnel env) s" "keeps_at shrinks (ManageTransitTunnels env) s"
  "keeps_at shrinks (ManageOutboundTunnels env) s"
proof -
  show "keeps_at shrinks (CreateZeroHopsInboundTunnel env) s"
    unfolding CreateZeroHopsInboundTunnel_def by (intro sh.keeps_intros sh.R_configs sh.R_CreateTunnel)
  show "keeps_at shrinks (ManageTransitTunnels env) s"
    unfolding ManageTransitTunnels_def by (intro sh.keeps_modify) (auto simp: shrinks_def fresh_def same_kind_def)
  show "keeps_at shrinks (ManageOutboundTunnels env) s"
    unfolding ManageOutboundTunnels_def replenish_outbound_def
    by (intro sh.keeps_intros sh.keeps_all shrinks_manage_tunnel sh.R_configs sh.R_CreateTunnel)
qed

text \<open>What holds of a list after its loop holds to the end of the maintenance.\<close>

definition none_expired :: "ManagerEnv \<Rightarrow> bool \<Rightarrow> Tunnels \<Rightarrow> bool" where
  "none_expired env inbound s \<longleftrightarrow> fresh s \<and> (\<forall>(k, h) \<in> set (entries inbound s). unexpired env s h)"

lemma none_expired_shrinks:
  assumes "keeps_at shrinks m s" and "m s = (Inr u, s')" and "none_expired env inbound s"
  shows "none_expired env inbound s'"
proof -
  have sh: "shrinks s s'" and f: "fresh s" using assms by (simp_all add: keeps_at_def none_expired_def)
  have "fresh s'" using sh f by (simp add: shrinks_def)
  then show ?thesis using assms(3) shrinks_entries [OF sh f, of inbound] shrinks_unexpired [OF sh f] by (fastforce simp: none_expired_def)
qed

lemma ManageInbound_expires:
  assumes "ManageInboundTunnels env s = (Inr u, s')" and "tunnels_inv s"
  shows "none_expired env True s'"
proof -
  obtain s1 where 1: "mfor (manage_tunnel env True) (entries True s) s = (Inr (), s1)" and 2: "replenish_inbound env s1 = (Inr u, s')"
    using assms(1) unfolding ManageInboundTunnels_def mseq_eq_Inr mbind_eq_Inr mop_eq_Inr entries_def by auto
  have "tunnels_inv s1" using keeps_manage_list [of env True s] 1 assms(2) by (simp add: keeps_at_def kept_def)
  then have "none_expired env True s1" using manage_entries [OF 1 assms(2)] by (simp add: none_expired_def inv_fresh)
  moreover have k: "keeps_at shrinks (replenish_inbound env) s1"
    unfolding replenish_inbound_def
    by (intro sh.keeps_intros sh.keeps_modify shrinks_manage_tails shrinks_CreateTunnelPool sh.R_configs sh.R_CreateTunnel)
      (auto simp: shrinks_def fresh_def same_kind_def)
  ultimately show ?thesis using none_expired_shrinks [OF k 2] by blast
qed

lemma ManageOutbound_expires:
  assumes "ManageOutboundTunnels env s = (Inr u, s')" and "tunnels_inv s"
  shows "none_expired env False s'"
proof -
  obtain s1 where 1: "mfor (manage_tunnel env False) (entries False s) s = (Inr (), s1)" and 2: "replenish_outbound env s1 = (Inr u, s')"
    using assms(1) unfolding ManageOutboundTunnels_def mseq_eq_Inr mbind_eq_Inr mop_eq_Inr entries_def by auto
  have "tunnels_inv s1" using keeps_manage_list [of env False s] 1 assms(2) by (simp add: keeps_at_def kept_def)
  then have "none_expired env False s1" using manage_entries [OF 1 assms(2)] by (simp add: none_expired_def inv_fresh)
  moreover have k: "keeps_at shrinks (replenish_outbound env) s1"
    unfolding replenish_outbound_def by (intro sh.keeps_intros sh.R_configs sh.R_CreateTunnel)
  ultimately show ?thesis using none_expired_shrinks [OF k 2] by blast
qed

lemma Manage_expires:
  assumes inv: "tunnels_inv s" and m: "ManageTunnels env s = (Inr (), s')"
  shows "none_expired env True s' \<and> none_expired env False s' \<and>
    (\<forall>(k, x) \<in> set (m_TransitTunnels s'). \<not> expired env (x_CreationTime (transit_base x)))"
proof -
  obtain s1 s2 s3 s4 where st: "ManagePendingTunnels env s = (Inr (), s1)" "ManageInboundTunnels env s1 = (Inr (), s2)"
    "ManageOutboundTunnels env s2 = (Inr (), s3)" "ManageTransitTunnels env s3 = (Inr (), s4)" "ManageTunnelPools env s4 = (Inr (), s')"
    using m by (auto simp: ManageTunnels_def mseq_eq_Inr)
  have i: "tunnels_inv s1" "tunnels_inv s2"
    using inv st keeps_ManagePendingTunnels [of env s] keeps_ManageInboundTunnels [of env s1] by (simp_all add: keeps_at_def kept_def)
  note t = none_expired_shrinks [OF shrinks_manage_tails(2) st(4)] none_expired_shrinks [OF sh.R_manage_pools st(5)]
  have in_ok: "none_expired env True s'"
    using ManageInbound_expires [OF st(2) i(1)] none_expired_shrinks [OF shrinks_manage_tails(3) st(3)] t by blast
  have out: "none_expired env False s3" by (rule ManageOutbound_expires [OF st(3) i(2)])
  then have "fresh s4" using t(1) by (auto simp: none_expired_def)
  then have "set (m_TransitTunnels s') \<subseteq> set (m_TransitTunnels s4)"
    using sh.R_manage_pools [of env s4] st(5) by (simp add: keeps_at_def shrinks_def)
  moreover have "\<forall>(k, x) \<in> set (m_TransitTunnels s4). \<not> expired env (x_CreationTime (transit_base x))"
    using st(4) by (auto simp: ManageTransitTunnels_def mop_eq_Inr)
  ultimately show ?thesis using in_ok out t by blast
qed

section \<open>A missing router\<close>

lemma config_missing_router: "new_config env [None] reply s = (Inl InvalidArgument, s\<lparr>ts_Draws := Suc (ts_Draws s)\<rparr>)"
  by (cases "v_hops env (ts_Draws s) 0")
    (simp add: new_config_def mbind_def mdraw_def mlift_def TunnelConfig_new_def TunnelHopConfig_new_def)

lemma replenish_throws:
  assumes "\<And>n. v_GetRandomRouter env n None = None" and "m_InboundTunnels s \<noteq> []" and "m_OutboundTunnels s = [] \<or> length (m_InboundTunnels s) < 5"
  shows "\<exists>n. replenish_inbound env s = (Inl InvalidArgument, s\<lparr>ts_Draws := n\<rparr>)"
  using assms by (auto simp: replenish_inbound_def mbind_def mget_def mwhen_def mdraw_def config_missing_router)

lemma mseq_Inl: "m s = (Inr x, s1) \<Longrightarrow> n s1 = (Inl e, s2) \<Longrightarrow> mseq m n s = (Inl e, s2)" "m s = (Inl e, s2) \<Longrightarrow> mseq m n s = (Inl e, s2)"
  by (simp_all add: mseq_def mbind_def)

text \<open>The transit tunnels belong to the manager alone.\<close>

definition same_transit :: "Tunnels \<Rightarrow> Tunnels \<Rightarrow> bool" where
  "same_transit s s' \<longleftrightarrow> m_TransitTunnels s' = m_TransitTunnels s"

interpretation tr: store_relation same_transit
  by unfold_locales (auto simp: same_transit_def set_pending_def)

lemma transit_manage_pending: "keeps_at same_transit (ManagePendingTunnels env) s"
proof -
  have e: "keeps_at same_transit (erase_pending b k) s" "keeps_at same_transit count_failed s" "keeps_at same_transit count_successive s" for b k s
    unfolding erase_pending_def count_failed_def count_successive_def
    by (intro tr.keeps_modify; simp add: same_transit_def set_pending_def)+
  have "keeps_at same_transit (case st of
        TunnelStatePending \<Rightarrow> mwhen c (mseq (mfor (\<lambda>hop. mlog (g hop)) hops) (mseq (erase_pending b k) count_failed))
      | TunnelStateBuildFailed \<Rightarrow> mseq (erase_pending b k) count_failed | TunnelStateBuildReplyReceived \<Rightarrow> mret ()
      | _ \<Rightarrow> mseq (erase_pending b k) count_successive) s'" for st b c g k s' and hops :: "TunnelHopConfig list"
    by (cases st; simp; intro tr.keeps_intros tr.keeps_all e)
  then show ?thesis unfolding ManagePendingTunnels_def ManagePendingTunnels_of_def manage_pending_def by (intro tr.keeps_intros tr.keeps_all)
qed

lemma transit_manage_tunnel: "keeps_at same_transit (manage_tunnel env b e) s"
proof -
  have "keeps_at same_transit (remove_tunnel b k h) s" for k h s
    by (simp add: remove_tunnel_def keeps_at_def mmodify_def same_transit_def)
  then show ?thesis unfolding manage_tunnel_def by (intro tr.keeps_intros tr.R_erase tr.R_setters tr.R_create)
qed

lemma Manage_throws:
  assumes "\<And>n. v_GetRandomRouter env n None = None"
    and p: "ManagePendingTunnels env s = (Inr (), s1)" and l: "mfor (manage_tunnel env True) (m_InboundTunnels s1) s1 = (Inr (), s2)"
    and "m_InboundTunnels s2 \<noteq> []" and "m_OutboundTunnels s2 = [] \<or> length (m_InboundTunnels s2) < 5"
  shows "\<exists>n. ManageTunnels env s = (Inl InvalidArgument, s2\<lparr>ts_Draws := n\<rparr>)" and "m_TransitTunnels s2 = m_TransitTunnels s"
proof -
  obtain n where r: "replenish_inbound env s2 = (Inl InvalidArgument, s2\<lparr>ts_Draws := n\<rparr>)" using replenish_throws [OF assms(1,4,5)] by blast
  have "mbind (mget m_InboundTunnels) (mfor (manage_tunnel env True)) s1 = (Inr (), s2)" using l by (simp add: mbind_eq_Inr mop_eq_Inr)
  then have "ManageInboundTunnels env s1 = (Inl InvalidArgument, s2\<lparr>ts_Draws := n\<rparr>)"
    unfolding ManageInboundTunnels_def by (rule mseq_Inl(1)) (rule r)
  then have "ManageTunnels env s = (Inl InvalidArgument, s2\<lparr>ts_Draws := n\<rparr>)"
    using p by (simp add: ManageTunnels_def mseq_def mbind_def)
  then show "\<exists>n. ManageTunnels env s = (Inl InvalidArgument, s2\<lparr>ts_Draws := n\<rparr>)" by blast
  have "keeps_at same_transit (mfor (manage_tunnel env True) (m_InboundTunnels s1)) s1" by (intro tr.keeps_all transit_manage_tunnel)
  then show "m_TransitTunnels s2 = m_TransitTunnels s"
    using transit_manage_pending [of env s] p l by (simp add: keeps_at_def same_transit_def)
qed

section \<open>Properties\<close>

text \<open>
  C11 (invariant). The state of the tunnel manager, in every state it can reach through rounds of
  its loop, whether they return or throw, through messages from other threads and through clients
  that create, stop and delete pools: no owner holds a dangling handle or one of the
  wrong kind, every map and set is sorted without duplicates, an inbound tunnel is filed under its
  own identifier, an outbound tunnel is listed once, the lists, the pools and the tests hold only
  tunnels whose build was answered with success, and a tunnel in the set of a pool points back to
  that pool, so that the pool is told when it expires.
\<close>

theorem tunnels_invariant:
  assumes "manager_reachable s"
  shows "tunnels_inv s"
  using assms by (rule manager_reachable_inv)

text \<open>
  C12 (liveness). When the maintenance returns, no inbound, outbound or transit tunnel that is
  older than its lifetime is left in the lists of the manager.
\<close>

theorem ManageTunnels_expires:
  assumes "tunnels_inv s" and "ManageTunnels env s = (Inr (), s')"
  shows "(\<forall>inbound. \<forall>(k, h) \<in> set (entries inbound s'). unexpired env s' h) \<and>
    (\<forall>(k, x) \<in> set (m_TransitTunnels s'). \<not> expired env (x_CreationTime (transit_base x)))"
proof -
  note e = Manage_expires [OF assms]
  have "\<forall>(k, h) \<in> set (entries inbound s'). unexpired env s' h" for inbound
    using e by (cases inbound) (simp_all add: none_expired_def)
  then show ?thesis using e by blast
qed

text \<open>
  C40 (error). While the network database knows no router, and there are too few inbound tunnels but
  at least one, the maintenance throws before it reaches the transit tunnels: all of them
  stay, however old they are.
\<close>

theorem maintenance_needs_router:
  assumes "\<And>n. v_GetRandomRouter env n None = None"
    and "ManagePendingTunnels env s = (Inr (), s1)" and "mfor (manage_tunnel env True) (m_InboundTunnels s1) s1 = (Inr (), s2)"
    and "m_InboundTunnels s2 \<noteq> []" and "m_OutboundTunnels s2 = [] \<or> length (m_InboundTunnels s2) < 5"
  shows "fst (ManageTunnels env s) = Inl InvalidArgument \<and> m_TransitTunnels (snd (ManageTunnels env s)) = m_TransitTunnels s"
  using Manage_throws [OF assms] by auto

section \<open>Witnesses\<close>

text \<open>A router that knows no other router, at second 1000.\<close>

definition sample_manager_env :: ManagerEnv where
  "sample_manager_env =
     \<lparr>v_now = 1000, v_build = undefined, v_outbound = undefined, v_transit = undefined, v_router = undefined,
      v_random = (\<lambda>_. []), v_rand32 = (\<lambda>_. 7), v_range32 = (\<lambda>_ lo hi. lo), v_shuffle = (\<lambda>_ xs. xs),
      v_hops = undefined, v_own_router = None, v_GetRandomRouter = (\<lambda>_ _. None), v_GetHighBandwidthRandomRouter = (\<lambda>_ _. None),
      v_FindRouter = (\<lambda>_. None), v_IsBad = (\<lambda>_. False), v_NumPeers = 0, v_GetRandomPeer = (\<lambda>_. None), v_context = 0, v_network_ID = 2\<rparr>"

definition managed_hop :: "u32 \<Rightarrow> TunnelHopConfig" where
  "managed_hop tid =
     \<lparr>hc_CurrentRouter = \<lparr>r_IdentHash = replicate 32 1, r_Encrypt = (\<lambda>bs. bs)\<rparr>, hc_TunnelID = 9,
      hc_AESAttributes = \<lparr>aes_layer_key = [], aes_IV_key = [], aes_reply_key = [], aes_reply_IV = []\<rparr>,
      hc_NextRouter = None, hc_NextTunnelID = tid, hc_IsGateway = True, hc_IsEndpoint = False, hc_RecordIndex = 0, hc_Decryption = None\<rparr>"

definition managed_tunnel :: "u32 \<Rightarrow> u64 \<Rightarrow> Tunnel" where
  "managed_tunnel tid creation = (Tunnel_new creation \<lparr>tc_Hops = [managed_hop tid]\<rparr>)\<lparr>tn_State := TunnelStateEstablished\<rparr>"

definition managed_transit :: AnyTransitTunnel where
  "managed_transit = AParticipant \<lparr>p_Base = TransitTunnel_new 0 3 (replicate 32 2) 4 [] [], p_NumTransmittedBytes = 0, p_TunnelDataMsgs = []\<rparr>"

text \<open>The inbound tunnels number 0 to 5, of which number 0 is expired, an outbound one, and an old transit tunnel.\<close>

definition sample_tunnels :: "nat list \<Rightarrow> Tunnels" where
  "sample_tunnels ids = Tunnels_new\<lparr>
     ts_Heap := (\<lambda>h. if h < 6 then Some (AnInboundTunnel \<lparr>it_Tunnel = managed_tunnel (word_of_nat h) (if h = 0 then 1 else 900),
                                                       it_Endpoint = TunnelEndpoint_new True\<rparr>)
                     else if h = 6 then Some (AnOutboundTunnel \<lparr>ot_Tunnel = managed_tunnel 0 900, ot_Gateway = undefined\<rparr>) else None),
     ts_Next := 7, m_InboundTunnels := map (\<lambda>i. (word_of_nat i, i)) ids, m_OutboundTunnels := [6],
     m_TransitTunnels := [(3, managed_transit)]\<rparr>"

theorem tunnels_invariant_witness:
  "let s = snd (Run_round 1 sample_manager_env 0 (snd (CreateTunnelPool (Some 1) 2 2 5 5 Tunnels_new))) in
   manager_reachable s \<and> tunnels_inv s"
proof -
  let ?s = "snd (Run_round 1 sample_manager_env 0 (snd (CreateTunnelPool (Some 1) 2 2 5 5 Tunnels_new)))"
  have "manager_reachable ?s" by (intro manager_reachable.intros)
  with tunnels_invariant [OF this] show ?thesis by simp
qed

lemma sample_facts:
  "tn_State (managed_tunnel tid c) = TunnelStateEstablished" "tn_Pool (managed_tunnel tid c) = None" "tn_CreationTime (managed_tunnel tid c) = c"
  "tn_IsRecreated (managed_tunnel tid c) = False"
  "tunnel_id (AnInboundTunnel \<lparr>it_Tunnel = managed_tunnel tid c, it_Endpoint = ep\<rparr>) = Inr tid"
  by (simp_all add: managed_tunnel_def Tunnel_new_def tunnel_id_def InboundTunnel_GetTunnelID_def GetLastHop_def managed_hop_def)

lemma sample_tunnels_inv: "tunnels_inv (sample_tunnels [0, 1, 2, 3, 4, 5])"
  by (simp add: sample_tunnels_def tunnels_inv_def part_defs Tunnels_new_def ok_defs sample_facts managed_transit_def TransitTunnel_new_def)

lemma manage_tunnel_idle:
  assumes "ts_Heap s h = Some x" and "tn_CreationTime (base_tunnel x) = 900"
  shows "manage_tunnel sample_manager_env b (k, h) s = (Inr (), s)"
  using assms by (simp add: manage_tunnel_def mbind_def mseq_def get_tunnel_def expired_def expires_within_def sample_manager_env_def mwhen_def mret_def
      TUNNEL_EXPIRATION_TIMEOUT_def TUNNEL_EXPIRATION_THRESHOLD_def TUNNEL_RECREATION_THRESHOLD_def)

lemma manage_tunnel_old:
  assumes "ts_Heap s h = Some x" and "tn_CreationTime (base_tunnel x) = 1" and "tn_Pool (base_tunnel x) = None"
  shows "manage_tunnel sample_manager_env True (k, h) s = (Inr (), s\<lparr>m_InboundTunnels := std_erase k (m_InboundTunnels s)\<rparr>)"
  using assms by (simp add: manage_tunnel_def mbind_def mseq_def get_tunnel_def expired_def sample_manager_env_def mret_def remove_tunnel_def mmodify_def
      TUNNEL_EXPIRATION_TIMEOUT_def)

lemma sample_loop:
  "mfor (manage_tunnel sample_manager_env True) (m_InboundTunnels (sample_tunnels [0, 1, 2, 3, 4, 5])) (sample_tunnels [0, 1, 2, 3, 4, 5]) =
     (Inr (), sample_tunnels [1, 2, 3, 4, 5])"
  by (simp add: sample_tunnels_def mseq_def mbind_def manage_tunnel_old manage_tunnel_idle sample_facts std_erase_def mret_def)

lemma sample_pending: "ManagePendingTunnels env (sample_tunnels ids) = (Inr (), sample_tunnels ids)"
  by (simp add: ManagePendingTunnels_def ManagePendingTunnels_of_def mseq_def mbind_def mget_def pending_def sample_tunnels_def Tunnels_new_def mret_def)

lemma sample_manage:
  "ManageTunnels sample_manager_env (sample_tunnels [0, 1, 2, 3, 4, 5]) =
     (Inr (), (sample_tunnels [1, 2, 3, 4, 5])\<lparr>m_TransitTunnels := [], ts_Draws := 1\<rparr>)"
proof -
  let ?e = sample_manager_env and ?s = "sample_tunnels [1, 2, 3, 4, 5]"
  have "ManageInboundTunnels ?e (sample_tunnels [0, 1, 2, 3, 4, 5]) = (Inr (), ?s)"
    using sample_loop by (simp add: ManageInboundTunnels_def mseq_def mbind_def mget_def replenish_inbound_def mwhen_def mret_def)
      (simp add: sample_tunnels_def)
  moreover have "ManageOutboundTunnels ?e ?s = (Inr (), ?s\<lparr>ts_Draws := 1\<rparr>)"
    by (simp add: ManageOutboundTunnels_def mseq_def mbind_def mget_def replenish_outbound_def mwhen_def mret_def mdraw_def
        sample_tunnels_def Tunnels_new_def manage_tunnel_idle sample_facts)
      (simp add: sample_manager_env_def mret_def split: option.splits)
  moreover have "ManageTransitTunnels ?e (?s\<lparr>ts_Draws := 1\<rparr>) = (Inr (), ?s\<lparr>m_TransitTunnels := [], ts_Draws := 1\<rparr>)"
    by (simp add: ManageTransitTunnels_def mmodify_def sample_tunnels_def managed_transit_def TransitTunnel_new_def expired_def sample_manager_env_def
        TUNNEL_EXPIRATION_TIMEOUT_def)
  moreover have "ManageTunnelPools ?e (?s\<lparr>m_TransitTunnels := [], ts_Draws := 1\<rparr>) = (Inr (), ?s\<lparr>m_TransitTunnels := [], ts_Draws := 1\<rparr>)"
    by (simp add: ManageTunnelPools_def mbind_def mget_def sample_tunnels_def Tunnels_new_def mret_def)
  ultimately show ?thesis by (simp add: ManageTunnels_def mseq_def mbind_def sample_pending)
qed

theorem ManageTunnels_expires_witness:
  "\<exists>s'. ManageTunnels sample_manager_env (sample_tunnels [0, 1, 2, 3, 4, 5]) = (Inr (), s') \<and> length (m_InboundTunnels s') = 5 \<and>
     (\<forall>inbound. \<forall>(k, h) \<in> set (entries inbound s'). unexpired sample_manager_env s' h) \<and>
     (\<forall>(k, x) \<in> set (m_TransitTunnels s'). \<not> expired sample_manager_env (x_CreationTime (transit_base x)))"
  using ManageTunnels_expires [OF sample_tunnels_inv sample_manage] sample_manage by (simp add: sample_tunnels_def)

theorem maintenance_needs_router_witness:
  "fst (ManageTunnels sample_manager_env ((sample_tunnels [1])\<lparr>m_OutboundTunnels := []\<rparr>)) = Inl InvalidArgument \<and>
   m_TransitTunnels (snd (ManageTunnels sample_manager_env ((sample_tunnels [1])\<lparr>m_OutboundTunnels := []\<rparr>))) = [(3, managed_transit)]"
proof -
  let ?s = "(sample_tunnels [1])\<lparr>m_OutboundTunnels := []\<rparr>"
  have p: "ManagePendingTunnels sample_manager_env ?s = (Inr (), ?s)"
    by (simp add: ManagePendingTunnels_def ManagePendingTunnels_of_def mseq_def mbind_def mget_def pending_def sample_tunnels_def Tunnels_new_def mret_def)
  have l: "mfor (manage_tunnel sample_manager_env True) (m_InboundTunnels ?s) ?s = (Inr (), ?s)"
    by (simp add: sample_tunnels_def mseq_def mbind_def manage_tunnel_idle sample_facts mret_def)
  show ?thesis using maintenance_needs_router [OF _ p l] by (simp add: sample_manager_env_def sample_tunnels_def)
qed

end
