(* ===== verification/Tunnel_Network.thy ===== *)
theory Tunnel_Network
  imports Tunnel_Manager
begin

text \<open>
  A tunnel through several routers. Each router is the tunnel thread of \<open>Tunnel_Manager\<close> with its
  own state; what one sends goes to the router it is addressed to and is put into the queue there.
  The routers are tied together by nothing but the addresses: the hash a batch is sent to, and the
  tunnel identifier in each message. The result is the way of messages from the creator of an
  outbound tunnel (class \<open>OutboundTunnel\<close>) through its participants to where the endpoint sends
  them.
\<close>

section \<open>Messages to a transit tunnel\<close>

text \<open>Handlers that only send leave their calls in the log.\<close>

fun only_sends :: "action \<Rightarrow> bool" where
  "only_sends (SendMessage ident msg) = True"
| "only_sends (SendMessages ident msgs) = True"
| "only_sends act = False"

lemma perform_sends:
  "\<forall>a \<in> set acts. only_sends a \<Longrightarrow>
   mfor (perform_action env) acts s = (Inr (), s\<lparr>ts_Log := ts_Log s @ map RouterAction acts\<rparr>)"
proof (induction acts arbitrary: s)
  case (Cons a acts)
  then have "perform_action env a s = (Inr (), s\<lparr>ts_Log := ts_Log s @ [RouterAction a]\<rparr>)"
    by (cases a) (simp_all add: perform_action_def mlog_def mmodify_def)
  then show ?case using Cons by (simp add: mseq_def mbind_def)
qed (simp add: mret_def)

lemma HandleTunnelDataMsg_transit:
  assumes "GetTransitTunnel tid s = Some x"
    and "Transit_HandleTunnelDataMsg ((v_transit env (ts_Draws s))\<lparr>x_router := router_env env (ts_Draws s) None False s\<rparr>) msg x = Inr (x', acts)"
    and "\<forall>a \<in> set acts. only_sends a"
  shows "HandleTunnelDataMsg env (RefTransit tid) msg s =
    (Inr (), s\<lparr>ts_Draws := Suc (ts_Draws s), m_TransitTunnels := std_assign tid x' (m_TransitTunnels s),
               ts_Log := ts_Log s @ map RouterAction acts\<rparr>)"
proof -
  have "router_env env n None False (s\<lparr>ts_Draws := k\<rparr>) = router_env env n None False s" for n k
    by (simp add: router_env_def)
  then show ?thesis
    using assms by (simp add: HandleTunnelDataMsg_def mbind_def mseq_def mdraw_def mget_def mlift_def get_transit_def
        put_transit_def mmodify_def perform_sends GetTransitTunnel_def)
qed

lemma FlushTunnelDataMsgs_transit:
  assumes "GetTransitTunnel tid s = Some x" and "Transit_FlushTunnelDataMsgs (v_transit env (ts_Draws s)) x = Inr (x', acts)"
    and "\<forall>a \<in> set acts. only_sends a"
  shows "FlushTunnelDataMsgs env (RefTransit tid) s =
    (Inr (), s\<lparr>ts_Draws := Suc (ts_Draws s), m_TransitTunnels := std_assign tid x' (m_TransitTunnels s),
               ts_Log := ts_Log s @ map RouterAction acts\<rparr>)"
  using assms by (simp add: FlushTunnelDataMsgs_def mbind_def mseq_def mdraw_def mlift_def get_transit_def
      put_transit_def mmodify_def perform_sends GetTransitTunnel_def)

lemma Run_message_transit:
  assumes "readable m" and "addressed tid m" and "GetInboundTunnel tid s = None" and "GetTransitTunnel tid s \<noteq> None"
    and "prev_tunnel = None \<or> prev_tunnel = Some (RefTransit tid) \<and> prev_tid = tid"
    and "HandleTunnelDataMsg env (RefTransit tid) m s = (Inr (), s')"
  shows "Run_message env m prev_tid prev_tunnel s = (Inr (tid, Some (RefTransit tid)), s')"
proof -
  have "find_tunnel True tid s = Some (RefTransit tid)" using assms(3,4) by (auto simp: find_tunnel_def)
  then show ?thesis
    using assms addressed_read [OF assms(2,1)]
    by (auto simp: Run_message_def addressed_def mbind_def mseq_def mlift_def mget_def mret_def)
qed

text \<open>
  The loop over a batch for one transit tunnel; \<open>J ms s\<close> is what holds in state \<open>s\<close> when the
  messages \<open>ms\<close> are still to be handled.
\<close>

lemma Run_messages_batch:
  assumes step: "\<And>m ms s. J (m # ms) s \<Longrightarrow> readable m \<Longrightarrow>
      \<exists>s'. HandleTunnelDataMsg env (RefTransit tid) m s = (Inr (), s') \<and> m_Queue s' = m_Queue s \<and> J ms s'"
    and J: "\<And>ms s. J ms s \<Longrightarrow> GetInboundTunnel tid s = None \<and> GetTransitTunnel tid s \<noteq> None"
    and queue: "\<And>ms s q. J ms s \<Longrightarrow> J ms (s\<lparr>m_Queue := q\<rparr>)"
  shows "\<forall>m \<in> set (m # ms). readable m \<and> addressed tid m \<Longrightarrow> J (m # ms) s \<Longrightarrow> m_Queue s = ms \<Longrightarrow> length ms < fuel \<Longrightarrow>
    prev_tunnel = None \<or> prev_tunnel = Some (RefTransit tid) \<and> prev_tid = tid \<Longrightarrow>
    \<exists>s'. Run_messages fuel env m prev_tid prev_tunnel s = FlushTunnelDataMsgs env (RefTransit tid) s' \<and> m_Queue s' = [] \<and> J [] s'"
proof (induction ms arbitrary: m s fuel prev_tid prev_tunnel)
  case Nil
  then obtain k where k: "fuel = Suc k" by (cases fuel) auto
  obtain s' where s': "HandleTunnelDataMsg env (RefTransit tid) m s = (Inr (), s')" "m_Queue s' = m_Queue s" "J [] s'"
    using step [OF Nil.prems(2)] Nil.prems(1) by auto
  have "Run_message env m prev_tid prev_tunnel s = (Inr (tid, Some (RefTransit tid)), s')"
    using Run_message_transit [OF _ _ _ _ Nil.prems(5) s'(1)] J [OF Nil.prems(2)] Nil.prems(1) by simp
  then show ?case using s'(2,3) Nil.prems(3) by (auto simp: k mbind_def Queue_Get_def)
next
  case (Cons m' ms)
  then obtain k where k: "fuel = Suc k" by (cases fuel) auto
  obtain s' where s': "HandleTunnelDataMsg env (RefTransit tid) m s = (Inr (), s')" "m_Queue s' = m_Queue s" "J (m' # ms) s'"
    using step [OF Cons.prems(2)] Cons.prems(1) by auto
  have "Run_message env m prev_tid prev_tunnel s = (Inr (tid, Some (RefTransit tid)), s')"
    using Run_message_transit [OF _ _ _ _ Cons.prems(5) s'(1)] J [OF Cons.prems(2)] Cons.prems(1) by simp
  then have "Run_messages fuel env m prev_tid prev_tunnel s = Run_messages k env m' tid (Some (RefTransit tid)) (s'\<lparr>m_Queue := ms\<rparr>)"
    using s'(2) Cons.prems(3) by (simp add: k mbind_def Queue_Get_def)
  with Cons.IH [of m' "s'\<lparr>m_Queue := ms\<rparr>" k "Some (RefTransit tid)" tid] Cons.prems(1,4) queue [OF s'(3)]
  show ?case by (simp add: k)
qed

text \<open>
  A router takes a batch from its transports: the messages are put into the queue of the
  tunnel thread, which handles them in one round. The maintenance is not due.
\<close>

definition receive_batch :: "ManagerEnv \<Rightarrow> I2NPMessage list \<Rightarrow> u64 mop" where
  "receive_batch env ms = mseq (Tunnels_PostTunnelData ms) (Run_round (length ms) env (v_now env))"

lemma receive_batch_Nil: "m_Queue s = [] \<Longrightarrow> receive_batch env [] s = (Inr (v_now env), s)"
  by (simp add: receive_batch_def Tunnels_PostTunnelData_def Run_round_def Queue_Get_def mbind_def mseq_def mmodify_def mret_def)

lemma receive_batch_Cons:
  assumes "m_Queue s = []" and "Run_messages (Suc (length ms)) env m 0 None (s\<lparr>m_Queue := ms\<rparr>) = (Inr u, s')"
  shows "receive_batch env (m # ms) s = (Inr (v_now env), s')"
  using assms
  by (simp add: receive_batch_def Tunnels_PostTunnelData_def Run_round_def Queue_Get_def mbind_def mseq_def mmodify_def mret_def
      del: Run_messages.simps)

text \<open>What a batch for the tunnel \<open>tid\<close> leaves alone.\<close>

definition same_node :: "u32 \<Rightarrow> Tunnels \<Rightarrow> Tunnels \<Rightarrow> bool" where
  "same_node tid s s' \<longleftrightarrow> m_InboundTunnels s' = m_InboundTunnels s \<and>
     (\<forall>k. k \<noteq> tid \<longrightarrow> GetTransitTunnel k s' = GetTransitTunnel k s)"

lemma same_node_update:
  "same_node tid s s1 \<Longrightarrow> same_node tid s (s1\<lparr>ts_Draws := d, m_TransitTunnels := std_assign tid x (m_TransitTunnels s1), ts_Log := l\<rparr>)"
  by (simp add: same_node_def GetTransitTunnel_def std_find_assign)

lemma run_participant:
  assumes c: "block_cipher E D" and env: "\<And>n. x_encrypt (v_transit env n) = E"
    and s: "m_Queue s = []" "GetInboundTunnel tid s = None" "GetTransitTunnel tid s = Some (AParticipant p)" "p_TunnelDataMsgs p = []"
    and ms: "ms \<noteq> []" "\<forall>m \<in> set ms. readable m \<and> addressed tid m"
  shows "\<exists>s' ms'. receive_batch env ms s = (Inr (v_now env), s') \<and>
    ts_Log s' = ts_Log s @ [RouterAction (SendMessages (x_NextIdent (p_Base p)) ms')] \<and> m_Queue s' = [] \<and> same_node tid s s' \<and>
    bodies (tunnel_enc E (x_Encryption (p_Base p))) ms ms' \<and> (\<forall>m \<in> set ms'. addressed (x_NextTunnelID (p_Base p)) m)"
proof -
  let ?F = "tunnel_enc E (x_Encryption (p_Base p))" let ?nt = "x_NextTunnelID (p_Base p)"
  define J where "J rest s1 \<longleftrightarrow> (\<exists>handled p1. ms = handled @ rest \<and> GetTransitTunnel tid s1 = Some (AParticipant p1) \<and> p_Base p1 = p_Base p \<and>
      bodies ?F handled (p_TunnelDataMsgs p1) \<and> (\<forall>m \<in> set (p_TunnelDataMsgs p1). addressed ?nt m) \<and>
      ts_Log s1 = ts_Log s \<and> same_node tid s s1)" for rest s1
  have step: "\<exists>s'. HandleTunnelDataMsg env (RefTransit tid) m s1 = (Inr (), s') \<and> m_Queue s' = m_Queue s1 \<and> J rest s'"
    if asm: "J (m # rest) s1" "readable m" for m rest s1
  proof -
    obtain handled p1 where p1: "ms = handled @ m # rest" "GetTransitTunnel tid s1 = Some (AParticipant p1)" "p_Base p1 = p_Base p"
        "bodies ?F handled (p_TunnelDataMsgs p1)" "\<forall>m \<in> set (p_TunnelDataMsgs p1). addressed ?nt m"
        "ts_Log s1 = ts_Log s" "same_node tid s s1"
      using asm(1) unfolding J_def by blast
    let ?env = "(v_transit env (ts_Draws s1))\<lparr>x_router := router_env env (ts_Draws s1) None False s1\<rparr>"
    have "block_cipher (x_encrypt ?env) D" using c env by simp
    from Participant_HandleTunnelDataMsg_ok [OF this asm(2), of p1] obtain p2 m' where
      p2: "Participant_HandleTunnelDataMsg ?env m p1 = Inr p2" "p_Base p2 = p_Base p1" "p_TunnelDataMsgs p2 = p_TunnelDataMsgs p1 @ [m']"
        "readable m'" "addressed (x_NextTunnelID (p_Base p1)) m'" "data_body m' = ?F (data_body m)"
      using env p1(3) by auto
    have "HandleTunnelDataMsg env (RefTransit tid) m s1 =
        (Inr (), s1\<lparr>ts_Draws := Suc (ts_Draws s1), m_TransitTunnels := std_assign tid (AParticipant p2) (m_TransitTunnels s1), ts_Log := ts_Log s1 @ []\<rparr>)"
      using HandleTunnelDataMsg_transit [OF p1(2), of env m "AParticipant p2" "[]"] p2(1) by (simp add: pure_step_def)
    moreover have "J rest (s1\<lparr>ts_Draws := Suc (ts_Draws s1), m_TransitTunnels := std_assign tid (AParticipant p2) (m_TransitTunnels s1), ts_Log := ts_Log s1 @ []\<rparr>)"
      unfolding J_def using p1 p2 same_node_update [OF p1(7)]
      by (intro exI [of _ "handled @ [m]"] exI [of _ p2])
        (auto simp: GetTransitTunnel_def std_find_assign bodies_def list_all2_appendI)
    ultimately show ?thesis by auto
  qed
  have J: "GetInboundTunnel tid s1 = None \<and> GetTransitTunnel tid s1 \<noteq> None" if "J rest s1" for rest s1
    using that s(2) by (auto simp: J_def same_node_def GetInboundTunnel_def)
  have queue: "J rest (s1\<lparr>m_Queue := q\<rparr>)" if "J rest s1" for rest s1 q
    using that by (simp add: J_def same_node_def GetTransitTunnel_def)
  obtain m ms0 where m: "ms = m # ms0" using ms(1) by (cases ms) auto
  have "J ms s" unfolding J_def using s by (intro exI [of _ "[]"] exI [of _ p]) (simp add: bodies_def same_node_def)
  then have init: "J (m # ms0) (s\<lparr>m_Queue := ms0\<rparr>)" using queue m by simp
  have "\<exists>s1. Run_messages (Suc (length ms0)) env m 0 None (s\<lparr>m_Queue := ms0\<rparr>) = FlushTunnelDataMsgs env (RefTransit tid) s1 \<and>
      m_Queue s1 = [] \<and> J [] s1"
    by (rule Run_messages_batch [where J = J and ms = ms0], erule (1) step, erule J, erule queue, use ms(2) m in simp, rule init, simp_all)
  then obtain s1 where s1: "Run_messages (Suc (length ms0)) env m 0 None (s\<lparr>m_Queue := ms0\<rparr>) = FlushTunnelDataMsgs env (RefTransit tid) s1"
      "m_Queue s1 = []" "J [] s1" by blast
  obtain p1 where p1: "GetTransitTunnel tid s1 = Some (AParticipant p1)" "p_Base p1 = p_Base p" "bodies ?F ms (p_TunnelDataMsgs p1)"
      "\<forall>m \<in> set (p_TunnelDataMsgs p1). addressed ?nt m" "ts_Log s1 = ts_Log s" "same_node tid s s1"
    using s1(3) by (auto simp: J_def)
  have "p_TunnelDataMsgs p1 \<noteq> []" using p1(3) ms(1) by (auto simp: bodies_def)
  let ?s' = "s1\<lparr>ts_Draws := Suc (ts_Draws s1), m_TransitTunnels := std_assign tid (AParticipant (p1\<lparr>p_TunnelDataMsgs := []\<rparr>)) (m_TransitTunnels s1),
    ts_Log := ts_Log s1 @ map RouterAction [SendMessages (x_NextIdent (p_Base p)) (p_TunnelDataMsgs p1)]\<rparr>"
  have "FlushTunnelDataMsgs env (RefTransit tid) s1 = (Inr (), ?s')"
    using \<open>p_TunnelDataMsgs p1 \<noteq> []\<close> p1(2)
    by (intro FlushTunnelDataMsgs_transit [OF p1(1)]) (simp_all add: Participant_FlushTunnelDataMsgs_def)
  with s1(1) have "receive_batch env ms s = (Inr (v_now env), ?s')" unfolding m by (intro receive_batch_Cons [OF s(1)]) simp
  moreover have "same_node tid s ?s'" by (rule same_node_update [OF p1(6)])
  ultimately show ?thesis using p1 s1(2) by (intro exI [of _ ?s'] exI [of _ "p_TunnelDataMsgs p1"]) simp
qed

section \<open>The endpoint\<close>

text \<open>
  What the endpoint's router sends on for a message: the message itself to the router it is for,
  or wrapped into a gateway message for the tunnel it is for.
\<close>

definition sent_on :: "TunnelMessageBlock \<times> bytes \<Rightarrow> manager_event \<Rightarrow> bool" where
  "sent_on bd ev \<longleftrightarrow> (case bd of (block, d) \<Rightarrow>
     \<exists>msg. ev = RouterAction (SendMessage (block_hash block) msg) \<and>
       (if delivery_type block = DeliveryTypeTunnel then
          GetTypeID msg = Inr (type_code I2NPTunnelGateway) \<and>
          payload_bytes msg = word_encode True (tunnel_ID block) @ word_encode True (word_of_nat (length d) :: u16) @ d
        else GetLength msg = length d \<and> slice (GetBuffer msg) (length d) (msg_buf msg) = d))"

text \<open>A message for a tunnel, or for a router other than \<open>own\<close>.\<close>

definition remote :: "bytes \<Rightarrow> TunnelMessageBlock \<Rightarrow> bool" where
  "remote own block \<longleftrightarrow> delivery_type block = DeliveryTypeTunnel \<or>
     delivery_type block = DeliveryTypeRouter \<and> block_hash block \<noteq> own"

lemma hand_on_sends:
  assumes "delivers (block, d) mx" and "remote (e_own_ident env) block" and "length d \<le> 28655"
  shows "\<exists>a. hand_on env False mx = Inr [a] \<and> only_sends a \<and> sent_on (block, d) (RouterAction a)"
proof -
  obtain x where x: "block_data mx = Some x" "holds x d" and t: "same_target block mx"
    using assms(1) by (auto simp: delivers_def)
  have fit: "msg_len x = msg_offset x + length d" "msg_len x \<le> length (msg_buf x)" "slice (msg_offset x) (length d) (msg_buf x) = d"
    "length d \<le> 32760"
    using x(2) assms(3) by (simp_all add: holds_def)
  from CreateTunnelGatewayMsg_ok [OF fit, of "e_sha256 env" "e_rnd1 env" "e_now env" "tunnel_ID block"] obtain g where
    "CreateTunnelGatewayMsg (e_sha256 env) (e_rnd1 env) (e_now env) (tunnel_ID block) x = Inr g"
      "GetTypeID g = Inr (type_code I2NPTunnelGateway)"
      "payload_bytes g = word_encode True (tunnel_ID block) @ word_encode True (word_of_nat (length d) :: u16) @ d"
    by blast
  then show ?thesis
    using assms(2) t x(1) fit by (auto simp: remote_def hand_on_def HandleNextMessage_def data_of_def same_target_def sent_on_def msg_accessors)
qed

lemma hand_all_sends:
  "list_all2 delivers outs ms \<Longrightarrow> \<forall>(block, d) \<in> set outs. remote (e_own_ident env) block \<and> length d \<le> 28655 \<Longrightarrow>
   \<exists>acts. hand_all env False ms = Inr acts \<and> (\<forall>a \<in> set acts. only_sends a) \<and> list_all2 sent_on outs (map RouterAction acts)"
proof (induction rule: list_all2_induct)
  case (Cons out outs m ms)
  then obtain acts where acts: "hand_all env False ms = Inr acts" "\<forall>a \<in> set acts. only_sends a" "list_all2 sent_on outs (map RouterAction acts)"
    by auto
  obtain a where "hand_on env False m = Inr [a]" "only_sends a" "sent_on out (RouterAction a)"
    using hand_on_sends [of "fst out" "snd out" m env] Cons.hyps(1) Cons.prems by (cases out) auto
  then show ?case using acts by (intro exI [of _ "a # acts"]) simp
qed simp

text \<open>The pieces in the messages, as the endpoint sees them.\<close>

definition carried :: "(bytes \<Rightarrow> bytes) \<Rightarrow> (I2NPMessage \<Rightarrow> I2NPMessage) \<Rightarrow> I2NPMessage list \<Rightarrow> piece list list \<Rightarrow> bool" where
  "carried sha dec ms pss \<longleftrightarrow> list_all2 (\<lambda>m ps. received_ok (dec m) \<and> carries_pieces sha (data_payload (dec m)) ps) ms pss \<and>
     (\<forall>p \<in> set (concat pss). piece_ok p)"

lemma run_endpoint:
  assumes c: "block_cipher E D"
    and env: "\<And>n. x_encrypt (v_transit env n) = E" "\<And>n. e_sha256 (v_router env n) = sha" "\<And>n. e_own_ident (v_router env n) = own"
    and s: "m_Queue s = []" "GetInboundTunnel tid s = None" "GetTransitTunnel tid s = Some (AnEndpoint t)"
      "n_Endpoint t = TunnelEndpoint_new False"
    and ms: "ms \<noteq> []" "\<forall>m \<in> set ms. readable m \<and> addressed tid m" "carried sha (opened E (x_Encryption (n_Base t))) ms pss"
    and feed: "feed_all None (concat pss) = Some (None, outs)" "\<forall>(block, d) \<in> set outs. remote own block \<and> length d \<le> 28655"
  shows "\<exists>s' evs. receive_batch env ms s = (Inr (v_now env), s') \<and> ts_Log s' = ts_Log s @ evs \<and> list_all2 sent_on outs evs"
proof -
  let ?o = "opened E (x_Encryption (n_Base t))"
  define J where "J rest s1 \<longleftrightarrow> (\<exists>t1 st outs1 outs2 evs pss1. GetTransitTunnel tid s1 = Some (AnEndpoint t1) \<and> n_Base t1 = n_Base t \<and>
      \<not> ep_IsInbound (n_Endpoint t1) \<and> endpoint_rel (n_Endpoint t1) st \<and> carried sha ?o rest pss1 \<and>
      feed_all st (concat pss1) = Some (None, outs2) \<and> outs = outs1 @ outs2 \<and>
      ts_Log s1 = ts_Log s @ evs \<and> list_all2 sent_on outs1 evs \<and> same_node tid s s1)" for rest s1
  have step: "\<exists>s'. HandleTunnelDataMsg env (RefTransit tid) m s1 = (Inr (), s') \<and> m_Queue s' = m_Queue s1 \<and> J rest s'"
    if asm: "J (m # rest) s1" "readable m" for m rest s1
  proof -
    obtain t1 st outs1 outs2 evs pss1 where t1: "GetTransitTunnel tid s1 = Some (AnEndpoint t1)" "n_Base t1 = n_Base t"
        "\<not> ep_IsInbound (n_Endpoint t1)" "endpoint_rel (n_Endpoint t1) st" "carried sha ?o (m # rest) pss1"
        "feed_all st (concat pss1) = Some (None, outs2)" "outs = outs1 @ outs2"
        "ts_Log s1 = ts_Log s @ evs" "list_all2 sent_on outs1 evs" "same_node tid s s1"
      using asm(1) unfolding J_def by blast
    obtain ps pss2 where p: "pss1 = ps # pss2" "received_ok (?o m)" "carries_pieces sha (data_payload (?o m)) ps"
        "\<forall>p \<in> set ps. piece_ok p" "carried sha ?o rest pss2"
      using t1(5) by (cases pss1) (auto simp: carried_def)
    obtain st1 o1 o2 where f: "feed_all st ps = Some (st1, o1)" "feed_all st1 (concat pss2) = Some (None, o2)" "outs2 = o1 @ o2"
      using t1(6) p(1) by (auto simp: feed_all_append split: option.splits)
    let ?renv = "router_env env (ts_Draws s1) None False s1" let ?env = "(v_transit env (ts_Draws s1))\<lparr>x_router := ?renv\<rparr>"
    have r: "e_sha256 ?renv = sha" "e_own_ident ?renv = own" using env(2,3) by (simp_all add: router_env_def)
    obtain ep1 hs where h: "HandleDecryptedTunnelDataMsg ?renv (?o m) (n_Endpoint t1) = handing ?renv (ep_IsInbound (n_Endpoint t1)) hs ep1"
        "list_all2 delivers o1 hs" "endpoint_rel ep1 st1" "ep_IsInbound ep1 = ep_IsInbound (n_Endpoint t1)"
      using HandleDecrypted_feed [OF p(2) _ p(4) t1(4) f(1), of ?renv] p(3) r(1) by auto
    have "\<forall>(block, d) \<in> set o1. remote (e_own_ident ?renv) block \<and> length d \<le> 28655"
      using feed(2) t1(7) f(3) r(2) by auto
    from hand_all_sends [OF h(2) this] obtain acts where acts: "hand_all ?renv False hs = Inr acts" "\<forall>a \<in> set acts. only_sends a"
      "list_all2 sent_on o1 (map RouterAction acts)" by blast
    let ?t2 = "t1\<lparr>n_Endpoint := ep1\<rparr>"
    have "Transit_HandleTunnelDataMsg ?env m (AnEndpoint t1) = Inr (AnEndpoint ?t2, acts)"
      using Endpoint_HandleTunnelDataMsg_opened [of ?env D m t1] c env(1) asm(2) h(1) acts(1) t1(2,3)
      by (simp add: bind_step_def pure_step_def)
    from HandleTunnelDataMsg_transit [OF t1(1) this acts(2)] show ?thesis
    proof (intro exI conjI)
      let ?s' = "s1\<lparr>ts_Draws := Suc (ts_Draws s1), m_TransitTunnels := std_assign tid (AnEndpoint ?t2) (m_TransitTunnels s1),
        ts_Log := ts_Log s1 @ map RouterAction acts\<rparr>"
      show "J rest ?s'" unfolding J_def
        using t1 p(5) f(2,3) h(3,4) acts(3) same_node_update [OF t1(10)]
        by (intro exI [of _ ?t2] exI [of _ st1] exI [of _ "outs1 @ o1"] exI [of _ o2] exI [of _ "evs @ map RouterAction acts"] exI [of _ pss2])
          (simp add: GetTransitTunnel_def std_find_assign list_all2_appendI)
    qed simp_all
  qed
  have J: "GetInboundTunnel tid s1 = None \<and> GetTransitTunnel tid s1 \<noteq> None" if "J rest s1" for rest s1
    using that s(2) by (auto simp: J_def same_node_def GetInboundTunnel_def)
  have queue: "J rest (s1\<lparr>m_Queue := q\<rparr>)" if "J rest s1" for rest s1 q
    using that by (simp add: J_def same_node_def GetTransitTunnel_def)
  obtain m ms0 where m: "ms = m # ms0" using ms(1) by (cases ms) auto
  have "J ms s" unfolding J_def
    using s ms(3) feed(1)
    by (intro exI [of _ t] exI [of _ None] exI [of _ "[]"] exI [of _ outs] exI [of _ "[]"] exI [of _ pss])
      (simp add: same_node_def endpoint_rel_def TunnelEndpoint_new_def)
  then have init: "J (m # ms0) (s\<lparr>m_Queue := ms0\<rparr>)" using queue m by simp
  have "\<exists>s1. Run_messages (Suc (length ms0)) env m 0 None (s\<lparr>m_Queue := ms0\<rparr>) = FlushTunnelDataMsgs env (RefTransit tid) s1 \<and>
      m_Queue s1 = [] \<and> J [] s1"
    by (rule Run_messages_batch [where J = J and ms = ms0], erule (1) step, erule J, erule queue, use ms(2) m in simp, rule init, simp_all)
  then obtain s1 where s1: "Run_messages (Suc (length ms0)) env m 0 None (s\<lparr>m_Queue := ms0\<rparr>) = FlushTunnelDataMsgs env (RefTransit tid) s1"
      "J [] s1" by blast
  obtain t1 evs where t1: "GetTransitTunnel tid s1 = Some (AnEndpoint t1)" "ts_Log s1 = ts_Log s @ evs" "list_all2 sent_on outs evs"
    using s1(2) by (auto simp: J_def carried_def)
  have "FlushTunnelDataMsgs env (RefTransit tid) s1 =
      (Inr (), s1\<lparr>ts_Draws := Suc (ts_Draws s1), m_TransitTunnels := std_assign tid (AnEndpoint t1) (m_TransitTunnels s1),
        ts_Log := ts_Log s1 @ map RouterAction []\<rparr>)"
    by (rule FlushTunnelDataMsgs_transit [OF t1(1)]) (simp_all add: pure_step_def)
  with s1(1) receive_batch_Cons [OF s(1), of ms0 env m] t1(2,3) show ?thesis unfolding m by simp
qed

section \<open>The network\<close>

text \<open>
  The routers of the network by their hashes, each with what its tunnel thread reads and the
  state of its tunnels. A batch of messages goes to the router it is addressed to, through the
  transports \<open>tr\<close>. What that router sends in return goes on in the same way, \<open>n\<close> times; the
  result is what the last router on the way has done. Messages to a hash nobody has are lost.
\<close>

type_synonym network = "bytes \<Rightarrow> (ManagerEnv \<times> Tunnels) option"

fun travel :: "(I2NPMessage \<Rightarrow> I2NPMessage) \<Rightarrow> nat \<Rightarrow> network \<Rightarrow> bytes \<Rightarrow> I2NPMessage list \<Rightarrow> manager_event list result" where
  "travel tr n net ident ms =
     (case net ident of
        None \<Rightarrow> Inr []
      | Some (env, s) \<Rightarrow>
          let (r, s') = receive_batch env (map tr ms) s; done_here = drop (length (ts_Log s)) (ts_Log s') in
          bind_result r (\<lambda>_.
          case n of
            0 \<Rightarrow> Inr done_here
          | Suc k \<Rightarrow>
              (case done_here of
                 [RouterAction (SendMessages ident' ms')] \<Rightarrow> travel tr k (net(ident \<mapsto> (env, s'))) ident' ms'
               | _ \<Rightarrow> Inr done_here)))"

declare travel.simps [simp del]

text \<open>
  The router of a hop is ready: its queue is empty, it has the transit tunnel it created for the
  build request of the hop, and the identifier belongs to no inbound tunnel of its own.
\<close>

definition hop_key :: "TunnelHopConfig \<Rightarrow> bytes \<times> u32" where
  "hop_key h = (r_IdentHash (hc_CurrentRouter h), hc_TunnelID h)"

definition hop_ready :: "block_fun \<Rightarrow> network \<Rightarrow> TunnelHopConfig \<Rightarrow> bool" where
  "hop_ready E net h \<longleftrightarrow> (\<exists>env s x. net (fst (hop_key h)) = Some (env, s) \<and> (\<forall>n. x_encrypt (v_transit env n) = E) \<and>
     m_Queue s = [] \<and> GetInboundTunnel (snd (hop_key h)) s = None \<and>
     GetTransitTunnel (snd (hop_key h)) s = Some x \<and> created_from x h)"

text \<open>The router of the endpoint, its hash function and its own hash.\<close>

definition endpoint_ready :: "(bytes \<Rightarrow> bytes) \<Rightarrow> network \<Rightarrow> TunnelHopConfig \<Rightarrow> bool" where
  "endpoint_ready sha net h \<longleftrightarrow> (\<forall>env s n. net (fst (hop_key h)) = Some (env, s) \<longrightarrow>
     e_sha256 (v_router env n) = sha \<and> e_own_ident (v_router env n) = fst (hop_key h))"

lemma travel_Nil:
  assumes "hop_ready E net h"
  shows "travel tr n net (fst (hop_key h)) [] = Inr []"
  using assms receive_batch_Nil by (fastforce simp: travel.simps hop_ready_def split: nat.split)

lemma hop_ready_update:
  assumes "hop_ready E net h'" and "hop_key h' \<noteq> (ident, tid)" and "net ident = Some (env, s)"
    and "same_node tid s s'" and "m_Queue s' = []"
  shows "hop_ready E (net(ident \<mapsto> (env, s'))) h'"
proof (cases "fst (hop_key h') = ident")
  case True
  then have "snd (hop_key h') \<noteq> tid" using assms(2) by (cases "hop_key h'") simp
  then show ?thesis
    using assms(1,3-5) True by (auto simp: hop_ready_def same_node_def GetInboundTunnel_def)
next
  case False
  then show ?thesis using assms(1) by (simp add: hop_ready_def)
qed

lemma travel_ok:
  assumes c: "block_cipher E D" and tr: "transport_ok tr" and l: "hc_IsEndpoint l"
    and feed: "feed_all None (concat pss) = Some (None, outs)"
      "\<forall>(block, d) \<in> set outs. remote (fst (hop_key l)) block \<and> length d \<le> 28655"
    and gs: "list_all2 (\<lambda>g ps. readable g \<and> carries_pieces sha (data_payload g) ps) gs pss" "\<forall>p \<in> set (concat pss). piece_ok p" "gs \<noteq> []"
  shows "chained (hs @ [l]) \<Longrightarrow> \<forall>h \<in> set hs. \<not> hc_IsGateway h \<and> \<not> hc_IsEndpoint h \<Longrightarrow> distinct (map hop_key (hs @ [l])) \<Longrightarrow>
    \<forall>h \<in> set (hs @ [l]). hop_ready E net h \<Longrightarrow> endpoint_ready sha net l \<Longrightarrow>
    bodies (fold (tunnel_dec D) (rev (map layer_keys (hs @ [l])))) gs ms \<Longrightarrow> \<forall>m \<in> set ms. addressed (snd (hop_key (hd (hs @ [l])))) m \<Longrightarrow>
    \<exists>evs. travel tr (length hs) net (fst (hop_key (hd (hs @ [l])))) ms = Inr evs \<and> list_all2 sent_on outs evs"
proof (induction hs arbitrary: net ms)
  case Nil
  obtain env s x where n: "net (fst (hop_key l)) = Some (env, s)" "\<And>n. x_encrypt (v_transit env n) = E" "m_Queue s = []"
      "GetInboundTunnel (snd (hop_key l)) s = None" "GetTransitTunnel (snd (hop_key l)) s = Some x" "created_from x l"
    using Nil.prems(4) by (auto simp: hop_ready_def)
  obtain t where t: "x = AnEndpoint t" "n_Endpoint t = TunnelEndpoint_new False" "x_Encryption (n_Base t) = layer_keys l"
    using created_endpoint [OF n(6) l] by blast
  note b = bodies_transport [OF tr Nil.prems(6)]
  have addr: "\<forall>m \<in> set (map tr ms). readable m \<and> addressed (snd (hop_key l)) m"
    using bodies_readable [OF b] bodies_readable [OF Nil.prems(6)] addressed_transport [OF tr] Nil.prems(7) by auto
  let ?o = "opened E (layer_keys l)"
  have same: "list_all2 same_contents gs (map ?o (map tr ms))"
    using b gs(1) tunnel_layer_inverse(2) [OF c length_data_body]
    by (auto simp: bodies_def list_all2_conv_all_nth intro!: opened_same [OF c])
  have "carried sha ?o (map tr ms) pss"
    using same gs(1,2) same_contents_carries [of sha "gs ! k" "pss ! k" "?o (tr (ms ! k))" for k]
    by (auto simp: carried_def list_all2_conv_all_nth same_contents_def)
  moreover have "map tr ms \<noteq> []" using gs(3) Nil.prems(6) by (auto simp: bodies_def)
  ultimately obtain s' evs where "receive_batch env (map tr ms) s = (Inr (v_now env), s')" "ts_Log s' = ts_Log s @ evs" "list_all2 sent_on outs evs"
    using run_endpoint [OF c n(2) _ _ n(3,4) n(5) [unfolded t(1)] t(2) _ addr, of sha "fst (hop_key l)" pss outs] feed Nil.prems(5) n(1) t(3)
    by (auto simp: endpoint_ready_def)
  then show ?case using n(1) by (simp add: travel.simps)
next
  case (Cons h hs)
  let ?next = "hd (hs @ [l])"
  obtain env s x where n: "net (fst (hop_key h)) = Some (env, s)" "\<And>n. x_encrypt (v_transit env n) = E" "m_Queue s = []"
      "GetInboundTunnel (snd (hop_key h)) s = None" "GetTransitTunnel (snd (hop_key h)) s = Some x" "created_from x h"
    using Cons.prems(4) by (auto simp: hop_ready_def)
  obtain p where p: "x = AParticipant p" "p_TunnelDataMsgs p = []" "x_Encryption (p_Base p) = layer_keys h"
      "x_NextIdent (p_Base p) = next_ident h" "x_NextTunnelID (p_Base p) = hc_NextTunnelID h"
    using created_participant [OF n(6)] Cons.prems(2) by auto
  obtain k ks where ks: "hs @ [l] = k # ks" by (cases "hs @ [l]") auto
  then have next_hop: "next_ident h = fst (hop_key ?next)" "hc_NextTunnelID h = snd (hop_key ?next)"
    using Cons.prems(1) by (simp_all add: next_ident_def hop_key_def)
  note b = bodies_transport [OF tr Cons.prems(6)]
  have addr: "\<forall>m \<in> set (map tr ms). readable m \<and> addressed (snd (hop_key h)) m"
    using bodies_readable [OF b] bodies_readable [OF Cons.prems(6)] addressed_transport [OF tr] Cons.prems(7) by auto
  have "map tr ms \<noteq> []" using gs(3) Cons.prems(6) by (auto simp: bodies_def)
  from run_participant [OF c n(2-4) n(5) [unfolded p(1)] p(2) this addr] obtain s' ms' where
    r: "receive_batch env (map tr ms) s = (Inr (v_now env), s')" "ts_Log s' = ts_Log s @ [RouterAction (SendMessages (next_ident h) ms')]"
      "m_Queue s' = []" "same_node (snd (hop_key h)) s s'" "bodies (tunnel_enc E (layer_keys h)) (map tr ms) ms'"
      "\<forall>m \<in> set ms'. addressed (hc_NextTunnelID h) m"
    unfolding p(3-5) by blast
  let ?net = "net(fst (hop_key h) \<mapsto> (env, s'))"
  have ready: "\<forall>h' \<in> set (hs @ [l]). hop_ready E ?net h'"
  proof
    fix h' assume h': "h' \<in> set (hs @ [l])"
    have "hop_key h \<notin> hop_key ` set (hs @ [l])" using Cons.prems(3) by auto
    then have "hop_key h' \<noteq> (fst (hop_key h), snd (hop_key h))" using h' by (metis image_eqI prod.collapse)
    then show "hop_ready E ?net h'"
      using Cons.prems(4) h' n(1) r(3,4) by (intro hop_ready_update [where tid = "snd (hop_key h)" and s = s]) auto
  qed
  have last: "endpoint_ready sha ?net l" using Cons.prems(5) n(1) by (auto simp: endpoint_ready_def)
  have body: "bodies (fold (tunnel_dec D) (rev (map layer_keys (hs @ [l])))) gs ms'"
  proof (rule bodies_comp [OF b r(5)])
    let ?ks = "rev (map layer_keys (hs @ [l]))"
    fix g assume "g \<in> set gs"
    then have "length (data_body g) = 1024" using gs(1) length_data_body by (auto simp: list_all2_conv_all_nth in_set_conv_nth)
    moreover have "rev (map layer_keys ((h # hs) @ [l])) = ?ks @ [layer_keys h]" by simp
    ultimately show "tunnel_enc E (layer_keys h) (fold (tunnel_dec D) (rev (map layer_keys ((h # hs) @ [l]))) (data_body g)) =
        fold (tunnel_dec D) ?ks (data_body g)"
      by (simp only: fold_append comp_apply fold_simps tunnel_layer_inverse(2) [OF c fold_layers(1) [OF c]])
  qed
  have "chained (hs @ [l])" "distinct (map hop_key (hs @ [l]))" "\<forall>h \<in> set hs. \<not> hc_IsGateway h \<and> \<not> hc_IsEndpoint h"
    using Cons.prems(1-3) ks by auto
  note IH = Cons.IH [OF this(1,3,2) ready last body]
  have "\<forall>m \<in> set ms'. addressed (snd (hop_key ?next)) m" using r(6) next_hop(2) by simp
  from IH [OF this] show ?case using n(1) r(1,2) next_hop(1) by (simp add: travel.simps [of tr "Suc (length hs)"] del: fun_upd_apply)
qed

text \<open>
  C2 (round trip). An outbound tunnel delivers, through the tunnel threads of the routers on its
  way. The creator sends messages through the tunnel: it packs them into data messages, takes off
  the layers of all hops, and addresses the batch to the first hop. The transports may change
  everything but type and payload. Each hop's router finds its tunnel by the identifier in the
  messages, and only by it; participants add their layer and address the batch to the next hop
  and its tunnel; and the router of the last hop sends on exactly these messages, in order, each
  to the router or tunnel it was for and with its bytes, and does nothing else.

  The conditions: the hops form a chain with an endpoint last, no two of them are the same
  tunnel of the same router, and each router has the tunnel it created for the build request.
  The gateway buffer of the creator is a new one, every message can be placed where the
  messages before it have left the buffer (the others are lost), and the messages are
  for tunnels or for routers other than the endpoint's.
\<close>

theorem outbound_tunnel_delivers:
  assumes "block_cipher E (b_decrypt (o_build env))" and "gateway_env_ok (o_gateway env)" and "transport_ok tr"
    and "tc_Hops (tn_Config (ot_Tunnel t)) = hops" "hops \<noteq> []" "\<forall>h \<in> set hops. hc_Decryption h = Some (layer_keys h)"
    and "chained hops" "\<not> hc_IsGateway (hd hops)" "hc_IsEndpoint (last hops)" "distinct (map hop_key hops)"
    and "tg_Buffer (ot_Gateway t) = TunnelGatewayBuffer_new (hc_TunnelID (hd hops)) random" "length random = 1003"
    and "list_all2 (\<lambda>block (i, d). block_ok block i d) blocks ids" "all_placeable (o_gateway env) blocks (tg_Buffer (ot_Gateway t))"
      "\<forall>block \<in> set blocks. remote (r_IdentHash (hc_CurrentRouter (last hops))) block"
    and "\<forall>h \<in> set hops. hop_ready E net h" "endpoint_ready (g_sha256 (o_gateway env)) net (last hops)"
  shows "\<exists>t' ident ms evs. OutboundTunnel_SendTunnelDataMsgs env blocks t = Inr (t', [SendMessages ident ms]) \<and>
    travel tr (length hops - 1) net ident ms = Inr evs \<and> list_all2 sent_on (zip blocks (map snd ids)) evs"
proof -
  obtain hs l where hl: "hops = hs @ [l]" using assms(5) by (cases hops rule: rev_cases) auto
  have flags: "\<forall>h \<in> set hs. \<not> hc_IsGateway h \<and> \<not> hc_IsEndpoint h"
    using chained_flags [OF assms(7)] assms(8) by (cases hs) (auto simp: hl)
  have data: "\<forall>block \<in> set blocks. block_data block \<noteq> None"
    using assms(13) by (induction rule: list_all2_induct) (auto simp: block_ok_def)
  let ?tid = "hc_TunnelID (hd hops)"
  have id: "g_TunnelID (tg_Buffer (ot_Gateway t)) = ?tid" using assms(11) by (simp add: TunnelGatewayBuffer_new_def)
  from gateway_pieces [OF assms(2) gateway_new_ok [OF assms(12)] assms(13), of ?tid] assms(14) obtain b pss where
    b: "bind_result (put_blocks (o_gateway env) blocks (tg_Buffer (ot_Gateway t))) (CompleteCurrentTunnelDataMessage (o_gateway env)) = Inr b"
      "list_all2 (\<lambda>m ps. data_msg_ok m \<and> carries_pieces (g_sha256 (o_gateway env)) (data_payload m) ps \<and>
        take 4 (data_payload m) = word_encode True ?tid) (g_TunnelDataMsgs b) pss"
      "feed_all None (concat pss) = Some (None, zip blocks (map snd ids))" "\<forall>p \<in> set (concat pss). piece_ok p"
    unfolding assms(11) id [unfolded assms(11)] by blast
  have "\<forall>m \<in> set (g_TunnelDataMsgs b). data_msg_ok m \<and> take 4 (data_payload m) = word_encode True ?tid"
    using b(2) by (auto simp: list_all2_conv_all_nth in_set_conv_nth)
  from SendTunnelDataMsgs_ok [OF assms(1,4-6) data b(1) this] obtain t' ms where
    s: "OutboundTunnel_SendTunnelDataMsgs env blocks t = Inr (t', [SendMessages (r_IdentHash (hc_CurrentRouter (hd hops))) ms])"
      "bodies (fold (tunnel_dec (b_decrypt (o_build env))) (rev (map layer_keys hops))) (g_TunnelDataMsgs b) ms"
      "\<forall>m \<in> set ms. addressed ?tid m" by blast
  have out: "\<forall>(block, d) \<in> set (zip blocks (map snd ids)). remote (fst (hop_key l)) block \<and> length d \<le> 28655"
    using assms(13,15) by (auto simp: hl hop_key_def set_zip list_all2_conv_all_nth block_ok_def case_prod_unfold)
  have gs: "list_all2 (\<lambda>g ps. readable g \<and> carries_pieces (g_sha256 (o_gateway env)) (data_payload g) ps) (g_TunnelDataMsgs b) pss"
    using b(2) by (rule list_all2_mono) (simp add: data_msg_readable)
  have "\<exists>evs. travel tr (length hs) net (fst (hop_key (hd hops))) ms = Inr evs \<and> list_all2 sent_on (zip blocks (map snd ids)) evs"
  proof (cases "g_TunnelDataMsgs b = []")
    case True
    then have "pss = []" "ms = []" using b(2) s(2) by (auto simp: bodies_def)
    then show ?thesis using travel_Nil [of E net "hd hops"] assms(5,16) b(3) by simp
  next
    case False
    show ?thesis
      using travel_ok [OF assms(1,3) _ b(3) out gs b(4) False, of hs net ms] assms(7,9,10,16,17) flags s(2,3)
      by (simp add: hl hop_key_def)
  qed
  then show ?thesis using s(1) by (auto simp: hl hop_key_def)
qed

section \<open>A sample network\<close>

definition sample_layer_hop :: "byte \<Rightarrow> bool \<Rightarrow> TunnelHopConfig" where
  "sample_layer_hop b endpoint = set_layer_keys ((sample_hop b)\<lparr>hc_TunnelID := 5, hc_NextRouter := Some (sample_router (b + 1)),
     hc_NextTunnelID := 5, hc_IsGateway := False, hc_IsEndpoint := endpoint\<rparr>)"

definition sample_outbound_env :: OutboundEnv where
  "sample_outbound_env = \<lparr>o_build = sample_build_env, o_gateway = sample_gateway_env, o_seal_rnd = (\<lambda>_. 1), o_now = 0\<rparr>"

definition sample_outbound :: OutboundTunnel where
  "sample_outbound = \<lparr>ot_Tunnel = Tunnel_new 0 \<lparr>tc_Hops = [sample_layer_hop 1 False, sample_layer_hop 2 True]\<rparr>,
     ot_Gateway = \<lparr>tg_NextIdent = [], tg_EncryptTunnelMsg = (\<lambda>_ m. Inr m), tg_Buffer = sample_gateway, tg_NumSentBytes = 0\<rparr>\<rparr>"

text \<open>A router with one transit tunnel, created for the hop.\<close>

definition sample_transit_env :: TransitEnv where
  "sample_transit_env = \<lparr>x_UsingAESNI = False, x_encrypt = (\<lambda>k b. b), x_router = sample_env, x_gateway = sample_gateway_env,
     x_rnd = 1, x_seal_rnd = (\<lambda>_. 1), x_now = 0\<rparr>"

definition sample_node :: "TunnelHopConfig \<Rightarrow> ManagerEnv \<times> Tunnels" where
  "sample_node h = (let r = hop_request h in
     (\<lparr>v_now = 0, v_build = (\<lambda>_. sample_build_env), v_outbound = (\<lambda>_. sample_outbound_env), v_transit = (\<lambda>_. sample_transit_env),
       v_router = (\<lambda>_. sample_env\<lparr>e_own_ident := r_IdentHash (hc_CurrentRouter h)\<rparr>), v_random = (\<lambda>_. []), v_rand32 = (\<lambda>_. 1),
       v_range32 = (\<lambda>_ a b. a), v_shuffle = (\<lambda>_ xs. xs), v_hops = (\<lambda>_ _. (5, sample_aes 1)), v_own_router = None,
       v_GetRandomRouter = (\<lambda>_ _. None), v_GetHighBandwidthRandomRouter = (\<lambda>_ _. None), v_FindRouter = (\<lambda>_. None),
       v_IsBad = (\<lambda>_. False), v_NumPeers = 0, v_GetRandomPeer = (\<lambda>_. None), v_context = 0, v_network_ID = 2\<rparr>,
      Tunnels_new\<lparr>m_TransitTunnels := [(5, CreateTransitTunnel [] 0 (tt_receive_tunnel r) (tt_next_ident r) (tt_next_tunnel r)
        (tt_layer_key r) (tt_iv_key r) (tt_is_gateway r) (tt_is_endpoint r))]\<rparr>))"

definition sample_network :: network where
  "sample_network = [r_IdentHash (sample_router 1) \<mapsto> sample_node (sample_layer_hop 1 False),
     r_IdentHash (sample_router 2) \<mapsto> sample_node (sample_layer_hop 2 True)]"

definition sample_remote_block :: TunnelMessageBlock where
  "sample_remote_block = (sample_block 2000)\<lparr>delivery_type := DeliveryTypeTunnel, block_hash := replicate 32 9, tunnel_ID := 77\<rparr>"

lemma sample_hop_ready:
  assumes "net (r_IdentHash (hc_CurrentRouter h)) = Some (sample_node h)" and "hc_TunnelID h = 5"
  shows "hop_ready (\<lambda>k b. b) net h"
  using assms
  by (auto simp: hop_ready_def hop_key_def sample_node_def sample_transit_env_def Let_def Tunnels_new_def GetInboundTunnel_def
      GetTransitTunnel_def std_find_def created_from_def)

theorem outbound_tunnel_delivers_witness:
  "\<exists>t' ident ms ev. OutboundTunnel_SendTunnelDataMsgs sample_outbound_env [sample_remote_block] sample_outbound =
      Inr (t', [SendMessages ident ms]) \<and>
    travel (\<lambda>m. m) 1 sample_network ident ms = Inr [ev] \<and>
    sent_on (sample_remote_block, slice 2 2000 (msg_buf (sample_data 2000))) ev"
proof -
  let ?hops = "[sample_layer_hop 1 False, sample_layer_hop 2 True]" let ?E = "\<lambda>(k :: bytes) (b :: bytes). b"
  let ?d = "slice 2 2000 (msg_buf (sample_data 2000))"
  have env: "block_cipher ?E (b_decrypt (o_build sample_outbound_env))" "gateway_env_ok (o_gateway sample_outbound_env)" "transport_ok (\<lambda>m. m)"
    using sample_build_ok(1) sample_gateway_ok(1) by (simp_all add: sample_outbound_env_def transport_ok_def)
  have ident: "r_IdentHash (hc_CurrentRouter (sample_layer_hop b e)) = r_IdentHash (sample_router b)" "hc_TunnelID (sample_layer_hop b e) = 5" for b e
    by (simp_all add: sample_layer_hop_def set_layer_keys_def sample_hop_def)
  have hash: "r_IdentHash (sample_router b) = b # replicate 31 b" for b
    by (simp add: sample_router_def flip: replicate_Suc)
  have hops: "tc_Hops (tn_Config (ot_Tunnel sample_outbound)) = ?hops" "?hops \<noteq> []" "\<forall>h \<in> set ?hops. hc_Decryption h = Some (layer_keys h)"
    "chained ?hops" "\<not> hc_IsGateway (hd ?hops)" "hc_IsEndpoint (last ?hops)"
    by (simp_all add: sample_outbound_def Tunnel_new_def sample_layer_hop_def set_layer_keys_def layer_keys_def sample_hop_def)
  have diff: "distinct (map hop_key ?hops)" by (simp add: hop_key_def ident hash)
  have buf: "tg_Buffer (ot_Gateway sample_outbound) = TunnelGatewayBuffer_new (hc_TunnelID (hd ?hops)) (replicate 1003 1)"
    "length (replicate 1003 (1 :: byte)) = 1003"
    by (simp_all add: sample_outbound_def sample_gateway_def ident del: replicate.simps)
  have "block_ok sample_remote_block 7 ?d"
    using sample_block_ok [of 2000] by (simp add: sample_remote_block_def block_ok_def del: replicate.simps)
  then have blocks: "list_all2 (\<lambda>block (i, d). block_ok block i d) [sample_remote_block] [(7, ?d)]" by simp
  have place: "all_placeable (o_gateway sample_outbound_env) [sample_remote_block] (tg_Buffer (ot_Gateway sample_outbound))"
    using sample_gateway_ok(3) by (simp add: placeable_def sample_outbound_def split: sum.split)
  have remote: "\<forall>block \<in> set [sample_remote_block]. remote (r_IdentHash (hc_CurrentRouter (last ?hops))) block"
    by (simp add: remote_def sample_remote_block_def)
  have net: "sample_network (r_IdentHash (sample_router 1)) = Some (sample_node (sample_layer_hop 1 False))"
    "sample_network (r_IdentHash (sample_router 2)) = Some (sample_node (sample_layer_hop 2 True))"
    by (simp_all add: sample_network_def hash)
  have ready: "\<forall>h \<in> set ?hops. hop_ready ?E sample_network h"
    using net by (auto intro!: sample_hop_ready simp: ident)
  have last: "endpoint_ready (g_sha256 (o_gateway sample_outbound_env)) sample_network (last ?hops)"
    using net(2) by (auto simp: endpoint_ready_def hop_key_def ident sample_node_def Let_def sample_outbound_env_def sample_env_def sample_gateway_env_def)
  from outbound_tunnel_delivers [OF env hops diff buf blocks place remote ready last]
  show ?thesis by (auto simp: list_all2_Cons1)
qed

end
