(* ===== verification/Spec2Isabelle.thy ===== *)
theory Spec2Isabelle
  imports SSU_Reachable Tunnel_Reachable Tunnel_Network
begin

text \<open>
  A verification library for the core of the I2P router of this repository (\<open>src/src/core\<close>):
  how messages between routers are written to bytes, protected, cut into datagrams and put
  together again, and how they travel through the layered encryption of a tunnel.

  \<^bold>\<open>The program.\<close> A router exchanges I2NP messages with its neighbours. A transport carries
  them: the SSU transport sends them in UDP datagrams. Each datagram is a packet with a header
  and a payload, sealed with AES and a keyed digest; the data layer of an SSU session cuts a
  message into fragments, resends those that are not acknowledged and reassembles what it
  receives. The router handles the messages it receives: tunnel messages go to the tunnels, the
  others to the network database and to garlic routing. A tunnel is a chain of routers. Its
  creator writes one encrypted record per hop into a build request; each hop finds its record,
  creates a transit tunnel and encrypts all records with its reply key; the creator undoes these
  layers and learns whether all hops agree. Data then runs from a gateway, which packs messages
  into tunnel data messages of fixed size, through the participants, which add a layer each, to
  the endpoint, which unpacks and delivers them. One thread of the router manages all tunnels: it
  takes the tunnel messages from a queue, keeps pools of tunnels filled and removes expired ones.

  \<^bold>\<open>The theories,\<close> in the order of the calls:

  \<^item> \<open>Prelude\<close>: bytes and machine words, the errors of the source and the \<open>result\<close> type in which
    fallible code is written, steps that emit events, reads and writes of byte buffers
    (\<open>memcpy\<close> through a pointer is \<open>mem_read\<close> or \<open>mem_write\<close> at an offset; outside the buffer it
    is the error \<open>MemoryError\<close>), big-endian integers. The collections \<open>result_simps\<close> and
    the like carry the proofs of the components.
  \<^item> \<open>Byte_Stream\<close>: \<open>util/byte_stream\<close>. The locale \<open>safe_parser\<close> is the contract of a parser
    (it stays inside the stream, keeps its invariant and only moves forward), \<open>stream_codec\<close> that
    of a writer with its reader; every parser and writer of the packets is an interpretation.
  \<^item> \<open>Std_Map\<close>: \<open>std::map\<close> and \<open>std::set\<close> as sorted association lists, with the laws of a map
    in the locale \<open>map_container\<close>.
  \<^item> \<open>Identity_Model\<close>: \<open>router/identity\<close>, the signature classes of \<open>crypto/signature.h\<close>: identities
    with key certificates, their buffers, verifiers and the XOR metric.
  \<^item> \<open>SSU_Packet\<close>: \<open>transports/ssu/packet\<close>: the header and the payload classes, the parser and
    the builder.
  \<^item> \<open>I2NP\<close>: \<open>router/i2np\<close>: message buffers and headers, the short form used on SSU, the
    constructors of all messages, the build request handlers, the dispatcher and the handler that
    batches tunnel messages. What a handler does to other parts is a list of \<open>action\<close>s.
  \<^item> \<open>AES_Modes\<close>: \<open>crypto/impl/cryptopp/aes.cc\<close>, \<open>tunnel.cc\<close> and \<open>crypto/hmac.h\<close>: CBC and the tunnel
    layer, each as the portable code and as the assembly for AES-NI, and the keyed digest.
  \<^item> \<open>SSU_Crypto\<close>: the packet protection of \<open>transports/ssu/session.cc\<close>: key derivation, sealing,
    validating and opening.
  \<^item> \<open>SSU_Data\<close>: \<open>transports/ssu/data\<close>: fragments, acknowledgements, resending, reassembly,
    timers. \<open>SSU_Reachable\<close>: the states a session can reach (the relation \<open>reachable\<close>) and what
    holds in all of them; the locale \<open>session_op\<close> is the contract of its operations.
  \<^item> \<open>Tunnel_Gateway\<close> and \<open>Tunnel_Endpoint\<close>: \<open>tunnel/gateway\<close> and \<open>tunnel/endpoint\<close>: packing
    messages into tunnel data messages and unpacking them.
  \<^item> \<open>Tunnel_Config\<close>: \<open>tunnel/config\<close>: the chain of hops and the record of a hop.
    \<open>Tunnel_Build\<close>: class \<open>Tunnel\<close> of \<open>tunnel/impl\<close>: the build request, the reply and the layered
    decryption; the locale \<open>record_layers\<close> states what is needed of the layers of a record.
  \<^item> \<open>Tunnel_Transit\<close>: \<open>tunnel/transit\<close> and the inbound and outbound tunnels of \<open>tunnel/impl\<close>:
    what one hop, the creator and the endpoint do to the layers and addresses of tunnel data.
  \<^item> \<open>Tunnel_Store\<close>: the state of class \<open>Tunnels\<close> of \<open>tunnel/impl\<close> and of its pools. Tunnels are
    shared objects in the code, so the state holds them in a store and the lists hold references.
    The operations are of type \<open>mop\<close>, a state monad that keeps the state reached when an exception
    is thrown, because the loop of the thread catches it and goes on with that state. The locale
    \<open>state_relation\<close> is the contract of an operation that relates its states before and after.
    \<open>Tunnel_Pool\<close>: \<open>tunnel/pool\<close>: membership, choice of routers and tunnels, creation, tests.
    \<open>Tunnel_Manager\<close>: class \<open>Tunnels\<close>: the queue, the dispatch of messages to tunnels, what the
    handlers of \<open>I2NP\<close> do to the tunnels, the maintenance, and one round of the thread.
  \<^item> \<open>Tunnel_Invariant\<close>: the invariant of the manager and its pools, kept by every operation.
    \<open>Tunnel_Reachable\<close>: the states a manager can reach by rounds and by the calls of other threads.
    The locales \<open>choice_relation\<close> and \<open>store_relation\<close> extend \<open>state_relation\<close> by the operations
    that choose tunnels and by those that create and remove them; they are interpreted by the
    relations \<open>kept\<close>, \<open>stable\<close>, \<open>same_pools\<close>, \<open>shrinks\<close> and \<open>same_transit\<close> of the model.
  \<^item> \<open>Tunnel_Network\<close>: several routers, each the manager with its own state, connected by the
    addresses of what they send: the whole way of data through a tunnel.

  \<^bold>\<open>How the model corresponds to the code.\<close> A class is a record whose fields have the names of
  its members; a method is a function from the record (and the environment it reads) to the
  updated record, the events it emits, or an error. A buffer is a list of its full allocated
  length and a pointer an offset into it, so that an access outside the buffer is visible as
  \<open>MemoryError\<close>; every \<open>throw\<close> is a value of the type \<open>error\<close>. Integers that can wrap around are
  words of their width. Calls to other threads and to the network are events in the order of the
  calls. The mutexes guard single operations; the model runs one operation at a time.

  \<^bold>\<open>What is not in the repository is a parameter:\<close> the block cipher (with the law that decryption
  undoes encryption on blocks of 16 bytes, \<open>block_cipher\<close>), SHA-256 and MD5 (with the length of
  their values), ElGamal, gzip, random bytes and clocks. A theorem that needs a law names it as a
  hypothesis, and its witness instantiates the parameter.

  \<^bold>\<open>What is shown.\<close>

  \<^item> Delivery from end to end: a message handed to \<open>Send\<close> arrives complete at the peer in any order
    of the datagrams (\<open>message_transfer\<close>, resting on \<open>process_fragment_refines\<close>, where the
    reassembly refines a set of fragment numbers, on \<open>sealed_packet_opens\<close> and on
    \<open>ssu_conversion_roundtrip\<close>); messages that a gateway packs leave the endpoint in order
    (\<open>tunnel_roundtrip\<close>), and they do so through the tunnel threads of all hops, which find the
    tunnel and the next router by the addresses alone (\<open>outbound_tunnel_delivers\<close>). Both need
    that the gateway can place every message; \<open>short_message_lost\<close> shows what happens otherwise.
  \<^item> The build protocol: every hop creates the transit tunnel laid out for it exactly when it
    accepts, and the tunnel is established exactly when all accept (\<open>build_protocol\<close>).
  \<^item> Round trips of packets, identities, addresses and integers; equivalence of the assembly and
    the portable code; the XOR metric.
  \<^item> Invariants of every reachable session, the exact number of resends of an unacknowledged
    message, termination of the fragmenting loop, and that parsing never leaves the datagram,
    with the one exception stated there.
  \<^item> The invariant of every reachable state of the tunnel manager (\<open>tunnels_invariant\<close>), that
    maintenance leaves no expired tunnel (\<open>ManageTunnels_expires\<close>), and that it stops half way when
    no router is known (\<open>maintenance_needs_router\<close>).
  \<^item> The bounds within which unchecked copies are safe, and that beyond them they are not.

  \<^bold>\<open>Loops and fuel.\<close> Loops are structural recursion or functions with a termination proof, with
  two exceptions. The fragmenting loop of \<open>Send\<close> may run for ever (a payload size of 0), so it
  has fuel: as much as the message has bytes, which is enough because every round consumes at
  least one. Running out is the error \<open>OutOfFuel\<close>, and \<open>Send_terminates\<close> shows that no reachable
  session gets it. The loop of the tunnel thread over its queue (\<open>Run_messages\<close>) may run for ever
  because handling a message can put another one into the queue. Its fuel is an argument of a
  round: the invariant holds for any, and in \<open>Tunnel_Network\<close> it is the number of messages that
  arrived, with which the round is shown to return.

  \<^bold>\<open>Not modelled.\<close> The handshake, relay and peer test messages of an SSU session and its server,
  whose effects are mostly timers and sockets; the NTCP transport; garlic routing, the
  network database, router information, lease sets and profiles, which appear here only as the
  receivers of events; starting and stopping the threads, and waiting for the queue; the
  cryptographic primitives; the client, its protocols and proxies, the daemon and the tools;
  logging and files.
\<close>

end
